(* ===== verification/Prelude.thy ===== *)
theory Prelude
  imports Main "HOL-Library.Word"
begin

text \<open>
  Shared vocabulary of the development.

  \<^item> Machine integers: \<open>u8\<close>, \<open>u32\<close>, \<open>u64\<close> are words, so \<open>+\<close> wraps as the release build of
    the code does; \<open>sat_add\<close>, \<open>sat_sub\<close>, \<open>sat_mul\<close> are Rust's saturating operations;
    \<open>le_bytes\<close> and \<open>be_bytes\<close> are the byte encodings used to feed hash functions.
  \<^item> Handlers: an \<open>async fn\<close> with \<open>&mut self\<close> is a state transformer that also returns an
    outcome. \<open>Done\<close> is \<open>Ok\<close>, \<open>Fail\<close> is \<open>Err\<close> (the state keeps the mutations made before
    the error, as in Rust), \<open>Panic\<close> is a failed \<open>unwrap\<close>/\<open>expect\<close>/\<open>panic!\<close>, and \<open>Diverge\<close>
    marks recursion fuel that ran out.
  \<^item> \<open>step_order\<close>: the interface through which all frame, monotonicity and invariant facts
    about handlers are proved. A preorder on states is fixed; \<open>moves R h\<close> says every run of
    \<open>h\<close> goes up in it, and the locale proves the rule for every handler combinator once.
\<close>

named_theorems handler_simps \<open>unfolding rules of the handler combinators\<close>
named_theorems word_simps \<open>facts on machine integers\<close>

section \<open>Machine integers\<close>

type_synonym u8 = "8 word"
type_synonym u32 = "32 word"
type_synonym u64 = "64 word"

definition sat_add :: "'a::len word \<Rightarrow> 'a word \<Rightarrow> 'a word" where
  "sat_add a b = (if unat a + unat b < 2 ^ LENGTH('a) then a + b else - 1)"

definition sat_sub :: "'a::len word \<Rightarrow> 'a word \<Rightarrow> 'a word" where
  "sat_sub a b = (if b \<le> a then a - b else 0)"

definition sat_mul :: "'a::len word \<Rightarrow> 'a word \<Rightarrow> 'a word" where
  "sat_mul a b = (if unat a * unat b < 2 ^ LENGTH('a) then a * b else - 1)"

definition word_byte :: "nat \<Rightarrow> 'a::len word \<Rightarrow> u8" where
  "word_byte i w = ucast (drop_bit (8 * i) w)"

definition le_bytes :: "nat \<Rightarrow> 'a::len word \<Rightarrow> u8 list" where
  "le_bytes n w = map (\<lambda>i. word_byte i w) [0..<n]"

definition be_bytes :: "nat \<Rightarrow> 'a::len word \<Rightarrow> u8 list" where
  "be_bytes n w = rev (le_bytes n w)"

lemma unat_add_no_wrap [word_simps]:
  fixes a b :: "'a::len word"
  shows "unat a + unat b < 2 ^ LENGTH('a) \<Longrightarrow> unat (a + b) = unat a + unat b"
  by (simp add: unat_word_ariths)

lemma unat_mult_no_wrap [word_simps]:
  fixes a b :: "'a::len word"
  shows "unat a * unat b < 2 ^ LENGTH('a) \<Longrightarrow> unat (a * b) = unat a * unat b"
  by (simp add: unat_word_ariths)

lemma unat_Suc_no_wrap:
  fixes a :: "'a::len word"
  assumes "a < b"
  shows "unat (a + 1) = Suc (unat a)"
proof -
  have "unat a < unat b" using assms by (simp add: word_less_nat_alt)
  moreover have "unat b < 2 ^ LENGTH('a)" by (rule unsigned_less)
  ultimately have "unat a + unat (1 :: 'a word) < 2 ^ LENGTH('a)"
    by (metis One_nat_def Suc_eq_plus1 Suc_leI le_less_trans unat_1)
  then show ?thesis by (simp add: unat_add_no_wrap)
qed

lemma unat_sat_sub: "unat (sat_sub a b) = unat a - unat b"
  by (auto simp: sat_sub_def word_le_nat_alt unat_sub)

lemma unat_max_word: "unat (- 1 :: 'a::len word) = 2 ^ LENGTH('a) - 1"
  by (metis mask_eq_exp_minus_1 unsigned_minus_1_eq_mask)

lemma unat_sat_add:
  fixes a b :: "'a::len word"
  shows "unat (sat_add a b) = min (unat a + unat b) (2 ^ LENGTH('a) - 1)"
  by (auto simp: sat_add_def unat_add_no_wrap unat_max_word)

lemma unat_sat_mul:
  fixes a b :: "'a::len word"
  shows "unat (sat_mul a b) = min (unat a * unat b) (2 ^ LENGTH('a) - 1)"
  by (auto simp: sat_mul_def unat_mult_no_wrap unat_max_word)

lemma length_le_bytes [simp]: "length (le_bytes n w) = n"
  by (simp add: le_bytes_def)

lemma length_be_bytes [simp]: "length (be_bytes n w) = n"
  by (simp add: be_bytes_def)

lemma bit_word_byte: "bit (word_byte i w) j = (j < 8 \<and> bit w (8 * i + j))"
  by (simp add: word_byte_def bit_ucast_iff bit_drop_bit_eq)

lemma word_eq_by_bytes:
  fixes v w :: "'a::len word"
  assumes len: "LENGTH('a) \<le> 8 * n" and eq: "\<forall>i<n. word_byte i v = word_byte i w"
  shows "v = w"
proof (rule bit_word_eqI)
  fix k assume "k < LENGTH('a)"
  then have "k div 8 < n" using len by (simp add: less_mult_imp_div_less mult.commute)
  then have "bit (word_byte (k div 8) v) (k mod 8) = bit (word_byte (k div 8) w) (k mod 8)"
    using eq by simp
  then show "bit v k = bit w k" by (simp add: bit_word_byte)
qed

lemma le_bytes_inject:
  fixes v w :: "'a::len word"
  assumes "LENGTH('a) \<le> 8 * n"
  shows "le_bytes n v = le_bytes n w \<longleftrightarrow> v = w"
proof
  assume "le_bytes n v = le_bytes n w"
  then have "\<forall>i<n. word_byte i v = word_byte i w"
    by (auto simp: le_bytes_def list_eq_iff_nth_eq)
  with assms show "v = w" by (rule word_eq_by_bytes)
qed simp

lemma be_bytes_inject:
  fixes v w :: "'a::len word"
  assumes "LENGTH('a) \<le> 8 * n"
  shows "be_bytes n v = be_bytes n w \<longleftrightarrow> v = w"
  by (simp add: be_bytes_def le_bytes_inject [OF assms])

section \<open>Hash maps\<close>

text \<open>
  A \<open>HashMap\<close> or \<open>BTreeMap\<close> the code iterates over is an association list with distinct keys:
  the list order stands for the iteration order. \<open>hm_insert\<close> replaces a value in place or
  appends; \<open>bt_insert\<close> keeps the keys sorted. Maps that are only looked up are \<open>'k \<rightharpoonup> 'v\<close>.
\<close>

fun hm_insert :: "'k \<Rightarrow> 'v \<Rightarrow> ('k \<times> 'v) list \<Rightarrow> ('k \<times> 'v) list" where
  "hm_insert k v [] = [(k, v)]"
| "hm_insert k v ((k', v') # m) = (if k = k' then (k, v) # m else (k', v') # hm_insert k v m)"

fun bt_insert :: "'k::linorder \<Rightarrow> 'v \<Rightarrow> ('k \<times> 'v) list \<Rightarrow> ('k \<times> 'v) list" where
  "bt_insert k v [] = [(k, v)]"
| "bt_insert k v ((k', v') # m) =
     (if k < k' then (k, v) # (k', v') # m
      else if k = k' then (k, v) # m
      else (k', v') # bt_insert k v m)"

definition hm_remove :: "'k \<Rightarrow> ('k \<times> 'v) list \<Rightarrow> ('k \<times> 'v) list" where
  "hm_remove k m = filter (\<lambda>x. fst x \<noteq> k) m"

definition retain :: "('k \<Rightarrow> 'v \<Rightarrow> bool) \<Rightarrow> ('k \<rightharpoonup> 'v) \<Rightarrow> ('k \<rightharpoonup> 'v)" where
  "retain p m = (\<lambda>k. case m k of None \<Rightarrow> None | Some v \<Rightarrow> if p k v then Some v else None)"

lemma map_of_hm_insert [simp]: "map_of (hm_insert k v m) = (map_of m)(k \<mapsto> v)"
  by (induction k v m rule: hm_insert.induct) auto

lemma keys_hm_insert: "set (map fst (hm_insert k v m)) = insert k (set (map fst m))"
  by (induction k v m rule: hm_insert.induct) auto

lemma set_hm_insert_subset: "set (hm_insert k v m) \<subseteq> insert (k, v) (set m)"
  by (induction k v m rule: hm_insert.induct) auto

lemma distinct_hm_insert: "distinct (map fst m) \<Longrightarrow> distinct (map fst (hm_insert k v m))"
proof (induction k v m rule: hm_insert.induct)
  case (2 k v k' v' m)
  moreover have "set (map fst (hm_insert k v m)) = insert k (set (map fst m))"
    by (rule keys_hm_insert)
  ultimately show ?case by auto
qed simp

lemma map_of_hm_remove [simp]: "map_of (hm_remove k m) = (map_of m)(k := None)"
  by (induction m) (auto simp: hm_remove_def fun_eq_iff)

lemma keys_hm_remove [simp]: "fst ` set (hm_remove k m) = fst ` set m - {k}"
  by (auto simp: hm_remove_def)

lemma keys_hm_insert_image [simp]: "fst ` set (hm_insert k v m) = insert k (fst ` set m)"
  using keys_hm_insert [of k v m] by simp

lemma keys_bt_insert: "set (map fst (bt_insert k v m)) = insert k (set (map fst m))"
  by (induction k v m rule: bt_insert.induct) auto

lemma sorted_bt_insert:
  "sorted_wrt (<) (map fst m) \<Longrightarrow> sorted_wrt (<) (map fst (bt_insert k v m))"
proof (induction k v m rule: bt_insert.induct)
  case (2 k v k' v' m)
  have "set (map fst (bt_insert k v m)) = insert k (set (map fst m))" by (rule keys_bt_insert)
  with 2 show ?case by fastforce
qed simp

lemma map_of_below: "\<forall>x \<in> set (map fst m). k < (x :: 'k::linorder) \<Longrightarrow> map_of m k = None"
  by (auto simp: map_of_eq_None_iff)

lemma map_of_bt_insert:
  "sorted_wrt (<) (map fst m) \<Longrightarrow> map_of (bt_insert k v m) = (map_of m)(k \<mapsto> v)"
proof (induction k v m rule: bt_insert.induct)
  case (2 k v k' v' m)
  show ?case
  proof (cases "k < k'")
    case True
    then show ?thesis by (auto simp: fun_eq_iff)
  next
    case False
    with 2 show ?thesis by (auto simp: fun_eq_iff)
  qed
qed simp

lemma retain_Some: "retain p m k = Some v \<longleftrightarrow> m k = Some v \<and> p k v"
  by (auto simp: retain_def split: option.splits)

lemma retain_None: "retain p m k = None \<longleftrightarrow> (\<forall>v. m k = Some v \<longrightarrow> \<not> p k v)"
  by (auto simp: retain_def split: option.splits)

section \<open>Handlers\<close>

datatype ('e, 'a) outcome = Done 'a | Fail 'e | Panic | Diverge

text \<open>Results of functions without state: \<open>?\<close> is \<open>bind_r\<close>, \<open>From\<close> conversions are \<open>map_err\<close>.\<close>

definition bind_r :: "('e, 'a) outcome \<Rightarrow> ('a \<Rightarrow> ('e, 'b) outcome) \<Rightarrow> ('e, 'b) outcome" where
  "bind_r r k = (case r of Done a \<Rightarrow> k a | Fail e \<Rightarrow> Fail e | Panic \<Rightarrow> Panic | Diverge \<Rightarrow> Diverge)"

definition ensure_r :: "bool \<Rightarrow> 'e \<Rightarrow> ('e, unit) outcome" where
  "ensure_r b e = (if b then Done () else Fail e)"

definition then_r :: "('e, unit) outcome \<Rightarrow> ('e, 'b) outcome \<Rightarrow> ('e, 'b) outcome" where
  "then_r r r' = bind_r r (\<lambda>_. r')"

definition map_err :: "('e \<Rightarrow> 'f) \<Rightarrow> ('e, 'a) outcome \<Rightarrow> ('f, 'a) outcome" where
  "map_err f r = (case r of Done a \<Rightarrow> Done a | Fail e \<Rightarrow> Fail (f e) | Panic \<Rightarrow> Panic | Diverge \<Rightarrow> Diverge)"

primrec each_r :: "('x \<Rightarrow> ('e, unit) outcome) \<Rightarrow> 'x list \<Rightarrow> ('e, unit) outcome" where
  "each_r f [] = Done ()"
| "each_r f (x # xs) = then_r (f x) (each_r f xs)"

lemma bind_r_Done [simp]: "bind_r r k = Done b \<longleftrightarrow> (\<exists>a. r = Done a \<and> k a = Done b)"
  by (simp add: bind_r_def split: outcome.split)

lemma then_r_Done [simp]: "then_r r r' = Done b \<longleftrightarrow> r = Done () \<and> r' = Done b"
  by (simp add: then_r_def)

lemma ensure_r_Done [simp]: "ensure_r b e = Done u \<longleftrightarrow> b"
  by (simp add: ensure_r_def)

lemma map_err_Done [simp]: "map_err f r = Done a \<longleftrightarrow> r = Done a"
  by (simp add: map_err_def split: outcome.split)

lemma each_r_Done [simp]: "each_r f xs = Done () \<longleftrightarrow> (\<forall>x\<in>set xs. f x = Done ())"
  by (induction xs) auto

lemma then_r_Done_left [simp]: "then_r (Done ()) r = r"
  by (simp add: then_r_def bind_r_def)

type_synonym ('s, 'e, 'a) handler = "'s \<Rightarrow> 's \<times> ('e, 'a) outcome"

definition ret :: "'a \<Rightarrow> ('s, 'e, 'a) handler" where
  "ret a = (\<lambda>s. (s, Done a))"

definition fail :: "'e \<Rightarrow> ('s, 'e, 'a) handler" where
  "fail e = (\<lambda>s. (s, Fail e))"

definition panic :: "('s, 'e, 'a) handler" where
  "panic = (\<lambda>s. (s, Panic))"

definition diverge :: "('s, 'e, 'a) handler" where
  "diverge = (\<lambda>s. (s, Diverge))"

definition bind_h :: "('s, 'e, 'a) handler \<Rightarrow> ('a \<Rightarrow> ('s, 'e, 'b) handler) \<Rightarrow> ('s, 'e, 'b) handler" where
  "bind_h h k = (\<lambda>s. case h s of
     (t, Done a) \<Rightarrow> k a t
   | (t, Fail e) \<Rightarrow> (t, Fail e)
   | (t, Panic) \<Rightarrow> (t, Panic)
   | (t, Diverge) \<Rightarrow> (t, Diverge))"

definition seq_h :: "('s, 'e, unit) handler \<Rightarrow> ('s, 'e, 'b) handler \<Rightarrow> ('s, 'e, 'b) handler" where
  "seq_h h k = bind_h h (\<lambda>_. k)"

definition gets :: "('s \<Rightarrow> 'a) \<Rightarrow> ('s, 'e, 'a) handler" where
  "gets f = (\<lambda>s. (s, Done (f s)))"

definition with_state :: "('s \<Rightarrow> ('s, 'e, 'a) handler) \<Rightarrow> ('s, 'e, 'a) handler" where
  "with_state f = (\<lambda>s. f s s)"

definition modify :: "('s \<Rightarrow> 's) \<Rightarrow> ('s, 'e, unit) handler" where
  "modify f = (\<lambda>s. (f s, Done ()))"

definition ensure :: "bool \<Rightarrow> 'e \<Rightarrow> ('s, 'e, unit) handler" where
  "ensure b e = (if b then ret () else fail e)"

definition unwrap :: "'a option \<Rightarrow> ('s, 'e, 'a) handler" where
  "unwrap x = (case x of None \<Rightarrow> panic | Some a \<Rightarrow> ret a)"

definition when_h :: "bool \<Rightarrow> ('s, 'e, unit) handler \<Rightarrow> ('s, 'e, unit) handler" where
  "when_h b h = (if b then h else ret ())"

definition of_result :: "('e, 'a) outcome \<Rightarrow> ('s, 'e, 'a) handler" where
  "of_result r = (\<lambda>s. (s, r))"

definition expect_h :: "('s, 'e, 'a) handler \<Rightarrow> ('s, 'e, 'a) handler" where
  "expect_h h = (\<lambda>s. case h s of (t, Fail e) \<Rightarrow> (t, Panic) | r \<Rightarrow> r)"

definition ignore_err :: "('s, 'e, unit) handler \<Rightarrow> ('s, 'e, unit) handler" where
  "ignore_err h = (\<lambda>s. case h s of (t, Fail e) \<Rightarrow> (t, Done ()) | r \<Rightarrow> r)"

definition zoom :: "('s \<Rightarrow> 't) \<Rightarrow> ('t \<Rightarrow> 's \<Rightarrow> 's) \<Rightarrow> ('t, 'e, 'a) handler \<Rightarrow> ('s, 'e, 'a) handler" where
  "zoom get put h = (\<lambda>s. case h (get s) of (t, r) \<Rightarrow> (put t s, r))"

primrec each :: "('x \<Rightarrow> ('s, 'e, unit) handler) \<Rightarrow> 'x list \<Rightarrow> ('s, 'e, unit) handler" where
  "each f [] = ret ()"
| "each f (x # xs) = seq_h (f x) (each f xs)"

primrec fold_h :: "('x \<Rightarrow> 'a \<Rightarrow> ('s, 'e, 'a) handler) \<Rightarrow> 'x list \<Rightarrow> 'a \<Rightarrow> ('s, 'e, 'a) handler" where
  "fold_h f [] a = ret a"
| "fold_h f (x # xs) a = bind_h (f x a) (fold_h f xs)"

lemmas [handler_simps] = ret_def fail_def panic_def diverge_def bind_h_def seq_h_def gets_def
  with_state_def modify_def ensure_def unwrap_def when_h_def of_result_def expect_h_def
  ignore_err_def zoom_def

lemma bind_h_ret [simp]: "bind_h (ret a) k = k a"
  by (simp add: bind_h_def ret_def)

lemma bind_h_assoc:
  "bind_h (bind_h h k) l = bind_h h (\<lambda>a. bind_h (k a) l)"
  by (rule ext) (auto simp: bind_h_def split: prod.splits outcome.splits)

lemma bind_h_Done:
  "h s = (t, Done a) \<Longrightarrow> bind_h h k s = k a t"
  by (simp add: bind_h_def)

lemma bind_h_Fail:
  "h s = (t, Fail e) \<Longrightarrow> bind_h h k s = (t, Fail e)"
  by (simp add: bind_h_def)

section \<open>Orders on states that handlers climb\<close>

definition moves :: "('s \<Rightarrow> 's \<Rightarrow> bool) \<Rightarrow> ('s, 'e, 'a) handler \<Rightarrow> bool" where
  "moves R h \<longleftrightarrow> (\<forall>s. R s (fst (h s)))"

text \<open>
  \<open>returns h\<close>: no run of \<open>h\<close> exhausts the recursion fuel. \<open>ends_at R h s\<close> says so of the run
  from \<open>s\<close>, and that this run climbs \<open>R\<close>: with it a measure that falls along \<open>R\<close> is carried
  through sequences of steps.
\<close>

definition returns :: "('s, 'e, 'a) handler \<Rightarrow> bool" where
  "returns h \<longleftrightarrow> (\<forall>s. snd (h s) \<noteq> Diverge)"

definition ends_at :: "('s \<Rightarrow> 's \<Rightarrow> bool) \<Rightarrow> ('s, 'e, 'a) handler \<Rightarrow> 's \<Rightarrow> bool" where
  "ends_at R h s \<longleftrightarrow> R s (fst (h s)) \<and> snd (h s) \<noteq> Diverge"

locale step_order =
  fixes R :: "'s \<Rightarrow> 's \<Rightarrow> bool"
  assumes refl: "R s s"
    and trans: "R s t \<Longrightarrow> R t u \<Longrightarrow> R s u"
begin

lemma ret: "moves R (ret a)"
  by (simp add: moves_def ret_def refl)

lemma fail: "moves R (fail e)"
  by (simp add: moves_def fail_def refl)

lemma panic: "moves R panic"
  by (simp add: moves_def panic_def refl)

lemma diverge: "moves R diverge"
  by (simp add: moves_def diverge_def refl)

lemma gets: "moves R (gets f)"
  by (simp add: moves_def gets_def refl)

lemma ensure: "moves R (ensure b e)"
  by (simp add: ensure_def ret fail)

lemma unwrap: "moves R (unwrap x)"
  by (simp add: unwrap_def ret panic split: option.split)

lemma of_result: "moves R (of_result x)"
  by (simp add: moves_def of_result_def refl)

lemma modify: "(\<And>s. R s (f s)) \<Longrightarrow> moves R (modify f)"
  by (simp add: moves_def modify_def)

lemma with_state: "(\<And>s. moves R (f s)) \<Longrightarrow> moves R (with_state f)"
  by (simp add: moves_def with_state_def)

lemma with_state_at: "(\<And>s. R s (fst (f s s))) \<Longrightarrow> moves R (with_state f)"
  by (simp add: moves_def with_state_def)

lemma bind:
  assumes "moves R h" and "\<And>a. moves R (k a)"
  shows "moves R (bind_h h k)"
  unfolding moves_def
proof
  fix s
  have "R s (fst (h s))" using assms(1) by (simp add: moves_def)
  then show "R s (fst (bind_h h k s))"
    using assms(2) by (auto simp: bind_h_def moves_def split: prod.splits outcome.splits intro: trans)
qed

text \<open>The rules at one state, for steps whose direction depends on what was read before.\<close>

lemma bind_at:
  assumes "R s (fst (h s))" and "\<And>a t. h s = (t, Done a) \<Longrightarrow> R t (fst (k a t))"
  shows "R s (fst (bind_h h k s))"
  using assms by (auto simp: bind_h_def split: prod.splits outcome.splits intro: trans)

lemma seq_at:
  assumes "R s (fst (h s))" and "\<And>t. h s = (t, Done ()) \<Longrightarrow> R t (fst (k t))"
  shows "R s (fst (seq_h h k s))"
  unfolding seq_h_def using assms by (intro bind_at) auto

lemma at: "moves R h \<Longrightarrow> R s (fst (h s))"
  by (simp add: moves_def)

lemma seq: "moves R h \<Longrightarrow> moves R k \<Longrightarrow> moves R (seq_h h k)"
  by (simp add: seq_h_def bind)

lemma when_cond: "(b \<Longrightarrow> moves R h) \<Longrightarrow> moves R (when_h b h)"
  by (simp add: when_h_def ret)

lemma expect: "moves R h \<Longrightarrow> moves R (expect_h h)"
  unfolding moves_def expect_h_def
  by (auto split: prod.split outcome.split) (metis fst_conv)+

lemma ignore: "moves R h \<Longrightarrow> moves R (ignore_err h)"
  unfolding moves_def ignore_err_def
  by (auto split: prod.split outcome.split) (metis fst_conv)+

lemma each: "(\<And>x. x \<in> set xs \<Longrightarrow> moves R (f x)) \<Longrightarrow> moves R (each f xs)"
  by (induction xs) (simp_all add: ret seq)

lemma fold: "(\<And>x a. x \<in> set xs \<Longrightarrow> moves R (f x a)) \<Longrightarrow> moves R (fold_h f xs a)"
  by (induction xs arbitrary: a) (simp_all add: ret bind)

text \<open>The same rules for runs that also return.\<close>

lemma ends: "moves R h \<Longrightarrow> returns h \<Longrightarrow> ends_at R h s"
  by (simp add: moves_def returns_def ends_at_def)

lemma ends_bind:
  assumes "ends_at R h s" and "\<And>a t. h s = (t, Done a) \<Longrightarrow> R s t \<Longrightarrow> ends_at R (k a) t"
  shows "ends_at R (bind_h h k) s"
  using assms
  by (auto simp: ends_at_def bind_h_def split: prod.splits outcome.splits intro: trans)

lemma ends_seq:
  assumes "ends_at R h s" and "\<And>t. h s = (t, Done ()) \<Longrightarrow> R s t \<Longrightarrow> ends_at R k t"
  shows "ends_at R (seq_h h k) s"
  unfolding seq_h_def using assms by (intro ends_bind) auto

lemma ends_with_state: "ends_at R (f s) s \<Longrightarrow> ends_at R (with_state f) s"
  by (simp add: ends_at_def with_state_def)

lemma ends_expect: "ends_at R h s \<Longrightarrow> ends_at R (expect_h h) s"
  by (auto simp: ends_at_def expect_h_def split: prod.splits outcome.splits)

lemma ends_ignore: "ends_at R h s \<Longrightarrow> ends_at R (ignore_err h) s"
  by (auto simp: ends_at_def ignore_err_def split: prod.splits outcome.splits)

lemmas rules = ret fail panic diverge gets ensure unwrap of_result bind seq when_cond
  expect ignore each fold

end

text \<open>The order in which an invariant never gets lost, and the one of an unchanged part.\<close>

definition keeps :: "('s \<Rightarrow> bool) \<Rightarrow> 's \<Rightarrow> 's \<Rightarrow> bool" where
  "keeps I s t \<longleftrightarrow> (I s \<longrightarrow> I t)"

definition same :: "('s \<Rightarrow> 'a) \<Rightarrow> 's \<Rightarrow> 's \<Rightarrow> bool" where
  "same f s t \<longleftrightarrow> f t = f s"

interpretation keeping: step_order "keeps inv" for inv
  by unfold_locales (auto simp: keeps_def)

interpretation frame: step_order "same part" for part
  by unfold_locales (auto simp: same_def)

lemma moves_stateD: "moves R h \<Longrightarrow> h s = (t, r) \<Longrightarrow> R s t"
  by (auto simp: moves_def dest: spec [of _ s])

lemma returns_basic:
  "returns (ret a)" "returns (fail e)" "returns panic" "returns (gets f)" "returns (ensure b e)"
  "returns (unwrap x)" "returns (modify g)"
  by (simp_all add: returns_def handler_simps split: option.split)

lemma returns_of_result: "r \<noteq> Diverge \<Longrightarrow> returns (of_result r)"
  by (simp add: returns_def of_result_def)

lemma returns_bind: "returns h \<Longrightarrow> (\<And>a. returns (k a)) \<Longrightarrow> returns (bind_h h k)"
  by (auto simp: returns_def bind_h_def split: prod.splits outcome.splits) (metis snd_conv)

lemma returns_seq: "returns h \<Longrightarrow> returns k \<Longrightarrow> returns (seq_h h k)"
  by (simp add: seq_h_def returns_bind)

lemma returns_with_state: "(\<And>s. returns (f s)) \<Longrightarrow> returns (with_state f)"
  by (simp add: returns_def with_state_def)

lemma returns_when: "(b \<Longrightarrow> returns h) \<Longrightarrow> returns (when_h b h)"
  by (simp add: when_h_def returns_basic)

lemma returns_expect: "returns h \<Longrightarrow> returns (expect_h h)"
  by (auto simp: returns_def expect_h_def split: prod.splits outcome.splits) (metis snd_conv)

lemma returns_ignore: "returns h \<Longrightarrow> returns (ignore_err h)"
  by (auto simp: returns_def ignore_err_def split: prod.splits outcome.splits) (metis snd_conv)

lemma returns_zoom: "returns h \<Longrightarrow> returns (zoom get put h)"
  by (auto simp: returns_def zoom_def split: prod.split) (metis snd_conv)

lemma returns_each: "(\<And>x. x \<in> set xs \<Longrightarrow> returns (f x)) \<Longrightarrow> returns (each f xs)"
  by (induction xs) (simp_all add: returns_basic returns_seq)

lemma returns_fold: "(\<And>x a. x \<in> set xs \<Longrightarrow> returns (f x a)) \<Longrightarrow> returns (fold_h f xs a)"
  by (induction xs arbitrary: a) (simp_all add: returns_basic returns_bind)

lemmas returns_rules = returns_basic returns_of_result returns_bind returns_seq returns_with_state
  returns_when returns_expect returns_ignore returns_zoom returns_each returns_fold

section \<open>Handlers that commute with a change of the state\<close>

text \<open>\<open>commutes f h\<close>: running \<open>h\<close> before or after the change \<open>f\<close> of the state is the same.\<close>

definition commutes :: "('s \<Rightarrow> 's) \<Rightarrow> ('s, 'e, 'a) handler \<Rightarrow> bool" where
  "commutes f h \<longleftrightarrow> (\<forall>s. h (f s) = (f (fst (h s)), snd (h s)))"

lemma commutes_ret: "commutes f (ret a)" and commutes_fail: "commutes f (fail e)"
  and commutes_panic: "commutes f panic" and commutes_diverge: "commutes f diverge"
  and commutes_of_result: "commutes f (of_result r)"
  by (simp_all add: commutes_def handler_simps)

lemma commutes_unwrap: "commutes f (unwrap x)"
  by (simp add: unwrap_def commutes_ret commutes_panic split: option.split)

lemma commutes_modify: "(\<And>s. g (f s) = f (g s)) \<Longrightarrow> commutes f (modify g)"
  by (simp add: commutes_def modify_def)

lemma commutes_with_state:
  "(\<And>s. k (f s) = k s) \<Longrightarrow> (\<And>s. commutes f (k s)) \<Longrightarrow> commutes f (with_state k)"
  by (simp add: commutes_def with_state_def)

lemma commutes_bind:
  assumes "commutes f h" and "\<And>a. commutes f (k a)"
  shows "commutes f (bind_h h k)"
  unfolding commutes_def
proof
  fix s
  have "h (f s) = (f (fst (h s)), snd (h s))" using assms(1) by (simp add: commutes_def)
  then show "bind_h h k (f s) = (f (fst (bind_h h k s)), snd (bind_h h k s))"
    using assms(2) by (simp add: bind_h_def commutes_def split: prod.split outcome.split)
qed

lemma commutes_seq: "commutes f h \<Longrightarrow> commutes f k \<Longrightarrow> commutes f (seq_h h k)"
  by (simp add: seq_h_def commutes_bind)

lemma commutes_when: "commutes f h \<Longrightarrow> commutes f (when_h b h)"
  by (simp add: when_h_def commutes_ret)

lemma commutes_expect: "commutes f h \<Longrightarrow> commutes f (expect_h h)"
  by (simp add: commutes_def expect_h_def split: prod.split outcome.split)

lemma commutes_each: "(\<And>x. commutes f (h x)) \<Longrightarrow> commutes f (each h xs)"
  by (induction xs) (simp_all add: commutes_ret commutes_seq)

lemma commutes_zoom:
  "(\<And>s. get (f s) = get s) \<Longrightarrow> (\<And>t s. put t (f s) = f (put t s)) \<Longrightarrow> commutes f (zoom get put h)"
  by (simp add: commutes_def zoom_def split: prod.split)

lemmas commutes_rules = commutes_ret commutes_fail commutes_panic commutes_diverge commutes_of_result
  commutes_unwrap commutes_bind commutes_seq commutes_when commutes_expect commutes_each

end
