(* ===== verification/Crypto.thy ===== *)
theory Crypto
  imports Prelude
begin

text \<open>
  The crate \<open>crypto\<close> (\<open>crypto/src/lib.rs\<close>): digests, public keys, signatures and the
  signature service.

  A \<open>[u8; 32]\<close> is a 256 bit word read big-endian, so the lexicographic \<open>Ord\<close> that Rust
  derives is the numeric order of the word. SHA-512 and the ed25519 operations of
  \<open>ed25519-dalek\<close> are third-party code: they are the fields of \<open>prims\<close>, the parameter \<open>P\<close>
  of every definition that hashes or verifies.
\<close>

datatype digest = Digest (digest_word: "256 word")

datatype public_key = PublicKey (key_word: "256 word")

record signature =
  sig_part1 :: "256 word"
  sig_part2 :: "256 word"

datatype secret_key = SecretKey "512 word"

datatype crypto_error = Ed25519_Error

record prims =
  p_sha512 :: "u8 list \<Rightarrow> 512 word"
  p_sig_from_bytes :: "512 word \<Rightarrow> bool"
  p_key_from_bytes :: "256 word \<Rightarrow> bool"
  p_verify_strict :: "256 word \<Rightarrow> 256 word \<Rightarrow> 512 word \<Rightarrow> bool"
  p_verify_batch :: "256 word list \<Rightarrow> 512 word list \<Rightarrow> 256 word list \<Rightarrow> bool"
  p_keypair_from_bytes :: "512 word \<Rightarrow> bool"
  p_sign :: "512 word \<Rightarrow> 256 word \<Rightarrow> 512 word"

instantiation digest :: linorder
begin

definition less_eq_digest :: "digest \<Rightarrow> digest \<Rightarrow> bool" where
  "less_eq_digest a b \<longleftrightarrow> digest_word a \<le> digest_word b"

definition less_digest :: "digest \<Rightarrow> digest \<Rightarrow> bool" where
  "less_digest a b \<longleftrightarrow> digest_word a < digest_word b"

instance
  by standard (auto simp: less_eq_digest_def less_digest_def digest.expand)

end

instantiation public_key :: linorder
begin

definition less_eq_public_key :: "public_key \<Rightarrow> public_key \<Rightarrow> bool" where
  "less_eq_public_key a b \<longleftrightarrow> key_word a \<le> key_word b"

definition less_public_key :: "public_key \<Rightarrow> public_key \<Rightarrow> bool" where
  "less_public_key a b \<longleftrightarrow> key_word a < key_word b"

instance
  by standard (auto simp: less_eq_public_key_def less_public_key_def public_key.expand)

end

definition default_digest :: digest where
  "default_digest = Digest 0"

definition default_key :: public_key where
  "default_key = PublicKey 0"

definition default_signature :: signature where
  "default_signature = \<lparr>sig_part1 = 0, sig_part2 = 0\<rparr>"

definition digest_bytes :: "digest \<Rightarrow> u8 list" where
  "digest_bytes d = be_bytes 32 (digest_word d)"

definition key_bytes :: "public_key \<Rightarrow> u8 list" where
  "key_bytes k = be_bytes 32 (key_word k)"

text \<open>\<open>Digest(Sha512::digest(data).as_slice()[..32])\<close>, the last step of every \<open>digest()\<close>.\<close>

definition hash32 :: "'p prims_scheme \<Rightarrow> u8 list \<Rightarrow> digest" where
  "hash32 P bs = Digest (ucast (drop_bit 256 (p_sha512 P bs)))"

definition flatten :: "signature \<Rightarrow> 512 word" where
  "flatten s = word_cat (sig_part1 s) (sig_part2 s)"

definition signature_new :: "'p prims_scheme \<Rightarrow> digest \<Rightarrow> secret_key \<Rightarrow> (crypto_error, signature) outcome" where
  "signature_new P d sk = (case sk of SecretKey k \<Rightarrow>
     if p_keypair_from_bytes P k
     then let sig = p_sign P k (digest_word d)
          in Done \<lparr>sig_part1 = ucast (drop_bit 256 sig), sig_part2 = ucast sig\<rparr>
     else Panic)"

definition sig_from_bytes :: "'p prims_scheme \<Rightarrow> signature \<Rightarrow> (crypto_error, 512 word) outcome" where
  "sig_from_bytes P s = (if p_sig_from_bytes P (flatten s) then Done (flatten s) else Fail Ed25519_Error)"

definition key_from_bytes :: "'p prims_scheme \<Rightarrow> public_key \<Rightarrow> (crypto_error, 256 word) outcome" where
  "key_from_bytes P k = (if p_key_from_bytes P (key_word k) then Done (key_word k) else Fail Ed25519_Error)"

definition sig_verify :: "'p prims_scheme \<Rightarrow> signature \<Rightarrow> digest \<Rightarrow> public_key \<Rightarrow> (crypto_error, unit) outcome" where
  "sig_verify P s d k =
     bind_r (sig_from_bytes P s) (\<lambda>sig.
     bind_r (key_from_bytes P k) (\<lambda>key.
     ensure_r (p_verify_strict P key (digest_word d) sig) Ed25519_Error))"

text \<open>The loop of \<open>verify_batch\<close>: three vectors are filled until a conversion fails.\<close>

fun batch_loop :: "'p prims_scheme \<Rightarrow> digest \<Rightarrow> (public_key \<times> signature) list
    \<Rightarrow> 256 word list \<times> 512 word list \<times> 256 word list
    \<Rightarrow> (crypto_error, 256 word list \<times> 512 word list \<times> 256 word list) outcome" where
  "batch_loop P d [] acc = Done acc"
| "batch_loop P d ((k, s) # votes) (ms, ss, ks) =
     bind_r (sig_from_bytes P s) (\<lambda>sig.
     bind_r (key_from_bytes P k) (\<lambda>key.
     batch_loop P d votes (ms @ [digest_word d], ss @ [sig], ks @ [key])))"

definition verify_batch :: "'p prims_scheme \<Rightarrow> digest \<Rightarrow> (public_key \<times> signature) list \<Rightarrow> (crypto_error, unit) outcome" where
  "verify_batch P d votes =
     bind_r (batch_loop P d votes ([], [], [])) (\<lambda>(ms, ss, ks).
     ensure_r (p_verify_batch P ms ss ks) Ed25519_Error)"

text \<open>\<open>digests[i]\<close> panics when there are more votes than digests.\<close>

fun batch_multi_loop :: "'p prims_scheme \<Rightarrow> digest list \<Rightarrow> (public_key \<times> signature) list
    \<Rightarrow> 256 word list \<times> 512 word list \<times> 256 word list
    \<Rightarrow> (crypto_error, 256 word list \<times> 512 word list \<times> 256 word list) outcome" where
  "batch_multi_loop P ds [] acc = Done acc"
| "batch_multi_loop P [] (v # votes) acc = Panic"
| "batch_multi_loop P (d # ds) ((k, s) # votes) (ms, ss, ks) =
     bind_r (sig_from_bytes P s) (\<lambda>sig.
     bind_r (key_from_bytes P k) (\<lambda>key.
     batch_multi_loop P ds votes (ms @ [digest_word d], ss @ [sig], ks @ [key])))"

definition verify_batch_multi :: "'p prims_scheme \<Rightarrow> digest list \<Rightarrow> (public_key \<times> signature) list \<Rightarrow> (crypto_error, unit) outcome" where
  "verify_batch_multi P ds votes =
     bind_r (batch_multi_loop P ds votes ([], [], [])) (\<lambda>(ms, ss, ks).
     ensure_r (p_verify_batch P ms ss ks) Ed25519_Error)"

section \<open>Lemmas\<close>

lemma digest_bytes_inject [simp]: "digest_bytes a = digest_bytes b \<longleftrightarrow> a = b"
  by (cases a; cases b) (simp add: digest_bytes_def be_bytes_inject)

lemma key_bytes_inject [simp]: "key_bytes a = key_bytes b \<longleftrightarrow> a = b"
  by (cases a; cases b) (simp add: key_bytes_def be_bytes_inject)

lemma length_digest_bytes [simp]: "length (digest_bytes d) = 32"
  by (simp add: digest_bytes_def)

lemma length_key_bytes [simp]: "length (key_bytes d) = 32"
  by (simp add: key_bytes_def)

text \<open>What a vote needs for its two conversions to succeed.\<close>

definition vote_wf :: "'p prims_scheme \<Rightarrow> public_key \<times> signature \<Rightarrow> bool" where
  "vote_wf P v = (p_sig_from_bytes P (flatten (snd v)) \<and> p_key_from_bytes P (key_word (fst v)))"

lemma batch_loop_Done:
  "batch_loop P d votes (ms, ss, ks) = Done r \<longleftrightarrow>
   (\<forall>v \<in> set votes. vote_wf P v) \<and>
   r = (ms @ replicate (length votes) (digest_word d), ss @ map (flatten \<circ> snd) votes,
        ks @ map (key_word \<circ> fst) votes)"
  by (induction P d votes "(ms, ss, ks)" arbitrary: ms ss ks rule: batch_loop.induct)
    (auto simp: sig_from_bytes_def key_from_bytes_def vote_wf_def)

lemma verify_batch_Done:
  "verify_batch P d votes = Done () \<longleftrightarrow>
   (\<forall>v \<in> set votes. vote_wf P v) \<and>
   p_verify_batch P (replicate (length votes) (digest_word d)) (map (flatten \<circ> snd) votes)
     (map (key_word \<circ> fst) votes)"
  by (auto simp: verify_batch_def batch_loop_Done)

lemma batch_multi_loop_replicate:
  "n = length votes \<Longrightarrow> batch_multi_loop P (replicate n d) votes acc = batch_loop P d votes acc"
  by (induction P d votes acc arbitrary: n rule: batch_loop.induct) auto

lemma verify_batch_multi_same:
  "verify_batch_multi P (replicate (length votes) d) votes = verify_batch P d votes"
  by (simp add: verify_batch_multi_def verify_batch_def batch_multi_loop_replicate)

lemma sig_verify_Done:
  "sig_verify P s d k = Done () \<longleftrightarrow>
   vote_wf P (k, s) \<and> p_verify_strict P (key_word k) (digest_word d) (flatten s)"
  by (auto simp: sig_verify_def sig_from_bytes_def key_from_bytes_def vote_wf_def)

section \<open>A concrete instance\<close>

text \<open>
  An instance of the third-party parameters on which theorems are evaluated: the hash puts
  the length of its input into its first half, and all signatures are accepted.
\<close>

definition sample_prims :: prims where
  "sample_prims = \<lparr>
     p_sha512 = (\<lambda>bs. push_bit 256 (of_nat (length bs))),
     p_sig_from_bytes = (\<lambda>_. True), p_key_from_bytes = (\<lambda>_. True),
     p_verify_strict = (\<lambda>_ _ _. True), p_verify_batch = (\<lambda>_ _ _. True),
     p_keypair_from_bytes = (\<lambda>_. True), p_sign = (\<lambda>_ _. 0)\<rparr>"

definition sample_signature :: signature where
  "sample_signature = \<lparr>sig_part1 = 1, sig_part2 = 2\<rparr>"

end
