(* ===== verification/Config.thy ===== *)
theory Config
  imports Crypto Complex_Main
begin

text \<open>
  The crate \<open>config\<close> (\<open>config/src/lib.rs\<close>): node parameters, the committee and its stake
  thresholds.

  Stakes are \<open>u32\<close>: sums and the products in the thresholds wrap. The \<open>BTreeMap\<close> of
  authorities is an association list in key order; \<open>committee_wf\<close> states that order. The
  locale \<open>stake_quorums\<close> is the contract between the thresholds and the protocol: any two
  vote sets of quorum weight share voters, and one of them is honest when faulty stake stays
  below the validity threshold. It is interpreted on the code's own thresholds.
\<close>

section \<open>Parameters\<close>

datatype aggregation_strategy = Normal | Mean

datatype data_pollution_strategy = RandomScale | MeanEqualize

text \<open>A finite \<open>f64\<close> is the rational it denotes.\<close>

record parameters =
  timeout_delay :: u64
  header_size :: u64
  max_header_delay :: u64
  gc_depth :: u64
  sync_retry_delay :: u64
  sync_retry_nodes :: u64
  batch_size :: u64
  max_batch_delay :: u64
  use_optimistic_tips :: bool
  use_parallel_proposals :: bool
  param_k :: u64
  use_fast_path :: bool
  fast_path_timeout :: u64
  use_ride_share :: bool
  car_timeout :: u64
  cut_condition_type :: u8
  simulate_asynchrony :: bool
  asynchrony_type :: "u8 list"
  asynchrony_start :: "u64 list"
  asynchrony_duration :: "u64 list"
  affected_nodes :: "u64 list"
  asynchrony_node_ids_per_window :: "u64 list list"
  egress_penalty :: u64
  egress_penalty_per_node :: "u64 list"
  use_fast_sync :: bool
  use_exponential_timeouts :: bool
  epoch_slots :: u64
  window_size :: u64
  applied_begin :: u64
  param_aggregation_strategy :: aggregation_strategy
  data_pollution_node_ids :: "u64 list"
  data_pollution_prob :: rat
  param_pollution_strategy :: data_pollution_strategy

definition default_parameters :: parameters where
  "default_parameters = \<lparr>
     timeout_delay = 1000, header_size = 1000, max_header_delay = 100, gc_depth = 50,
     sync_retry_delay = 5000, sync_retry_nodes = 3, batch_size = 500000, max_batch_delay = 100,
     use_optimistic_tips = True, use_parallel_proposals = True, param_k = 4,
     use_fast_path = True, fast_path_timeout = 500, use_ride_share = False, car_timeout = 2000,
     cut_condition_type = 2,
     simulate_asynchrony = False, asynchrony_type = [0], asynchrony_start = [20000],
     asynchrony_duration = [10], affected_nodes = [0], asynchrony_node_ids_per_window = [],
     egress_penalty = 0, egress_penalty_per_node = [], use_fast_sync = False,
     use_exponential_timeouts = False, epoch_slots = 20, window_size = 5, applied_begin = 0,
     param_aggregation_strategy = Normal, data_pollution_node_ids = [],
     data_pollution_prob = 0, param_pollution_strategy = RandomScale\<rparr>"

section \<open>The committee\<close>

datatype socket_addr = SocketAddr "u8 list" "16 word"

type_synonym stake = u32
type_synonym worker_id = u32

record consensus_addresses =
  consensus_to_consensus :: socket_addr

record primary_addresses =
  primary_to_primary :: socket_addr
  worker_to_primary :: socket_addr

record worker_addresses =
  transactions :: socket_addr
  worker_to_worker :: socket_addr
  primary_to_worker :: socket_addr

record authority =
  auth_stake :: stake
  auth_consensus :: consensus_addresses
  auth_primary :: primary_addresses
  auth_workers :: "(worker_id \<times> worker_addresses) list"

record committee =
  authorities :: "(public_key \<times> authority) list"
  id_map :: "public_key \<rightharpoonup> u64"

datatype config_error = NotInCommittee public_key

text \<open>\<open>Committee::new\<close>: a later entry for the same key replaces the earlier one in both maps.\<close>

definition new_authority :: "stake \<Rightarrow> socket_addr \<Rightarrow> authority" where
  "new_authority st address = \<lparr>
     auth_stake = st,
     auth_consensus = \<lparr>consensus_to_consensus = address\<rparr>,
     auth_primary = \<lparr>primary_to_primary = address, worker_to_primary = address\<rparr>,
     auth_workers = []\<rparr>"

fun committee_new_loop :: "u64 \<Rightarrow> (public_key \<times> stake \<times> socket_addr) list \<Rightarrow> committee \<Rightarrow> committee" where
  "committee_new_loop i [] c = c"
| "committee_new_loop i ((name, st, address) # info) c =
     committee_new_loop (i + 1) info
       (c\<lparr>authorities := bt_insert name (new_authority st address) (authorities c),
          id_map := (id_map c)(name \<mapsto> i)\<rparr>)"

definition committee_new :: "(public_key \<times> stake \<times> socket_addr) list \<Rightarrow> committee" where
  "committee_new info = committee_new_loop 0 info \<lparr>authorities = [], id_map = (\<lambda>_. None)\<rparr>"

text \<open>\<open>Committee::import\<close> regenerates \<open>id_map\<close> from the key order of the authorities.\<close>

definition regenerate_id_map :: "committee \<Rightarrow> committee" where
  "regenerate_id_map c = c\<lparr>id_map :=
     map_of (zip (map fst (authorities c)) (map of_nat [0..<length (authorities c)]))\<rparr>"

definition committee_size :: "committee \<Rightarrow> nat" where
  "committee_size c = length (authorities c)"

definition stake_of :: "committee \<Rightarrow> public_key \<Rightarrow> stake" where
  "stake_of c name = (case map_of (authorities c) name of None \<Rightarrow> 0 | Some a \<Rightarrow> auth_stake a)"

definition others_stake :: "committee \<Rightarrow> public_key \<Rightarrow> (public_key \<times> stake) list" where
  "others_stake c myself =
     map (\<lambda>(name, a). (name, auth_stake a)) (filter (\<lambda>(name, _). name \<noteq> myself) (authorities c))"

definition total_stake :: "committee \<Rightarrow> stake" where
  "total_stake c = sum_list (map (auth_stake \<circ> snd) (authorities c))"

definition quorum_threshold :: "committee \<Rightarrow> stake" where
  "quorum_threshold c = 2 * total_stake c div 3 + 1"

definition validity_threshold :: "committee \<Rightarrow> stake" where
  "validity_threshold c = (total_stake c + 2) div 3"

definition node_index :: "committee \<Rightarrow> public_key \<Rightarrow> u64 option" where
  "node_index c name = id_map c name"

definition fast_threshold :: "committee \<Rightarrow> stake" where
  "fast_threshold c = total_stake c"

definition lookup_authority :: "committee \<Rightarrow> public_key \<Rightarrow> (config_error, authority) outcome" where
  "lookup_authority c name =
     (case map_of (authorities c) name of None \<Rightarrow> Fail (NotInCommittee name) | Some a \<Rightarrow> Done a)"

definition consensus_of :: "committee \<Rightarrow> public_key \<Rightarrow> (config_error, consensus_addresses) outcome" where
  "consensus_of c to = bind_r (lookup_authority c to) (\<lambda>a. Done (auth_consensus a))"

definition others :: "committee \<Rightarrow> public_key \<Rightarrow> (authority \<Rightarrow> 'a) \<Rightarrow> (public_key \<times> 'a) list" where
  "others c myself f =
     map (\<lambda>(name, a). (name, f a)) (filter (\<lambda>(name, _). name \<noteq> myself) (authorities c))"

definition others_consensus :: "committee \<Rightarrow> public_key \<Rightarrow> (public_key \<times> consensus_addresses) list" where
  "others_consensus c myself = others c myself auth_consensus"

definition primary_of :: "committee \<Rightarrow> public_key \<Rightarrow> (config_error, primary_addresses) outcome" where
  "primary_of c to = bind_r (lookup_authority c to) (\<lambda>a. Done (auth_primary a))"

definition others_primaries :: "committee \<Rightarrow> public_key \<Rightarrow> (public_key \<times> primary_addresses) list" where
  "others_primaries c myself = others c myself auth_primary"

text \<open>An unknown worker id is reported as \<open>NotInCommittee(to)\<close>, as the code does.\<close>

definition worker_of :: "committee \<Rightarrow> public_key \<Rightarrow> worker_id \<Rightarrow> (config_error, worker_addresses) outcome" where
  "worker_of c to i =
     bind_r (lookup_authority c to) (\<lambda>a.
       case map_of (auth_workers a) i of None \<Rightarrow> Fail (NotInCommittee to) | Some w \<Rightarrow> Done w)"

definition our_workers :: "committee \<Rightarrow> public_key \<Rightarrow> (config_error, worker_addresses list) outcome" where
  "our_workers c myself = bind_r (lookup_authority c myself) (\<lambda>a. Done (map snd (auth_workers a)))"

definition others_workers :: "committee \<Rightarrow> public_key \<Rightarrow> worker_id \<Rightarrow> (public_key \<times> worker_addresses) list" where
  "others_workers c myself i =
     List.map_filter (\<lambda>(name, a). map_option (Pair name) (map_of (auth_workers a) i))
       (filter (\<lambda>(name, _). name \<noteq> myself) (authorities c))"

definition address_of :: "committee \<Rightarrow> public_key \<Rightarrow> socket_addr option" where
  "address_of c name = map_option (consensus_to_consensus \<circ> auth_consensus) (map_of (authorities c) name)"

definition broadcast_addresses :: "committee \<Rightarrow> public_key \<Rightarrow> (public_key \<times> socket_addr) list" where
  "broadcast_addresses c myself = others c myself (consensus_to_consensus \<circ> auth_consensus)"

definition committee_wf :: "committee \<Rightarrow> bool" where
  "committee_wf c \<longleftrightarrow> sorted_wrt (<) (map fst (authorities c))"

section \<open>Quorum arithmetic\<close>

definition members :: "committee \<Rightarrow> public_key set" where
  "members c = set (map fst (authorities c))"

text \<open>The stake of a list of authorities, and of the committee, without wrap-around.\<close>

definition voting_weight :: "committee \<Rightarrow> public_key \<Rightarrow> nat" where
  "voting_weight c a = unat (stake_of c a)"

definition total_weight :: "committee \<Rightarrow> nat" where
  "total_weight c = sum_list (map (unat \<circ> auth_stake \<circ> snd) (authorities c))"

definition committee_ok :: "committee \<Rightarrow> bool" where
  "committee_ok c \<longleftrightarrow> committee_wf c \<and> 0 < total_weight c \<and> 2 * total_weight c < 2 ^ 32"

lemma committee_wf_distinct: "committee_wf c \<Longrightarrow> distinct (map fst (authorities c))"
  unfolding committee_wf_def by (simp add: strict_sorted_iff)

lemma finite_members [simp]: "finite (members c)"
  by (simp add: members_def)

lemma card_members: "committee_wf c \<Longrightarrow> card (members c) = committee_size c"
  by (metis committee_size_def committee_wf_distinct distinct_card length_map members_def)

lemma stake_of_outside: "a \<notin> members c \<Longrightarrow> stake_of c a = 0"
  by (simp add: stake_of_def members_def map_of_eq_None_iff [symmetric] split: option.split)

lemma stake_of_member_pos: "0 < stake_of c a \<Longrightarrow> a \<in> members c"
  by (metis stake_of_outside less_irrefl)

lemma sum_list_map_of:
  "distinct (map fst xs) \<Longrightarrow>
   (\<Sum>a \<in> set (map fst xs). case map_of xs a of None \<Rightarrow> 0 | Some b \<Rightarrow> f b) = sum_list (map (f \<circ> snd) xs :: nat list)"
proof (induction xs)
  case (Cons x xs)
  obtain k v where x: "x = (k, v)" by (cases x)
  have k: "k \<notin> set (map fst xs)" using Cons.prems x by simp
  have "(\<Sum>a \<in> set (map fst (x # xs)). case map_of (x # xs) a of None \<Rightarrow> 0 | Some b \<Rightarrow> f b)
      = f v + (\<Sum>a \<in> set (map fst xs). case map_of (x # xs) a of None \<Rightarrow> 0 | Some b \<Rightarrow> f b)"
    using k x by simp
  also have "(\<Sum>a \<in> set (map fst xs). case map_of (x # xs) a of None \<Rightarrow> 0 | Some b \<Rightarrow> f b)
      = (\<Sum>a \<in> set (map fst xs). case map_of xs a of None \<Rightarrow> 0 | Some b \<Rightarrow> f b)"
    using k x by (intro sum.cong) auto
  finally show ?case using Cons x by simp
qed simp

lemma total_weight_members:
  assumes "committee_wf c"
  shows "total_weight c = (\<Sum>a \<in> members c. voting_weight c a)"
proof -
  have "(\<Sum>a \<in> members c. voting_weight c a)
      = (\<Sum>a \<in> members c. case map_of (authorities c) a of None \<Rightarrow> 0 | Some b \<Rightarrow> unat (auth_stake b))"
    by (intro sum.cong) (auto simp: voting_weight_def stake_of_def split: option.split)
  then show ?thesis
    using sum_list_map_of [OF committee_wf_distinct [OF assms], of "\<lambda>b. unat (auth_stake b)"]
    by (simp add: total_weight_def members_def o_def)
qed

lemma unat_sum_list:
  "sum_list (map unat ws) < 2 ^ LENGTH('a) \<Longrightarrow> unat (sum_list (ws :: 'a::len word list)) = sum_list (map unat ws)"
  by (induction ws) (simp_all add: unat_add_no_wrap)

lemma unat_total_stake:
  assumes "total_weight c < 2 ^ 32"
  shows "unat (total_stake c) = total_weight c"
  using unat_sum_list [of "map (auth_stake \<circ> snd) (authorities c)"] assms
  by (simp add: total_stake_def total_weight_def o_def)

lemma unat_quorum_threshold:
  assumes "2 * total_weight c < 2 ^ 32"
  shows "unat (quorum_threshold c) = 2 * total_weight c div 3 + 1"
proof -
  have "unat (total_stake c) = total_weight c" using assms by (intro unat_total_stake) simp
  then have two: "unat (2 * total_stake c) = 2 * total_weight c"
    using assms unat_mult_no_wrap [of "2 :: 32 word" "total_stake c"] by simp
  have "unat (2 * total_stake c div 3) = 2 * total_weight c div 3"
    using two by (simp add: unat_div)
  then show ?thesis
    using assms unat_add_no_wrap [of "2 * total_stake c div 3" 1] by (simp add: quorum_threshold_def)
qed

lemma unat_validity_threshold:
  assumes "2 * total_weight c < 2 ^ 32"
  shows "unat (validity_threshold c) = (total_weight c + 2) div 3"
proof -
  have "unat (total_stake c) = total_weight c" using assms by (intro unat_total_stake) simp
  then have "unat (total_stake c + 2) = total_weight c + 2"
    using assms unat_add_no_wrap [of "total_stake c" 2] by simp
  then show ?thesis by (simp add: validity_threshold_def unat_div)
qed

lemma quorum_overlap: "n + (n + 2) div 3 \<le> 2 * (2 * n div 3 + 1)" for n :: nat
  by presburger

lemma quorum_reach: "w < (n + 2) div 3 \<Longrightarrow> w + (2 * n div 3 + 1) \<le> n" for n :: nat
  by presburger

locale stake_quorums =
  fixes ok :: "'c \<Rightarrow> bool"
    and mem :: "'c \<Rightarrow> 'a set"
    and wt :: "'c \<Rightarrow> 'a \<Rightarrow> nat"
    and quorum :: "'c \<Rightarrow> nat"
    and validity :: "'c \<Rightarrow> nat"
  assumes finite: "finite (mem c)"
    and overlap: "ok c \<Longrightarrow> sum (wt c) (mem c) + validity c \<le> 2 * quorum c"
    and reach: "ok c \<Longrightarrow> w < validity c \<Longrightarrow> w + quorum c \<le> sum (wt c) (mem c)"
begin

lemma intersection:
  assumes "ok c" and A: "A \<subseteq> mem c" and B: "B \<subseteq> mem c"
    and qA: "quorum c \<le> sum (wt c) A" and qB: "quorum c \<le> sum (wt c) B"
  shows "validity c \<le> sum (wt c) (A \<inter> B)"
proof -
  have fA: "finite A" and fB: "finite B" using A B finite finite_subset by blast+
  have "sum (wt c) (A \<union> B) + sum (wt c) (A \<inter> B) = sum (wt c) A + sum (wt c) B"
    using fA fB by (rule sum.union_inter)
  moreover have "sum (wt c) (A \<union> B) \<le> sum (wt c) (mem c)"
    using A B by (intro sum_mono2 finite) auto
  moreover note overlap [OF \<open>ok c\<close>]
  ultimately show ?thesis using qA qB by linarith
qed

lemma honest_voter:
  assumes "ok c" and "A \<subseteq> mem c" and "B \<subseteq> mem c"
    and "quorum c \<le> sum (wt c) A" and "quorum c \<le> sum (wt c) B"
    and F: "sum (wt c) (F \<inter> mem c) < validity c"
  shows "\<exists>a \<in> A \<inter> B. a \<notin> F"
proof (rule ccontr)
  assume "\<not> ?thesis"
  then have "A \<inter> B \<subseteq> F \<inter> mem c" using assms by auto
  then have "sum (wt c) (A \<inter> B) \<le> sum (wt c) (F \<inter> mem c)"
    by (intro sum_mono2) (auto simp: finite)
  with F intersection [OF assms(1-5)] show False by linarith
qed

lemma honest_quorum:
  assumes "ok c" and F: "F \<subseteq> mem c" and "sum (wt c) F < validity c"
  shows "quorum c \<le> sum (wt c) (mem c - F)"
proof -
  have "sum (wt c) (mem c - F) + sum (wt c) F = sum (wt c) (mem c)"
    using sum.subset_diff [OF F finite, of "wt c"] by simp
  with reach [OF \<open>ok c\<close> assms(3)] show ?thesis by linarith
qed

end

interpretation quorums: stake_quorums committee_ok members voting_weight
  "\<lambda>c. unat (quorum_threshold c)" "\<lambda>c. unat (validity_threshold c)"
proof
  fix c w
  assume ok: "committee_ok c"
  then have q: "unat (quorum_threshold c) = 2 * total_weight c div 3 + 1"
    and v: "unat (validity_threshold c) = (total_weight c + 2) div 3"
    and t: "total_weight c = sum (voting_weight c) (members c)"
    unfolding committee_ok_def
    by (auto simp only: unat_quorum_threshold unat_validity_threshold total_weight_members)
  show "sum (voting_weight c) (members c) + unat (validity_threshold c) \<le> 2 * unat (quorum_threshold c)"
    unfolding q v t [symmetric] by (rule quorum_overlap)
  assume "w < unat (validity_threshold c)"
  then show "w + unat (quorum_threshold c) \<le> sum (voting_weight c) (members c)"
    unfolding q v t [symmetric] by (rule quorum_reach)
qed simp

text \<open>Outsiders have no stake, so no set of voters outweighs the committee.\<close>

lemma weight_le_total:
  assumes "committee_ok c" and "finite A"
  shows "sum (voting_weight c) A \<le> total_weight c"
proof -
  have "sum (voting_weight c) A = sum (voting_weight c) (A \<inter> members c)"
    using assms(2) by (intro sum.mono_neutral_right) (auto simp: voting_weight_def stake_of_outside)
  also have "\<dots> \<le> sum (voting_weight c) (members c)" by (intro sum_mono2) auto
  finally show ?thesis using assms(1) by (simp add: committee_ok_def total_weight_members)
qed

lemma thresholds:
  assumes "committee_ok c"
  shows "unat (quorum_threshold c) = 2 * total_weight c div 3 + 1"
    and "unat (validity_threshold c) = (total_weight c + 2) div 3"
    and "unat (fast_threshold c) = total_weight c"
  using assms unat_quorum_threshold [of c] unat_validity_threshold [of c] unat_total_stake [of c]
  by (simp_all add: committee_ok_def fast_threshold_def)

lemma quorum_le_all: "0 < n \<Longrightarrow> 2 * n div 3 + 1 \<le> n" for n :: nat
  by presburger

lemma quorum_le_fast:
  assumes "committee_ok c"
  shows "unat (quorum_threshold c) \<le> unat (fast_threshold c)"
  using assms unfolding thresholds [OF assms] committee_ok_def by (intro quorum_le_all) simp

lemma weight_word:
  assumes "committee_ok c" and "finite A"
  shows "sum (voting_weight c) A < 2 ^ 32"
  using weight_le_total [OF assms] assms(1) by (simp add: committee_ok_def)

section \<open>Properties of the committee\<close>

lemma committee_new_loop_wf:
  "committee_wf c \<Longrightarrow> committee_wf (committee_new_loop i info c)"
  by (induction i info c rule: committee_new_loop.induct)
    (auto simp: committee_wf_def sorted_bt_insert)

lemma committee_new_wf: "committee_wf (committee_new info)"
  unfolding committee_new_def by (rule committee_new_loop_wf) (simp add: committee_wf_def)

lemma members_committee_new_loop:
  "members (committee_new_loop i info c) = members c \<union> fst ` set info"
proof (induction i info c rule: committee_new_loop.induct)
  case (2 i name st address info c)
  then show ?case using keys_bt_insert [of name "new_authority st address" "authorities c"]
    by (auto simp: members_def)
qed simp

lemma members_committee_new: "members (committee_new info) = fst ` set info"
  by (simp add: committee_new_def members_committee_new_loop) (simp add: members_def)

section \<open>A concrete committee\<close>

definition sample_address :: socket_addr where
  "sample_address = SocketAddr [127, 0, 0, 1] 8000"

definition sample_committee :: committee where
  "sample_committee = committee_new
     [(PublicKey 1, 1, sample_address), (PublicKey 2, 1, sample_address),
      (PublicKey 3, 1, sample_address), (PublicKey 4, 1, sample_address)]"

lemma sample_authorities: "authorities sample_committee =
    map (\<lambda>k. (PublicKey k, new_authority 1 sample_address)) [1, 2, 3, 4]"
  by (simp add: sample_committee_def committee_new_def less_public_key_def)

lemma sample_total: "total_weight sample_committee = 4"
  by (simp add: total_weight_def sample_authorities new_authority_def)

lemma sample_ok: "committee_ok sample_committee"
  by (simp add: committee_ok_def sample_total committee_wf_def sample_authorities less_public_key_def)

lemma sample_weight:
  "voting_weight sample_committee (PublicKey k) = (if k \<in> {1, 2, 3, 4} then 1 else 0)"
  by (simp add: voting_weight_def stake_of_def sample_authorities new_authority_def)

lemma sample_thresholds:
  "unat (quorum_threshold sample_committee) = 3" "unat (validity_threshold sample_committee) = 2"
  by (simp_all add: thresholds [OF sample_ok] sample_total)

lemma sample_members: "members sample_committee = {PublicKey 1, PublicKey 2, PublicKey 3, PublicKey 4}"
  by (simp add: sample_committee_def members_committee_new insert_commute)

text \<open>
  C23: \<open>Committee::new\<close> yields a well-formed committee with exactly the given members; the
  thresholds of a committee of total stake \<open>N\<close> (with \<open>0 < N\<close> and \<open>2 N\<close> below \<open>2^32\<close>) are
  \<open>2N/3 + 1\<close> and \<open>(N + 2)/3\<close>, and all stake but a minority below the validity threshold
  still reaches a quorum.
\<close>

theorem committee_thresholds:
  assumes "c = committee_new info" and "0 < total_weight c" and "2 * total_weight c < 2 ^ 32"
  shows "committee_wf c \<and> members c = fst ` set info \<and>
    unat (quorum_threshold c) = 2 * total_weight c div 3 + 1 \<and>
    unat (validity_threshold c) = (total_weight c + 2) div 3 \<and>
    (\<forall>F. F \<subseteq> members c \<and> sum (voting_weight c) F < unat (validity_threshold c) \<longrightarrow>
       unat (quorum_threshold c) \<le> sum (voting_weight c) (members c - F))"
proof -
  have ok: "committee_ok c" using assms by (simp add: committee_ok_def committee_new_wf)
  show ?thesis
    using ok assms(1) thresholds [OF ok] quorums.honest_quorum [OF ok]
    by (auto simp: members_committee_new committee_new_wf)
qed

theorem committee_thresholds_witness:
  "unat (quorum_threshold sample_committee) = 3 \<and> unat (validity_threshold sample_committee) = 2"
  using committee_thresholds [OF sample_committee_def] by (simp add: sample_total)

text \<open>
  two sets of members that each reach the quorum threshold share members whose stake
  reaches the validity threshold; if the faulty members stay below it, one of the shared
  members is honest.
\<close>

theorem quorum_intersection:
  assumes "committee_ok c" and "A \<subseteq> members c" and "B \<subseteq> members c"
    and "unat (quorum_threshold c) \<le> sum (voting_weight c) A"
    and "unat (quorum_threshold c) \<le> sum (voting_weight c) B"
  shows "unat (validity_threshold c) \<le> sum (voting_weight c) (A \<inter> B) \<and>
    (\<forall>F. sum (voting_weight c) (F \<inter> members c) < unat (validity_threshold c) \<longrightarrow>
       (\<exists>a \<in> A \<inter> B. a \<notin> F))"
  using quorums.intersection [OF assms] quorums.honest_voter [OF assms] by blast

theorem quorum_intersection_witness:
  "\<exists>a \<in> {PublicKey 1, PublicKey 2, PublicKey 3} \<inter> {PublicKey 2, PublicKey 3, PublicKey 4}.
     a \<notin> {PublicKey 2}"
  using quorum_intersection [OF sample_ok, of "{PublicKey 1, PublicKey 2, PublicKey 3}"
      "{PublicKey 2, PublicKey 3, PublicKey 4}"]
  by (simp add: sample_members sample_weight sample_thresholds)

text \<open>
  the product \<open>2 * total_votes\<close> of \<open>quorum_threshold\<close> wraps: two authorities of stake
  \<open>2^30\<close> each make the quorum threshold 1, below either stake and below the validity
  threshold, so a single authority is a quorum.
\<close>

theorem quorum_threshold_wraps:
  "let c = committee_new [(PublicKey 1, 2 ^ 30, sample_address), (PublicKey 2, 2 ^ 30, sample_address)] in
   quorum_threshold c = 1 \<and> quorum_threshold c < validity_threshold c \<and>
   quorum_threshold c < stake_of c (PublicKey 1)"
  by (simp add: committee_new_def less_public_key_def quorum_threshold_def validity_threshold_def
      total_stake_def stake_of_def new_authority_def)

end
