(* ===== verification/Messages.thy ===== *)
theory Messages
  imports Config
begin

text \<open>
  The messages of the primary (\<open>primary/src/messages.rs\<close>), their digests, their hand-written
  \<open>PartialEq\<close> instances and the errors of \<open>primary/src/error.rs\<close>.

  A digest is \<open>hash32\<close> of an input byte list; the input of each message has its own
  definition, so that what a signature binds can be stated without any assumption on the
  hash. A \<open>HashMap\<close> is an association list in iteration order, a \<open>String\<close> its UTF-8 bytes.
\<close>

type_synonym height = u64
type_synonym view = u64
type_synonym slot = u64

section \<open>Data\<close>

record proposal =
  prop_digest :: digest
  prop_height :: height

type_synonym proposals = "(public_key \<times> proposal) list"

record qc =
  qc_id :: digest
  qc_votes :: "(public_key \<times> signature) list"

record state_report =
  sr_epoch :: u64
  sr_state :: "u8 list"
  sr_author :: public_key
  sr_signature :: signature

record aggregate_report =
  ar_epoch :: u64
  ar_reports :: "state_report list"

record commit_qc =
  cq_slot :: slot
  cq_view :: view
  cq_qc :: qc
  cq_proposals :: proposals
  cq_report :: "aggregate_report option"

datatype consensus_message =
    Prepare (cm_slot: slot) (cm_view: view) (cm_tc: "tc option") (cm_ticket: "commit_qc option")
      (cm_proposals: proposals) (cm_report: "aggregate_report option")
  | Confirm (cm_slot: slot) (cm_view: view) (cm_qc: qc)
      (cm_proposals: proposals) (cm_report: "aggregate_report option")
  | Commit (cm_slot: slot) (cm_view: view) (cm_qc: qc)
      (cm_proposals: proposals) (cm_report: "aggregate_report option")
and tc = TC (tc_slot: slot) (tc_view: view) (tc_timeouts: "timeout list")
and timeout = Timeout (to_slot: slot) (to_view: view)
      (to_high_qc: "consensus_message option") (to_high_prop: "consensus_message option")
      (to_author: public_key) (to_signature: signature)

record certificate =
  cert_author :: public_key
  cert_header_digest :: digest
  cert_height :: height
  cert_votes :: "(public_key \<times> signature) list"

record batch_metadata =
  bm_author :: public_key
  bm_sample_tx_ids :: "u64 list"
  bm_sample_tx_timestamps :: "128 word list"
  bm_sample_tx_sizes :: "u64 list"
  bm_transaction_count :: u64
  bm_batch_size :: u64
  bm_avg_transaction_size :: u64

record header =
  hd_author :: public_key
  hd_height :: height
  hd_payload :: "(digest \<times> worker_id) list"
  hd_parent_cert :: certificate
  hd_id :: digest
  hd_signature :: signature
  hd_consensus_messages :: "(digest \<times> consensus_message) list"
  hd_num_active_instances :: u64
  hd_special :: bool
  hd_batch_metadata :: "(digest \<times> batch_metadata) list"

record consensus_request =
  cr_author :: public_key
  cr_message :: consensus_message
  cr_sig :: signature

record consensus_vote =
  cv_author :: public_key
  cv_slot :: slot
  cv_digest :: digest
  cv_sig :: signature

record vote =
  vt_id :: digest
  vt_height :: height
  vt_origin :: public_key
  vt_author :: public_key
  vt_signature :: signature
  vt_consensus_votes :: "(slot \<times> digest \<times> signature) list"

text \<open>\<open>#[derive(Default)]\<close>.\<close>

definition default_qc :: qc where
  "default_qc = \<lparr>qc_id = default_digest, qc_votes = []\<rparr>"

definition default_tc :: tc where
  "default_tc = TC 0 0 []"

definition default_certificate :: certificate where
  "default_certificate = \<lparr>cert_author = default_key, cert_header_digest = default_digest,
     cert_height = 0, cert_votes = []\<rparr>"

definition default_header :: header where
  "default_header = \<lparr>hd_author = default_key, hd_height = 0, hd_payload = [],
     hd_parent_cert = default_certificate, hd_id = default_digest,
     hd_signature = default_signature, hd_consensus_messages = [], hd_num_active_instances = 0,
     hd_special = False, hd_batch_metadata = []\<rparr>"

definition transform_commitQC :: "commit_qc \<Rightarrow> consensus_message" where
  "transform_commitQC c = Commit (cq_slot c) (cq_view c) (cq_qc c) (cq_proposals c) (cq_report c)"

section \<open>Errors\<close>

datatype dag_error =
    DagInvalidSignature crypto_error
  | DagStoreError
  | DagSerializationError
  | InvalidHeaderId
  | MalformedHeader digest
  | MalformedSpecialHeader digest
  | DagUnknownAuthority public_key
  | DagAuthorityReuse public_key
  | UnexpectedVote digest
  | CertificateRequiresQuorum
  | HeaderRequiresQuorum digest
  | HeaderTooOld digest height
  | VoteTooOld digest height
  | CertificateTooOld digest height
  | InvalidVoteInvalidation
  | InvalidSpecialParent
  | InvalidSlowQCRequest
  | CarAlreadySatisfied
  | InvalidQCTicket
  | DagChannelError string

datatype consensus_error =
    NetworkError
  | SerializationError
  | StoreError
  | ConsensusNotInCommittee public_key
  | InvalidSignature crypto_error
  | AuthorityReuse public_key
  | UnknownAuthority public_key
  | QCRequiresQuorum
  | TCRequiresQuorum
  | MalformedBlock digest
  | WrongLeader digest public_key view
  | InvalidPayload
  | TooOld digest view
  | AlreadyVoted digest view
  | FromDagError dag_error
  | WrongProposer
  | NonMonotonicRounds height height
  | InvalidHeader
  | InvalidTimeout timeout
  | InvalidTicket
  | UncommittedParentTicket
  | MissingParentTicketHeader
  | ChannelError string

section \<open>Digests\<close>

definition proposal_input :: "proposal \<Rightarrow> u8 list" where
  "proposal_input p = digest_bytes (prop_digest p) @ le_bytes 8 (prop_height p)"

definition proposal_digest_of :: "'p prims_scheme \<Rightarrow> proposal \<Rightarrow> digest" where
  "proposal_digest_of P p = hash32 P (proposal_input p)"

definition report_input :: "u64 \<Rightarrow> u8 list \<Rightarrow> u8 list" where
  "report_input epoch state = le_bytes 8 epoch @ state"

definition report_digest :: "'p prims_scheme \<Rightarrow> state_report \<Rightarrow> digest" where
  "report_digest P r = hash32 P (report_input (sr_epoch r) (sr_state r))"

definition aggregate_input :: "'p prims_scheme \<Rightarrow> aggregate_report \<Rightarrow> u8 list" where
  "aggregate_input P a =
     le_bytes 8 (ar_epoch a) @ concat (map (digest_bytes \<circ> report_digest P) (ar_reports a))"

definition aggregate_digest :: "'p prims_scheme \<Rightarrow> aggregate_report \<Rightarrow> digest" where
  "aggregate_digest P a = hash32 P (aggregate_input P a)"

definition prepare_input :: "'p prims_scheme \<Rightarrow> slot \<Rightarrow> view \<Rightarrow> aggregate_report option \<Rightarrow> u8 list" where
  "prepare_input P s v r = le_bytes 8 s @ le_bytes 8 v
     @ (case r of None \<Rightarrow> [] | Some a \<Rightarrow> digest_bytes (aggregate_digest P a)) @ [0]"

definition prepare_digest :: "'p prims_scheme \<Rightarrow> slot \<Rightarrow> view \<Rightarrow> aggregate_report option \<Rightarrow> digest" where
  "prepare_digest P s v r = hash32 P (prepare_input P s v r)"

text \<open>Tag 1 marks Confirm, tag 2 Commit; both hash the id of the QC they carry.\<close>

definition certified_input :: "slot \<Rightarrow> view \<Rightarrow> digest \<Rightarrow> u8 \<Rightarrow> u8 list" where
  "certified_input s v d tag = le_bytes 8 s @ le_bytes 8 v @ digest_bytes d @ [tag]"

definition confirm_digest :: "'p prims_scheme \<Rightarrow> slot \<Rightarrow> view \<Rightarrow> digest \<Rightarrow> digest" where
  "confirm_digest P s v prepare_id = hash32 P (certified_input s v prepare_id 1)"

fun message_digest :: "'p prims_scheme \<Rightarrow> consensus_message \<Rightarrow> digest" where
  "message_digest P (Prepare s v tc ticket ps r) = prepare_digest P s v r"
| "message_digest P (Confirm s v q ps r) = hash32 P (certified_input s v (qc_id q) 1)"
| "message_digest P (Commit s v q ps r) = hash32 P (certified_input s v (qc_id q) 2)"

definition proposal_digest :: "'p prims_scheme \<Rightarrow> consensus_message \<Rightarrow> digest" where
  "proposal_digest P m =
     hash32 P (concat (map (\<lambda>(_, p). digest_bytes (prop_digest p)) (cm_proposals m)))"

definition header_input :: "header \<Rightarrow> u8 list" where
  "header_input h = key_bytes (hd_author h) @ le_bytes 8 (hd_height h)
     @ concat (map (\<lambda>(x, y). digest_bytes x @ le_bytes 4 y) (hd_payload h))
     @ digest_bytes (cert_header_digest (hd_parent_cert h))"

definition header_digest :: "'p prims_scheme \<Rightarrow> header \<Rightarrow> digest" where
  "header_digest P h = hash32 P (header_input h)"

definition height_input :: "digest \<Rightarrow> height \<Rightarrow> u8 list" where
  "height_input d h = digest_bytes d @ le_bytes 8 h"

definition vote_digest :: "'p prims_scheme \<Rightarrow> vote \<Rightarrow> digest" where
  "vote_digest P v = hash32 P (height_input (vt_id v) (vt_height v))"

definition certificate_digest :: "'p prims_scheme \<Rightarrow> certificate \<Rightarrow> digest" where
  "certificate_digest P c = hash32 P (height_input (cert_header_digest c) (cert_height c))"

definition qc_digest :: "'p prims_scheme \<Rightarrow> qc \<Rightarrow> digest" where
  "qc_digest P q = hash32 P []"

text \<open>\<open>Timeout::digest\<close> feeds nothing to the hasher.\<close>

definition timeout_digest :: "'p prims_scheme \<Rightarrow> timeout \<Rightarrow> digest" where
  "timeout_digest P t = hash32 P []"

section \<open>Equality as the code defines it\<close>

definition eq_qc :: "qc \<Rightarrow> qc \<Rightarrow> bool" where
  "eq_qc a b = False"

definition eq_tc :: "tc \<Rightarrow> tc \<Rightarrow> bool" where
  "eq_tc a b = True"

definition eq_timeout :: "'p prims_scheme \<Rightarrow> timeout \<Rightarrow> timeout \<Rightarrow> bool" where
  "eq_timeout P a b = (timeout_digest P a = timeout_digest P b)"

definition eq_vote :: "'p prims_scheme \<Rightarrow> vote \<Rightarrow> vote \<Rightarrow> bool" where
  "eq_vote P a b = (vote_digest P a = vote_digest P b)"

definition eq_certificate :: "certificate \<Rightarrow> certificate \<Rightarrow> bool" where
  "eq_certificate a b = (cert_header_digest a = cert_header_digest b \<and> cert_height a = cert_height b)"

definition eq_header :: "header \<Rightarrow> header \<Rightarrow> bool" where
  "eq_header a b = (hd_id a = hd_id b)"

definition eq_proposal :: "proposal \<Rightarrow> proposal \<Rightarrow> bool" where
  "eq_proposal a b = (prop_height a = prop_height b \<and> prop_digest a = prop_digest b)"

definition eq_option :: "('a \<Rightarrow> 'a \<Rightarrow> bool) \<Rightarrow> 'a option \<Rightarrow> 'a option \<Rightarrow> bool" where
  "eq_option eq a b = (case (a, b) of (None, None) \<Rightarrow> True | (Some x, Some y) \<Rightarrow> eq x y | _ \<Rightarrow> False)"

definition eq_proposals :: "proposals \<Rightarrow> proposals \<Rightarrow> bool" where
  "eq_proposals a b \<longleftrightarrow> length a = length b \<and>
     list_all (\<lambda>(k, p). case map_of b k of None \<Rightarrow> False | Some p' \<Rightarrow> eq_proposal p p') a"

fun eq_message :: "'p prims_scheme \<Rightarrow> consensus_message \<Rightarrow> consensus_message \<Rightarrow> bool" where
  "eq_message P (Prepare s v tc ticket ps r) (Prepare s' v' tc' ticket' ps' r') \<longleftrightarrow>
     s = s' \<and> v = v' \<and> eq_option eq_tc tc tc' \<and> eq_proposals ps ps'
     \<and> map_option (aggregate_digest P) r = map_option (aggregate_digest P) r'"
| "eq_message P (Confirm s v q ps r) (Confirm s' v' q' ps' r') \<longleftrightarrow>
     s = s' \<and> v = v' \<and> eq_qc q q' \<and> eq_proposals ps ps'
     \<and> map_option (aggregate_digest P) r = map_option (aggregate_digest P) r'"
| "eq_message P (Commit s v q ps r) (Commit s' v' q' ps' r') \<longleftrightarrow>
     s = s' \<and> v = v' \<and> eq_qc q q' \<and> eq_proposals ps ps'
     \<and> map_option (aggregate_digest P) r = map_option (aggregate_digest P) r'"
| "eq_message P _ _ \<longleftrightarrow> False"

section \<open>Construction\<close>

text \<open>
  The signature service signs a digest with the node's secret key; \<open>request_signature\<close> is the
  parameter \<open>sign\<close> here.
\<close>

definition new_header :: "'p prims_scheme \<Rightarrow> (digest \<Rightarrow> signature) \<Rightarrow> public_key \<Rightarrow> height
    \<Rightarrow> (digest \<times> worker_id) list \<Rightarrow> (digest \<times> batch_metadata) list \<Rightarrow> certificate
    \<Rightarrow> (digest \<times> consensus_message) list \<Rightarrow> u64 \<Rightarrow> header" where
  "new_header P sign author height payload metadata parent instances num =
     (let h = \<lparr>hd_author = author, hd_height = height, hd_payload = payload,
                hd_parent_cert = parent, hd_id = default_digest, hd_signature = default_signature,
                hd_consensus_messages = instances, hd_num_active_instances = num,
                hd_special = False, hd_batch_metadata = metadata\<rparr>;
          i = header_digest P h
      in h\<lparr>hd_id := i, hd_signature := sign i\<rparr>)"

definition genesis_header_of :: "public_key \<Rightarrow> header" where
  "genesis_header_of pk = default_header\<lparr>hd_author := pk\<rparr>"

definition header_genesis :: "committee \<Rightarrow> (dag_error, header) outcome" where
  "header_genesis c = (case authorities c of [] \<Rightarrow> Panic | (name, _) # _ \<Rightarrow> Done (genesis_header_of name))"

definition genesis_headers :: "committee \<Rightarrow> (public_key \<times> header) list" where
  "genesis_headers c = map (\<lambda>(pk, _). (pk, genesis_header_of pk)) (authorities c)"

definition genesis_proposals :: "'p prims_scheme \<Rightarrow> committee \<Rightarrow> proposals" where
  "genesis_proposals P c = map (\<lambda>(pk, _).
     (pk, \<lparr>prop_digest = header_digest P (genesis_header_of pk), prop_height = 0\<rparr>)) (authorities c)"

definition genesis_certificate_of :: "'p prims_scheme \<Rightarrow> public_key \<Rightarrow> certificate" where
  "genesis_certificate_of P name = default_certificate
     \<lparr>cert_header_digest := header_digest P (genesis_header_of name), cert_author := name\<rparr>"

definition certificate_genesis :: "'p prims_scheme \<Rightarrow> committee \<Rightarrow> certificate list" where
  "certificate_genesis P c = map (genesis_certificate_of P \<circ> fst) (authorities c)"

definition genesis_certs :: "'p prims_scheme \<Rightarrow> committee \<Rightarrow> (public_key \<times> certificate) list" where
  "genesis_certs P c = map (\<lambda>(pk, _). (pk, genesis_certificate_of P pk)) (authorities c)"

definition genesis_cert :: "'p prims_scheme \<Rightarrow> committee \<Rightarrow> (dag_error, certificate) outcome" where
  "genesis_cert P c = bind_r (header_genesis c) (\<lambda>h.
     Done (default_certificate\<lparr>cert_header_digest := header_digest P h\<rparr>))"

definition new_request :: "'p prims_scheme \<Rightarrow> (digest \<Rightarrow> signature) \<Rightarrow> public_key \<Rightarrow> consensus_message \<Rightarrow> consensus_request" where
  "new_request P sign author m =
     \<lparr>cr_author = author, cr_message = m, cr_sig = sign (message_digest P m)\<rparr>"

definition new_report :: "'p prims_scheme \<Rightarrow> (digest \<Rightarrow> signature) \<Rightarrow> u64 \<Rightarrow> u8 list \<Rightarrow> public_key \<Rightarrow> state_report" where
  "new_report P sign epoch state author =
     \<lparr>sr_epoch = epoch, sr_state = state, sr_author = author,
      sr_signature = sign (hash32 P (report_input epoch state))\<rparr>"

text \<open>\<open>sort_by\<close> is stable, like \<open>sort_key\<close>.\<close>

definition new_aggregate :: "u64 \<Rightarrow> state_report list \<Rightarrow> aggregate_report" where
  "new_aggregate epoch reports = \<lparr>ar_epoch = epoch, ar_reports = sort_key sr_author reports\<rparr>"

definition new_consensus_vote :: "(digest \<Rightarrow> signature) \<Rightarrow> public_key \<Rightarrow> slot \<Rightarrow> digest \<Rightarrow> consensus_vote" where
  "new_consensus_vote sign author s d = \<lparr>cv_author = author, cv_slot = s, cv_digest = d, cv_sig = sign d\<rparr>"

definition new_vote :: "'p prims_scheme \<Rightarrow> (digest \<Rightarrow> signature) \<Rightarrow> header \<Rightarrow> public_key
    \<Rightarrow> (slot \<times> digest \<times> signature) list \<Rightarrow> vote" where
  "new_vote P sign h author cvs =
     (let v = \<lparr>vt_id = hd_id h, vt_height = hd_height h, vt_origin = hd_author h,
               vt_author = author, vt_signature = default_signature, vt_consensus_votes = cvs\<rparr>
      in v\<lparr>vt_signature := sign (vote_digest P v)\<rparr>)"

definition new_timeout :: "'p prims_scheme \<Rightarrow> (digest \<Rightarrow> signature) \<Rightarrow> slot \<Rightarrow> view
    \<Rightarrow> consensus_message option \<Rightarrow> consensus_message option \<Rightarrow> public_key \<Rightarrow> timeout" where
  "new_timeout P sign s v hqc hprop author =
     Timeout s v hqc hprop author (sign (timeout_digest P (Timeout s v hqc hprop author default_signature)))"

end
