(* ===== verification/Digests.thy ===== *)
theory Digests
  imports Messages
begin

text \<open>
  What the digests of \<open>primary/src/messages.rs\<close> bind. The facts are about the byte inputs of
  the hash, so they hold for every hash function; together with the absence of a collision
  among the inputs at hand they give injectivity of the digests.
\<close>

lemma length_prepare_input:
  "length (prepare_input P s v r) = (if r = None then 17 else 49)"
  by (simp add: prepare_input_def split: option.split)

lemma length_certified_input [simp]: "length (certified_input s v d tag) = 49"
  by (simp add: certified_input_def)

lemma length_height_input [simp]: "length (height_input d h) = 40"
  by (simp add: height_input_def)

lemma length_proposal_input [simp]: "length (proposal_input p) = 40"
  by (simp add: proposal_input_def)

lemma length_payload_bytes:
  "length (concat (map (\<lambda>(x, y). digest_bytes x @ le_bytes 4 (y :: u32)) xs)) = 36 * length xs"
  by (induction xs) auto

lemma length_header_input: "length (header_input h) = 72 + 36 * length (hd_payload h)"
  by (simp add: header_input_def length_payload_bytes)

lemma le_bytes_u64 [simp]: "le_bytes 8 (a :: u64) = le_bytes 8 b \<longleftrightarrow> a = b"
  by (rule le_bytes_inject) simp

lemma le_bytes_u32 [simp]: "le_bytes 4 (a :: u32) = le_bytes 4 b \<longleftrightarrow> a = b"
  by (rule le_bytes_inject) simp

lemma certified_input_inject:
  "certified_input s v d t = certified_input s' v' d' t' \<longleftrightarrow> s = s' \<and> v = v' \<and> d = d' \<and> t = t'"
  by (simp add: certified_input_def)

lemma height_input_inject: "height_input d h = height_input d' h' \<longleftrightarrow> d = d' \<and> h = h'"
  by (simp add: height_input_def)

lemma last_prepare_input: "last (prepare_input P s v r) = 0"
  by (simp add: prepare_input_def)

lemma last_certified_input: "last (certified_input s v d tag) = tag"
  by (simp add: certified_input_def)

lemma prepare_not_certified: "tag \<noteq> 0 \<Longrightarrow> prepare_input P s v r \<noteq> certified_input s' v' d tag"
  by (metis last_prepare_input last_certified_input)

lemma prepare_input_inject:
  "prepare_input P s v r = prepare_input P s' v' r' \<longleftrightarrow>
   s = s' \<and> v = v' \<and> map_option (aggregate_digest P) r = map_option (aggregate_digest P) r'"
proof
  assume eq: "prepare_input P s v r = prepare_input P s' v' r'"
  from eq have "length (prepare_input P s v r) = length (prepare_input P s' v' r')" by simp
  then have "(r = None) = (r' = None)" by (simp add: length_prepare_input split: if_splits)
  with eq show "s = s' \<and> v = v' \<and>
      map_option (aggregate_digest P) r = map_option (aggregate_digest P) r'"
    by (cases r; cases r') (auto simp: prepare_input_def)
qed (auto simp: prepare_input_def split: option.splits)

lemma payload_bytes_inject:
  "length xs = length ys \<Longrightarrow>
   concat (map (\<lambda>(x, y). digest_bytes x @ le_bytes 4 (y :: u32)) xs)
     = concat (map (\<lambda>(x, y). digest_bytes x @ le_bytes 4 y) ys) \<longleftrightarrow> xs = ys"
  by (induction xs ys rule: list_induct2) auto

lemma header_input_inject:
  "header_input h = header_input h' \<longleftrightarrow>
   hd_author h = hd_author h' \<and> hd_height h = hd_height h' \<and> hd_payload h = hd_payload h' \<and>
   cert_header_digest (hd_parent_cert h) = cert_header_digest (hd_parent_cert h')"
proof
  assume eq: "header_input h = header_input h'"
  then have "length (header_input h) = length (header_input h')" by simp
  then have len: "length (hd_payload h) = length (hd_payload h')"
    by (simp add: length_header_input)
  with eq show "hd_author h = hd_author h' \<and> hd_height h = hd_height h' \<and> hd_payload h = hd_payload h' \<and>
      cert_header_digest (hd_parent_cert h) = cert_header_digest (hd_parent_cert h')"
    by (auto simp: header_input_def length_payload_bytes payload_bytes_inject)
qed (simp add: header_input_def)

text \<open>The byte inputs of the digests a node signs for the consensus and the dissemination.\<close>

fun message_input :: "'p prims_scheme \<Rightarrow> consensus_message \<Rightarrow> u8 list" where
  "message_input P (Prepare s v tc ticket ps r) = prepare_input P s v r"
| "message_input P (Confirm s v q ps r) = certified_input s v (qc_id q) 1"
| "message_input P (Commit s v q ps r) = certified_input s v (qc_id q) 2"

lemma message_digest_input: "message_digest P m = hash32 P (message_input P m)"
  by (cases m) (simp_all add: prepare_digest_def)

lemma length_message_input: "length (message_input P m) \<in> {17, 49}"
  by (cases m) (simp_all add: length_prepare_input)

text \<open>The part of a message its digest determines: not the proposals, the ticket or the TC.\<close>

fun bound_part :: "'p prims_scheme \<Rightarrow> consensus_message \<Rightarrow> u8 \<times> slot \<times> view \<times> digest option" where
  "bound_part P (Prepare s v tc ticket ps r) = (0, s, v, map_option (aggregate_digest P) r)"
| "bound_part P (Confirm s v q ps r) = (1, s, v, Some (qc_id q))"
| "bound_part P (Commit s v q ps r) = (2, s, v, Some (qc_id q))"

lemma message_input_inject:
  "message_input P m = message_input P m' \<longleftrightarrow> bound_part P m = bound_part P m'"
  by (cases m; cases m')
    (auto simp: prepare_input_inject certified_input_inject prepare_not_certified
      prepare_not_certified [symmetric])

lemma message_digest_bound:
  "bound_part P m = bound_part P m' \<Longrightarrow> message_digest P m = message_digest P m'"
  by (simp add: message_digest_input message_input_inject [symmetric])

text \<open>
  a consensus message's digest binds exactly kind, slot, view and, for a Prepare, the
  digest of its aggregate report (for Confirm and Commit the id of their QC), whenever the
  hash has no collision on the two inputs. The proposals are not bound.
\<close>

theorem message_digest_binds:
  assumes "inj_on (hash32 P) {message_input P m, message_input P m'}"
  shows "message_digest P m = message_digest P m' \<longleftrightarrow> bound_part P m = bound_part P m'"
  using assms by (auto simp: message_digest_input message_input_inject [symmetric] inj_on_eq_iff)

theorem message_digest_binds_witness:
  "message_digest sample_prims (Prepare 1 2 None None [] None)
   \<noteq> message_digest sample_prims (Confirm 1 2 default_qc [] None)"
proof -
  have "inj_on (hash32 sample_prims) {message_input sample_prims (Prepare 1 2 None None [] None),
      message_input sample_prims (Confirm 1 2 default_qc [] None)}"
    by (simp add: inj_on_def length_prepare_input hash32_def sample_prims_def)
  from message_digest_binds [OF this] show ?thesis by simp
qed

text \<open>
  a header's id binds its author, height, payload and the header digest of its parent
  certificate; a vote's or certificate's digest binds header id and height; and a header id
  never coincides with a vote digest or a consensus digest. All up to a hash collision on the
  inputs concerned. Consensus messages and batch metadata of a header are not bound.
\<close>

theorem header_digest_binds:
  assumes "inj_on (hash32 P) {header_input h, header_input h', height_input d x, message_input P m}"
  shows "(header_digest P h = header_digest P h' \<longleftrightarrow>
      hd_author h = hd_author h' \<and> hd_height h = hd_height h' \<and> hd_payload h = hd_payload h' \<and>
      cert_header_digest (hd_parent_cert h) = cert_header_digest (hd_parent_cert h')) \<and>
    header_digest P h \<noteq> hash32 P (height_input d x) \<and>
    header_digest P h \<noteq> message_digest P m \<and>
    hash32 P (height_input d x) \<noteq> message_digest P m"
proof -
  have "length (header_input h) \<noteq> length (height_input d x)" by (simp add: length_header_input)
  then have "header_input h \<noteq> height_input d x" by metis
  moreover have "length (header_input h) \<noteq> length (message_input P m)"
    using length_message_input [of P m] unfolding length_header_input by auto
  then have "header_input h \<noteq> message_input P m" by metis
  moreover have "length (height_input d x) \<noteq> length (message_input P m)"
    using length_message_input [of P m] unfolding length_height_input by auto
  then have "height_input d x \<noteq> message_input P m" by metis
  moreover note eq = inj_on_eq_iff [OF assms]
  ultimately show ?thesis
    by (simp add: header_digest_def message_digest_input header_input_inject [symmetric] eq)
qed

theorem header_digest_binds_witness:
  "header_digest sample_prims (genesis_header_of (PublicKey 1))
   \<noteq> message_digest sample_prims (Confirm 1 2 default_qc [] None)"
proof -
  have "inj_on (hash32 sample_prims) {header_input (genesis_header_of (PublicKey 1)),
      header_input (genesis_header_of (PublicKey 1)), height_input default_digest 0,
      message_input sample_prims (Confirm 1 2 default_qc [] None)}"
    by (simp add: inj_on_def hash32_def sample_prims_def length_header_input
        genesis_header_of_def default_header_def)
  from header_digest_binds [OF this] show ?thesis by simp
qed

end
