(* ===== verification/Verify.thy ===== *)
theory Verify
  imports Digests
begin

text \<open>
  Verification of received messages (\<open>primary/src/messages.rs\<close>): headers, votes, certificates,
  QCs, TCs, state reports, and the free functions \<open>verify_commit\<close> and \<open>verify_confirm\<close>.

  The voter loops of \<open>QC::verify\<close>, \<open>TC::verify\<close> and \<open>Certificate::verify\<close> differ only in
  their error constructors: they are one \<open>tally\<close>. \<open>tally_Done\<close> says when it succeeds, and
  \<open>voters_weight\<close> connects its wrapping \<open>u32\<close> weight with the weight of the voter set.
\<close>

section \<open>The voter loop\<close>

fun tally :: "(public_key \<Rightarrow> 'e) \<Rightarrow> (public_key \<Rightarrow> 'e) \<Rightarrow> committee \<Rightarrow> public_key list
    \<Rightarrow> public_key set \<Rightarrow> stake \<Rightarrow> ('e, stake) outcome" where
  "tally reuse unknown c [] used weight = Done weight"
| "tally reuse unknown c (name # names) used weight =
     then_r (ensure_r (name \<notin> used) (reuse name))
     (let voting_rights = stake_of c name in
      then_r (ensure_r (voting_rights > 0) (unknown name))
        (tally reuse unknown c names (insert name used) (weight + voting_rights)))"

definition qc_verify :: "'p prims_scheme \<Rightarrow> committee \<Rightarrow> qc \<Rightarrow> (consensus_error, unit) outcome" where
  "qc_verify P c q =
     (if eq_qc default_qc q then Done ()
      else bind_r (tally AuthorityReuse UnknownAuthority c (map fst (qc_votes q)) {} 0) (\<lambda>weight.
           then_r (ensure_r (weight \<ge> quorum_threshold c) QCRequiresQuorum)
             (map_err InvalidSignature (verify_batch P (qc_id q) (qc_votes q)))))"

definition certificate_verify :: "'p prims_scheme \<Rightarrow> committee \<Rightarrow> certificate \<Rightarrow> (dag_error, unit) outcome" where
  "certificate_verify P c cert =
     (if list_ex (\<lambda>g. eq_certificate g cert) (certificate_genesis P c) then Done ()
      else bind_r (tally DagAuthorityReuse DagUnknownAuthority c (map fst (cert_votes cert)) {} 0) (\<lambda>weight.
           then_r (ensure_r (weight \<ge> quorum_threshold c) CertificateRequiresQuorum)
             (map_err DagInvalidSignature
               (verify_batch_multi P
                 (map (\<lambda>_. hash32 P (height_input (cert_header_digest cert) (cert_height cert))) (cert_votes cert))
                 (cert_votes cert)))))"

definition header_verify :: "'p prims_scheme \<Rightarrow> committee \<Rightarrow> header \<Rightarrow> (dag_error, unit) outcome" where
  "header_verify P c h =
     then_r (ensure_r (header_digest P h = hd_id h) InvalidHeaderId)
     (then_r (ensure_r (stake_of c (hd_author h) > 0) (DagUnknownAuthority (hd_author h)))
     (then_r (each_r (\<lambda>worker_id. bind_r (map_err (\<lambda>_. MalformedHeader (hd_id h))
                 (worker_of c (hd_author h) worker_id)) (\<lambda>_. Done ())) (map snd (hd_payload h)))
       (map_err DagInvalidSignature (sig_verify P (hd_signature h) (hd_id h) (hd_author h)))))"

text \<open>The stake check and signature check shared by requests, votes and timeouts.\<close>

definition signed_by_member :: "'p prims_scheme \<Rightarrow> committee \<Rightarrow> public_key \<Rightarrow> digest \<Rightarrow> signature \<Rightarrow> (dag_error, unit) outcome" where
  "signed_by_member P c author d s =
     then_r (ensure_r (stake_of c author > 0) (DagUnknownAuthority author))
       (map_err DagInvalidSignature (sig_verify P s d author))"

definition request_verify :: "'p prims_scheme \<Rightarrow> committee \<Rightarrow> consensus_request \<Rightarrow> (dag_error, unit) outcome" where
  "request_verify P c r = signed_by_member P c (cr_author r) (message_digest P (cr_message r)) (cr_sig r)"

definition report_verify :: "'p prims_scheme \<Rightarrow> committee \<Rightarrow> state_report \<Rightarrow> (dag_error, unit) outcome" where
  "report_verify P c r =
     (if stake_of c (sr_author r) = 0 then Fail (DagUnknownAuthority (sr_author r))
      else map_err DagInvalidSignature (sig_verify P (sr_signature r) (report_digest P r) (sr_author r)))"

fun aggregate_loop :: "'p prims_scheme \<Rightarrow> committee \<Rightarrow> u64 \<Rightarrow> state_report list \<Rightarrow> public_key set \<Rightarrow> (dag_error, unit) outcome" where
  "aggregate_loop P c e [] seen = Done ()"
| "aggregate_loop P c e (r # rs) seen =
     then_r (ensure_r (sr_epoch r = e) InvalidQCTicket)
     (then_r (report_verify P c r)
     (then_r (ensure_r (sr_author r \<notin> seen) (DagAuthorityReuse (sr_author r)))
       (aggregate_loop P c e rs (insert (sr_author r) seen))))"

definition aggregate_verify :: "'p prims_scheme \<Rightarrow> committee \<Rightarrow> aggregate_report \<Rightarrow> u64 \<Rightarrow> (dag_error, unit) outcome" where
  "aggregate_verify P c a expected_epoch =
     (if ar_epoch a \<noteq> expected_epoch then Fail InvalidQCTicket
      else aggregate_loop P c (ar_epoch a) (ar_reports a) {})"

definition consensus_vote_verify :: "'p prims_scheme \<Rightarrow> committee \<Rightarrow> consensus_vote \<Rightarrow> (dag_error, unit) outcome" where
  "consensus_vote_verify P c v = signed_by_member P c (cv_author v) (cv_digest v) (cv_sig v)"

definition vote_verify :: "'p prims_scheme \<Rightarrow> committee \<Rightarrow> vote \<Rightarrow> (dag_error, unit) outcome" where
  "vote_verify P c v = signed_by_member P c (vt_author v) (vote_digest P v) (vt_signature v)"

definition timeout_verify :: "'p prims_scheme \<Rightarrow> committee \<Rightarrow> timeout \<Rightarrow> (dag_error, unit) outcome" where
  "timeout_verify P c t = signed_by_member P c (to_author t) (timeout_digest P t) (to_signature t)"

definition tc_verify :: "'p prims_scheme \<Rightarrow> committee \<Rightarrow> tc \<Rightarrow> (consensus_error, unit) outcome" where
  "tc_verify P c t =
     (if eq_tc default_tc t then Done ()
      else bind_r (tally AuthorityReuse UnknownAuthority c (map to_author (tc_timeouts t)) {} 0) (\<lambda>weight.
           then_r (ensure_r (weight \<ge> quorum_threshold c) TCRequiresQuorum)
             (map_err FromDagError (each_r (timeout_verify P c) (tc_timeouts t)))))"

definition is_ok :: "('e, 'a) outcome \<Rightarrow> bool" where
  "is_ok r = (case r of Done _ \<Rightarrow> True | _ \<Rightarrow> False)"

fun verify_commit :: "'p prims_scheme \<Rightarrow> committee \<Rightarrow> consensus_message \<Rightarrow> bool" where
  "verify_commit P c (Commit s v q ps r) =
     (let prepare_id = prepare_digest P s v r in
      if length (qc_votes q) = committee_size c
      then (if prepare_id \<noteq> qc_id q then False else is_ok (qc_verify P c q))
      else let confirm_id = confirm_digest P s v prepare_id in
           if confirm_id \<noteq> qc_id q then False else is_ok (qc_verify P c q))"
| "verify_commit P c _ = False"

fun verify_confirm :: "'p prims_scheme \<Rightarrow> committee \<Rightarrow> consensus_message \<Rightarrow> bool" where
  "verify_confirm P c (Confirm s v q ps r) =
     (let prepare_id = prepare_digest P s v r in
      if prepare_id \<noteq> qc_id q then False else is_ok (qc_verify P c q))"
| "verify_confirm P c _ = False"

definition valid_weight :: "committee \<Rightarrow> certificate \<Rightarrow> stake" where
  "valid_weight c cert = sum_list (map (\<lambda>(author, _). stake_of c author * 1) (cert_votes cert))"

definition is_special_valid :: "committee \<Rightarrow> certificate \<Rightarrow> bool" where
  "is_special_valid c cert \<longleftrightarrow> valid_weight c cert \<ge> quorum_threshold c"

definition is_special_fast :: "committee \<Rightarrow> certificate \<Rightarrow> bool" where
  "is_special_fast c cert \<longleftrightarrow> valid_weight c cert \<ge> fast_threshold c"

section \<open>Lemmas\<close>

lemma is_ok_Done: "is_ok (r :: ('e, unit) outcome) \<longleftrightarrow> r = Done ()"
  by (cases r) (auto simp: is_ok_def)

lemma map_err_unit [simp]: "map_err f r = Done u \<longleftrightarrow> (r :: ('e, unit) outcome) = Done ()"
  by simp

definition voters_ok :: "committee \<Rightarrow> public_key list \<Rightarrow> bool" where
  "voters_ok c names \<longleftrightarrow> distinct names \<and> (\<forall>n \<in> set names. 0 < stake_of c n)"

lemma tally_Done:
  "tally reuse unknown c names used w = Done w' \<longleftrightarrow>
   voters_ok c names \<and> set names \<inter> used = {} \<and> w' = w + sum_list (map (stake_of c) names)"
  by (induction reuse unknown c names used w rule: tally.induct)
    (auto simp: voters_ok_def Let_def add.assoc)

lemma tally_no_panic: "tally reuse unknown c names used w \<noteq> Panic"
  by (induction reuse unknown c names used w rule: tally.induct)
    (auto simp: then_r_def bind_r_def ensure_r_def Let_def)

lemma voters_members: "voters_ok c names \<Longrightarrow> set names \<subseteq> members c"
  by (auto simp: voters_ok_def dest: stake_of_member_pos)

lemma voters_weight:
  assumes "committee_ok c" and "voters_ok c names"
  shows "unat (sum_list (map (stake_of c) names)) = sum (voting_weight c) (set names)"
proof -
  have eq: "sum_list (map unat (map (stake_of c) names)) = sum (voting_weight c) (set names)"
    using assms(2) by (simp add: voters_ok_def voting_weight_def sum_list_distinct_conv_sum_set o_def)
  have "sum (voting_weight c) (set names) \<le> sum (voting_weight c) (members c)"
    using voters_members [OF assms(2)] by (intro sum_mono2) auto
  also have "\<dots> = total_weight c" using assms(1) by (simp add: committee_ok_def total_weight_members)
  also have "\<dots> < 2 ^ 32" using assms(1) by (simp add: committee_ok_def)
  finally have "sum_list (map unat (map (stake_of c) names)) < 2 ^ LENGTH(32)" using eq by simp
  from unat_sum_list [OF this] eq show ?thesis by simp
qed

lemma voters_quorum:
  assumes "committee_ok c" and "voters_ok c names"
  shows "quorum_threshold c \<le> sum_list (map (stake_of c) names) \<longleftrightarrow>
    unat (quorum_threshold c) \<le> sum (voting_weight c) (set names)"
  by (simp add: word_le_nat_alt voters_weight [OF assms])

lemma qc_verify_Done:
  "qc_verify P c q = Done () \<longleftrightarrow>
   voters_ok c (map fst (qc_votes q)) \<and>
   quorum_threshold c \<le> sum_list (map (stake_of c \<circ> fst) (qc_votes q)) \<and>
   verify_batch P (qc_id q) (qc_votes q) = Done ()"
  by (simp add: qc_verify_def eq_qc_def tally_Done)

definition quorum_of :: "committee \<Rightarrow> public_key set \<Rightarrow> bool" where
  "quorum_of c A \<longleftrightarrow> A \<subseteq> members c \<and> unat (quorum_threshold c) \<le> sum (voting_weight c) A"

lemma qc_verify_quorum:
  assumes "committee_ok c" and "qc_verify P c q = Done ()"
  shows "quorum_of c (fst ` set (qc_votes q))"
  using assms voters_quorum [of c "map fst (qc_votes q)"] voters_members [of c "map fst (qc_votes q)"]
  by (auto simp: qc_verify_Done quorum_of_def)

lemma certificate_verify_Done:
  "certificate_verify P c cert = Done () \<longleftrightarrow>
   (\<exists>g \<in> set (certificate_genesis P c). eq_certificate g cert) \<or>
   voters_ok c (map fst (cert_votes cert)) \<and>
   quorum_threshold c \<le> sum_list (map (stake_of c \<circ> fst) (cert_votes cert)) \<and>
   verify_batch P (certificate_digest P cert) (cert_votes cert) = Done ()"
  by (auto simp: certificate_verify_def list_ex_iff tally_Done map_replicate_const
      verify_batch_multi_same certificate_digest_def)

lemma aggregate_loop_Done:
  "aggregate_loop P c e rs seen = Done () \<longleftrightarrow>
   (\<forall>r \<in> set rs. sr_epoch r = e \<and> report_verify P c r = Done ()) \<and>
   distinct (map sr_author rs) \<and> sr_author ` set rs \<inter> seen = {}"
  by (induction P c e rs seen rule: aggregate_loop.induct) auto

lemma verify_commit_iff:
  "verify_commit P c m \<longleftrightarrow> (\<exists>s v q ps r. m = Commit s v q ps r \<and> qc_verify P c q = Done () \<and>
     qc_id q = (if length (qc_votes q) = committee_size c then prepare_digest P s v r
                else confirm_digest P s v (prepare_digest P s v r)))"
  by (cases m) (auto simp: Let_def is_ok_Done)

lemma verify_confirm_iff:
  "verify_confirm P c m \<longleftrightarrow> (\<exists>s v q ps r. m = Confirm s v q ps r \<and> qc_verify P c q = Done () \<and>
     qc_id q = prepare_digest P s v r)"
  by (cases m) (auto simp: Let_def is_ok_Done)

section \<open>Certificates carry quorums\<close>

lemma sample_verify_batch: "verify_batch sample_prims d votes = Done ()"
  by (simp add: verify_batch_Done sample_prims_def vote_wf_def)

lemma sample_sig_verify: "sig_verify sample_prims s d k = Done ()"
  by (simp add: sig_verify_Done sample_prims_def vote_wf_def)

definition sample_votes :: "256 word list \<Rightarrow> (public_key \<times> signature) list" where
  "sample_votes ks = map (\<lambda>k. (PublicKey k, sample_signature)) ks"

lemma sample_stake: "stake_of sample_committee (PublicKey k) = (if k \<in> {1, 2, 3, 4} then 1 else 0)"
  by (simp add: stake_of_def sample_authorities new_authority_def)

lemma sample_quorum_word: "quorum_threshold sample_committee = 3"
  by (simp add: quorum_threshold_def total_stake_def sample_authorities new_authority_def)

lemma sample_qc_verify:
  "distinct ks \<Longrightarrow> set ks \<subseteq> {1, 2, 3, 4} \<Longrightarrow> length ks = 3 \<Longrightarrow>
   qc_verify sample_prims sample_committee \<lparr>qc_id = d, qc_votes = sample_votes ks\<rparr> = Done ()"
proof -
  assume ks: "distinct ks" "set ks \<subseteq> {1, 2, 3, 4}" "length ks = 3"
  have "map (stake_of sample_committee \<circ> fst) (sample_votes ks) = replicate 3 1"
    using ks(2,3) by (intro nth_equalityI) (auto simp: sample_votes_def sample_stake subset_iff in_set_conv_nth)
  moreover have "distinct (map fst (sample_votes ks))"
    using ks(1) by (simp add: sample_votes_def o_def distinct_map inj_on_def)
  ultimately show ?thesis
    using ks(2) by (auto simp: qc_verify_Done voters_ok_def sample_verify_batch sample_quorum_word
        sample_votes_def sample_stake numeral_3_eq_3)
qed

text \<open>
  C15: \<open>QC::verify\<close> accepts exactly the QCs whose voters are distinct, all have stake, reach
  the quorum threshold together without wrap-around, and whose signatures on the QC's id pass
  the batch verification. The default (genesis) QC gets no exemption.
\<close>

theorem qc_verify_iff:
  assumes "committee_ok c"
  shows "qc_verify P c q = Done () \<longleftrightarrow>
    distinct (map fst (qc_votes q)) \<and> (\<forall>n \<in> fst ` set (qc_votes q). 0 < stake_of c n) \<and>
    unat (quorum_threshold c) \<le> sum (voting_weight c) (fst ` set (qc_votes q)) \<and>
    verify_batch P (qc_id q) (qc_votes q) = Done ()"
  using voters_quorum [OF assms, of "map fst (qc_votes q)"]
  by (auto simp: qc_verify_Done voters_ok_def)

theorem qc_verify_iff_witness:
  "qc_verify sample_prims sample_committee
     \<lparr>qc_id = default_digest, qc_votes = sample_votes [1, 2, 3]\<rparr> = Done () \<and>
   qc_verify sample_prims sample_committee default_qc \<noteq> Done ()"
  by (simp add: qc_verify_iff [OF sample_ok] sample_verify_batch sample_votes_def sample_stake
      sample_weight sample_thresholds default_qc_def)

text \<open>
  C13: any two QCs that verify have a common honest voter, as long as the faulty stake is
  below the validity threshold: the agreement argument of the protocol.
\<close>

theorem qcs_share_honest_voter:
  assumes "committee_ok c" and "qc_verify P c q = Done ()" and "qc_verify P c q' = Done ()"
    and "sum (voting_weight c) (F \<inter> members c) < unat (validity_threshold c)"
  shows "\<exists>a. a \<notin> F \<and> a \<in> fst ` set (qc_votes q) \<and> a \<in> fst ` set (qc_votes q')"
proof -
  have "\<exists>a \<in> fst ` set (qc_votes q) \<inter> fst ` set (qc_votes q'). a \<notin> F"
    using qc_verify_quorum [OF assms(1,2)] qc_verify_quorum [OF assms(1,3)]
    unfolding quorum_of_def by (intro quorums.honest_voter [OF assms(1) _ _ _ _ assms(4)]) simp_all
  then show ?thesis by blast
qed

theorem qcs_share_honest_voter_witness:
  "\<exists>a. a \<notin> {PublicKey 2} \<and> a \<in> fst ` set (sample_votes [1, 2, 3]) \<and> a \<in> fst ` set (sample_votes [2, 3, 4])"
  using qcs_share_honest_voter [OF sample_ok sample_qc_verify [of "[1, 2, 3]"]
      sample_qc_verify [of "[2, 3, 4]"], of "{PublicKey 2}" default_digest default_digest]
  by (simp add: sample_members sample_weight sample_thresholds)

text \<open>
  \<open>Certificate::verify\<close> accepts exactly the genesis certificates (compared by header
  digest and height only) and the certificates of a quorum of distinct stakeholders whose
  signatures on the certificate's digest verify; its per-vote digest vector never runs short.
\<close>

theorem certificate_verify_iff:
  assumes "committee_ok c"
  shows "certificate_verify P c cert = Done () \<longleftrightarrow>
    (\<exists>a \<in> members c. cert_header_digest cert = header_digest P (genesis_header_of a) \<and> cert_height cert = 0) \<or>
    distinct (map fst (cert_votes cert)) \<and> (\<forall>n \<in> fst ` set (cert_votes cert). 0 < stake_of c n) \<and>
    unat (quorum_threshold c) \<le> sum (voting_weight c) (fst ` set (cert_votes cert)) \<and>
    verify_batch P (certificate_digest P cert) (cert_votes cert) = Done ()"
proof -
  have "(\<exists>g \<in> set (certificate_genesis P c). eq_certificate g cert) \<longleftrightarrow>
    (\<exists>a \<in> members c. cert_header_digest cert = header_digest P (genesis_header_of a) \<and> cert_height cert = 0)"
    by (simp add: certificate_genesis_def genesis_certificate_of_def eq_certificate_def
        default_certificate_def members_def) (metis (no_types, lifting))
  then show ?thesis
    using voters_quorum [OF assms, of "map fst (cert_votes cert)"]
    by (auto simp: certificate_verify_Done voters_ok_def)
qed

theorem certificate_verify_iff_witness:
  "certificate_verify sample_prims sample_committee
     (default_certificate\<lparr>cert_height := 3, cert_votes := sample_votes [1, 2, 3]\<rparr>) = Done ()"
  by (simp add: certificate_verify_iff [OF sample_ok] sample_verify_batch sample_votes_def sample_stake
      sample_weight sample_thresholds default_certificate_def)

text \<open>
  \<open>TC::verify\<close> accepts every TC, also one without timeouts: the \<open>PartialEq\<close> of TC is
  constantly true, so every TC equals the genesis TC.
\<close>

theorem tc_verify_accepts_all: "tc_verify P c t = Done ()"
  by (simp add: tc_verify_def eq_tc_def)

text \<open>
  a timeout's signature covers none of its fields: a signature an authority made for one
  timeout is accepted on a timeout of any slot, view and contents.
\<close>

theorem timeout_signature_transfers:
  "timeout_verify P c (Timeout s v hq hp a sg) = timeout_verify P c (Timeout s' v' hq' hp' a sg)"
  by (simp add: timeout_verify_def timeout_digest_def)

section \<open>Commit and Confirm messages\<close>

text \<open>
  \<open>verify_commit\<close> and \<open>verify_confirm\<close> accept a message only on a quorum certificate for
  its own slot, view and aggregate report, but the verdict is the same for any proposals:
  the QC does not bind the values that are committed.
\<close>

theorem commit_ignores_proposals:
  "verify_commit P c (Commit s v q ps r) = verify_commit P c (Commit s v q ps' r) \<and>
   verify_confirm P c (Confirm s v q ps r) = verify_confirm P c (Confirm s v q ps' r)"
  by (simp add: verify_commit_iff verify_confirm_iff)

lemma small_quorum: "0 < n \<Longrightarrow> n \<le> 3 \<Longrightarrow> 2 * n div 3 + 1 = n" for n :: nat
  by presburger

lemma full_quorum_votes:
  assumes "committee_ok c" and "total_weight c \<le> 3" and pos: "\<forall>a \<in> members c. 0 < stake_of c a"
    and "qc_verify P c q = Done ()"
  shows "length (qc_votes q) = committee_size c"
proof -
  have wf: "committee_wf c" using assms(1) by (simp add: committee_ok_def)
  have q: "quorum_of c (fst ` set (qc_votes q))" by (rule qc_verify_quorum [OF assms(1,4)])
  have th: "unat (quorum_threshold c) = total_weight c"
    using assms(1,2) unfolding thresholds(1) [OF assms(1)] committee_ok_def by (intro small_quorum) auto
  have "members c \<subseteq> fst ` set (qc_votes q)"
  proof (rule ccontr)
    assume "\<not> ?thesis"
    then obtain a where a: "a \<in> members c" "a \<notin> fst ` set (qc_votes q)" by auto
    then have "sum (voting_weight c) (fst ` set (qc_votes q)) \<le> sum (voting_weight c) (members c - {a})"
      using q by (intro sum_mono2) (auto simp: quorum_of_def)
    moreover have "sum (voting_weight c) (members c) = voting_weight c a + sum (voting_weight c) (members c - {a})"
      using a by (simp add: sum.remove)
    moreover have "0 < voting_weight c a"
      using pos a by (simp add: voting_weight_def word_less_nat_alt)
    ultimately show False using q th total_weight_members [OF wf] by (simp add: quorum_of_def)
  qed
  then have "fst ` set (qc_votes q) = members c" using q by (auto simp: quorum_of_def)
  moreover have "distinct (map fst (qc_votes q))"
    using assms(4) by (simp add: qc_verify_Done voters_ok_def)
  ultimately show ?thesis using distinct_card [of "map fst (qc_votes q)"] card_members [OF wf] by simp
qed

text \<open>
  in a committee whose quorum is the whole stake (total stake at most 3), \<open>verify_commit\<close>
  only accepts fast QCs: a slow QC of a quorum has as many votes as the committee has members
  and is taken for a fast one, so it is rejected unless its id is the Prepare digest.
\<close>

theorem small_committee_rejects_slow_commit:
  assumes "committee_ok c" and "total_weight c \<le> 3" and "\<forall>a \<in> members c. 0 < stake_of c a"
  shows "verify_commit P c (Commit s v q ps r) \<longleftrightarrow>
    qc_id q = prepare_digest P s v r \<and> qc_verify P c q = Done ()"
  using full_quorum_votes [OF assms, of P q] by (auto simp: verify_commit_iff)

definition three_committee :: committee where
  "three_committee = committee_new
     [(PublicKey 1, 1, sample_address), (PublicKey 2, 1, sample_address), (PublicKey 3, 1, sample_address)]"

lemma three_authorities: "authorities three_committee =
    map (\<lambda>k. (PublicKey k, new_authority 1 sample_address)) [1, 2, 3]"
  by (simp add: three_committee_def committee_new_def less_public_key_def)

theorem small_committee_rejects_slow_commit_witness:
  "\<not> verify_commit sample_prims three_committee
     (Commit 1 1 \<lparr>qc_id = confirm_digest sample_prims 1 1 (prepare_digest sample_prims 1 1 None),
                  qc_votes = sample_votes [1, 2, 3]\<rparr> [] None)"
proof -
  have ok: "committee_ok three_committee" and small: "total_weight three_committee \<le> 3"
    by (simp_all add: committee_ok_def committee_wf_def total_weight_def three_authorities
        less_public_key_def new_authority_def)
  have pos: "\<forall>a \<in> members three_committee. 0 < stake_of three_committee a"
    by (simp add: members_def stake_of_def three_authorities new_authority_def)
  have "confirm_digest sample_prims 1 1 (prepare_digest sample_prims 1 1 None)
      \<noteq> prepare_digest sample_prims 1 1 None"
    by (simp add: confirm_digest_def prepare_digest_def length_prepare_input hash32_def sample_prims_def)
  then show ?thesis
    by (simp del: verify_commit.simps add: small_committee_rejects_slow_commit [OF ok small pos])
qed

end
