(* ===== verification/Signing.thy ===== *)
theory Signing
  imports Verify "HOL-Library.Multiset"
begin

text \<open>
  Round trips between the constructors of \<open>primary/src/messages.rs\<close> and their \<open>verify\<close>
  functions, and the aggregation of state reports.

  \<open>honest_signer\<close> is the documented behaviour of ed25519: what the signature service signs
  for an authority verifies under that authority's key.
\<close>

definition honest_signer :: "'p prims_scheme \<Rightarrow> (digest \<Rightarrow> signature) \<Rightarrow> public_key \<Rightarrow> bool" where
  "honest_signer P sign a \<longleftrightarrow> (\<forall>d. sig_verify P (sign d) d a = Done ())"

lemma signed_by_member_Done:
  "signed_by_member P c a d s = Done () \<longleftrightarrow> 0 < stake_of c a \<and> sig_verify P s d a = Done ()"
  by (simp add: signed_by_member_def)

lemma sample_signer: "honest_signer sample_prims sign a"
  by (simp add: honest_signer_def sample_sig_verify)

lemma worker_of_Done:
  "worker_of c a i = Done w \<longleftrightarrow> (\<exists>auth. map_of (authorities c) a = Some auth \<and> map_of (auth_workers auth) i = Some w)"
  by (auto simp: worker_of_def lookup_authority_def split: option.splits)

lemma header_verify_iff:
  "header_verify P c h = Done () \<longleftrightarrow>
   header_digest P h = hd_id h \<and> 0 < stake_of c (hd_author h) \<and>
   (\<forall>i \<in> snd ` set (hd_payload h). \<exists>w. worker_of c (hd_author h) i = Done w) \<and>
   sig_verify P (hd_signature h) (hd_id h) (hd_author h) = Done ()"
  by (simp add: header_verify_def)

text \<open>
  a header built by an authority with stake from digests of its own workers passes
  \<open>Header::verify\<close>, whatever parent and consensus messages it carries; those are not signed.
\<close>

theorem new_header_verifies:
  assumes "honest_signer P sign author" and "0 < stake_of c author"
    and "\<forall>i \<in> snd ` set payload. \<exists>w. worker_of c author i = Done w"
  shows "header_verify P c (new_header P sign author h payload md parent msgs n) = Done ()"
  using assms by (simp add: header_verify_iff new_header_def Let_def honest_signer_def header_digest_def header_input_def)

theorem new_header_verifies_witness:
  "header_verify sample_prims sample_committee
     (new_header sample_prims (\<lambda>_. sample_signature) (PublicKey 2) 7 [] [] default_certificate [] 0) = Done ()"
  by (rule new_header_verifies) (simp_all add: sample_signer sample_stake)

text \<open>
  the other signed messages an authority with stake builds verify as well: consensus
  requests, votes, consensus votes, timeouts and state reports.
\<close>

theorem new_messages_verify:
  assumes "honest_signer P sign a" and "0 < stake_of c a"
  shows "request_verify P c (new_request P sign a m) = Done () \<and>
    vote_verify P c (new_vote P sign h a cvs) = Done () \<and>
    consensus_vote_verify P c (new_consensus_vote sign a s d) = Done () \<and>
    timeout_verify P c (new_timeout P sign s v hq hp a) = Done () \<and>
    report_verify P c (new_report P sign e st a) = Done ()"
  using assms
  by (simp add: request_verify_def new_request_def vote_verify_def new_vote_def vote_digest_def
      consensus_vote_verify_def new_consensus_vote_def timeout_verify_def new_timeout_def timeout_digest_def
      report_verify_def new_report_def report_digest_def signed_by_member_Done honest_signer_def Let_def)

theorem new_messages_verify_witness:
  "request_verify sample_prims sample_committee
     (new_request sample_prims (\<lambda>_. sample_signature) (PublicKey 1) (Prepare 1 1 None None [] None)) = Done ()"
  using new_messages_verify [OF sample_signer, of sample_committee "PublicKey 1"] by (simp add: sample_stake)

section \<open>Aggregate reports\<close>

lemma sort_key_mset_eq:
  assumes "mset xs = mset ys" and "distinct (map f xs)"
  shows "sort_key (f :: 'a \<Rightarrow> 'b::linorder) xs = sort_key f ys"
proof (rule map_sorted_distinct_set_unique)
  have "distinct (map f ys)"
    using assms by (metis mset_eq_imp_distinct_iff mset_map)
  moreover have "set xs = set ys" using assms(1) by (metis set_mset_mset)
  ultimately show "inj_on f (set (sort_key f xs) \<union> set (sort_key f ys))"
    and "distinct (map f (sort_key f xs))" and "distinct (map f (sort_key f ys))"
    and "set (sort_key f xs) = set (sort_key f ys)"
    using assms(2) by (auto simp: distinct_map distinct_sort)
qed simp_all

text \<open>
  \<open>AggregateReport::new\<close> is canonical: nodes that collected the same reports of distinct
  authors, in any order, build the same aggregate report, hence the same Prepare digest. The
  reports are sorted by author and none is lost or invented.
\<close>

theorem new_aggregate_canonical:
  assumes "mset rs = mset rs'" and "distinct (map sr_author rs)"
  shows "new_aggregate e rs = new_aggregate e rs' \<and>
    prepare_digest P s v (Some (new_aggregate e rs)) = prepare_digest P s v (Some (new_aggregate e rs')) \<and>
    mset (ar_reports (new_aggregate e rs)) = mset rs \<and>
    sorted (map sr_author (ar_reports (new_aggregate e rs)))"
  using sort_key_mset_eq [OF assms] assms(1) by (simp add: new_aggregate_def)

definition sample_report :: "256 word \<Rightarrow> state_report" where
  "sample_report k = \<lparr>sr_epoch = 3, sr_state = [1, 2], sr_author = PublicKey k, sr_signature = sample_signature\<rparr>"

theorem new_aggregate_canonical_witness:
  "new_aggregate 3 [sample_report 1, sample_report 2] = new_aggregate 3 [sample_report 2, sample_report 1]"
proof -
  have "mset [sample_report 1, sample_report 2] = mset [sample_report 2, sample_report 1]" by simp
  moreover have "distinct (map sr_author [sample_report 1, sample_report 2])"
    by (simp add: sample_report_def)
  ultimately show ?thesis by (rule new_aggregate_canonical [THEN conjunct1])
qed

text \<open>
  \<open>AggregateReport::verify\<close> accepts exactly the reports of the expected epoch whose parts
  all carry that epoch, come from distinct authorities with stake and are correctly signed.
  The number of parts is not checked, nor is their order.
\<close>

theorem aggregate_verify_iff:
  "aggregate_verify P c a e = Done () \<longleftrightarrow>
    ar_epoch a = e \<and> distinct (map sr_author (ar_reports a)) \<and>
    (\<forall>r \<in> set (ar_reports a). sr_epoch r = e \<and> 0 < stake_of c (sr_author r) \<and>
       sig_verify P (sr_signature r) (report_digest P r) (sr_author r) = Done ())"
  by (auto simp: aggregate_verify_def aggregate_loop_Done report_verify_def word_neq_0_conv)

theorem aggregate_verify_iff_witness:
  "aggregate_verify sample_prims sample_committee
     (new_aggregate 3 [sample_report 2, sample_report 1]) 3 = Done ()"
  by (simp add: aggregate_verify_iff new_aggregate_def sample_report_def sample_stake sample_sig_verify
      less_eq_public_key_def)

end
