(* ===== verification/Aggregators.thy ===== *)
theory Aggregators
  imports Verify
begin

text \<open>
  The vote aggregators of \<open>primary/src/aggregators.rs\<close>: \<open>VotesAggregator\<close> (certificates of a
  lane), \<open>QCMaker\<close> (quorum certificates of the consensus) and \<open>TCMaker\<close> (timeout certificates).

  All three record each author once. That contract is the locale \<open>vote_collector\<close>; the two
  that reset their weight after emitting a certificate also satisfy \<open>weighted_collector\<close>,
  which proves once that a certificate is emitted at most once and only on sufficient
  weight. Both are interpreted on the code's aggregators.
\<close>

section \<open>\<open>VotesAggregator\<close>\<close>

record votes_aggregator =
  va_weight :: stake
  va_votes :: "(public_key \<times> signature) list"
  va_used :: "public_key set"
  va_diss_cert :: "certificate option"
  va_complete :: bool
  va_get_once :: bool

definition va_new :: votes_aggregator where
  "va_new = \<lparr>va_weight = 0, va_votes = [], va_used = {}, va_diss_cert = None,
     va_complete = False, va_get_once = True\<rparr>"

definition va_record :: "committee \<Rightarrow> vote \<Rightarrow> votes_aggregator \<Rightarrow> votes_aggregator" where
  "va_record c v a = a\<lparr>va_used := insert (vt_author v) (va_used a),
     va_votes := va_votes a @ [(vt_author v, vt_signature v)],
     va_weight := va_weight a + stake_of c (vt_author v)\<rparr>"

definition va_append :: "committee \<Rightarrow> vote \<Rightarrow> (votes_aggregator, dag_error, bool \<times> bool) handler" where
  "va_append c v a =
     (if va_complete a then (a, Done (True, False))
      else if vt_author v \<in> va_used a then (a, Fail (DagAuthorityReuse (vt_author v)))
      else let a' = va_record c v a in
           if va_weight a' \<ge> validity_threshold c
           then (a'\<lparr>va_diss_cert := (case va_diss_cert a' of
                      None \<Rightarrow> Some \<lparr>cert_author = vt_origin v, cert_header_digest = vt_id v,
                                     cert_height = vt_height v, cert_votes = va_votes a'\<rparr>
                    | Some d \<Rightarrow> Some d),
                    va_complete := True\<rparr>, Done (True, True))
           else (a', Done (False, False)))"

definition va_get :: "(votes_aggregator, dag_error, certificate option) handler" where
  "va_get a = (if va_get_once a then (a\<lparr>va_get_once := False\<rparr>, Done (va_diss_cert a))
               else (a, Done None))"

section \<open>\<open>QCMaker\<close>\<close>

record qc_maker =
  qm_weight :: stake
  qm_votes :: "(public_key \<times> signature) list"
  qm_used :: "public_key set"
  qm_try_fast :: bool
  qm_qc_dig :: digest
  qm_first :: bool
  qm_completed_fast :: bool
  qm_fast_path_disabled :: bool
  qm_sent_confirm :: bool

definition qm_new :: qc_maker where
  "qm_new = \<lparr>qm_weight = 0, qm_votes = [], qm_used = {}, qm_try_fast = False,
     qm_qc_dig = default_digest, qm_first = True, qm_completed_fast = False,
     qm_fast_path_disabled = False, qm_sent_confirm = False\<rparr>"

definition qm_record :: "committee \<Rightarrow> public_key \<Rightarrow> signature \<Rightarrow> qc_maker \<Rightarrow> qc_maker" where
  "qm_record c author s m = m\<lparr>qm_used := insert author (qm_used m),
     qm_votes := qm_votes m @ [(author, s)],
     qm_weight := qm_weight m + stake_of c author\<rparr>"

definition check_fast_qc :: "committee \<Rightarrow> digest \<Rightarrow> (qc_maker, dag_error, bool \<times> qc option) handler" where
  "check_fast_qc c d m =
     (if qm_weight m \<ge> fast_threshold c
      then (m\<lparr>qm_weight := 0, qm_completed_fast := True\<rparr>,
            Done (True, Some \<lparr>qc_id = d, qc_votes = qm_votes m\<rparr>))
      else if qm_weight m \<ge> quorum_threshold c
      then (m\<lparr>qm_qc_dig := d, qm_first := False\<rparr>, Done (qm_first m, None))
      else (m, Done (False, None)))"

definition qm_append :: "committee \<Rightarrow> public_key \<Rightarrow> digest \<times> signature \<Rightarrow> (qc_maker, dag_error, bool \<times> qc option) handler" where
  "qm_append c author v m =
     (if author \<in> qm_used m then (m, Fail (DagAuthorityReuse author))
      else let m' = qm_record c author (snd v) m in
           if qm_try_fast m' then check_fast_qc c (fst v) m'
           else if qm_weight m' \<ge> quorum_threshold c
           then (m'\<lparr>qm_weight := 0\<rparr>, Done (True, Some \<lparr>qc_id = fst v, qc_votes = qm_votes m'\<rparr>))
           else (m', Done (False, None)))"

definition qm_get_qc :: "(qc_maker, dag_error, bool \<times> qc option) handler" where
  "qm_get_qc m =
     (if qm_completed_fast m then (m, Done (False, None))
      else if qm_qc_dig m = default_digest then (m, Fail InvalidSlowQCRequest)
      else (m, Done (True, Some \<lparr>qc_id = qm_qc_dig m, qc_votes = qm_votes m\<rparr>)))"

section \<open>\<open>TCMaker\<close>\<close>

record tc_maker =
  tm_weight :: stake
  tm_votes :: "timeout list"
  tm_used :: "public_key set"

definition tm_new :: tc_maker where
  "tm_new = \<lparr>tm_weight = 0, tm_votes = [], tm_used = {}\<rparr>"

definition tm_append :: "committee \<Rightarrow> timeout \<Rightarrow> (tc_maker, dag_error, tc option) handler" where
  "tm_append c t m =
     (if to_author t \<in> tm_used m then (m, Fail (DagAuthorityReuse (to_author t)))
      else let m' = m\<lparr>tm_used := insert (to_author t) (tm_used m), tm_votes := tm_votes m @ [t],
                      tm_weight := tm_weight m + stake_of c (to_author t)\<rparr> in
           if tm_weight m' \<ge> quorum_threshold c
           then (m'\<lparr>tm_weight := 0\<rparr>, Done (Some (TC (to_slot t) (to_view t) (tm_votes m'))))
           else (m', Done None))"

section \<open>The contract of a vote collector\<close>

text \<open>Feeding a list of votes; the results are collected in order.\<close>

fun feed :: "('v \<Rightarrow> ('s, 'e, 'r) handler) \<Rightarrow> 'v list \<Rightarrow> 's \<Rightarrow> 's \<times> ('e, 'r) outcome list" where
  "feed add [] s = (s, [])"
| "feed add (v # vs) s = (let (s', r) = add v s; (t, rs) = feed add vs s' in (t, r # rs))"

lemma feed_Cons:
  "fst (feed add (v # vs) s) = fst (feed add vs (fst (add v s)))"
  "snd (feed add (v # vs) s) = snd (add v s) # snd (feed add vs (fst (add v s)))"
  by (simp_all add: Let_def split: prod.splits)

locale vote_collector =
  fixes add :: "committee \<Rightarrow> 'v \<Rightarrow> ('s, 'e, 'r) handler"
    and author :: "'v \<Rightarrow> public_key"
    and used :: "'s \<Rightarrow> public_key set"
    and names :: "'s \<Rightarrow> public_key list"
    and closed :: "'s \<Rightarrow> bool"
    and clash :: "public_key \<Rightarrow> 'e"
  assumes reuse: "\<not> closed s \<Longrightarrow> author v \<in> used s \<Longrightarrow> add c v s = (s, Fail (clash (author v)))"
    and fresh_used: "\<not> closed s \<Longrightarrow> author v \<notin> used s \<Longrightarrow> used (fst (add c v s)) = insert (author v) (used s)"
    and fresh_names: "\<not> closed s \<Longrightarrow> author v \<notin> used s \<Longrightarrow> names (fst (add c v s)) = names s @ [author v]"
    and fresh_ok: "\<not> closed s \<Longrightarrow> author v \<notin> used s \<Longrightarrow> \<exists>r. snd (add c v s) = Done r"
    and closed_keeps: "closed s \<Longrightarrow> fst (add c v s) = s"
begin

definition good :: "'s \<Rightarrow> bool" where
  "good s \<longleftrightarrow> distinct (names s) \<and> set (names s) = used s"

lemma add_good: "good s \<Longrightarrow> good (fst (add c v s))"
  using closed_keeps [where s = s and v = v and c = c] reuse [where s = s and v = v and c = c] fresh_used [where s = s and v = v and c = c] fresh_names [where s = s and v = v and c = c]
  by (cases "closed s"; cases "author v \<in> used s") (auto simp: good_def)

lemma feed_good: "good s \<Longrightarrow> good (fst (feed (add c) vs s))"
proof (induction vs arbitrary: s)
  case (Cons v vs)
  then show ?case using add_good [where s = s and v = v and c = c] by (simp add: Let_def split: prod.splits) (metis fst_conv)
qed simp

lemma names_grow: "\<exists>ns. names (fst (add c v s)) = names s @ ns"
  using closed_keeps [where s = s and v = v and c = c] reuse [where s = s and v = v and c = c] fresh_names [where s = s and v = v and c = c]
  by (cases "closed s"; cases "author v \<in> used s") auto

end

text \<open>
  A weighted collector counts stake towards a threshold \<open>thr\<close>, emits a certificate when it is
  reached, and resets the count. \<open>mode\<close> is the part of the state that selects the threshold.
\<close>

locale weighted_collector = vote_collector add author used names "\<lambda>_. False" clash
  for add :: "committee \<Rightarrow> 'v \<Rightarrow> ('s, 'e, 'r) handler"
    and author used names and clash :: "public_key \<Rightarrow> 'e" +
  fixes count :: "'s \<Rightarrow> stake"
    and thr :: "committee \<Rightarrow> 's \<Rightarrow> stake"
    and emits :: "('e, 'r) outcome \<Rightarrow> bool"
  assumes thr_add: "thr c (fst (add c v s)) = thr c s"
    and thr_major: "committee_ok c \<Longrightarrow> total_weight c < 2 * unat (thr c s)"
    and emits_iff: "author v \<notin> used s \<Longrightarrow>
      emits (snd (add c v s)) \<longleftrightarrow> thr c s \<le> count s + stake_of c (author v)"
    and count_add: "author v \<notin> used s \<Longrightarrow>
      count (fst (add c v s)) = (if thr c s \<le> count s + stake_of c (author v) then 0
                                 else count s + stake_of c (author v))"
    and no_emit: "\<not> emits (Fail e)"
begin

definition heard :: "committee \<Rightarrow> 's \<Rightarrow> nat" where
  "heard c s = sum (voting_weight c) (set (names s))"

definition waiting :: "committee \<Rightarrow> 's \<Rightarrow> bool" where
  "waiting c s \<longleftrightarrow> good s \<and> unat (count s) = heard c s \<and> heard c s < unat (thr c s)"

definition finished :: "committee \<Rightarrow> 's \<Rightarrow> bool" where
  "finished c s \<longleftrightarrow> good s \<and> unat (count s) + unat (thr c s) \<le> heard c s"

lemma heard_le: "committee_ok c \<Longrightarrow> heard c s \<le> total_weight c"
  by (simp add: heard_def weight_le_total)

lemma heard_add:
  assumes "good s" and "author v \<notin> used s"
  shows "heard c (fst (add c v s)) = heard c s + voting_weight c (author v)"
proof -
  have fin: "finite (used s)" using assms(1) by (metis List.finite_set good_def)
  show ?thesis
    using assms fin fresh_names [where s = s and v = v and c = c] by (simp add: heard_def good_def)
qed

lemma count_word:
  assumes ok: "committee_ok c" and "good s" and new: "author v \<notin> used s"
    and le: "unat (count s) \<le> heard c s"
  shows "unat (count s + stake_of c (author v)) = unat (count s) + voting_weight c (author v)"
proof -
  have "heard c s + voting_weight c (author v) \<le> total_weight c"
    using heard_le [OF ok, where s = "fst (add c v s)"] heard_add [OF assms(2) new, where c = c] by simp
  then have "unat (count s) + unat (stake_of c (author v)) < 2 ^ LENGTH(32)"
    using ok le by (simp add: committee_ok_def voting_weight_def)
  then show ?thesis by (simp add: unat_add_no_wrap voting_weight_def)
qed

lemma reused: "author v \<in> used s \<Longrightarrow> fst (add c v s) = s \<and> \<not> emits (snd (add c v s))"
  using reuse [where s = s and v = v and c = c] by (simp add: no_emit)

lemma waiting_step:
  assumes ok: "committee_ok c" and w: "waiting c s"
  shows "if emits (snd (add c v s)) then finished c (fst (add c v s)) \<and> thr c s \<le> count s + stake_of c (author v)
         else waiting c (fst (add c v s))"
proof (cases "author v \<in> used s")
  case True
  then show ?thesis using w reused [where s = s and v = v and c = c] by simp
next
  case False
  have good: "good s" and cnt: "unat (count s) = heard c s"
    using w by (simp_all add: waiting_def)
  have wd: "unat (count s + stake_of c (author v)) = heard c (fst (add c v s))"
    using count_word [OF ok good False] heard_add [OF good False] cnt by simp
  show ?thesis
    using False wd add_good [OF good, where c = c and v = v]
    by (simp add: emits_iff count_add finished_def waiting_def thr_add word_le_nat_alt)
qed

lemma finished_step:
  assumes ok: "committee_ok c" and d: "finished c s"
  shows "\<not> emits (snd (add c v s)) \<and> finished c (fst (add c v s))"
proof (cases "author v \<in> used s")
  case True
  then show ?thesis using d reused [where s = s and v = v and c = c] by simp
next
  case False
  have good: "good s" and le: "unat (count s) + unat (thr c s) \<le> heard c s"
    using d by (simp_all add: finished_def)
  have wd: "unat (count s + stake_of c (author v)) = unat (count s) + voting_weight c (author v)"
    using count_word [OF ok good False] le by simp
  have "heard c s + voting_weight c (author v) \<le> total_weight c"
    using heard_le [OF ok, where s = "fst (add c v s)"] heard_add [OF good False, where c = c] by simp
  with le thr_major [OF ok, where s = s] have "unat (count s) + voting_weight c (author v) < unat (thr c s)"
    by linarith
  then have no: "\<not> thr c s \<le> count s + stake_of c (author v)" by (simp add: word_le_nat_alt wd)
  show ?thesis
    using False no le wd add_good [OF good, where c = c and v = v] heard_add [OF good False, where c = c]
    by (simp add: emits_iff count_add finished_def thr_add)
qed

text \<open>Waiting or finished: a collector at any time. What it emits has the weight of the threshold.\<close>

definition collecting :: "committee \<Rightarrow> 's \<Rightarrow> bool" where
  "collecting c s \<longleftrightarrow> waiting c s \<or> finished c s"

lemma collecting_add: "committee_ok c \<Longrightarrow> collecting c s \<Longrightarrow> collecting c (fst (add c v s))"
  using waiting_step [where s = s and v = v and c = c] finished_step [where s = s and v = v and c = c]
  by (auto simp: collecting_def split: if_splits)

lemma emitted_weight:
  assumes "committee_ok c" and "collecting c s" and "emits (snd (add c v s))"
  shows "unat (thr c s) \<le> heard c (fst (add c v s)) \<and> good (fst (add c v s))"
proof -
  have "waiting c s" using assms finished_step [OF assms(1), where s = s and v = v] by (auto simp: collecting_def)
  then have "finished c (fst (add c v s))" using waiting_step [OF assms(1), where s = s and v = v] assms(3) by simp
  then show ?thesis by (simp add: finished_def thr_add)
qed

lemma finished_feed:
  "committee_ok c \<Longrightarrow> finished c s \<Longrightarrow> filter emits (snd (feed (add c) vs s)) = []"
proof (induction vs arbitrary: s)
  case (Cons v vs)
  then show ?case using finished_step [OF Cons.prems, where v = v]
    by (simp only: feed_Cons filter.simps if_False)
qed simp

lemma emits_once:
  "committee_ok c \<Longrightarrow> waiting c s \<Longrightarrow> length (filter emits (snd (feed (add c) vs s))) \<le> 1"
proof (induction vs arbitrary: s)
  case (Cons v vs)
  show ?case
    using waiting_step [OF Cons.prems, where v = v] Cons.IH [OF Cons.prems(1)]
      finished_feed [OF Cons.prems(1)]
    by (auto simp only: feed_Cons filter.simps list.size split: if_splits)
qed simp

end

interpretation va: vote_collector va_append vt_author va_used "map fst \<circ> va_votes" va_complete DagAuthorityReuse
  by unfold_locales (auto simp: va_append_def va_record_def Let_def)

definition qm_add :: "committee \<Rightarrow> public_key \<times> digest \<times> signature \<Rightarrow> (qc_maker, dag_error, bool \<times> qc option) handler" where
  "qm_add c v = qm_append c (fst v) (snd v)"

fun emits_qc :: "(dag_error, bool \<times> qc option) outcome \<Rightarrow> bool" where
  "emits_qc (Done (_, Some _)) = True"
| "emits_qc _ = False"

fun emits_tc :: "(dag_error, tc option) outcome \<Rightarrow> bool" where
  "emits_tc (Done (Some _)) = True"
| "emits_tc _ = False"

definition qm_threshold :: "committee \<Rightarrow> qc_maker \<Rightarrow> stake" where
  "qm_threshold c m = (if qm_try_fast m then fast_threshold c else quorum_threshold c)"

lemma total_lt_twice:
  assumes "committee_ok c"
  shows "total_weight c < 2 * unat (quorum_threshold c)" "total_weight c < 2 * unat (fast_threshold c)"
  using assms by (auto simp: thresholds committee_ok_def)

interpretation qm: weighted_collector qm_add fst qm_used "map fst \<circ> qm_votes" DagAuthorityReuse
    qm_weight qm_threshold emits_qc
  by unfold_locales
    (auto simp: qm_add_def qm_append_def check_fast_qc_def qm_record_def qm_threshold_def Let_def
      total_lt_twice)

interpretation tm: weighted_collector tm_append to_author tm_used "map to_author \<circ> tm_votes"
    DagAuthorityReuse tm_weight "\<lambda>c _. quorum_threshold c" emits_tc
  by unfold_locales (auto simp: tm_append_def Let_def total_lt_twice)

section \<open>Properties\<close>

definition qm_start :: "bool \<Rightarrow> qc_maker" where
  "qm_start fast = qm_new\<lparr>qm_try_fast := fast\<rparr>"

lemma qm_start_waiting: "committee_ok c \<Longrightarrow> qm.waiting c (qm_start b)"
  using thresholds [of c]
  by (auto simp: qm.waiting_def qm.good_def qm.heard_def qm_start_def qm_new_def qm_threshold_def
      committee_ok_def)

text \<open>
  C24: a \<open>QCMaker\<close> hands out at most one QC on its append path, on the slow and on the fast
  path, whatever votes arrive in whatever order, repeated ones included.
\<close>

theorem qc_made_once:
  assumes "committee_ok c"
  shows "length (filter emits_qc (snd (feed (qm_add c) votes (qm_start fast)))) \<le> 1"
  by (rule qm.emits_once [OF assms qm_start_waiting [OF assms]])

theorem qc_made_once_witness:
  "length (filter emits_qc (snd (feed (qm_add sample_committee)
     (map (\<lambda>k. (PublicKey k, default_digest, sample_signature)) [1, 1, 2, 3, 4]) (qm_start False)))) \<le> 1"
  by (rule qc_made_once [OF sample_ok])

lemma qm_feed_state:
  assumes "committee_ok c"
    and "qm.waiting c s \<or> qm.finished c s"
  shows "qm.waiting c (fst (feed (qm_add c) vs s)) \<or> qm.finished c (fst (feed (qm_add c) vs s))"
  using assms(2)
proof (induction vs arbitrary: s)
  case (Cons v vs)
  have "qm.waiting c (fst (qm_add c v s)) \<or> qm.finished c (fst (qm_add c v s))"
    using Cons.prems qm.waiting_step [OF assms(1), of s v] qm.finished_step [OF assms(1), of s v]
    by (metis (full_types))
  from Cons.IH [OF this] show ?case by (simp only: feed_Cons)
qed simp

lemma qm_emitted:
  assumes "snd (qm_add c v s) = Done (b, Some q)"
  shows "qc_votes q = qm_votes s @ [(fst v, snd (snd v))] \<and> qc_id q = fst (snd v) \<and> fst v \<notin> qm_used s"
  using assms by (auto simp: qm_add_def qm_append_def check_fast_qc_def qm_record_def Let_def split: if_splits)

text \<open>
  C14: the QC a \<open>QCMaker\<close> hands out has distinct voters of quorum weight (of the full stake
  on the fast path), so it passes \<open>QC::verify\<close> exactly when every recorded voter has stake
  and the collected signatures verify for the digest of the last vote.
\<close>

theorem qc_made_sound:
  assumes "committee_ok c" and "m = fst (feed (qm_add c) votes (qm_start fast))"
    and "snd (qm_add c v m) = Done (b, Some q)"
  shows "distinct (map fst (qc_votes q)) \<and>
    unat (quorum_threshold c) \<le> sum (voting_weight c) (fst ` set (qc_votes q)) \<and>
    (qc_verify P c q = Done () \<longleftrightarrow>
      (\<forall>n \<in> fst ` set (qc_votes q). 0 < stake_of c n) \<and> verify_batch P (qc_id q) (qc_votes q) = Done ())"
proof -
  have e: "qc_votes q = qm_votes m @ [(fst v, snd (snd v))]" "fst v \<notin> qm_used m"
    using qm_emitted [OF assms(3)] by simp_all
  have em: "emits_qc (snd (qm_add c v m))" using assms(3) by simp
  have "qm.waiting c m \<or> qm.finished c m"
    unfolding assms(2) using qm_start_waiting [OF assms(1)] by (intro qm_feed_state [OF assms(1)]) simp
  then have w: "qm.waiting c m" using em qm.finished_step [OF assms(1), of m v] by auto
  then have good: "qm.good m" by (simp add: qm.waiting_def)
  have dist: "distinct (map fst (qc_votes q))"
    using good e by (auto simp: qm.good_def)
  have "qm.finished c (fst (qm_add c v m))" using qm.waiting_step [OF assms(1) w, of v] em by simp
  then have "unat (qm_threshold c m) \<le> qm.heard c (fst (qm_add c v m))"
    using qm.thr_add [of c v m] by (simp add: qm.finished_def)
  moreover have "map fst (qm_votes (fst (qm_add c v m))) = map fst (qc_votes q)"
    using qm.fresh_names [of v m c] e by simp
  then have "qm.heard c (fst (qm_add c v m)) = sum (voting_weight c) (set (map fst (qc_votes q)))"
    by (simp only: qm.heard_def o_apply)
  ultimately have "unat (qm_threshold c m) \<le> sum (voting_weight c) (fst ` set (qc_votes q))" by simp
  moreover have "unat (quorum_threshold c) \<le> unat (qm_threshold c m)"
    using quorum_le_fast [OF assms(1)] by (simp add: qm_threshold_def)
  ultimately show ?thesis using dist by (auto simp: qc_verify_iff [OF assms(1)])
qed

theorem qc_made_sound_witness:
  "\<exists>q. snd (qm_add sample_committee (PublicKey 3, default_digest, sample_signature)
     (fst (feed (qm_add sample_committee)
       (map (\<lambda>k. (PublicKey k, default_digest, sample_signature)) [1, 2]) (qm_start False)))) = Done (True, Some q)
   \<and> qc_verify sample_prims sample_committee q = Done ()"
proof -
  let ?m = "fst (feed (qm_add sample_committee)
       (map (\<lambda>k. (PublicKey k, default_digest, sample_signature)) [1, 2]) (qm_start False))"
  let ?q = "\<lparr>qc_id = default_digest, qc_votes = sample_votes [1, 2, 3]\<rparr>"
  have out: "snd (qm_add sample_committee (PublicKey 3, default_digest, sample_signature) ?m) = Done (True, Some ?q)"
    by (simp add: qm_add_def qm_append_def qm_record_def qm_start_def qm_new_def sample_stake
        sample_quorum_word sample_votes_def Let_def word_le_nat_alt)
  have "qc_verify sample_prims sample_committee ?q = Done ()"
    unfolding qc_made_sound [OF sample_ok refl out, of sample_prims, THEN conjunct2, THEN conjunct2]
    by (simp add: sample_verify_batch sample_votes_def sample_stake)
  with out show ?thesis by blast
qed

text \<open>a \<open>TCMaker\<close> likewise hands out at most one TC.\<close>

theorem tc_made_once:
  assumes "committee_ok c"
  shows "length (filter emits_tc (snd (feed (tm_append c) timeouts tm_new))) \<le> 1"
proof (rule tm.emits_once [OF assms])
  show "tm.waiting c tm_new"
    using thresholds(1) [OF assms] by (simp add: tm.waiting_def tm.good_def tm.heard_def tm_new_def)
qed

theorem tc_made_once_witness:
  "length (filter emits_tc (snd (feed (tm_append sample_committee)
     [Timeout 1 1 None None (PublicKey 1) sample_signature] tm_new))) \<le> 1"
  by (rule tc_made_once [OF sample_ok])

text \<open>
  the certificates \<open>VotesAggregator\<close> issues only need the validity threshold, but
  \<open>Certificate::verify\<close> demands a quorum: among four authorities of equal stake the
  certificate issued on the second vote is rejected by every peer that verifies it (unless
  it certifies a genesis header).
\<close>

theorem issued_certificate_rejected:
  fixes v w :: vote
  defines "a \<equiv> fst (va_append sample_committee w (fst (va_append sample_committee v va_new)))"
  assumes "vt_author v = PublicKey 1" and "vt_author w = PublicKey 2" and "0 < vt_height w"
  shows "\<exists>cert. snd (va_get a) = Done (Some cert) \<and> map fst (cert_votes cert) = [PublicKey 1, PublicKey 2] \<and>
    certificate_verify P sample_committee cert = Fail CertificateRequiresQuorum"
proof -
  have val: "validity_threshold sample_committee = 2"
    by (simp add: validity_threshold_def total_stake_def sample_authorities new_authority_def)
  let ?cert = "\<lparr>cert_author = vt_origin w, cert_header_digest = vt_id w, cert_height = vt_height w,
     cert_votes = [(PublicKey 1, vt_signature v), (PublicKey 2, vt_signature w)]\<rparr>"
  have two: "\<not> (2 :: u32) \<le> 1" by (simp add: word_le_nat_alt)
  have out: "snd (va_get a) = Done (Some ?cert)"
    using assms(2,3) unfolding a_def
    by (simp add: two va_append_def va_record_def va_new_def va_get_def sample_stake val Let_def)
  have no: "\<not> list_ex (\<lambda>g. eq_certificate g ?cert) (certificate_genesis P sample_committee)"
    using assms(4) by (auto simp: list_ex_iff certificate_genesis_def genesis_certificate_of_def
        eq_certificate_def default_certificate_def)
  have "certificate_verify P sample_committee ?cert = Fail CertificateRequiresQuorum"
    by (simp only: certificate_verify_def no if_False)
      (simp add: sample_stake sample_quorum_word ensure_r_def then_r_def bind_r_def)
  with out show ?thesis by simp
qed

theorem issued_certificate_rejected_witness:
  "\<exists>cert. certificate_verify sample_prims sample_committee cert = Fail CertificateRequiresQuorum"
proof -
  let ?v = "\<lambda>k. \<lparr>vt_id = default_digest, vt_height = 1, vt_origin = PublicKey 1, vt_author = PublicKey k,
      vt_signature = sample_signature, vt_consensus_votes = []\<rparr>"
  show ?thesis using issued_certificate_rejected [of "?v 1" "?v 2" sample_prims] by auto
qed

end
