(* ===== verification/Winning.thy ===== *)
theory Winning
  imports Verify
begin

text \<open>
  The choice of the proposals a new leader must adopt from a TC:
  \<open>TC::get_winning_proposals\<close> of \<open>primary/src/messages.rs\<close>.
\<close>

record winner =
  w_proposals :: proposals
  w_view :: view
  w_freq :: "digest \<rightharpoonup> u32"

definition winner_start :: winner where
  "winner_start = \<lparr>w_proposals = [], w_view = 0, w_freq = (\<lambda>_. None)\<rparr>"

text \<open>The first \<open>match\<close> of the loop body; \<open>None\<close> is its \<open>break\<close> on a Commit.\<close>

definition winner_qc :: "timeout \<Rightarrow> winner \<Rightarrow> winner option" where
  "winner_qc t w = (case to_high_qc t of
     Some (Confirm s other_view q ps r) \<Rightarrow>
       Some (if other_view > w_view w then w\<lparr>w_view := to_view t, w_proposals := ps\<rparr> else w)
   | Some (Commit s v q ps r) \<Rightarrow> None
   | _ \<Rightarrow> Some w)"

definition winner_prop :: "'p prims_scheme \<Rightarrow> committee \<Rightarrow> timeout \<Rightarrow> winner \<Rightarrow> winner" where
  "winner_prop P c t w = (case to_high_prop t of
     Some (Prepare s v tc ticket ps r) \<Rightarrow>
       if v > w_view w then
         let d = message_digest P (Prepare s v tc ticket ps r);
             wt = (case w_freq w d of None \<Rightarrow> 0 | Some x \<Rightarrow> x) + stake_of c (to_author t);
             w' = w\<lparr>w_freq := (w_freq w)(d \<mapsto> wt)\<rparr>
         in if wt \<ge> validity_threshold c then w'\<lparr>w_view := v, w_proposals := ps\<rparr> else w'
       else w
   | _ \<Rightarrow> w)"

fun winner_loop :: "'p prims_scheme \<Rightarrow> committee \<Rightarrow> timeout list \<Rightarrow> winner \<Rightarrow> proposals" where
  "winner_loop P c [] w = w_proposals w"
| "winner_loop P c (t # ts) w =
     (case winner_qc t w of
        None \<Rightarrow> (case to_high_qc t of Some m \<Rightarrow> cm_proposals m | None \<Rightarrow> [])
      | Some w' \<Rightarrow> winner_loop P c ts (winner_prop P c t w'))"

definition get_winning_proposals :: "'p prims_scheme \<Rightarrow> committee \<Rightarrow> tc \<Rightarrow> proposals" where
  "get_winning_proposals P c t = winner_loop P c (tc_timeouts t) winner_start"

section \<open>Lemmas\<close>

definition is_commit_qc :: "timeout \<Rightarrow> bool" where
  "is_commit_qc t = (case to_high_qc t of Some (Commit s v q ps r) \<Rightarrow> True | _ \<Rightarrow> False)"

definition carried :: "timeout \<Rightarrow> proposals set" where
  "carried t = cm_proposals ` (set_option (to_high_qc t) \<union> set_option (to_high_prop t))"

lemma winner_qc_None: "winner_qc t w = None \<longleftrightarrow> is_commit_qc t"
  by (simp add: winner_qc_def is_commit_qc_def split: option.split consensus_message.split)

lemma winner_qc_proposals:
  "winner_qc t w = Some w' \<Longrightarrow> w_proposals w' = w_proposals w \<or> w_proposals w' \<in> carried t"
  by (auto simp: winner_qc_def carried_def split: option.splits consensus_message.splits if_splits)

lemma winner_prop_proposals:
  "w_proposals (winner_prop P c t w) = w_proposals w \<or> w_proposals (winner_prop P c t w) \<in> carried t"
  by (auto simp: winner_prop_def carried_def Let_def split: option.splits consensus_message.splits)

lemma winner_loop_source:
  "winner_loop P c ts w = w_proposals w \<or> (\<exists>t \<in> set ts. winner_loop P c ts w \<in> carried t)"
proof (induction ts arbitrary: w)
  case (Cons t ts)
  show ?case
  proof (cases "winner_qc t w")
    case None
    then have "is_commit_qc t" by (simp add: winner_qc_None)
    then obtain m where "to_high_qc t = Some m" by (auto simp: is_commit_qc_def split: option.splits)
    then show ?thesis using None by (auto simp: carried_def)
  next
    case (Some w')
    with Cons.IH [of "winner_prop P c t w'"] winner_prop_proposals [of P c t w'] winner_qc_proposals [OF Some]
    show ?thesis by auto
  qed
qed simp

text \<open>
  the winning proposals are either empty or carried by a Confirm, Commit or Prepare of
  one of the TC's timeouts: a view change never invents proposals.
\<close>

theorem winning_source:
  "get_winning_proposals P c t = [] \<or>
   (\<exists>u \<in> set (tc_timeouts t). get_winning_proposals P c t \<in> carried u)"
  unfolding get_winning_proposals_def
  using winner_loop_source [of P c "tc_timeouts t" winner_start] by (simp add: winner_start_def)

text \<open>
  a committed value is preserved: when some timeout carries a Commit, the proposals of
  the first such Commit are adopted, whatever the other timeouts carry.
\<close>

theorem winning_commit:
  assumes "tc_timeouts t = us @ u # ws" and "\<forall>x \<in> set us. \<not> is_commit_qc x"
    and "to_high_qc u = Some (Commit s v q ps r)"
  shows "get_winning_proposals P c t = ps"
proof -
  have "winner_loop P c (us @ u # ws) w = ps" for w
    using assms(2)
  proof (induction us arbitrary: w)
    case Nil
    then show ?case using assms(3) by (simp add: winner_qc_def)
  next
    case (Cons x us)
    then obtain w' where "winner_qc x w = Some w'" using winner_qc_None [of x w] by auto
    with Cons show ?case by simp
  qed
  then show ?thesis by (simp add: get_winning_proposals_def assms(1))
qed

theorem winning_commit_witness:
  "get_winning_proposals sample_prims sample_committee (TC 1 1 [Timeout 1 1 None None (PublicKey 1) sample_signature,
     Timeout 1 1 (Some (Commit 1 0 default_qc [(PublicKey 3, \<lparr>prop_digest = Digest 9, prop_height = 4\<rparr>)] None))
       None (PublicKey 2) sample_signature])
   = [(PublicKey 3, \<lparr>prop_digest = Digest 9, prop_height = 4\<rparr>)]"
proof (rule winning_commit)
  show "tc_timeouts (TC 1 1 [Timeout 1 1 None None (PublicKey 1) sample_signature,
     Timeout 1 1 (Some (Commit 1 0 default_qc [(PublicKey 3, \<lparr>prop_digest = Digest 9, prop_height = 4\<rparr>)] None))
       None (PublicKey 2) sample_signature]) =
    [Timeout 1 1 None None (PublicKey 1) sample_signature] @
     Timeout 1 1 (Some (Commit 1 0 default_qc [(PublicKey 3, \<lparr>prop_digest = Digest 9, prop_height = 4\<rparr>)] None))
       None (PublicKey 2) sample_signature # []" by simp
qed (simp_all add: is_commit_qc_def)

text \<open>
  After a Confirm of a timeout of view \<open>v\<close> was adopted, no QC or Prepare of view at most \<open>v\<close>
  is: the loop records the view of the timeout instead of the view of the Confirm.
\<close>

definition views_le :: "view \<Rightarrow> timeout \<Rightarrow> bool" where
  "views_le b t \<longleftrightarrow> \<not> is_commit_qc t \<and>
     (\<forall>m \<in> set_option (to_high_qc t) \<union> set_option (to_high_prop t). cm_view m \<le> b)"

lemma winner_frozen:
  "\<forall>t \<in> set ts. views_le b t \<Longrightarrow> w_view w = b \<Longrightarrow> winner_loop P c ts w = w_proposals w"
proof (induction ts arbitrary: w)
  case (Cons t ts)
  then have v: "views_le b t" by simp
  have "winner_qc t w = Some w"
    using v Cons.prems(2)
    by (auto simp: winner_qc_def views_le_def is_commit_qc_def not_less split: option.splits consensus_message.splits)
  moreover have "winner_prop P c t w = w"
    using v Cons.prems(2)
    by (auto simp: winner_prop_def views_le_def not_less split: option.splits consensus_message.splits)
  ultimately show ?case using Cons by simp
qed simp



end
