(* ===== verification/Leader.thy ===== *)
theory Leader
  imports Config
begin

text \<open>
  Leader election (\<open>primary/src/leader.rs\<close>). \<open>None\<close> is the panic of the code on an empty
  committee (remainder by zero). The index \<open>view + slot\<close> wraps at 64 bits.
\<close>

definition leader_keys :: "committee \<Rightarrow> public_key list" where
  "leader_keys c = sort (map fst (authorities c))"

definition rr_leader :: "committee \<Rightarrow> u64 \<Rightarrow> public_key option" where
  "rr_leader c view = (if committee_size c = 0 then None
     else Some (leader_keys c ! (unat view mod committee_size c)))"

definition get_leader :: "committee \<Rightarrow> u64 \<Rightarrow> u64 \<Rightarrow> public_key option" where
  "get_leader c slot view = (if committee_size c = 0 then None
     else let index = view + slot in Some (leader_keys c ! (unat index mod committee_size c)))"

lemma leader_keys: "set (leader_keys c) = members c" "length (leader_keys c) = committee_size c"
  by (simp_all add: leader_keys_def members_def committee_size_def)

lemma leader_keys_wf: "committee_wf c \<Longrightarrow> leader_keys c = map fst (authorities c)"
  by (simp add: leader_keys_def committee_wf_def strict_sorted_iff sorted_sort_id)

lemma leader_member: "get_leader c s v = Some l \<Longrightarrow> l \<in> members c"
  by (auto simp: get_leader_def Let_def leader_keys(1) [symmetric] leader_keys(2) split: if_splits)

lemma get_leader_sum: "v + s = v' + s' \<Longrightarrow> get_leader c s v = get_leader c s' v'"
  by (simp add: get_leader_def)

lemma rotate_mod:
  "n = length xs \<Longrightarrow> map (\<lambda>i. xs ! ((k + i) mod n)) [0..<n] = rotate k xs"
  by (rule nth_equalityI) (simp_all add: nth_rotate add.commute)

lemma get_leader_window:
  assumes "0 < committee_size c" and "unat v + unat s + committee_size c \<le> 2 ^ 64"
  shows "map (\<lambda>i. get_leader c s (v + of_nat i)) [0..<committee_size c]
    = map Some (rotate (unat v + unat s) (leader_keys c))"
proof -
  have "get_leader c s (v + of_nat i)
      = Some (leader_keys c ! ((unat v + unat s + i) mod committee_size c))" if "i < committee_size c" for i
  proof -
    have small: "unat v + unat s + i < 2 ^ LENGTH(64)" using that assms(2) by simp
    have "unat (of_nat i :: 64 word) = i"
      using small by (simp add: unat_of_nat take_bit_nat_eq_self)
    then have "unat (v + of_nat i) = unat v + i" using small unat_add_no_wrap [of v "of_nat i"] by simp
    then have "unat (v + of_nat i + s) = unat v + unat s + i"
      using small unat_add_no_wrap [of "v + of_nat i" s] by simp
    then show ?thesis using assms(1) by (simp add: get_leader_def)
  qed
  then have "map (\<lambda>i. get_leader c s (v + of_nat i)) [0..<committee_size c]
      = map Some (map (\<lambda>i. leader_keys c ! ((unat v + unat s + i) mod committee_size c)) [0..<committee_size c])"
    by simp
  then show ?thesis by (simp only: rotate_mod [OF leader_keys(2) [symmetric]])
qed

text \<open>
  in any window of \<open>n\<close> consecutive views of a slot (\<open>n\<close> the committee size) every authority
  leads exactly once, provided the 64 bit index does not wrap in the window.
\<close>

theorem leader_rotation:
  assumes "committee_wf c" and "0 < committee_size c"
    and "unat v + unat s + committee_size c \<le> 2 ^ 64" and "a \<in> members c"
  shows "\<exists>!i. i < committee_size c \<and> get_leader c s (v + of_nat i) = Some a"
proof -
  let ?k = "unat v + unat s" and ?n = "committee_size c"
  have get: "get_leader c s (v + of_nat i) = Some (rotate ?k (leader_keys c) ! i)" if "i < ?n" for i
    using arg_cong [OF get_leader_window [OF assms(2,3)], of "\<lambda>xs. xs ! i"] that
    by (simp add: leader_keys)
  have "distinct (rotate ?k (leader_keys c))"
    using committee_wf_distinct [OF assms(1)] by (simp add: leader_keys_wf [OF assms(1)])
  moreover have "a \<in> set (rotate ?k (leader_keys c))" using assms(4) by (simp add: leader_keys)
  ultimately have "\<exists>!i. i < length (rotate ?k (leader_keys c)) \<and> rotate ?k (leader_keys c) ! i = a"
    by (rule distinct_Ex1)
  moreover have "(\<lambda>i. i < length (rotate ?k (leader_keys c)) \<and> rotate ?k (leader_keys c) ! i = a)
      = (\<lambda>i. i < ?n \<and> get_leader c s (v + of_nat i) = Some a)"
    using get by (auto simp: leader_keys)
  ultimately show ?thesis by simp
qed

theorem leader_rotation_witness:
  "\<exists>!i. i < committee_size sample_committee \<and> get_leader sample_committee 5 (2 + of_nat i) = Some (PublicKey 3)"
proof -
  have "committee_size sample_committee = 4" by (simp add: committee_size_def sample_authorities)
  moreover have "PublicKey 3 \<in> members sample_committee" by (simp add: sample_members)
  ultimately show ?thesis
    using sample_ok by (intro leader_rotation) (simp_all add: committee_ok_def)
qed

end
