(* ===== verification/Store.thy ===== *)
theory Store
  imports Prelude
begin

text \<open>
  The store actor (\<open>store/src/lib.rs\<close>): one task owns the database and serves commands in
  order. A oneshot sender is the number of its receiver; sending appends to \<open>st_replies\<close>.
  RocksDB is a map; its I/O errors are not modelled.

  \<open>key_value\<close> is the contract the users of the store rely on.
\<close>

type_synonym key = "u8 list"
type_synonym val = "u8 list"

datatype store_command =
    Write key val
  | Read key nat
  | NotifyRead key nat

datatype reply = ReadReply "val option" | NotifyReply val

record store_state =
  st_db :: "key \<rightharpoonup> val"
  st_obligations :: "key \<rightharpoonup> nat list"
  st_replies :: "(nat \<times> reply) list"

definition store_new :: store_state where
  "store_new = \<lparr>st_db = (\<lambda>_. None), st_obligations = (\<lambda>_. None), st_replies = []\<rparr>"

fun store_step :: "store_command \<Rightarrow> store_state \<Rightarrow> store_state" where
  "store_step (Write k v) s =
     (let s' = s\<lparr>st_db := (st_db s)(k \<mapsto> v)\<rparr> in
      case st_obligations s' k of
        None \<Rightarrow> s'
      | Some senders \<Rightarrow> s'\<lparr>st_obligations := (st_obligations s')(k := None),
                          st_replies := st_replies s' @ map (\<lambda>r. (r, NotifyReply v)) senders\<rparr>)"
| "store_step (Read k r) s = s\<lparr>st_replies := st_replies s @ [(r, ReadReply (st_db s k))]\<rparr>"
| "store_step (NotifyRead k r) s =
     (case st_db s k of
        None \<Rightarrow> s\<lparr>st_obligations := (st_obligations s)(k \<mapsto>
                  (case st_obligations s k of None \<Rightarrow> [] | Some q \<Rightarrow> q) @ [r])\<rparr>
      | Some v \<Rightarrow> s\<lparr>st_replies := st_replies s @ [(r, NotifyReply v)]\<rparr>)"

definition store_run :: "store_command list \<Rightarrow> store_state \<Rightarrow> store_state" where
  "store_run cs s = fold store_step cs s"

section \<open>The contract of a key-value store\<close>

locale key_value =
  fixes put_kv :: "'k \<Rightarrow> 'v \<Rightarrow> 's \<Rightarrow> 's"
    and get_kv :: "'s \<Rightarrow> 'k \<Rightarrow> 'v option"
  assumes read_write: "get_kv (put_kv k v s) k' = (if k = k' then Some v else get_kv s k')"
begin

lemma read_same: "get_kv (put_kv k v s) k = Some v"
  by (simp add: read_write)

lemma read_other: "k \<noteq> k' \<Longrightarrow> get_kv (put_kv k v s) k' = get_kv s k'"
  by (simp add: read_write)

lemma write_keeps: "get_kv s k' \<noteq> None \<Longrightarrow> get_kv (put_kv k v s) k' \<noteq> None"
  by (simp add: read_write)

lemma read_writes:
  "get_kv (fold (\<lambda>(k, v). put_kv k v) kvs s) k' =
   (case map_of (rev kvs) k' of None \<Rightarrow> get_kv s k' | Some v \<Rightarrow> Some v)"
  by (induction kvs arbitrary: s) (auto simp: read_write map_add_def split: option.split)

end

interpretation kv: key_value "\<lambda>k v. store_step (Write k v)" st_db
  by unfold_locales (auto simp: Let_def split: option.splits)

section \<open>The abstract store\<close>

text \<open>What a key holds after a list of commands: the last value written to it.\<close>

fun last_write :: "store_command list \<Rightarrow> key \<Rightarrow> val option" where
  "last_write [] k = None"
| "last_write (c # cs) k =
     (case last_write cs k of Some v \<Rightarrow> Some v
      | None \<Rightarrow> (case c of Write k' v \<Rightarrow> if k = k' then Some v else None | _ \<Rightarrow> None))"

fun first_write :: "store_command list \<Rightarrow> key \<Rightarrow> val option" where
  "first_write [] k = None"
| "first_write (Write k' v # cs) k = (if k = k' then Some v else first_write cs k)"
| "first_write (_ # cs) k = first_write cs k"

lemma last_write_append:
  "last_write (cs @ ds) k = (case last_write ds k of Some v \<Rightarrow> Some v | None \<Rightarrow> last_write cs k)"
  by (induction cs) (auto split: option.splits)

lemma db_step: "st_db (store_step c s) k = (case last_write [c] k of None \<Rightarrow> st_db s k | Some v \<Rightarrow> Some v)"
  by (cases c) (auto simp: Let_def split: option.splits)

lemma db_run: "st_db (store_run cs s) k = (case last_write cs k of None \<Rightarrow> st_db s k | Some v \<Rightarrow> Some v)"
  by (induction cs arbitrary: s) (auto simp: store_run_def db_step split: option.splits)

lemma replies_step: "\<exists>rs. st_replies (store_step c s) = st_replies s @ rs"
  by (cases c) (auto simp: Let_def split: option.splits)

lemma replies_run: "\<exists>rs. st_replies (store_run cs s) = st_replies s @ rs"
proof (induction cs arbitrary: s)
  case (Cons c cs)
  obtain rs where "st_replies (store_run cs (store_step c s)) = st_replies (store_step c s) @ rs"
    using Cons by blast
  with replies_step [of c s] show ?case by (auto simp: store_run_def)
qed (simp add: store_run_def)

lemma replies_mono: "p \<in> set (st_replies s) \<Longrightarrow> p \<in> set (st_replies (store_run cs s))"
  using replies_run [of cs s] by auto

definition waits :: "store_state \<Rightarrow> key \<Rightarrow> nat \<Rightarrow> bool" where
  "waits s k r \<longleftrightarrow> (\<exists>q. st_obligations s k = Some q \<and> r \<in> set q)"

text \<open>A waiting receiver is served by the first write to its key, and stays queued until then.\<close>

lemma wait_step:
  "waits s k r \<Longrightarrow>
   (case first_write [c] k of Some v \<Rightarrow> (r, NotifyReply v) \<in> set (st_replies (store_step c s))
    | None \<Rightarrow> waits (store_step c s) k r)"
  by (cases c) (auto simp: waits_def Let_def split: option.splits)

lemma wait_run:
  "waits s k r \<Longrightarrow>
   (case first_write cs k of Some v \<Rightarrow> (r, NotifyReply v) \<in> set (st_replies (store_run cs s))
    | None \<Rightarrow> waits (store_run cs s) k r)"
proof (induction cs arbitrary: s)
  case (Cons c cs)
  have run: "store_run (c # cs) s = store_run cs (store_step c s)" by (simp add: store_run_def)
  show ?case
  proof (cases "first_write [c] k")
    case None
    then have "waits (store_step c s) k r" using wait_step [OF Cons.prems, of c] by simp
    moreover have "first_write (c # cs) k = first_write cs k" using None by (cases c) (auto split: if_splits)
    ultimately show ?thesis using Cons.IH [of "store_step c s"] by (simp only: run)
  next
    case (Some v)
    then have "(r, NotifyReply v) \<in> set (st_replies (store_step c s))"
      using wait_step [OF Cons.prems, of c] by simp
    moreover have "first_write (c # cs) k = Some v" using Some by (cases c) (auto split: if_splits)
    ultimately show ?thesis using replies_mono [of _ "store_step c s" cs] by (simp only: run option.case)
  qed
qed (simp add: store_run_def)

text \<open>
  a read is answered with the last value written to the key before it, whatever other
  commands came before and come after.
\<close>

theorem store_read:
  "(r, ReadReply (last_write cs k)) \<in> set (st_replies (store_run (cs @ Read k r # ds) store_new))"
proof -
  let ?s = "store_run cs store_new"
  have "st_db ?s k = last_write cs k" by (simp add: db_run store_new_def split: option.split)
  then have "(r, ReadReply (last_write cs k)) \<in> set (st_replies (store_step (Read k r) ?s))" by simp
  then have "(r, ReadReply (last_write cs k)) \<in> set (st_replies (store_run ds (store_step (Read k r) ?s)))"
    by (rule replies_mono)
  then show ?thesis by (simp add: store_run_def)
qed

text \<open>
  no notification is lost. A \<open>notify_read\<close> is answered with the value the key holds, and
  when it holds none, with the first value written to it afterwards; as long as nobody writes
  the key its sender stays queued.
\<close>

theorem store_notify:
  "let t = store_run (cs @ NotifyRead k r # ds) store_new in
   case last_write cs k of
     Some v \<Rightarrow> (r, NotifyReply v) \<in> set (st_replies t)
   | None \<Rightarrow> (case first_write ds k of
       Some v \<Rightarrow> (r, NotifyReply v) \<in> set (st_replies t)
     | None \<Rightarrow> waits t k r)"
proof -
  let ?s = "store_run cs store_new" and ?n = "NotifyRead k r"
  have run: "store_run (cs @ ?n # ds) store_new = store_run ds (store_step ?n ?s)"
    by (simp add: store_run_def)
  have db: "st_db ?s k = last_write cs k" by (simp add: db_run store_new_def split: option.split)
  show ?thesis
  proof (cases "last_write cs k")
    case None
    then have "waits (store_step ?n ?s) k r" using db by (simp add: waits_def)
    from wait_run [OF this, of ds] None show ?thesis by (simp only: run Let_def option.case)
  next
    case (Some v)
    then have "(r, NotifyReply v) \<in> set (st_replies (store_step ?n ?s))" using db by simp
    from replies_mono [OF this] Some show ?thesis by (simp only: run Let_def option.case)
  qed
qed

end
