(* ===== verification/Synchronizer.thy ===== *)
theory Synchronizer
  imports Verify Store
begin

text \<open>
  The synchronizer (\<open>primary/src/synchronizer.rs\<close>): it looks up the payload of headers, the
  headers of proposals and the ancestors of a header in the store, and asks the header waiter
  for what is missing.

  The store is the field \<open>sy_store\<close>; the channel to the header waiter is the list \<open>sy_sent\<close>.
  \<open>bincode\<close> is third-party code: \<open>codec\<close> extends the parameters by its functions on headers.
  The history of a proposal is read back by a loop that ends when a stop height is reached;
  it takes fuel, and \<open>headers_of_chain\<close> shows how much is enough on a stored chain.
\<close>

record codec = prims +
  c_ser_header :: "header \<Rightarrow> u8 list"
  c_de_header :: "u8 list \<Rightarrow> header option"

type_synonym missing = "(public_key \<times> proposal \<times> height) list"

datatype waiter_message =
    SyncBatches "(digest \<times> worker_id) list" header bool
  | SyncProposals missing consensus_message header
  | SyncParent digest header u64
  | SyncHeader digest

record synchronizer =
  sy_name :: public_key
  sy_store :: "key \<rightharpoonup> val"
  sy_genesis :: "public_key \<rightharpoonup> header"
  sy_last_fast :: "public_key \<rightharpoonup> height"
  sy_use_fast :: bool
  sy_sent :: "waiter_message list"

type_synonym 'a sync_handler = "(synchronizer, dag_error, 'a) handler"

definition sync_new :: "public_key \<Rightarrow> committee \<Rightarrow> (key \<rightharpoonup> val) \<Rightarrow> bool \<Rightarrow> synchronizer" where
  "sync_new name c store use_fast = \<lparr>sy_name = name, sy_store = store,
     sy_genesis = map_of (genesis_headers c),
     sy_last_fast = map_of (map (\<lambda>(pk, _). (pk, 1)) (authorities c)),
     sy_use_fast = use_fast, sy_sent = []\<rparr>"

definition tell_waiter :: "waiter_message \<Rightarrow> unit sync_handler" where
  "tell_waiter m = modify (\<lambda>s. s\<lparr>sy_sent := sy_sent s @ [m]\<rparr>)"

definition store_read :: "key \<Rightarrow> val option sync_handler" where
  "store_read k = gets (\<lambda>s. sy_store s k)"

definition de_header :: "'p codec_scheme \<Rightarrow> val \<Rightarrow> (dag_error, header) outcome" where
  "de_header P bs = (case c_de_header P bs of None \<Rightarrow> Fail DagSerializationError | Some h \<Rightarrow> Done h)"

definition payload_key :: "digest \<Rightarrow> worker_id \<Rightarrow> key" where
  "payload_key d w = digest_bytes d @ le_bytes 4 w"

definition optimistic_key :: "digest \<Rightarrow> key" where
  "optimistic_key d = digest_bytes d @ [1]"

section \<open>Missing payload\<close>

definition payload_step :: "digest \<times> worker_id \<Rightarrow> (digest \<times> worker_id) list \<Rightarrow> (digest \<times> worker_id) list sync_handler" where
  "payload_step x acc = bind_h (store_read (payload_key (fst x) (snd x))) (\<lambda>r.
     ret (if r = None then hm_insert (fst x) (snd x) acc else acc))"

definition missing_payload :: "header \<Rightarrow> bool \<Rightarrow> bool sync_handler" where
  "missing_payload h force_sync = with_state (\<lambda>s.
     if hd_author h = sy_name s then ret False
     else bind_h (fold_h payload_step (hd_payload h) []) (\<lambda>missing.
          if missing = [] then ret False
          else seq_h (tell_waiter (SyncBatches missing h force_sync)) (ret True)))"

definition fetch_header :: "digest \<Rightarrow> unit sync_handler" where
  "fetch_header d = tell_waiter (SyncHeader d)"

section \<open>Proposals of a consensus message\<close>

definition genesis_of :: "public_key \<Rightarrow> header sync_handler" where
  "genesis_of pk = with_state (\<lambda>s. unwrap (sy_genesis s pk))"

definition push_missing :: "public_key \<Rightarrow> proposal \<Rightarrow> missing \<Rightarrow> missing sync_handler" where
  "push_missing pk p missing = with_state (\<lambda>s.
     if sy_use_fast s
     then bind_h (unwrap (sy_last_fast s pk)) (\<lambda>lower_bound.
          seq_h (modify (\<lambda>s. s\<lparr>sy_last_fast := (sy_last_fast s)(pk \<mapsto> prop_height p)\<rparr>))
            (ret (missing @ [(pk, p, lower_bound)])))
     else ret (missing @ [(pk, p, 1)]))"

type_synonym found = "header list \<times> missing \<times> bool"

definition lookup_proposal :: "'p codec_scheme \<Rightarrow> public_key \<Rightarrow> proposal \<Rightarrow> found \<Rightarrow> found sync_handler" where
  "lookup_proposal P pk p = (\<lambda>(vec, missing, flag).
     bind_h (store_read (digest_bytes (prop_digest p))) (\<lambda>r. case r of
       Some bytes \<Rightarrow> bind_h (of_result (de_header P bytes)) (\<lambda>h. ret (vec @ [h], missing, flag))
     | None \<Rightarrow> bind_h (push_missing pk p missing) (\<lambda>m. ret (vec, m, True))))"

definition prepare_proposal :: "'p codec_scheme \<Rightarrow> header \<Rightarrow> public_key \<times> proposal \<Rightarrow> found \<Rightarrow> found sync_handler" where
  "prepare_proposal P delivered x = (\<lambda>(vec, missing, flag).
     bind_h (genesis_of (fst x)) (\<lambda>g.
     if prop_digest (snd x) = header_digest P g then ret (vec @ [g], missing, flag)
     else if prop_digest (snd x) = header_digest P delivered then ret (vec @ [delivered], missing, flag)
     else lookup_proposal P (fst x) (snd x) (vec, missing, flag)))"

definition confirm_proposal :: "'p codec_scheme \<Rightarrow> public_key \<times> proposal \<Rightarrow> found \<Rightarrow> found sync_handler" where
  "confirm_proposal P x = (\<lambda>(vec, missing, flag).
     bind_h (genesis_of (fst x)) (\<lambda>g.
     if prop_digest (snd x) = header_digest P g then ret (vec @ [g], missing, flag)
     else lookup_proposal P (fst x) (snd x) (vec, missing, flag)))"

definition commit_proposal :: "'p codec_scheme \<Rightarrow> public_key \<times> proposal \<Rightarrow> found \<Rightarrow> found sync_handler" where
  "commit_proposal P x acc =
     (if prop_height (snd x) = 0 then ret acc else confirm_proposal P x acc)"

definition proposal_step :: "'p codec_scheme \<Rightarrow> consensus_message \<Rightarrow> header \<Rightarrow> public_key \<times> proposal \<Rightarrow> found \<Rightarrow> found sync_handler" where
  "proposal_step P m delivered = (case m of
     Prepare s v tc t ps r \<Rightarrow> prepare_proposal P delivered
   | Confirm s v q ps r \<Rightarrow> confirm_proposal P
   | Commit s v q ps r \<Rightarrow> commit_proposal P)"

definition get_proposals :: "'p codec_scheme \<Rightarrow> consensus_message \<Rightarrow> header \<Rightarrow> header list sync_handler" where
  "get_proposals P m delivered =
     bind_h (fold_h (proposal_step P m delivered) (cm_proposals m) ([], [], False)) (\<lambda>(vec, missing, flag).
     if missing = [] \<and> \<not> flag then ret vec
     else seq_h (when_h (missing \<noteq> []) (tell_waiter (SyncProposals missing m delivered))) (ret []))"

definition push_missing_tip :: "public_key \<Rightarrow> proposal \<Rightarrow> missing \<Rightarrow> missing sync_handler" where
  "push_missing_tip pk p missing = with_state (\<lambda>s.
     if sy_use_fast s
     then bind_h (unwrap (sy_last_fast s pk)) (\<lambda>lower_bound.
          if prop_height p > lower_bound
          then seq_h (modify (\<lambda>s. s\<lparr>sy_last_fast := (sy_last_fast s)(pk \<mapsto> prop_height p)\<rparr>))
                 (ret (missing @ [(pk, p, lower_bound)]))
          else ret missing)
     else ret (missing @ [(pk, p, 1)]))"

definition tip_step :: "'p codec_scheme \<Rightarrow> header \<Rightarrow> public_key \<times> proposal \<Rightarrow> missing \<times> bool \<Rightarrow> (missing \<times> bool) sync_handler" where
  "tip_step P delivered x = (\<lambda>(missing, flag).
     bind_h (genesis_of (fst x)) (\<lambda>g.
     if prop_digest (snd x) = header_digest P g then ret (missing, flag)
     else if prop_digest (snd x) = header_digest P delivered then ret (missing, flag)
     else bind_h (store_read (optimistic_key (prop_digest (snd x)))) (\<lambda>r. case r of
            Some _ \<Rightarrow> ret (missing, flag)
          | None \<Rightarrow> bind_h (push_missing_tip (fst x) (snd x) missing) (\<lambda>m. ret (m, True)))))"

definition optimistic_tips_ready :: "'p codec_scheme \<Rightarrow> consensus_message \<Rightarrow> header \<Rightarrow> bool sync_handler" where
  "optimistic_tips_ready P m delivered =
     bind_h (case m of
         Prepare s v tc t ps r \<Rightarrow> fold_h (tip_step P delivered) ps ([], False)
       | _ \<Rightarrow> ret ([], False)) (\<lambda>(missing, flag).
     if missing = [] \<and> \<not> flag then ret True
     else seq_h (when_h (missing \<noteq> []) (tell_waiter (SyncProposals missing m delivered))) (ret False))"

section \<open>Ancestors\<close>

definition get_header :: "'p codec_scheme \<Rightarrow> digest \<Rightarrow> header option sync_handler" where
  "get_header P d = bind_h (store_read (digest_bytes d)) (\<lambda>r. case r of
     Some bytes \<Rightarrow> bind_h (of_result (de_header P bytes)) (\<lambda>h. ret (Some h))
   | None \<Rightarrow> ret None)"

definition get_parent_header :: "'p codec_scheme \<Rightarrow> header \<Rightarrow> header option sync_handler" where
  "get_parent_header P h =
     bind_h (genesis_of (hd_author h)) (\<lambda>g.
     let parent = cert_header_digest (hd_parent_cert h) in
     if parent = header_digest P g then ret (Some g)
     else bind_h (store_read (digest_bytes parent)) (\<lambda>r.
          bind_h (with_state (\<lambda>s. unwrap (sy_last_fast s (hd_author h)))) (\<lambda>last.
          case r of
            Some bytes \<Rightarrow>
              seq_h (when_h (last < hd_height h - 1)
                  (modify (\<lambda>s. s\<lparr>sy_last_fast := (sy_last_fast s)(hd_author h \<mapsto> hd_height h - 1)\<rparr>)))
                (bind_h (of_result (de_header P bytes)) (\<lambda>h'. ret (Some h')))
          | None \<Rightarrow>
              seq_h (modify (\<lambda>s. s\<lparr>sy_last_fast := (sy_last_fast s)(hd_author h \<mapsto> hd_height h - 1)\<rparr>))
                (seq_h (tell_waiter (SyncParent parent h last)) (ret None)))))"

primrec ancestors_loop :: "nat \<Rightarrow> 'p codec_scheme \<Rightarrow> height \<Rightarrow> header \<Rightarrow> height \<Rightarrow> header list \<Rightarrow> header list sync_handler" where
  "ancestors_loop 0 P stop_height h current_height acc = diverge"
| "ancestors_loop (Suc n) P stop_height h current_height acc =
     (if current_height > stop_height
      then bind_h (get_parent_header P h) (\<lambda>r.
           bind_h (unwrap r) (\<lambda>parent.
           ancestors_loop n P stop_height parent (hd_height parent) (acc @ [h])))
      else ret acc)"

definition get_all_headers_for_proposal :: "nat \<Rightarrow> 'p codec_scheme \<Rightarrow> proposal \<Rightarrow> height \<Rightarrow> header list sync_handler" where
  "get_all_headers_for_proposal n P p stop_height =
     bind_h (expect_h (get_header P (prop_digest p))) (\<lambda>r.
     bind_h (unwrap r) (\<lambda>h. ancestors_loop n P stop_height h (prop_height p) []))"

section \<open>Frame: the synchronizer never writes the store\<close>

definition sync_fixed :: "synchronizer \<Rightarrow> public_key \<times> (key \<rightharpoonup> val) \<times> (public_key \<rightharpoonup> header) \<times> bool" where
  "sync_fixed s = (sy_name s, sy_store s, sy_genesis s, sy_use_fast s)"

named_theorems sync_frame \<open>synchronizer operations keep name, store, genesis and mode\<close>

lemmas sync_rules = frame.rules [where part = sync_fixed] frame.with_state [where part = sync_fixed]
  frame.modify [where part = sync_fixed]

lemma tell_waiter_fixed [sync_frame]: "moves (same sync_fixed) (tell_waiter m)"
  unfolding tell_waiter_def by (rule frame.modify) (simp add: same_def sync_fixed_def)

lemma store_read_fixed [sync_frame]: "moves (same sync_fixed) (store_read k)"
  unfolding store_read_def by (rule frame.gets)

lemma genesis_of_fixed [sync_frame]: "moves (same sync_fixed) (genesis_of pk)"
  unfolding genesis_of_def by (intro sync_rules)

lemma push_missing_fixed [sync_frame]: "moves (same sync_fixed) (push_missing pk p m)"
  unfolding push_missing_def
  by (intro frame.with_state) (auto intro!: sync_rules simp: same_def sync_fixed_def)

lemma push_missing_tip_fixed [sync_frame]: "moves (same sync_fixed) (push_missing_tip pk p m)"
  unfolding push_missing_tip_def
  by (intro frame.with_state) (auto intro!: sync_rules simp: same_def sync_fixed_def)

lemma lookup_proposal_fixed [sync_frame]: "moves (same sync_fixed) (lookup_proposal P pk p acc)"
  unfolding lookup_proposal_def
  by (cases acc) (auto intro!: sync_rules sync_frame split: option.split)

lemma confirm_proposal_fixed [sync_frame]: "moves (same sync_fixed) (confirm_proposal P x acc)"
  unfolding confirm_proposal_def by (cases acc) (auto intro!: sync_rules sync_frame)

lemma prepare_proposal_fixed [sync_frame]: "moves (same sync_fixed) (prepare_proposal P d x acc)"
  unfolding prepare_proposal_def by (cases acc) (auto intro!: sync_rules sync_frame)

lemma commit_proposal_fixed [sync_frame]: "moves (same sync_fixed) (commit_proposal P x acc)"
  unfolding commit_proposal_def by (auto intro!: sync_rules sync_frame)

lemma proposal_step_fixed [sync_frame]: "moves (same sync_fixed) (proposal_step P m d x acc)"
  unfolding proposal_step_def by (cases m) (auto intro!: sync_frame)

lemma get_proposals_fixed [sync_frame]: "moves (same sync_fixed) (get_proposals P m d)"
  unfolding get_proposals_def by (auto intro!: sync_rules sync_frame)

lemma tip_step_fixed [sync_frame]: "moves (same sync_fixed) (tip_step P d x acc)"
  unfolding tip_step_def by (cases acc) (auto intro!: sync_rules sync_frame split: option.split)

lemma optimistic_tips_ready_fixed [sync_frame]: "moves (same sync_fixed) (optimistic_tips_ready P m d)"
  unfolding optimistic_tips_ready_def
  by (auto intro!: sync_rules sync_frame split: consensus_message.split)

lemma missing_payload_fixed [sync_frame]: "moves (same sync_fixed) (missing_payload h f)"
  unfolding missing_payload_def payload_step_def
  by (intro frame.with_state) (auto intro!: sync_rules sync_frame)

lemma get_header_fixed [sync_frame]: "moves (same sync_fixed) (get_header P d)"
  unfolding get_header_def by (auto intro!: sync_rules sync_frame split: option.split)

lemma get_parent_header_fixed [sync_frame]: "moves (same sync_fixed) (get_parent_header P h)"
  unfolding get_parent_header_def Let_def
  by (auto intro!: sync_rules sync_frame split: option.split simp: same_def sync_fixed_def)

lemma ancestors_loop_fixed [sync_frame]: "moves (same sync_fixed) (ancestors_loop n P st h c acc)"
  by (induction n arbitrary: h c acc) (auto intro!: sync_rules sync_frame)

lemma get_all_headers_fixed [sync_frame]: "moves (same sync_fixed) (get_all_headers_for_proposal n P p st)"
  unfolding get_all_headers_for_proposal_def by (auto intro!: sync_rules sync_frame)

section \<open>Proposals are returned all or not at all\<close>

text \<open>Where the header of a proposal can come from.\<close>

definition source_of :: "'p codec_scheme \<Rightarrow> synchronizer \<Rightarrow> consensus_message \<Rightarrow> header \<Rightarrow> public_key \<times> proposal \<Rightarrow> header \<Rightarrow> bool" where
  "source_of P s m delivered x h \<longleftrightarrow>
     (sy_genesis s (fst x) = Some h \<and> prop_digest (snd x) = header_digest P h) \<or>
     (h = delivered \<and> prop_digest (snd x) = header_digest P delivered) \<or>
     (\<exists>bytes. sy_store s (digest_bytes (prop_digest (snd x))) = Some bytes \<and> c_de_header P bytes = Some h)"

text \<open>The proposals a message asks for: a Commit skips lanes still at height 0.\<close>

definition wanted :: "consensus_message \<Rightarrow> proposals" where
  "wanted m = (case m of
     Commit s v q ps r \<Rightarrow> filter (\<lambda>x. prop_height (snd x) \<noteq> 0) ps
   | _ \<Rightarrow> cm_proposals m)"

definition is_commit :: "consensus_message \<Rightarrow> bool" where
  "is_commit m = (case m of Commit s v q ps r \<Rightarrow> True | _ \<Rightarrow> False)"

lemma wanted_filter:
  "wanted m = filter (\<lambda>x. \<not> (is_commit m \<and> prop_height (snd x) = 0)) (cm_proposals m)"
  by (cases m) (simp_all add: wanted_def is_commit_def)

lemma push_missing_Done:
  "push_missing pk p ms s = (t, Done ms') \<Longrightarrow> \<exists>lb. ms' = ms @ [(pk, p, lb)] \<and> sy_sent t = sy_sent s"
  by (auto simp: push_missing_def handler_simps split: option.splits if_splits)

lemma lookup_proposal_Done:
  "lookup_proposal P pk p (vec, ms, fl) s = (t, Done (vec', ms', fl')) \<Longrightarrow>
   sy_sent t = sy_sent s \<and>
   ((t = s \<and> ms' = ms \<and> fl' = fl \<and> (\<exists>h. vec' = vec @ [h] \<and> source_of P s m d (pk, p) h))
    \<or> (fl' \<and> (\<exists>lb. ms' = ms @ [(pk, p, lb)])))"
  by (auto simp: lookup_proposal_def store_read_def de_header_def source_of_def bind_h_def gets_def ret_def
      of_result_def split: option.splits outcome.splits prod.splits dest!: push_missing_Done)

lemma proposal_step_Done:
  assumes "proposal_step P m d x (vec, ms, fl) s = (t, Done (vec', ms', fl'))"
  shows "sy_sent t = sy_sent s \<and>
    (if is_commit m \<and> prop_height (snd x) = 0 then t = s \<and> vec' = vec \<and> ms' = ms \<and> fl' = fl
     else (t = s \<and> ms' = ms \<and> fl' = fl \<and> (\<exists>h. vec' = vec @ [h] \<and> source_of P s m d x h))
        \<or> (fl' \<and> (\<exists>lb. ms' = ms @ [(fst x, snd x, lb)])))"
proof (cases "is_commit m \<and> prop_height (snd x) = 0")
  case True
  then show ?thesis using assms
    by (cases m) (auto simp: is_commit_def proposal_step_def commit_proposal_def ret_def)
next
  case False
  obtain g where "sy_genesis s (fst x) = Some g" and
    "t = s \<and> ms' = ms \<and> fl' = fl \<and> (\<exists>h. vec' = vec @ [h] \<and> source_of P s m d x h) \<or>
     lookup_proposal P (fst x) (snd x) (vec, ms, fl) s = (t, Done (vec', ms', fl'))"
    using assms False
    by (cases m)
      (auto simp: is_commit_def proposal_step_def commit_proposal_def confirm_proposal_def
        prepare_proposal_def genesis_of_def source_of_def bind_h_def with_state_def unwrap_def panic_def
        ret_def split: option.splits if_splits)
  then show ?thesis
    using False lookup_proposal_Done [of P "fst x" "snd x" vec ms fl s t vec' ms' fl' m d] by auto
qed

lemma proposal_fold_Done:
  "fold_h (proposal_step P m d) ps (vec, ms, fl) s = (t, Done (vec', ms', fl')) \<Longrightarrow>
   sy_sent t = sy_sent s \<and> (fl \<longrightarrow> fl') \<and> (\<exists>more. ms' = ms @ more) \<and>
   (\<not> fl' \<longrightarrow> ms' = ms \<and> (\<exists>hs. vec' = vec @ hs \<and>
      list_all2 (source_of P s m d) (filter (\<lambda>x. \<not> (is_commit m \<and> prop_height (snd x) = 0)) ps) hs))"
proof (induction ps arbitrary: vec ms fl s)
  case Nil
  then show ?case by (simp add: ret_def)
next
  case (Cons x ps)
  then obtain u vec1 ms1 fl1 where
    st: "proposal_step P m d x (vec, ms, fl) s = (u, Done (vec1, ms1, fl1))" and
    rest: "fold_h (proposal_step P m d) ps (vec1, ms1, fl1) u = (t, Done (vec', ms', fl'))"
    by (auto simp: bind_h_def split: prod.splits outcome.splits)
  note step = proposal_step_Done [OF st] and IH = Cons.IH [OF rest]
  show ?case
  proof (cases "is_commit m \<and> prop_height (snd x) = 0")
    case True
    then show ?thesis using step IH by auto
  next
    case False
    then have "(u = s \<and> ms1 = ms \<and> fl1 = fl \<and> (\<exists>h. vec1 = vec @ [h] \<and> source_of P s m d x h))
        \<or> (fl1 \<and> (\<exists>lb. ms1 = ms @ [(fst x, snd x, lb)]))" using step by simp
    then show ?thesis
    proof
      assume "u = s \<and> ms1 = ms \<and> fl1 = fl \<and> (\<exists>h. vec1 = vec @ [h] \<and> source_of P s m d x h)"
      then show ?thesis using IH False by (auto simp: list_all2_Cons1)
    next
      assume "fl1 \<and> (\<exists>lb. ms1 = ms @ [(fst x, snd x, lb)])"
      then show ?thesis using IH step by auto
    qed
  qed
qed

lemma proposal_fold_missing:
  "fold_h (proposal_step P m d) ps (vec, ms, fl) s = (t, Done (vec', ms', fl')) \<Longrightarrow>
   fl \<longrightarrow> ms \<noteq> [] \<Longrightarrow> fl' \<longrightarrow> ms' \<noteq> []"
proof (induction ps arbitrary: vec ms fl s)
  case Nil
  then show ?case by (simp add: ret_def)
next
  case (Cons x ps)
  then obtain u vec1 ms1 fl1 where
    st: "proposal_step P m d x (vec, ms, fl) s = (u, Done (vec1, ms1, fl1))" and
    rest: "fold_h (proposal_step P m d) ps (vec1, ms1, fl1) u = (t, Done (vec', ms', fl'))"
    by (auto simp: bind_h_def split: prod.splits outcome.splits)
  have "fl1 \<longrightarrow> ms1 \<noteq> []" using proposal_step_Done [OF st] Cons.prems(2) by (auto split: if_splits)
  then show ?case by (rule Cons.IH [OF rest])
qed

text \<open>
  \<open>get_proposals\<close> answers with the headers of all wanted proposals, in order and each from
  the genesis, the delivered header or the store, and then asks for nothing; or it answers
  with the empty list and any request it sends names this message and header. It never
  returns a part of the proposals.
\<close>

theorem get_proposals_all_or_nothing:
  assumes "get_proposals P m d s = (t, Done hs)"
  shows "(list_all2 (source_of P s m d) (wanted m) hs \<and> sy_sent t = sy_sent s) \<or>
    (hs = [] \<and> (\<exists>missing. sy_sent t = sy_sent s @ [SyncProposals missing m d]))"
proof -
  obtain u vec ms fl where
    fold: "fold_h (proposal_step P m d) (cm_proposals m) ([], [], False) s = (u, Done (vec, ms, fl))" and
    rest: "(if ms = [] \<and> \<not> fl then ret vec
       else seq_h (when_h (ms \<noteq> []) (tell_waiter (SyncProposals ms m d))) (ret [])) u = (t, Done hs)"
    using assms by (auto simp: get_proposals_def bind_h_def split: prod.splits outcome.splits)
  note IH = proposal_fold_Done [OF fold]
  have msfl: "fl \<longrightarrow> ms \<noteq> []"
    using proposal_fold_missing [OF fold] by simp
  show ?thesis
  proof (cases "fl")
    case True
    then show ?thesis using rest IH msfl
      by (auto simp: handler_simps tell_waiter_def)
  next
    case False
    then show ?thesis using rest IH by (auto simp: ret_def wanted_filter)
  qed
qed

section \<open>The history of a proposal\<close>

definition parent_of :: "'p codec_scheme \<Rightarrow> synchronizer \<Rightarrow> header \<Rightarrow> header option" where
  "parent_of P s h = (case sy_genesis s (hd_author h) of None \<Rightarrow> None | Some g \<Rightarrow>
     let parent = cert_header_digest (hd_parent_cert h) in
     if parent = header_digest P g then Some g
     else Option.bind (sy_store s (digest_bytes parent)) (c_de_header P))"

text \<open>Headers of one lane, newest first, each stored as the parent of the one before.\<close>

fun lane_chain :: "'p codec_scheme \<Rightarrow> synchronizer \<Rightarrow> public_key \<Rightarrow> header list \<Rightarrow> bool" where
  "lane_chain P s pk [] \<longleftrightarrow> False"
| "lane_chain P s pk [h] \<longleftrightarrow> hd_author h = pk"
| "lane_chain P s pk (h # h' # hs) \<longleftrightarrow>
     hd_author h = pk \<and> parent_of P s h = Some h' \<and> hd_height h = hd_height h' + 1 \<and>
     hd_height h' < hd_height h \<and> lane_chain P s pk (h' # hs)"

lemma parent_of_fixed: "sync_fixed t = sync_fixed s \<Longrightarrow> parent_of P t h = parent_of P s h"
  by (simp add: parent_of_def sync_fixed_def Let_def split: option.split)

lemma lane_chain_fixed:
  assumes "sync_fixed t = sync_fixed s"
  shows "lane_chain P t pk hs = lane_chain P s pk hs"
  by (induction hs rule: induct_list012) (simp_all add: parent_of_fixed [OF assms])

lemma get_parent_header_Some:
  assumes "parent_of P s h = Some h'" and "sy_last_fast s (hd_author h) \<noteq> None"
  shows "\<exists>t. get_parent_header P h s = (t, Done (Some h')) \<and> sync_fixed t = sync_fixed s \<and>
    (\<forall>pk. sy_last_fast s pk \<noteq> None \<longrightarrow> sy_last_fast t pk \<noteq> None)"
proof -
  obtain g where g: "sy_genesis s (hd_author h) = Some g"
    using assms(1) by (auto simp: parent_of_def split: option.splits)
  obtain last where l: "sy_last_fast s (hd_author h) = Some last" using assms(2) by auto
  show ?thesis
  proof (cases "cert_header_digest (hd_parent_cert h) = header_digest P g")
    case True
    then show ?thesis using assms(1) g
      by (simp add: parent_of_def get_parent_header_def genesis_of_def handler_simps)
  next
    case False
    then obtain bytes where "sy_store s (digest_bytes (cert_header_digest (hd_parent_cert h))) = Some bytes"
        "c_de_header P bytes = Some h'"
      using assms(1) g by (auto simp: parent_of_def split: bind_splits)
    then show ?thesis using False g l
      by (simp add: get_parent_header_def genesis_of_def store_read_def de_header_def sync_fixed_def handler_simps Let_def)
  qed
qed

lemma ancestors_loop_chain:
  "lane_chain P s pk (hs @ [z]) \<Longrightarrow> sy_last_fast s pk \<noteq> None \<Longrightarrow> hd_height z \<le> stop \<Longrightarrow>
   \<forall>h \<in> set hs. stop < hd_height h \<Longrightarrow> length hs < n \<Longrightarrow>
   \<exists>t. ancestors_loop n P stop (hd (hs @ [z])) (hd_height (hd (hs @ [z]))) acc s = (t, Done (acc @ hs))
     \<and> sync_fixed t = sync_fixed s"
proof (induction hs arbitrary: n s acc)
  case Nil
  then obtain m where "n = Suc m" by (cases n) auto
  then show ?case using Nil by (simp add: ret_def not_less [symmetric])
next
  case (Cons h hs)
  obtain m where n: "n = Suc m" using Cons.prems(5) by (cases n) auto
  obtain h' rest where tl: "hs @ [z] = h' # rest" by (cases "hs @ [z]") auto
  have par: "parent_of P s h = Some h'" "hd_author h = pk" and ch: "lane_chain P s pk (hs @ [z])"
    using Cons.prems(1) tl by simp_all
  obtain u where u: "get_parent_header P h s = (u, Done (Some h'))" "sync_fixed u = sync_fixed s"
      "sy_last_fast u pk \<noteq> None"
    using get_parent_header_Some [OF par(1)] par(2) Cons.prems(2) by auto
  have "lane_chain P u pk (hs @ [z])" using ch by (simp only: lane_chain_fixed [OF u(2)])
  from Cons.IH [OF this u(3) Cons.prems(3), of m "acc @ [h]"] Cons.prems(4,5) n
  obtain t where "ancestors_loop m P stop h' (hd_height h') (acc @ [h]) u = (t, Done ((acc @ [h]) @ hs))"
      "sync_fixed t = sync_fixed u"
    using tl by auto
  then show ?case
    using u n Cons.prems(4) by (simp add: bind_h_def unwrap_def ret_def)
qed

lemma lane_chain_heights:
  "lane_chain P s pk hs \<Longrightarrow> i < length hs \<Longrightarrow>
   unat (hd_height (hs ! i)) + i = unat (hd_height (hd hs)) \<and> hd_author (hs ! i) = pk"
proof (induction P s pk hs arbitrary: i rule: lane_chain.induct)
  case (3 P s pk h h' hs)
  show ?case
  proof (cases i)
    case 0
    then show ?thesis using 3 by simp
  next
    case (Suc j)
    have eq: "hd_height h = hd_height h' + 1" and lt: "hd_height h' < hd_height h"
      using 3(2) unfolding lane_chain.simps by blast+
    have "unat (hd_height h' + 1) = Suc (unat (hd_height h'))" by (rule unat_Suc_no_wrap [OF lt])
    with eq have "unat (hd_height h) = Suc (unat (hd_height h'))" by simp
    then show ?thesis using 3(1) [of j] 3(2,3) Suc by simp
  qed
qed simp_all

text \<open>
  C17: when the lane of a proposal is stored down to the stop height, the traversal ends and
  returns exactly the headers above the stop height: \<open>height - stop\<close> of them, newest first,
  of contiguous heights and of the lane's author, each the parent of the one before. Fuel
  above that number is enough.
\<close>

theorem headers_of_chain:
  assumes "lane_chain P s pk (hs @ [z])" and "hs \<noteq> []"
    and "sy_store s (digest_bytes (prop_digest p)) = Some bytes" and "c_de_header P bytes = Some (hd hs)"
    and "prop_height p = hd_height (hd hs)" and "sy_last_fast s pk \<noteq> None"
    and "stop = hd_height z" and "length hs < n"
  shows "\<exists>t. get_all_headers_for_proposal n P p stop s = (t, Done hs) \<and> sync_fixed t = sync_fixed s \<and>
    length hs = unat (prop_height p) - unat stop \<and>
    (\<forall>i < length hs. unat (hd_height (hs ! i)) = unat (prop_height p) - i \<and> hd_author (hs ! i) = pk)"
proof -
  have ht: "unat (hd_height ((hs @ [z]) ! i)) + i = unat (hd_height (hd hs)) \<and> hd_author ((hs @ [z]) ! i) = pk"
    if "i \<le> length hs" for i
    using lane_chain_heights [OF assms(1), of i] that assms(2) by simp
  have up: "\<forall>h \<in> set hs. stop < hd_height h"
  proof
    fix h assume "h \<in> set hs"
    then obtain i where "i < length hs" "h = hs ! i" by (auto simp: in_set_conv_nth)
    then show "stop < hd_height h"
      using ht [of i] ht [of "length hs"] assms(7) by (simp add: nth_append word_less_nat_alt)
  qed
  obtain t where t: "ancestors_loop n P stop (hd (hs @ [z])) (hd_height (hd (hs @ [z]))) [] s = (t, Done ([] @ hs))"
      "sync_fixed t = sync_fixed s"
    using ancestors_loop_chain [OF assms(1,6) _ up assms(8), of "[]"] assms(7) by auto
  have "get_all_headers_for_proposal n P p stop s = (t, Done hs)"
    using t(1) assms(2-5)
    by (simp add: get_all_headers_for_proposal_def get_header_def store_read_def de_header_def handler_simps)
  moreover have "unat (hd_height (hs ! i)) = unat (prop_height p) - i \<and> hd_author (hs ! i) = pk"
    if "i < length hs" for i
    using ht [of i] that assms(5) by (simp add: nth_append) linarith
  moreover have "length hs = unat (prop_height p) - unat stop"
    using ht [of "length hs"] assms(5,7) by (simp add: nth_append) (metis add_diff_cancel_left')
  ultimately show ?thesis using t(2) by blast
qed

section \<open>A concrete store\<close>

definition lane_header :: "u64 \<Rightarrow> header" where
  "lane_header k = default_header\<lparr>hd_author := PublicKey 1, hd_height := k,
     hd_parent_cert := default_certificate\<lparr>cert_header_digest :=
       (if k = 1 then Digest 72 else Digest (1000 + ucast (k - 1)))\<rparr>\<rparr>"

definition sample_codec :: codec where
  "sample_codec = prims.extend sample_prims (codec.fields (\<lambda>h. [ucast (hd_height h)])
     (\<lambda>bs. case bs of [] \<Rightarrow> None | b # _ \<Rightarrow> Some (lane_header (ucast b))))"

definition sample_sync :: synchronizer where
  "sample_sync = sync_new (PublicKey 2) sample_committee
     [digest_bytes (Digest 1001) \<mapsto> [1], digest_bytes (Digest 1002) \<mapsto> [2]] False"

lemma sample_codec_hash: "header_digest sample_codec (genesis_header_of a) = Digest 72"
  by (simp add: header_digest_def hash32_def sample_codec_def prims.extend_def codec.fields_def
      sample_prims_def length_header_input genesis_header_of_def default_header_def)

lemma sample_de: "c_de_header sample_codec (b # bs) = Some (lane_header (ucast b))"
  by (simp add: sample_codec_def prims.extend_def codec.fields_def)

lemma sample_genesis: "sy_genesis sample_sync (PublicKey 1) = Some (genesis_header_of (PublicKey 1))"
  by (simp add: sample_sync_def sync_new_def genesis_headers_def sample_authorities)

lemma sample_chain: "lane_chain sample_codec sample_sync (PublicKey 1)
    ([lane_header 2, lane_header 1] @ [genesis_header_of (PublicKey 1)])"
  by (simp add: parent_of_def lane_header_def sample_genesis sample_codec_hash)
    (simp add: sample_sync_def sync_new_def sample_de lane_header_def genesis_header_of_def default_header_def)

lemma sample_stored:
  "sy_store sample_sync (digest_bytes (Digest 1002)) = Some [2]"
  "c_de_header sample_codec [2] = Some (hd [lane_header 2, lane_header 1])"
  "sy_last_fast sample_sync (PublicKey 1) \<noteq> None"
  "hd_height (hd [lane_header 2, lane_header 1]) = 2"
  "hd_height (genesis_header_of (PublicKey 1)) = 0"
  by (simp_all add: sample_sync_def sync_new_def sample_de sample_authorities lane_header_def
      genesis_header_of_def default_header_def)

theorem headers_of_chain_witness:
  "\<exists>t. get_all_headers_for_proposal 3 sample_codec \<lparr>prop_digest = Digest 1002, prop_height = 2\<rparr> 0 sample_sync
     = (t, Done [lane_header 2, lane_header 1])"
  using headers_of_chain [OF sample_chain, of "\<lparr>prop_digest = Digest 1002, prop_height = 2\<rparr>" "[2]" 0 3]
  by (auto simp: sample_stored simp del: list.sel)

theorem get_proposals_all_or_nothing_witness:
  "\<exists>t. get_proposals sample_codec (Confirm 1 1 default_qc [(PublicKey 1, \<lparr>prop_digest = Digest 5, prop_height = 2\<rparr>)] None)
      default_header sample_sync = (t, Done [])
     \<and> (\<exists>missing. sy_sent t = sy_sent sample_sync @ [SyncProposals missing
       (Confirm 1 1 default_qc [(PublicKey 1, \<lparr>prop_digest = Digest 5, prop_height = 2\<rparr>)] None) default_header])"
proof -
  let ?m = "Confirm 1 1 default_qc [(PublicKey 1, \<lparr>prop_digest = Digest 5, prop_height = 2\<rparr>)] None"
  have "sy_store sample_sync (digest_bytes (Digest 5)) = None" "\<not> sy_use_fast sample_sync"
    by (simp_all add: sample_sync_def sync_new_def)
  then obtain t where t: "get_proposals sample_codec ?m default_header sample_sync = (t, Done [])"
    by (simp add: get_proposals_def proposal_step_def confirm_proposal_def genesis_of_def sample_genesis
        lookup_proposal_def store_read_def push_missing_def tell_waiter_def sample_codec_hash handler_simps)
  show ?thesis using get_proposals_all_or_nothing [OF t] t by (simp add: wanted_def)
qed

end
