(* ===== verification/Committer.thy ===== *)
theory Committer
  imports Synchronizer "HOL-Library.Multiset"
begin

text \<open>
  The committer (\<open>primary/src/committer.rs\<close>): it receives Commit messages in any order, keeps
  them in a log by slot and executes slots strictly in order, delivering for each proposal of
  a slot the new part of its lane.

  \<open>cm_output\<close> is the channel to the application. Logging is not modelled. \<open>exec_step\<close> is the
  execution of one slot as a relation; \<open>commit_steps\<close> connects the code's loop with it.
\<close>

record committer =
  co_last_committed_round :: height
  co_last_executed_heights :: "(public_key \<times> height) list"
  co_dag :: "(height \<times> (public_key \<times> digest \<times> certificate) list) list"
  co_log :: "slot \<rightharpoonup> consensus_message"
  co_last_executed_slot :: slot
  co_sync :: synchronizer
  co_output :: "header list"

definition committer_new :: "'p prims_scheme \<Rightarrow> certificate list \<Rightarrow> synchronizer \<Rightarrow> committer" where
  "committer_new P genesis sy =
     (let g = fold (\<lambda>x m. hm_insert (cert_author x) (certificate_digest P x, x) m) genesis [] in
      \<lparr>co_last_committed_round = 0, co_last_executed_heights = map (\<lambda>(x, _). (x, 0)) g,
       co_dag = [(0, g)], co_log = (\<lambda>_. None), co_last_executed_slot = 0, co_sync = sy, co_output = []\<rparr>)"

text \<open>\<open>State::update\<close>; the maximum is over a non-empty map since the entry was just written.\<close>

definition gc_lane :: "height \<Rightarrow> height \<Rightarrow> public_key \<times> height
    \<Rightarrow> (height \<times> (public_key \<times> digest \<times> certificate) list) list \<Rightarrow> (height \<times> (public_key \<times> digest \<times> certificate) list) list" where
  "gc_lane depth newest lane dag =
     filter (\<lambda>(r, as). as \<noteq> [] \<and> r + depth \<ge> newest)
       (map (\<lambda>(r, as). (r, filter (\<lambda>(n, _). n \<noteq> fst lane \<or> r \<ge> snd lane) as)) dag)"

definition committer_update :: "certificate \<Rightarrow> height \<Rightarrow> committer \<Rightarrow> committer" where
  "committer_update cert depth s =
     (let heights = hm_insert (cert_author cert)
            (case map_of (co_last_executed_heights s) (cert_author cert) of
               None \<Rightarrow> cert_height cert | Some r \<Rightarrow> max r (cert_height cert)) (co_last_executed_heights s);
          newest = Max (set (map snd heights))
      in s\<lparr>co_last_executed_heights := heights, co_last_committed_round := newest,
           co_dag := fold (gc_lane depth newest) heights (co_dag s)\<rparr>)"

definition on_sync :: "'a sync_handler \<Rightarrow> (committer, dag_error, 'a) handler" where
  "on_sync h = zoom co_sync (\<lambda>t s. s\<lparr>co_sync := t\<rparr>) h"

definition deliver_header :: "header \<Rightarrow> (committer, dag_error, unit) handler" where
  "deliver_header h = modify (\<lambda>s. s\<lparr>co_output := co_output s @ [h]\<rparr>)"

definition execute_lane :: "nat \<Rightarrow> 'p codec_scheme \<Rightarrow> public_key \<times> proposal \<Rightarrow> (committer, dag_error, unit) handler" where
  "execute_lane n P x = with_state (\<lambda>s.
     bind_h (unwrap (map_of (co_last_executed_heights s) (fst x))) (\<lambda>stop_height.
     if prop_height (snd x) \<le> stop_height then ret ()
     else bind_h (expect_h (on_sync (get_all_headers_for_proposal n P (snd x) stop_height))) (\<lambda>headers.
          seq_h (when_h (prop_height (snd x) > stop_height)
              (modify (\<lambda>s. s\<lparr>co_last_executed_heights :=
                 hm_insert (fst x) (prop_height (snd x)) (co_last_executed_heights s)\<rparr>)))
            (each deliver_header headers))))"

definition execute_slot :: "nat \<Rightarrow> 'p codec_scheme \<Rightarrow> proposals \<Rightarrow> (committer, dag_error, unit) handler" where
  "execute_slot n P ps = seq_h (each (execute_lane n P) ps)
     (modify (\<lambda>s. s\<lparr>co_last_executed_slot := co_last_executed_slot s + 1\<rparr>))"

text \<open>
  The \<open>while\<close> loop, with fuel \<open>n\<close> for the slots and \<open>k\<close> for the lane traversals; a logged
  message that is no Commit would make it spin.
\<close>

primrec execute_loop :: "nat \<Rightarrow> nat \<Rightarrow> 'p codec_scheme \<Rightarrow> (committer, dag_error, unit) handler" where
  "execute_loop 0 k P = diverge"
| "execute_loop (Suc n) k P = with_state (\<lambda>s.
     case co_log s (co_last_executed_slot s + 1) of
       None \<Rightarrow> ret ()
     | Some (Commit sl v q ps r) \<Rightarrow> seq_h (execute_slot k P ps) (execute_loop n k P)
     | Some _ \<Rightarrow> execute_loop n k P)"

definition log_commit :: "consensus_message \<Rightarrow> committer \<Rightarrow> committer" where
  "log_commit m s = s\<lparr>co_log := (co_log s)(cm_slot m \<mapsto> m)\<rparr>"

definition process_commit_message :: "nat \<Rightarrow> nat \<Rightarrow> 'p codec_scheme \<Rightarrow> consensus_message \<Rightarrow> (committer, dag_error, unit) handler" where
  "process_commit_message n k P m = (case m of
     Commit sl v q ps r \<Rightarrow> with_state (\<lambda>s.
       if sl \<le> co_last_executed_slot s then ret ()
       else seq_h (modify (log_commit m)) (execute_loop n k P))
   | _ \<Rightarrow> ret ())"

section \<open>Executed heights only grow\<close>

text \<open>What every step of the committer respects: lane heights, the executed slot and the output grow.\<close>

definition co_le :: "committer \<Rightarrow> committer \<Rightarrow> bool" where
  "co_le s t \<longleftrightarrow>
     (\<forall>pk h. map_of (co_last_executed_heights s) pk = Some h \<longrightarrow>
        (\<exists>h' \<ge> h. map_of (co_last_executed_heights t) pk = Some h')) \<and>
     (\<exists>out. co_output t = co_output s @ out) \<and>
     co_log s = co_log t \<and> sync_fixed (co_sync t) = sync_fixed (co_sync s)"

interpretation co: step_order co_le
proof
  show "co_le s s" for s by (auto simp: co_le_def)
  show "co_le s u" if "co_le s t" "co_le t u" for s t u
    using that by (auto simp: co_le_def) (meson order_trans)
qed

lemma on_sync_le: "moves (same sync_fixed) h \<Longrightarrow> moves co_le (on_sync h)"
  unfolding on_sync_def zoom_def moves_def co_le_def same_def
  by (auto split: prod.split) (metis fst_conv)

lemma on_sync_heights: "moves (same (\<lambda>s. (co_last_executed_heights s, co_output s))) (on_sync h)"
  by (simp add: moves_def same_def on_sync_def zoom_def split: prod.split)

lemma deliver_le: "moves co_le (each deliver_header headers)"
  unfolding deliver_header_def by (intro co.each co.modify) (auto simp: co_le_def)

lemma execute_lane_le: "moves co_le (execute_lane n P x)"
  unfolding execute_lane_def
proof (rule co.with_state_at, rule co.bind_at)
  fix s t :: committer and a
  let ?h = "expect_h (on_sync (get_all_headers_for_proposal n P (snd x) a))"
  assume "unwrap (map_of (co_last_executed_heights s) (fst x)) s = (t, Done a)"
  then have st: "t = s" "map_of (co_last_executed_heights s) (fst x) = Some a"
    by (auto simp: handler_simps split: option.splits)
  have frame: "moves (same (\<lambda>s. (co_last_executed_heights s, co_output s))) ?h"
    by (intro frame.expect on_sync_heights)
  show "co_le t (fst ((if prop_height (snd x) \<le> a then ret ()
     else bind_h ?h (\<lambda>headers.
          seq_h (when_h (prop_height (snd x) > a)
              (modify (\<lambda>s. s\<lparr>co_last_executed_heights :=
                 hm_insert (fst x) (prop_height (snd x)) (co_last_executed_heights s)\<rparr>)))
            (each deliver_header headers))) t))"
  proof (cases "prop_height (snd x) \<le> a")
    case True
    then show ?thesis by (simp add: co.at [OF co.ret])
  next
    case False
    have "co_le t (fst (bind_h ?h (\<lambda>headers.
          seq_h (when_h (prop_height (snd x) > a)
              (modify (\<lambda>s. s\<lparr>co_last_executed_heights :=
                 hm_insert (fst x) (prop_height (snd x)) (co_last_executed_heights s)\<rparr>)))
            (each deliver_header headers)) t))"
    proof (rule co.bind_at)
      show "co_le t (fst (?h t))"
        by (intro co.at co.expect on_sync_le sync_frame)
      fix headers u
      assume "?h t = (u, Done headers)"
      then have "co_last_executed_heights u = co_last_executed_heights s"
        using moves_stateD [OF frame] st(1) by (auto simp: same_def)
      then have "co_le u (fst (when_h (prop_height (snd x) > a)
              (modify (\<lambda>s. s\<lparr>co_last_executed_heights :=
                 hm_insert (fst x) (prop_height (snd x)) (co_last_executed_heights s)\<rparr>)) u))"
        using st(2) False by (auto simp: co_le_def when_h_def modify_def ret_def)
      then show "co_le u (fst (seq_h (when_h (prop_height (snd x) > a)
              (modify (\<lambda>s. s\<lparr>co_last_executed_heights :=
                 hm_insert (fst x) (prop_height (snd x)) (co_last_executed_heights s)\<rparr>)))
            (each deliver_header headers) u))"
        by (rule co.seq_at) (rule co.at [OF deliver_le])
    qed
    with False show ?thesis by simp
  qed
qed (simp add: co.at [OF co.unwrap])

lemma execute_slot_le: "moves co_le (execute_slot n P ps)"
  unfolding execute_slot_def
  by (intro co.seq co.each execute_lane_le co.modify) (auto simp: co_le_def)

lemma execute_loop_le: "moves co_le (execute_loop n k P)"
  by (induction n)
    (auto intro!: co.rules co.with_state execute_slot_le split: option.split consensus_message.split)

section \<open>Execution as a relation\<close>

inductive exec_step :: "nat \<Rightarrow> 'p codec_scheme \<Rightarrow> committer \<Rightarrow> committer \<Rightarrow> bool" for k P where
  "co_log s (co_last_executed_slot s + 1) = Some (Commit sl v q ps r) \<Longrightarrow>
   execute_slot k P ps s = (t, Done ()) \<Longrightarrow> exec_step k P s t"

inductive_cases exec_stepE: "exec_step k P s t"

definition settled :: "committer \<Rightarrow> bool" where
  "settled s \<longleftrightarrow> co_log s (co_last_executed_slot s + 1) = None"

definition runs :: "nat \<Rightarrow> 'p codec_scheme \<Rightarrow> committer \<Rightarrow> committer \<Rightarrow> bool" where
  "runs k P s t \<longleftrightarrow> (exec_step k P)\<^sup>*\<^sup>* s t \<and> settled t"

lemma exec_step_det: "exec_step k P s t \<Longrightarrow> exec_step k P s t' \<Longrightarrow> t = t'"
  by (auto elim!: exec_stepE)

lemma settled_no_step: "settled s \<Longrightarrow> \<not> exec_step k P s t"
  by (auto simp: settled_def elim: exec_stepE)

lemma runs_det: "runs k P s t \<Longrightarrow> runs k P s t' \<Longrightarrow> t = t'"
  unfolding runs_def
proof (elim conjE, induction rule: converse_rtranclp_induct)
  case base
  then show ?case using settled_no_step by (metis converse_rtranclpE)
next
  case (step s u)
  then show ?case using settled_no_step exec_step_det by (metis converse_rtranclpE)
qed

lemma runs_step: "exec_step k P s u \<Longrightarrow> runs k P u t \<Longrightarrow> runs k P s t"
  by (auto simp: runs_def intro: converse_rtranclp_into_rtranclp)

lemma loop_runs: "execute_loop n k P s = (t, Done ()) \<Longrightarrow> runs k P s t"
proof (induction n arbitrary: s)
  case (Suc n)
  show ?case
  proof (cases "co_log s (co_last_executed_slot s + 1)")
    case None
    then show ?thesis using Suc.prems by (simp add: with_state_def ret_def runs_def settled_def)
  next
    case (Some m)
    show ?thesis
    proof (cases m)
      case (Commit sl v q ps r)
      with Some Suc.prems obtain u where
        "execute_slot k P ps s = (u, Done ())" "execute_loop n k P u = (t, Done ())"
        by (auto simp: with_state_def seq_h_def bind_h_def split: prod.splits outcome.splits)
      then show ?thesis using Suc.IH runs_step exec_step.intros Some Commit by metis
    qed (use Some Suc in \<open>auto simp: with_state_def\<close>)
  qed
qed (simp add: diverge_def)

lemma runs_loop:
  assumes "runs k P s t"
  shows "\<exists>N. \<forall>n \<ge> N. execute_loop n k P s = (t, Done ())"
proof -
  have "(exec_step k P)\<^sup>*\<^sup>* s t" and st: "settled t" using assms by (auto simp: runs_def)
  then show ?thesis
  proof (induction rule: converse_rtranclp_induct)
    case base
    have "execute_loop n k P t = (t, Done ())" if "1 \<le> n" for n
      using that st by (cases n) (simp_all add: with_state_def ret_def settled_def)
    then show ?case by blast
  next
    case (step s u)
    then obtain N where N: "\<forall>n \<ge> N. execute_loop n k P u = (t, Done ())" by blast
    from step(1) obtain sl v q ps r where
      "co_log s (co_last_executed_slot s + 1) = Some (Commit sl v q ps r)"
      "execute_slot k P ps s = (u, Done ())" by (auto elim: exec_stepE)
    then have "execute_loop (Suc n) k P s = execute_loop n k P u" for n
      by (simp add: with_state_def seq_h_def bind_h_def)
    then have "execute_loop n k P s = (t, Done ())" if "Suc N \<le> n" for n
      using that N by (cases n) auto
    then show ?case by blast
  qed
qed

text \<open>Execution neither reads beyond the next slot of the log nor writes the log.\<close>

lemma execute_lane_commutes: "commutes (co_log_update g) (execute_lane k P x)"
  unfolding execute_lane_def on_sync_def deliver_header_def
  by (intro commutes_with_state) (auto intro!: commutes_rules commutes_zoom commutes_modify)

lemma execute_slot_commutes: "commutes (co_log_update g) (execute_slot k P ps)"
  unfolding execute_slot_def
  by (intro commutes_rules execute_lane_commutes commutes_modify) simp

lemma execute_slot_log: "execute_slot k P ps s = (t, r) \<Longrightarrow> co_log t = co_log s"
  using moves_stateD [OF execute_slot_le] by (fastforce simp: co_le_def)

lemma on_sync_slot: "moves (same co_last_executed_slot) (on_sync h)"
  by (simp add: moves_def same_def on_sync_def zoom_def split: prod.split)

lemma execute_lane_slot: "moves (same co_last_executed_slot) (execute_lane k P x)"
  unfolding execute_lane_def deliver_header_def
  by (intro frame.with_state) (auto intro!: frame.rules frame.modify on_sync_slot simp: same_def)

lemma execute_slot_last:
  assumes "execute_slot k P ps s = (t, Done ())"
  shows "co_last_executed_slot t = co_last_executed_slot s + 1"
proof -
  obtain u where "each (execute_lane k P) ps s = (u, Done ())" "t = u\<lparr>co_last_executed_slot := co_last_executed_slot u + 1\<rparr>"
    using assms by (auto simp: execute_slot_def seq_h_def bind_h_def modify_def split: prod.splits outcome.splits)
  moreover have "moves (same co_last_executed_slot) (each (execute_lane k P) ps)"
    by (intro frame.each execute_lane_slot)
  ultimately show ?thesis using moves_stateD by (fastforce simp: same_def)
qed

lemma step_facts:
  assumes "exec_step k P s t"
  shows "co_log t = co_log s" and "co_last_executed_slot t = co_last_executed_slot s + 1"
    and "co_log s (co_last_executed_slot s + 1) \<noteq> None"
  using assms execute_slot_log execute_slot_last by (auto elim!: exec_stepE)

lemma exec_step_relog:
  assumes "exec_step k P s t" and "L (co_last_executed_slot s + 1) = co_log s (co_last_executed_slot s + 1)"
  shows "exec_step k P (s\<lparr>co_log := L\<rparr>) (t\<lparr>co_log := L\<rparr>)"
proof -
  obtain sl v q ps r where *: "co_log s (co_last_executed_slot s + 1) = Some (Commit sl v q ps r)"
    "execute_slot k P ps s = (t, Done ())" using assms(1) by (auto elim: exec_stepE)
  have "execute_slot k P ps (co_log_update (\<lambda>_. L) s) = (co_log_update (\<lambda>_. L) t, Done ())"
    using execute_slot_commutes [of "\<lambda>_. L" k P ps] *(2) by (simp add: commutes_def)
  then show ?thesis using * assms(2) by (intro exec_step.intros) auto
qed

section \<open>Delivery order does not matter\<close>

definition deliver_all :: "nat \<Rightarrow> nat \<Rightarrow> 'p codec_scheme \<Rightarrow> consensus_message list \<Rightarrow> (committer, dag_error, unit) handler" where
  "deliver_all n k P ms = each (process_commit_message n k P) ms"

text \<open>The log after all of \<open>ms\<close> have been inserted.\<close>

definition logged :: "consensus_message list \<Rightarrow> (slot \<rightharpoonup> consensus_message) \<Rightarrow> (slot \<rightharpoonup> consensus_message)" where
  "logged ms L = L ++ map_of (map (\<lambda>m. (cm_slot m, m)) ms)"

text \<open>Commits of distinct slots that were neither logged nor executed yet.\<close>

definition fresh_commits :: "committer \<Rightarrow> consensus_message list \<Rightarrow> bool" where
  "fresh_commits s ms \<longleftrightarrow> distinct (map cm_slot ms) \<and>
     (\<forall>m \<in> set ms. is_commit m \<and> co_log s (cm_slot m) = None \<and> co_last_executed_slot s < cm_slot m)"

lemma steps_log: "(exec_step k P)\<^sup>*\<^sup>* s t \<Longrightarrow> co_log t = co_log s"
  by (induction rule: rtranclp_induct) (auto simp: step_facts)

lemma steps_below:
  assumes "(exec_step k P)\<^sup>*\<^sup>* s t" and "co_log s b = None" and "co_last_executed_slot s < b"
  shows "co_last_executed_slot t < b"
  using assms
proof (induction rule: rtranclp_induct)
  case (step t u)
  have lt: "co_last_executed_slot t < b" using step by simp
  have "co_log t (co_last_executed_slot t + 1) \<noteq> None" "co_last_executed_slot u = co_last_executed_slot t + 1"
    using step_facts [OF step(2)] by auto
  then have "co_last_executed_slot t + 1 \<noteq> b"
    using steps_log [OF step(1)] step.prems(1) by metis
  then show ?case using step_facts(2) [OF step(2)] unat_Suc_no_wrap [OF lt] lt
    by (simp add: word_less_nat_alt word_unat_eq_iff)
qed simp

lemma steps_relog:
  "(exec_step k P)\<^sup>*\<^sup>* s t \<Longrightarrow> \<forall>x v. co_log s x = Some v \<longrightarrow> L x = Some v \<Longrightarrow>
   (exec_step k P)\<^sup>*\<^sup>* (s\<lparr>co_log := L\<rparr>) (t\<lparr>co_log := L\<rparr>)"
proof (induction rule: rtranclp_induct)
  case (step t u)
  have "L (co_last_executed_slot t + 1) = co_log t (co_last_executed_slot t + 1)"
    using step_facts(3) [OF step(2)] steps_log [OF step(1)] step.prems by auto
  from exec_step_relog [where L = L, OF step(2) this] step show ?case by (meson rtranclp.rtrancl_into_rtrancl)
qed simp

text \<open>A run under a larger log passes through the settled state of the smaller one.\<close>

lemma runs_prefix:
  assumes "runs k P s t" and "\<forall>x v. L x = Some v \<longrightarrow> co_log s x = Some v"
  shows "\<exists>u. runs k P (s\<lparr>co_log := L\<rparr>) u \<and> runs k P (u\<lparr>co_log := co_log s\<rparr>) t"
proof -
  have "(exec_step k P)\<^sup>*\<^sup>* s t" and st: "settled t" using assms(1) by (auto simp: runs_def)
  then show ?thesis using assms(2)
  proof (induction rule: converse_rtranclp_induct)
    case base
    have "L (co_last_executed_slot t + 1) = None"
      using base by (cases "L (co_last_executed_slot t + 1)") (auto simp: settled_def)
    then have "runs k P (t\<lparr>co_log := L\<rparr>) (t\<lparr>co_log := L\<rparr>)" by (simp add: runs_def settled_def)
    moreover have "runs k P (t\<lparr>co_log := co_log t\<rparr>) t" using st by (simp add: runs_def)
    ultimately show ?case by (intro exI [of _ "t\<lparr>co_log := L\<rparr>"]) simp
  next
    case (step s v)
    show ?case
    proof (cases "L (co_last_executed_slot s + 1)")
      case None
      have "runs k P (s\<lparr>co_log := L\<rparr>) (s\<lparr>co_log := L\<rparr>)" using None by (simp add: runs_def settled_def)
      moreover have "runs k P s t" using step by (simp add: runs_def)
      ultimately show ?thesis by (intro exI [of _ "s\<lparr>co_log := L\<rparr>"]) simp
    next
      case (Some m)
      then have st1: "exec_step k P (s\<lparr>co_log := L\<rparr>) (v\<lparr>co_log := L\<rparr>)"
        using step by (intro exec_step_relog) auto
      have lg: "co_log v = co_log s" using step_facts(1) [OF step(1)] .
      obtain u where "runs k P (v\<lparr>co_log := L\<rparr>) u" "runs k P (u\<lparr>co_log := co_log s\<rparr>) t"
        using step lg by auto
      then show ?thesis using runs_step [OF st1] by blast
    qed
  qed
qed

lemma logged_Cons:
  "distinct (map cm_slot (m # ms)) \<Longrightarrow> logged (m # ms) L = logged ms (L(cm_slot m \<mapsto> m))"
  by (auto simp: logged_def fun_eq_iff map_add_def map_of_eq_None_iff image_iff split: option.split
      dest!: map_of_SomeD)

lemma logged_extends: "fresh_commits s ms \<Longrightarrow> co_log s x = Some v \<Longrightarrow> logged ms (co_log s) x = Some v"
  by (auto simp: logged_def fresh_commits_def map_add_def split: option.split dest!: map_of_SomeD)

lemma process_fresh:
  assumes "fresh_commits s (m # ms)"
  shows "process_commit_message n k P m s = execute_loop n k P (log_commit m s)"
  using assms by (cases m)
    (auto simp: fresh_commits_def is_commit_def process_commit_message_def handler_simps not_le)

lemma fresh_tail:
  assumes "fresh_commits s (m # ms)" and "runs k P (log_commit m s) u"
  shows "fresh_commits u ms" and "co_log u = (co_log s)(cm_slot m \<mapsto> m)"
proof -
  have st: "(exec_step k P)\<^sup>*\<^sup>* (log_commit m s) u" using assms(2) by (simp add: runs_def)
  show log: "co_log u = (co_log s)(cm_slot m \<mapsto> m)" using steps_log [OF st] by (simp add: log_commit_def)
  have "co_last_executed_slot u < cm_slot x" if "x \<in> set ms" for x
  proof (rule steps_below [OF st])
    have "cm_slot x \<noteq> cm_slot m"
      using assms(1) that by (auto simp: fresh_commits_def) (metis image_eqI)
    then show "co_log (log_commit m s) (cm_slot x) = None"
      using assms(1) that by (simp add: log_commit_def fresh_commits_def)
    show "co_last_executed_slot (log_commit m s) < cm_slot x"
      using assms(1) that by (simp add: log_commit_def fresh_commits_def)
  qed
  then show "fresh_commits u ms"
    using assms(1) by (auto simp: fresh_commits_def log) (metis image_eqI)
qed

lemma relog_id: "s\<lparr>co_log := L, co_log := L'\<rparr> = s\<lparr>co_log := L'\<rparr>" "co_log (s\<lparr>co_log := L\<rparr>) = L"
  by simp_all

lemma deliver_runs:
  "fresh_commits s ms \<Longrightarrow> settled s \<Longrightarrow> deliver_all n k P ms s = (t, Done ()) \<Longrightarrow>
   runs k P (s\<lparr>co_log := logged ms (co_log s)\<rparr>) t"
proof (induction ms arbitrary: s)
  case Nil
  then show ?case by (simp add: deliver_all_def ret_def runs_def logged_def)
next
  case (Cons m ms)
  obtain u where pu: "process_commit_message n k P m s = (u, Done ())" and
    rest: "deliver_all n k P ms u = (t, Done ())"
    using Cons.prems(3) by (auto simp: deliver_all_def seq_h_def bind_h_def split: prod.splits outcome.splits)
  have ru: "runs k P (log_commit m s) u"
    using pu loop_runs by (metis process_fresh [OF Cons.prems(1)])
  note fr = fresh_tail [OF Cons.prems(1) ru]
  let ?L = "logged (m # ms) (co_log s)"
  have L: "?L = logged ms (co_log u)"
    using Cons.prems(1) by (simp add: fresh_commits_def fr(2) logged_Cons)
  have "settled u" using ru by (simp add: runs_def)
  from Cons.IH [OF fr(1) this rest] have "runs k P (u\<lparr>co_log := ?L\<rparr>) t" by (simp only: L)
  moreover have "(exec_step k P)\<^sup>*\<^sup>* (log_commit m s\<lparr>co_log := ?L\<rparr>) (u\<lparr>co_log := ?L\<rparr>)"
  proof (rule steps_relog)
    show "(exec_step k P)\<^sup>*\<^sup>* (log_commit m s) u" using ru by (simp add: runs_def)
    have "co_log (log_commit m s) = co_log u" by (simp add: log_commit_def fr(2))
    then show "\<forall>x v. co_log (log_commit m s) x = Some v \<longrightarrow> ?L x = Some v"
      using logged_extends [OF fr(1)] by (simp only: L) simp
  qed
  moreover have "log_commit m s\<lparr>co_log := ?L\<rparr> = s\<lparr>co_log := ?L\<rparr>" by (simp add: log_commit_def)
  ultimately show ?case by (auto simp: runs_def)
qed

lemma runs_deliver:
  "fresh_commits s ms \<Longrightarrow> settled s \<Longrightarrow> runs k P (s\<lparr>co_log := logged ms (co_log s)\<rparr>) t \<Longrightarrow>
   \<exists>N. \<forall>n \<ge> N. deliver_all n k P ms s = (t, Done ())"
proof (induction ms arbitrary: s)
  case Nil
  have "runs k P s s" using Nil.prems(2) by (simp add: runs_def)
  then have "t = s" using Nil.prems(3) by (intro runs_det) (simp_all add: logged_def)
  then show ?case by (simp add: deliver_all_def ret_def)
next
  case (Cons m ms)
  let ?L = "logged (m # ms) (co_log s)" and ?L1 = "(co_log s)(cm_slot m \<mapsto> m)"
  have sub: "\<forall>x v. ?L1 x = Some v \<longrightarrow> co_log (s\<lparr>co_log := ?L\<rparr>) x = Some v"
  proof -
    have "fresh_commits (log_commit m s) ms"
      using Cons.prems(1) by (auto simp: fresh_commits_def log_commit_def) (metis image_eqI)
    from logged_extends [OF this] show ?thesis
      using Cons.prems(1) by (simp add: fresh_commits_def logged_Cons log_commit_def)
  qed
  obtain u where u: "runs k P (s\<lparr>co_log := ?L1\<rparr>) u" "runs k P (u\<lparr>co_log := ?L\<rparr>) t"
    using runs_prefix [OF Cons.prems(3) sub] unfolding relog_id by (elim exE conjE) simp
  have ru: "runs k P (log_commit m s) u" using u(1) by (simp add: log_commit_def)
  note fr = fresh_tail [OF Cons.prems(1) ru]
  have "?L = logged ms (co_log u)"
    using Cons.prems(1) by (simp add: fresh_commits_def fr(2) logged_Cons)
  then have "runs k P (u\<lparr>co_log := logged ms (co_log u)\<rparr>) t" using u(2) by simp
  moreover have "settled u" using ru by (simp add: runs_def)
  ultimately obtain N where N: "\<forall>n \<ge> N. deliver_all n k P ms u = (t, Done ())"
    using Cons.IH [OF fr(1)] by blast
  obtain M where M: "\<forall>n \<ge> M. execute_loop n k P (log_commit m s) = (u, Done ())"
    using runs_loop [OF ru] by blast
  have "deliver_all n k P (m # ms) s = (t, Done ())" if "max N M \<le> n" for n
    using that M N by (simp add: deliver_all_def seq_h_def bind_h_def process_fresh [OF Cons.prems(1)])
  then show ?case by blast
qed

text \<open>
  C12: state-machine safety of the committer. If the Commits of distinct, not yet decided
  slots are delivered in one order and all get executed, then delivering them in any other
  order ends, with enough fuel, in the very same state: the same headers are output in the
  same sequence.
\<close>

theorem commit_order_independent:
  assumes "fresh_commits s ms" and "settled s" and "mset ms' = mset ms"
    and "deliver_all n k P ms s = (t, Done ())"
  shows "\<exists>N. \<forall>n' \<ge> N. deliver_all n' k P ms' s = (t, Done ())"
proof -
  have set: "set ms' = set ms" using assms(3) by (metis set_mset_mset)
  have dist: "distinct (map cm_slot ms')"
    using assms(1,3) by (metis fresh_commits_def mset_eq_imp_distinct_iff mset_map)
  have fresh: "fresh_commits s ms'" using assms(1) dist set by (simp add: fresh_commits_def)
  have "map_of (map (\<lambda>m. (cm_slot m, m)) ms') = map_of (map (\<lambda>m. (cm_slot m, m)) ms)"
    using assms(1) dist set by (intro map_of_inject_set [THEN iffD2]) (auto simp: fresh_commits_def o_def)
  then have "logged ms' (co_log s) = logged ms (co_log s)" by (simp add: logged_def)
  then show ?thesis
    using runs_deliver [OF fresh assms(2)] deliver_runs [OF assms(1,2,4)] by simp
qed

definition sample_committer :: committer where
  "sample_committer = committer_new sample_codec (certificate_genesis sample_codec sample_committee) sample_sync"

theorem commit_order_independent_witness:
  "\<exists>N t. \<forall>n \<ge> N. deliver_all n 3 sample_codec [Commit 2 1 default_qc [] None, Commit 1 1 default_qc [] None]
     sample_committer = (t, Done ()) \<and> co_last_executed_slot t = 2"
proof -
  let ?a = "Commit 1 1 default_qc [] None" and ?b = "Commit 2 1 default_qc [] None"
  have st: "co_log sample_committer = (\<lambda>_. None)" "co_last_executed_slot sample_committer = 0"
    by (simp_all add: sample_committer_def committer_new_def Let_def)
  have fresh: "fresh_commits sample_committer [?a, ?b]" and "settled sample_committer"
    by (simp_all add: fresh_commits_def settled_def is_commit_def st)
  have two: "\<not> (2 :: u64) \<le> 1" by (simp add: word_le_nat_alt)
  obtain t where t: "deliver_all 5 3 sample_codec [?a, ?b] sample_committer = (t, Done ())"
      "co_last_executed_slot t = 2"
    by (simp add: deliver_all_def process_commit_message_def execute_slot_def log_commit_def st
        handler_simps numeral_eq_Suc two)
  obtain N where "\<forall>n \<ge> N. deliver_all n 3 sample_codec [?b, ?a] sample_committer = (t, Done ())"
    using commit_order_independent [OF fresh \<open>settled sample_committer\<close> _ t(1), of "[?b, ?a]"] by auto
  with t(2) show ?thesis by blast
qed

section \<open>What one lane delivers\<close>

lemma deliver_headers:
  "each deliver_header hs s
   = (s\<lparr>co_output := co_output s @ hs\<rparr>, Done ())"
  by (induction hs arbitrary: s) (simp_all add: deliver_header_def handler_simps)

text \<open>
  C16: executing a committed proposal delivers exactly the headers of its lane between the
  last executed height and the proposal's height, newest first and without gaps, and records
  the new height; a proposal at or below the executed height delivers nothing.
\<close>

theorem execute_lane_delivers:
  assumes "map_of (co_last_executed_heights s) pk = Some stop"
    and "lane_chain P (co_sync s) pk (hs @ [z])" and "hs \<noteq> []" and "stop = hd_height z"
    and "sy_store (co_sync s) (digest_bytes (prop_digest p)) = Some bytes"
    and "c_de_header P bytes = Some (hd hs)" and "prop_height p = hd_height (hd hs)"
    and "sy_last_fast (co_sync s) pk \<noteq> None" and "length hs < k"
  shows "\<exists>t. execute_lane k P (pk, p) s = (t, Done ()) \<and> co_output t = co_output s @ hs \<and>
    map_of (co_last_executed_heights t) pk = Some (prop_height p) \<and>
    length hs = unat (prop_height p) - unat stop \<and>
    (\<forall>i < length hs. unat (hd_height (hs ! i)) = unat (prop_height p) - i)"
proof -
  obtain u where u: "get_all_headers_for_proposal k P p stop (co_sync s) = (u, Done hs)"
    "length hs = unat (prop_height p) - unat stop"
    "\<forall>i < length hs. unat (hd_height (hs ! i)) = unat (prop_height p) - i"
    using headers_of_chain [OF assms(2,3,5,6,7,8,4,9)] by blast
  have "stop < prop_height p" using u(2) assms(3) by (simp add: word_less_nat_alt) (metis length_greater_0_conv zero_less_diff)
  then show ?thesis using assms(1) u
    by (simp add: execute_lane_def on_sync_def deliver_headers handler_simps not_le [symmetric])
qed

lemma sample_committer_sync: "co_sync sample_committer = sample_sync"
  by (simp add: sample_committer_def committer_new_def Let_def)

lemma sample_committer_genesis: "certificate_genesis sample_codec sample_committee =
    map (\<lambda>k. genesis_certificate_of sample_codec (PublicKey k)) [1, 2, 3, 4]"
  by (simp add: certificate_genesis_def sample_authorities)

lemma sample_committer_heights: "map_of (co_last_executed_heights sample_committer) (PublicKey k) =
    (if k \<in> {1, 2, 3, 4} then Some 0 else None)"
  unfolding sample_committer_def committer_new_def Let_def sample_committer_genesis
  by (simp add: genesis_certificate_of_def)

theorem execute_lane_delivers_witness:
  "\<exists>t. execute_lane 3 sample_codec (PublicKey 1, \<lparr>prop_digest = Digest 1002, prop_height = 2\<rparr>) sample_committer
     = (t, Done ()) \<and> co_output t = co_output sample_committer @ [lane_header 2, lane_header 1]"
  using execute_lane_delivers [of sample_committer "PublicKey 1" 0 sample_codec, unfolded sample_committer_sync,
      OF _ sample_chain, of "\<lparr>prop_digest = Digest 1002, prop_height = 2\<rparr>" "[2]" 3]
  by (auto simp: sample_committer_heights sample_stored simp del: list.sel)

text \<open>
  a committed proposal of a lane that belongs to no authority stops the committer: the
  lookup of its last executed height is unwrapped, so the task panics.
\<close>

theorem unknown_lane_panics:
  assumes "map_of (co_last_executed_heights s) pk = None"
    and "co_log s (co_last_executed_slot s + 1) = Some (Commit sl v q ((pk, p) # ps) r)"
  shows "snd (execute_loop (Suc n) k P s) = Panic"
  using assms by (simp add: execute_slot_def execute_lane_def handler_simps)

theorem unknown_lane_panics_witness:
  "snd (execute_loop 2 3 sample_codec (log_commit
     (Commit 1 1 default_qc [(PublicKey 9, \<lparr>prop_digest = Digest 1, prop_height = 4\<rparr>)] None) sample_committer)) = Panic"
proof -
  have "map_of (co_last_executed_heights sample_committer) (PublicKey 9) = None"
    by (simp add: sample_committer_heights)
  moreover have "co_last_executed_slot sample_committer = 0"
    by (simp add: sample_committer_def committer_new_def Let_def)
  ultimately show ?thesis
    using unknown_lane_panics [of "log_commit (Commit 1 1 default_qc
        [(PublicKey 9, \<lparr>prop_digest = Digest 1, prop_height = 4\<rparr>)] None) sample_committer" "PublicKey 9" 1 1
        default_qc "\<lparr>prop_digest = Digest 1, prop_height = 4\<rparr>" "[]" None 1 3 sample_codec]
    by (simp add: log_commit_def numeral_2_eq_2)
qed

text \<open>
  processing any Commit never lowers the executed height of a lane and never retracts
  output.
\<close>

theorem committer_monotone:
  "let t = fst (process_commit_message n k P m s) in
   (\<forall>pk h. map_of (co_last_executed_heights s) pk = Some h \<longrightarrow>
      (\<exists>h' \<ge> h. map_of (co_last_executed_heights t) pk = Some h')) \<and>
   (\<exists>out. co_output t = co_output s @ out)"
proof (cases "is_commit m \<and> \<not> cm_slot m \<le> co_last_executed_slot s")
  case True
  then have "process_commit_message n k P m s = execute_loop n k P (log_commit m s)"
    by (cases m) (auto simp: is_commit_def process_commit_message_def handler_simps)
  moreover have "co_le (log_commit m s) (fst (execute_loop n k P (log_commit m s)))"
    by (rule co.at [OF execute_loop_le])
  ultimately show ?thesis by (simp add: co_le_def log_commit_def Let_def)
next
  case False
  then have "fst (process_commit_message n k P m s) = s"
    by (cases m) (auto simp: is_commit_def process_commit_message_def handler_simps)
  then show ?thesis by auto
qed

theorem committer_monotone_witness:
  "\<exists>h. map_of (co_last_executed_heights (fst (process_commit_message 3 3 sample_codec
     (Commit 1 1 default_qc [(PublicKey 1, \<lparr>prop_digest = Digest 1002, prop_height = 2\<rparr>)] None) sample_committer)))
     (PublicKey 1) = Some h"
  using committer_monotone [where s = sample_committer and n = 3 and k = 3 and P = sample_codec
      and m = "Commit 1 1 default_qc [(PublicKey 1, \<lparr>prop_digest = Digest 1002, prop_height = 2\<rparr>)] None"]
    sample_committer_heights [of 1] by (fastforce simp: Let_def)

section \<open>The task loop\<close>

text \<open>
  One turn of \<open>run\<close>: certificates from the memory pool and delivered headers are read and
  dropped, a Commit message is processed. The flag that comes with it only governs logging.
\<close>

datatype committer_event =
    MempoolCertificate certificate
  | CommitMessage consensus_message bool
  | Delivered header

fun committer_turn :: "nat \<Rightarrow> nat \<Rightarrow> 'p codec_scheme \<Rightarrow> committer_event \<Rightarrow> (committer, dag_error, unit) handler" where
  "committer_turn n k P (MempoolCertificate c) = ret ()"
| "committer_turn n k P (CommitMessage m write_to_log) = process_commit_message n k P m"
| "committer_turn n k P (Delivered h) = ret ()"

lemma committer_run_ignores:
  "each (committer_turn n k P) es =
   each (process_commit_message n k P) (List.map_filter (\<lambda>e. case e of CommitMessage m w \<Rightarrow> Some m | _ \<Rightarrow> None) es)"
proof (induction es)
  case (Cons e es)
  then show ?case by (cases e) (simp_all add: map_filter_simps handler_simps fun_eq_iff)
qed (simp add: map_filter_simps)

end
