(* ===== verification/Core_Epoch.thy ===== *)
theory Core_Epoch
  imports Synchronizer
begin

text \<open>
  Epochs, the pipelining bound \<open>k\<close> and run-time parameter updates of the primary's core
  (\<open>primary/src/core.rs\<close>): \<open>epoch_index_for_slot\<close> to \<open>effective_k_for_qc_slot\<close>,
  \<open>apply_parameter_updates\<close> and \<open>handle_param_update_signal\<close>.

  \<open>core_params\<close> is the part of the core's state these functions touch; the later theories
  extend it. The parameter file is read from the field \<open>ce_params_file\<close> (its parsed content
  at the time of the call); files created and messages to the proposer are appended to
  \<open>ce_signals\<close> and \<open>ce_proposer_params\<close>. \<open>json\<close> mirrors \<open>serde_json::Value\<close>.
\<close>

section \<open>JSON values\<close>

datatype json = JNull | JBool bool | JU64 u64 | JNegative int | JFloat rat | JString "u8 list"
  | JArray "json list" | JObject "(string \<times> json) list"

fun json_get :: "string \<Rightarrow> json \<Rightarrow> json option" where
  "json_get k (JObject kvs) = map_of kvs k"
| "json_get k _ = None"

fun as_u64 :: "json \<Rightarrow> u64 option" where
  "as_u64 (JU64 n) = Some n"
| "as_u64 _ = None"

fun as_bool :: "json \<Rightarrow> bool option" where
  "as_bool (JBool b) = Some b"
| "as_bool _ = None"

definition get_u64 :: "string \<Rightarrow> json \<Rightarrow> u64 option" where
  "get_u64 k j = Option.bind (json_get k j) as_u64"

definition get_bool :: "string \<Rightarrow> json \<Rightarrow> bool option" where
  "get_bool k j = Option.bind (json_get k j) as_bool"

section \<open>State\<close>

datatype signal_file = ParameterUpdate | AbandonEpoch u64

record core_params =
  ce_epoch_slots :: u64
  ce_applied_begin :: u64
  ce_last_committed_slot :: u64
  ce_k :: u64
  ce_last_used_k :: u64
  ce_k_transition_end_slot :: "u64 option"
  ce_use_fast_path :: bool
  ce_use_optimistic_tips :: bool
  ce_fast_path_timeout :: u64
  ce_cut_condition_type :: u8
  ce_header_size :: u64
  ce_max_header_delay :: u64
  ce_batch_size :: u64
  ce_max_batch_delay :: u64
  ce_rl_param_signal_epoch :: u64
  ce_pending_param_update_epoch :: "u64 option"
  ce_pending_param_update_params :: "json option"
  ce_params_file :: "json option"
  ce_proposer_params :: "(u64 \<times> u64) list"
  ce_signals :: "signal_file list"

section \<open>Epochs and the bound on open instances\<close>

definition epoch_index_for_slot :: "'a core_params_scheme \<Rightarrow> u64 \<Rightarrow> u64" where
  "epoch_index_for_slot s slot =
     (if ce_epoch_slots s = 0 \<or> slot = 0 then 0 else sat_sub slot 1 div ce_epoch_slots s)"

definition epoch_slot_index :: "'a core_params_scheme \<Rightarrow> u64 \<Rightarrow> u64 option" where
  "epoch_slot_index s slot =
     (if ce_epoch_slots s = 0 \<or> slot = 0 then None else Some (sat_sub slot 1 mod ce_epoch_slots s + 1))"

definition epoch_start_slot :: "'a core_params_scheme \<Rightarrow> u64 \<Rightarrow> u64 option" where
  "epoch_start_slot s epoch =
     (if ce_epoch_slots s = 0 then None else Some (sat_add (sat_mul epoch (ce_epoch_slots s)) 1))"

definition base_k_for_slot :: "'a core_params_scheme \<Rightarrow> u64 \<Rightarrow> u64" where
  "base_k_for_slot s slot =
     (if ce_epoch_slots s = 0 \<or> ce_applied_begin s = 0 then ce_k s
      else case epoch_slot_index s slot of
        Some pos \<Rightarrow> if pos < ce_applied_begin s then ce_last_used_k s else ce_k s
      | None \<Rightarrow> ce_k s)"

definition k_with_transition_guard :: "'a core_params_scheme \<Rightarrow> u64 \<Rightarrow> u64 \<Rightarrow> u64" where
  "k_with_transition_guard s slot base_k =
     (case ce_k_transition_end_slot s of
        Some transition_end \<Rightarrow>
          if slot \<le> transition_end \<and> ce_last_used_k s > base_k then ce_last_used_k s else base_k
      | None \<Rightarrow> base_k)"

definition effective_k_for_prepare_slot :: "'a core_params_scheme \<Rightarrow> u64 \<Rightarrow> u64" where
  "effective_k_for_prepare_slot s slot = k_with_transition_guard s slot (base_k_for_slot s slot)"

definition effective_k_for_qc_slot :: "'a core_params_scheme \<Rightarrow> u64 \<Rightarrow> u64" where
  "effective_k_for_qc_slot s slot = k_with_transition_guard s slot (base_k_for_slot s slot)"

section \<open>Parameter updates\<close>

definition read_parameters_file :: "'a core_params_scheme \<Rightarrow> json option" where
  "read_parameters_file s = ce_params_file s"

text \<open>An absent key, or one of the wrong type, leaves the parameter alone.\<close>

definition opt_update :: "'v option \<Rightarrow> ('v \<Rightarrow> 's \<Rightarrow> 's) \<Rightarrow> 's \<Rightarrow> 's" where
  "opt_update x f s = (case x of None \<Rightarrow> s | Some v \<Rightarrow> f v s)"

definition transition_end :: "'a core_params_scheme \<Rightarrow> u64 \<Rightarrow> u64" where
  "transition_end s previous_k =
     (case epoch_start_slot s (epoch_index_for_slot s (ce_last_committed_slot s)) of
        Some epoch_start \<Rightarrow>
          if ce_applied_begin s > 0
          then sat_add (sat_add epoch_start (sat_sub (ce_applied_begin s) 1)) previous_k
          else sat_add (ce_last_committed_slot s) previous_k
      | None \<Rightarrow> sat_add (ce_last_committed_slot s) previous_k)"

definition update_k :: "u64 \<Rightarrow> 'a core_params_scheme \<Rightarrow> 'a core_params_scheme" where
  "update_k k s =
     (if ce_k s = k then s
      else let previous_k = ce_k s;
               s' = s\<lparr>ce_last_used_k := previous_k, ce_k := k\<rparr>
           in if k < previous_k
              then s'\<lparr>ce_k_transition_end_slot := Some (transition_end s' previous_k)\<rparr>
              else s'\<lparr>ce_k_transition_end_slot := None\<rparr>)"

definition update_fast_path_timeout :: "u64 \<Rightarrow> 'a core_params_scheme \<Rightarrow> 'a core_params_scheme" where
  "update_fast_path_timeout t s =
     (if ce_fast_path_timeout s = t then s
      else s\<lparr>ce_fast_path_timeout := t, ce_use_fast_path := (t \<noteq> 0)\<rparr>)"

definition update_sizes :: "json \<Rightarrow> 'a core_params_scheme \<Rightarrow> 'a core_params_scheme" where
  "update_sizes j s =
     opt_update (get_u64 ''max_batch_delay'' j) (\<lambda>v s. s\<lparr>ce_max_batch_delay := v\<rparr>)
     (opt_update (get_u64 ''batch_size'' j) (\<lambda>v s. s\<lparr>ce_batch_size := v\<rparr>)
     (opt_update (get_bool ''use_optimistic_tips'' j) (\<lambda>v s. s\<lparr>ce_use_optimistic_tips := v\<rparr>)
     (opt_update (get_u64 ''max_header_delay'' j) (\<lambda>v s. s\<lparr>ce_max_header_delay := v\<rparr>)
     (opt_update (get_u64 ''header_size'' j) (\<lambda>v s. s\<lparr>ce_header_size := v\<rparr>) s))))"

definition update_protocol :: "json \<Rightarrow> 'a core_params_scheme \<Rightarrow> 'a core_params_scheme" where
  "update_protocol j s =
     opt_update (get_u64 ''cut_condition_type'' j) (\<lambda>v s. s\<lparr>ce_cut_condition_type := ucast v\<rparr>)
     (opt_update (get_u64 ''fast_path_timeout'' j) update_fast_path_timeout
     (opt_update (get_u64 ''k'' j) update_k
     (opt_update (get_bool ''use_optimistic_tips'' j) (\<lambda>v s. s\<lparr>ce_use_optimistic_tips := v\<rparr>) s)))"

definition tell_proposer_params :: "json \<Rightarrow> 'a core_params_scheme \<Rightarrow> 'a core_params_scheme" where
  "tell_proposer_params j s =
     (case (get_u64 ''header_size'' j, get_u64 ''max_header_delay'' j) of
        (Some hs, Some delay) \<Rightarrow> s\<lparr>ce_proposer_params := ce_proposer_params s @ [(hs, delay)]\<rparr>
      | _ \<Rightarrow> s)"

definition apply_parameter_updates :: "json \<Rightarrow> 'a core_params_scheme \<Rightarrow> 'a core_params_scheme" where
  "apply_parameter_updates j s =
     (let s' = tell_proposer_params j (update_protocol j (update_sizes j s))
      in s'\<lparr>ce_signals := ce_signals s' @ [ParameterUpdate]\<rparr>)"

definition capture_pending_parameters :: "'a core_params_scheme \<Rightarrow> 'a core_params_scheme" where
  "capture_pending_parameters s =
     (if ce_pending_param_update_params s \<noteq> None then s
      else case read_parameters_file s of
        Some j \<Rightarrow> s\<lparr>ce_pending_param_update_params := Some j\<rparr>
      | None \<Rightarrow> s)"

definition check_and_update_parameters :: "'a core_params_scheme \<Rightarrow> 'a core_params_scheme" where
  "check_and_update_parameters s =
     (case read_parameters_file s of Some j \<Rightarrow> apply_parameter_updates j s | None \<Rightarrow> s)"

text \<open>The part of the signal handler after the pending update has been looked at.\<close>

definition signal_by_epoch :: "u64 \<Rightarrow> 'a core_params_scheme \<Rightarrow> 'a core_params_scheme" where
  "signal_by_epoch signal_epoch s =
     (let last_slot = ce_last_committed_slot s;
          current_epoch = epoch_index_for_slot s last_slot
      in if signal_epoch < current_epoch
         then s\<lparr>ce_rl_param_signal_epoch := max (ce_rl_param_signal_epoch s) (sat_add signal_epoch 1)\<rparr>
         else if signal_epoch > current_epoch
         then capture_pending_parameters
                (s\<lparr>ce_rl_param_signal_epoch := signal_epoch, ce_pending_param_update_epoch := Some signal_epoch\<rparr>)
         else case epoch_slot_index s last_slot of
           None \<Rightarrow> s
         | Some pos_in_epoch \<Rightarrow>
             if pos_in_epoch \<ge> ce_applied_begin s
             then s\<lparr>ce_signals := ce_signals s @ [AbandonEpoch signal_epoch],
                    ce_rl_param_signal_epoch := sat_add signal_epoch 1\<rparr>
             else capture_pending_parameters (s\<lparr>ce_pending_param_update_epoch := Some signal_epoch\<rparr>))"

definition handle_param_update_signal :: "(u8 list \<Rightarrow> json option) \<Rightarrow> u8 list \<Rightarrow> 'a core_params_scheme \<Rightarrow> 'a core_params_scheme" where
  "handle_param_update_signal parse message s =
     (let signal_epoch = (case Option.bind (parse message) (get_u64 ''epoch'') of
            Some epoch \<Rightarrow> epoch
          | None \<Rightarrow> ce_rl_param_signal_epoch s)
      in if ce_epoch_slots s = 0 \<or> ce_applied_begin s = 0
         then (check_and_update_parameters s)\<lparr>ce_rl_param_signal_epoch := sat_add signal_epoch 1\<rparr>
         else if signal_epoch < ce_rl_param_signal_epoch s then s
         else case ce_pending_param_update_epoch s of
           Some pending_epoch \<Rightarrow>
             if signal_epoch \<le> pending_epoch then s
             else signal_by_epoch signal_epoch
                    (s\<lparr>ce_pending_param_update_epoch := None, ce_pending_param_update_params := None\<rparr>)
         | None \<Rightarrow> signal_by_epoch signal_epoch s)"

text \<open>
  The part of \<open>process_commit_message\<close> that applies a pending update once the committed slot
  has passed the start of the apply window.
\<close>

definition apply_captured :: "'a core_params_scheme \<Rightarrow> 'a core_params_scheme" where
  "apply_captured s =
     (let j = (case ce_pending_param_update_params s of Some j \<Rightarrow> Some j | None \<Rightarrow> read_parameters_file s);
          s1 = s\<lparr>ce_pending_param_update_params := None\<rparr>;
          s2 = (case j of Some j \<Rightarrow> apply_parameter_updates j s1 | None \<Rightarrow> s1)
      in s2\<lparr>ce_pending_param_update_epoch := None,
            ce_rl_param_signal_epoch := sat_add (ce_rl_param_signal_epoch s2) 1\<rparr>)"

definition apply_pending_parameters :: "u64 \<Rightarrow> 'a core_params_scheme \<Rightarrow> 'a core_params_scheme" where
  "apply_pending_parameters slot s =
     (case ce_pending_param_update_epoch s of
        None \<Rightarrow> s
      | Some target_epoch \<Rightarrow>
          if ce_applied_begin s = 0 \<or> ce_epoch_slots s = 0 then apply_captured s
          else case epoch_slot_index s slot of
            None \<Rightarrow> s
          | Some pos_in_epoch \<Rightarrow>
              if pos_in_epoch = ce_applied_begin s \<and> epoch_index_for_slot s slot = target_epoch
              then apply_captured s else s)"

text \<open>A commit raises the last committed slot and ends a completed \<open>k\<close> transition.\<close>

definition note_committed_slot :: "u64 \<Rightarrow> 'a core_params_scheme \<Rightarrow> 'a core_params_scheme" where
  "note_committed_slot slot s =
     (let s' = s\<lparr>ce_last_committed_slot := max slot (ce_last_committed_slot s)\<rparr>
      in case ce_k_transition_end_slot s' of
           Some e \<Rightarrow> if ce_last_committed_slot s' \<ge> e then s'\<lparr>ce_k_transition_end_slot := None\<rparr> else s'
         | None \<Rightarrow> s')"

section \<open>Properties\<close>

lemma unat_epoch_index:
  "ce_epoch_slots s \<noteq> 0 \<Longrightarrow> slot \<noteq> 0 \<Longrightarrow>
   unat (epoch_index_for_slot s slot) = (unat slot - 1) div unat (ce_epoch_slots s)"
  by (simp add: epoch_index_for_slot_def unat_div unat_sat_sub)

lemma unat_epoch_slot_index:
  assumes "epoch_slot_index s slot = Some i"
  shows "unat i = (unat slot - 1) mod unat (ce_epoch_slots s) + 1 \<and> ce_epoch_slots s \<noteq> 0 \<and> slot \<noteq> 0"
proof -
  have i: "i = sat_sub slot 1 mod ce_epoch_slots s + 1" and nz: "ce_epoch_slots s \<noteq> 0" "slot \<noteq> 0"
    using assms by (auto simp: epoch_slot_index_def split: if_splits)
  have "unat (sat_sub slot 1 mod ce_epoch_slots s) = (unat slot - 1) mod unat (ce_epoch_slots s)"
    by (simp add: unat_mod unat_sat_sub)
  moreover have "sat_sub slot 1 mod ce_epoch_slots s < ce_epoch_slots s"
    using nz(1) by (simp add: word_mod_less_divisor word_neq_0_conv)
  ultimately show ?thesis using i nz unat_Suc_no_wrap by fastforce
qed

text \<open>
  epoch arithmetic round-trips: a slot above 0 is the start slot of its epoch plus its
  index in the epoch minus one, and the index lies between 1 and the epoch length; nothing
  overflows.
\<close>

theorem epoch_roundtrip:
  assumes "ce_epoch_slots s \<noteq> 0" and "slot \<noteq> 0"
  shows "\<exists>i start. epoch_slot_index s slot = Some i \<and>
    epoch_start_slot s (epoch_index_for_slot s slot) = Some start \<and>
    unat slot + 1 = unat start + unat i \<and> 1 \<le> unat i \<and> unat i \<le> unat (ce_epoch_slots s)"
proof -
  let ?e = "unat (ce_epoch_slots s)" and ?q = "(unat slot - 1) div unat (ce_epoch_slots s)"
  obtain i where i: "epoch_slot_index s slot = Some i" using assms by (simp add: epoch_slot_index_def)
  have ui: "unat i = (unat slot - 1) mod ?e + 1" using unat_epoch_slot_index [OF i] by simp
  have e: "0 < ?e" using assms(1) by (simp add: unat_gt_0)
  have s1: "0 < unat slot" using assms(2) by (simp add: unat_gt_0)
  have le: "?q * ?e \<le> unat slot - 1" by simp
  have lt: "unat slot < 2 ^ LENGTH(64)" by (rule unsigned_less)
  have mul: "unat (sat_mul (epoch_index_for_slot s slot) (ce_epoch_slots s)) = ?q * ?e"
    unfolding unat_sat_mul unat_epoch_index [OF assms] using le lt by (intro min_absorb1) linarith
  have "unat (sat_add (sat_mul (epoch_index_for_slot s slot) (ce_epoch_slots s)) 1) = ?q * ?e + 1"
    unfolding unat_sat_add mul unat_1 using le lt s1 by (intro min_absorb1) linarith
  moreover have "?q * ?e + (unat slot - 1) mod ?e = unat slot - 1" by (rule div_mult_mod_eq)
  moreover have "(unat slot - 1) mod ?e < ?e" using e by simp
  ultimately show ?thesis using i ui s1 assms(1)
    by (auto simp: epoch_start_slot_def)
qed

definition sample_params :: core_params where
  "sample_params = \<lparr>ce_epoch_slots = 10, ce_applied_begin = 3, ce_last_committed_slot = 24, ce_k = 2,
     ce_last_used_k = 4, ce_k_transition_end_slot = Some 27, ce_use_fast_path = True,
     ce_use_optimistic_tips = True, ce_fast_path_timeout = 500, ce_cut_condition_type = 2,
     ce_header_size = 1000, ce_max_header_delay = 100, ce_batch_size = 500, ce_max_batch_delay = 100,
     ce_rl_param_signal_epoch = 2, ce_pending_param_update_epoch = None,
     ce_pending_param_update_params = None, ce_params_file = Some (JObject [(''k'', JU64 1)]),
     ce_proposer_params = [], ce_signals = []\<rparr>"

theorem epoch_roundtrip_witness:
  "\<exists>i start. epoch_slot_index sample_params 25 = Some i \<and>
    epoch_start_slot sample_params (epoch_index_for_slot sample_params 25) = Some start \<and>
    unat (25 :: u64) + 1 = unat start + unat i"
  using epoch_roundtrip [of sample_params 25] by (auto simp: sample_params_def)

text \<open>
  the bound on open instances is always one of the two recorded values, the same for
  Prepares and QCs of a slot, and never below the bound that applies without a transition;
  while \<open>k\<close> is being lowered, every slot up to the end of the transition window keeps the old
  bound.
\<close>

theorem effective_k_bounds:
  "effective_k_for_prepare_slot s slot = effective_k_for_qc_slot s slot \<and>
   effective_k_for_prepare_slot s slot \<in> {ce_k s, ce_last_used_k s} \<and>
   base_k_for_slot s slot \<le> effective_k_for_prepare_slot s slot \<and>
   (ce_k_transition_end_slot s = Some e \<and> slot \<le> e \<and> ce_k s < ce_last_used_k s \<longrightarrow>
      effective_k_for_prepare_slot s slot = ce_last_used_k s)"
  by (auto simp: effective_k_for_prepare_slot_def effective_k_for_qc_slot_def
      k_with_transition_guard_def base_k_for_slot_def split: option.splits)

theorem effective_k_bounds_witness:
  "effective_k_for_prepare_slot sample_params 27 = 4 \<and> effective_k_for_prepare_slot sample_params 26 = 4"
  using effective_k_bounds [of sample_params 27 27, THEN conjunct2, THEN conjunct2, THEN conjunct2]
    effective_k_bounds [of sample_params 26 27, THEN conjunct2, THEN conjunct2, THEN conjunct2]
  by (simp add: sample_params_def)

text \<open>
  lowering \<open>k\<close> opens a transition window that reaches at least from the last committed
  slot \<open>old k\<close> slots on when updates apply at once; raising it closes the window; the old value
  is remembered and an unchanged value changes nothing.
\<close>

theorem update_k_cases:
  "(k = ce_k s \<longrightarrow> update_k k s = s) \<and>
   (k < ce_k s \<longrightarrow> ce_k (update_k k s) = k \<and> ce_last_used_k (update_k k s) = ce_k s \<and>
      (\<exists>e. ce_k_transition_end_slot (update_k k s) = Some e \<and>
        (ce_applied_begin s = 0 \<or> ce_epoch_slots s = 0 \<longrightarrow> e = sat_add (ce_last_committed_slot s) (ce_k s)))) \<and>
   (ce_k s < k \<longrightarrow> ce_k (update_k k s) = k \<and> ce_last_used_k (update_k k s) = ce_k s \<and>
      ce_k_transition_end_slot (update_k k s) = None)"
  by (auto simp: update_k_def Let_def transition_end_def epoch_start_slot_def epoch_index_for_slot_def
      split: option.splits)

theorem update_k_cases_witness:
  "ce_k_transition_end_slot (update_k 1 (sample_params\<lparr>ce_applied_begin := 0\<rparr>)) = Some 26"
  using update_k_cases [of 1 "sample_params\<lparr>ce_applied_begin := 0\<rparr>"]
  by (simp add: sample_params_def sat_add_def word_less_nat_alt)

section \<open>Parameter signals\<close>

lemma opt_update_field: "(\<And>v s. g (f v s) = g s) \<Longrightarrow> g (opt_update x f s) = g s"
  by (simp add: opt_update_def split: option.split)

text \<open>The fields an update of the parameters leaves alone.\<close>

definition signal_part :: "'a core_params_scheme \<Rightarrow> u64 \<times> u64 option \<times> u64 \<times> u64 \<times> u64" where
  "signal_part s = (ce_rl_param_signal_epoch s, ce_pending_param_update_epoch s,
     ce_last_committed_slot s, ce_epoch_slots s, ce_applied_begin s)"

lemma signal_part_fields:
  "signal_part (s\<lparr>ce_max_batch_delay := v\<rparr>) = signal_part s"
  "signal_part (s\<lparr>ce_batch_size := v\<rparr>) = signal_part s"
  "signal_part (s\<lparr>ce_use_optimistic_tips := b\<rparr>) = signal_part s"
  "signal_part (s\<lparr>ce_max_header_delay := v\<rparr>) = signal_part s"
  "signal_part (s\<lparr>ce_header_size := v\<rparr>) = signal_part s"
  "signal_part (s\<lparr>ce_cut_condition_type := c\<rparr>) = signal_part s"
  by (simp_all add: signal_part_def)

lemma signal_part_k: "signal_part (update_k k s) = signal_part s"
  by (simp add: signal_part_def update_k_def Let_def)

lemma signal_part_fast: "signal_part (update_fast_path_timeout t s) = signal_part s"
  by (simp add: signal_part_def update_fast_path_timeout_def)

lemma signal_part_apply: "signal_part (apply_parameter_updates j s) = signal_part s"
proof -
  have "signal_part (update_sizes j s) = signal_part s" for s :: "'a core_params_scheme"
    unfolding update_sizes_def by (simp add: opt_update_field [where g = signal_part] signal_part_fields)
  moreover have "signal_part (update_protocol j s) = signal_part s" for s :: "'a core_params_scheme"
    unfolding update_protocol_def
    by (simp add: opt_update_field [where g = signal_part] signal_part_fields signal_part_k signal_part_fast)
  moreover have "signal_part (tell_proposer_params j s) = signal_part s" for s :: "'a core_params_scheme"
    by (simp add: tell_proposer_params_def signal_part_def split: option.split)
  moreover have "signal_part (s\<lparr>ce_signals := x\<rparr>) = signal_part s" for s :: "'a core_params_scheme" and x
    by (simp add: signal_part_def)
  ultimately show ?thesis by (simp add: apply_parameter_updates_def Let_def)
qed

lemma rl_epoch_apply [simp]:
  "ce_rl_param_signal_epoch (apply_parameter_updates j s) = ce_rl_param_signal_epoch s"
  "ce_pending_param_update_epoch (apply_parameter_updates j s) = ce_pending_param_update_epoch s"
  "ce_last_committed_slot (apply_parameter_updates j s) = ce_last_committed_slot s"
  using signal_part_apply [of j s] by (simp_all add: signal_part_def)

lemma rl_epoch_capture [simp]:
  "ce_rl_param_signal_epoch (capture_pending_parameters s) = ce_rl_param_signal_epoch s"
  "ce_pending_param_update_epoch (capture_pending_parameters s) = ce_pending_param_update_epoch s"
  by (auto simp: capture_pending_parameters_def split: option.splits)

lemma sat_add_ge: "a \<le> sat_add a b" for a :: u64
proof -
  have "unat a < 2 ^ LENGTH(64)" by (rule unsigned_less)
  then show ?thesis unfolding word_le_nat_alt unat_sat_add by linarith
qed

lemma signal_by_epoch_mono:
  "ce_rl_param_signal_epoch s \<le> e \<Longrightarrow> ce_rl_param_signal_epoch s \<le> ce_rl_param_signal_epoch (signal_by_epoch e s)"
  using sat_add_ge [of e 1] by (auto simp: signal_by_epoch_def Let_def split: option.split)

text \<open>
  with an apply window configured (\<open>epoch_slots\<close> and \<open>applied_begin\<close> positive) the expected
  signal epoch never goes back, a signal for an earlier epoch than expected or than the
  pending one changes nothing, and a signal never applies parameters by itself.
\<close>

theorem param_signal_monotone:
  assumes "ce_epoch_slots s \<noteq> 0" and "ce_applied_begin s \<noteq> 0"
  shows "ce_rl_param_signal_epoch s \<le> ce_rl_param_signal_epoch (handle_param_update_signal parse msg s) \<and>
    ce_k (handle_param_update_signal parse msg s) = ce_k s \<and>
    (\<forall>e. Option.bind (parse msg) (get_u64 ''epoch'') = Some e \<and>
       (e < ce_rl_param_signal_epoch s \<or> (\<exists>p. ce_pending_param_update_epoch s = Some p \<and> e \<le> p)) \<longrightarrow>
       handle_param_update_signal parse msg s = s)"
proof -
  define e where "e = (case Option.bind (parse msg) (get_u64 ''epoch'') of
      Some epoch \<Rightarrow> epoch | None \<Rightarrow> ce_rl_param_signal_epoch s)"
  have h: "handle_param_update_signal parse msg s =
     (if e < ce_rl_param_signal_epoch s then s
      else case ce_pending_param_update_epoch s of
        Some p \<Rightarrow> if e \<le> p then s else signal_by_epoch e
            (s\<lparr>ce_pending_param_update_epoch := None, ce_pending_param_update_params := None\<rparr>)
      | None \<Rightarrow> signal_by_epoch e s)"
    using assms unfolding handle_param_update_signal_def e_def Let_def by simp
  have k: "ce_k (signal_by_epoch e t) = ce_k t" for t :: "'a core_params_scheme"
    by (auto simp: signal_by_epoch_def capture_pending_parameters_def Let_def split: option.split)
  have "ce_rl_param_signal_epoch s \<le> ce_rl_param_signal_epoch (handle_param_update_signal parse msg s)"
    using signal_by_epoch_mono [of s e] signal_by_epoch_mono [of
        "s\<lparr>ce_pending_param_update_epoch := None, ce_pending_param_update_params := None\<rparr>" e]
    by (auto simp: h not_less split: option.split)
  moreover have "ce_k (handle_param_update_signal parse msg s) = ce_k s"
    by (auto simp: h k split: option.split)
  ultimately show ?thesis by (auto simp: h e_def split: option.split)
qed

theorem param_signal_monotone_witness:
  "ce_rl_param_signal_epoch sample_params \<le>
     ce_rl_param_signal_epoch (handle_param_update_signal (\<lambda>_. Some (JObject [(''epoch'', JU64 5)])) [] sample_params)"
  using param_signal_monotone [of sample_params] by (simp add: sample_params_def)

text \<open>
  a pending update is applied exactly by the commit of the slot at position
  \<open>applied_begin\<close> of its target epoch (with an apply window configured); it is then cleared.
\<close>

theorem pending_applied_once:
  assumes "ce_epoch_slots s \<noteq> 0" and "ce_applied_begin s \<noteq> 0"
    and "ce_pending_param_update_epoch s = Some target"
  shows "if epoch_slot_index s slot = Some (ce_applied_begin s) \<and> epoch_index_for_slot s slot = target
    then ce_pending_param_update_epoch (apply_pending_parameters slot s) = None \<and>
         ce_rl_param_signal_epoch (apply_pending_parameters slot s) = sat_add (ce_rl_param_signal_epoch s) 1
    else apply_pending_parameters slot s = s"
  using assms by (auto simp: apply_pending_parameters_def apply_captured_def Let_def split: option.split)

theorem pending_applied_once_witness:
  "ce_pending_param_update_epoch (apply_pending_parameters 23
     (sample_params\<lparr>ce_pending_param_update_epoch := Some 2\<rparr>)) = None"
  using pending_applied_once [of "sample_params\<lparr>ce_pending_param_update_epoch := Some 2\<rparr>" 2 23]
  by (simp add: sample_params_def epoch_slot_index_def epoch_index_for_slot_def sat_sub_def word_le_nat_alt)

text \<open>
  a signal for epoch 0 that arrives before the first commit is lost: nothing is captured,
  no update becomes pending and none is abandoned.
\<close>

theorem early_signal_lost:
  assumes "ce_epoch_slots s \<noteq> 0" and "ce_applied_begin s \<noteq> 0" and "ce_last_committed_slot s = 0"
    and "ce_rl_param_signal_epoch s = 0" and "ce_pending_param_update_epoch s = None"
    and "Option.bind (parse msg) (get_u64 ''epoch'') = Some 0"
  shows "handle_param_update_signal parse msg s = s"
  using assms by (simp add: handle_param_update_signal_def signal_by_epoch_def epoch_index_for_slot_def
      epoch_slot_index_def)

theorem early_signal_lost_witness:
  "let s = sample_params\<lparr>ce_last_committed_slot := 0, ce_rl_param_signal_epoch := 0\<rparr> in
   handle_param_update_signal (\<lambda>_. Some (JObject [(''epoch'', JU64 0)])) [] s = s"
  unfolding Let_def by (rule early_signal_lost) (simp_all add: sample_params_def get_u64_def)

end
