(* ===== verification/Core_Send.thy ===== *)
theory Core_Send
  imports Core_Epoch Leader Signing
begin

text \<open>
  How the primary's core sends messages (\<open>primary/src/core.rs\<close>, \<open>send_msg\<close> and the functions
  under it), the message types of \<open>primary/src/primary.rs\<close>, and the simulation of asynchrony
  that wraps sending: windows during which messages are dropped, delayed, kept inside one side
  of a partition or replaced by forged headers.

  The network is the log \<open>cs_network\<close> of the messages handed to the reliable sender, each with
  its address; the cancel handler of a message is the entry itself. \<open>cs_now\<close> is
  \<open>Instant::now()\<close> in milliseconds; timers are lists of what they yield with their duration.
\<close>

section \<open>Messages between primaries and workers\<close>

datatype primary_message =
    HeaderMsg header bool
  | VoteMsg vote
  | CertificateMsg certificate
  | TimeoutMsg timeout
  | TCMsg tc
  | ConsensusMsg consensus_message
  | ConsensusRequestMsg consensus_request
  | ConsensusVoteMsg consensus_vote
  | StateReportMsg state_report
  | CertificatesRequest "digest list" public_key
  | HeadersRequest "digest list" public_key
  | FastSyncHeadersRequest "(digest \<times> height) list" public_key
  | ProposalHeadersRequest proposal height public_key

datatype primary_worker_message = Synchronize "digest list" public_key | Cleanup height

datatype worker_primary_message =
    OurBatch digest worker_id batch_metadata
  | OthersBatch digest worker_id batch_metadata

datatype net_message = ToPrimary primary_message | ToWorker primary_worker_message

type_synonym sent = "socket_addr \<times> net_message"

text \<open>A message held back by the simulation: with its height, its target and the kind of handler.\<close>

type_synonym delayed = "primary_message \<times> u64 \<times> public_key option \<times> bool"

datatype async_effect_type =
  Off | TempBlip | Failure | Partition | Egress | PrepareDelay | VoteDelay | Equivocate

definition effect_of_u8 :: "u8 \<Rightarrow> async_effect_type" where
  "effect_of_u8 v =
     (if v = 0 then Off else if v = 1 then TempBlip else if v = 2 then Failure
      else if v = 3 then Partition else if v = 4 then Egress else if v = 5 then PrepareDelay
      else if v = 6 then VoteDelay else if v = 7 then Equivocate else Off)"

section \<open>State\<close>

text \<open>
  The environment of the core extends the cryptographic parameters and the codec of headers by
  this node's signing function and the third-party serializers it uses.
\<close>

datatype coordination_path = FastPath | SlowPath

record coordination_certificate =
  cc_epoch :: u64
  cc_slot :: slot
  cc_view :: view
  cc_report_digest :: digest
  cc_path :: coordination_path
  cc_qc_votes :: u64

record env = codec +
  e_sign :: "digest \<Rightarrow> signature"
  e_ser_certificate :: "certificate \<Rightarrow> u8 list"
  e_ser_coordination :: "coordination_certificate \<Rightarrow> u8 list"
  e_parse_json :: "u8 list \<Rightarrow> json option"
  e_read_file :: "u8 list \<Rightarrow> u8 list option"

record core_net = core_params +
  cs_name :: public_key
  cs_committee :: committee
  cs_node_index :: u64
  cs_network :: "sent list"
  cs_cancel_handlers :: "height \<rightharpoonup> sent list"
  cs_consensus_cancel_handlers :: "slot \<rightharpoonup> sent list"
  cs_simulate_asynchrony :: bool
  cs_asynchrony_type :: "async_effect_type list"
  cs_asynchrony_start :: "u64 list"
  cs_asynchrony_duration :: "u64 list"
  cs_affected_nodes :: "u64 list"
  cs_asynchrony_node_ids :: "u64 list list"
  cs_during_asynchrony :: bool
  cs_effect :: async_effect_type
  cs_effect_node_ids :: "u64 list"
  cs_async_timers :: "(slot \<times> view \<times> u64) list"
  cs_already_set_timers :: bool
  cs_delayed_prepare :: "consensus_message option"
  cs_partition_keys :: "public_key set"
  cs_partition_msgs :: "delayed list"
  cs_egress_penalty :: u64
  cs_egress_queue :: "(nat \<times> delayed) list"
  cs_egress_end :: nat
  cs_now :: nat

type_synonym ('x, 'a) net_handler = "('x core_net_scheme, dag_error, 'a) handler"

section \<open>Sending\<close>

definition add_handlers :: "u64 \<Rightarrow> sent list \<Rightarrow> (u64 \<rightharpoonup> sent list) \<Rightarrow> (u64 \<rightharpoonup> sent list)" where
  "add_handlers h hs m = m(h \<mapsto> (case m h of None \<Rightarrow> [] | Some old \<Rightarrow> old) @ hs)"

definition keep_handlers :: "u64 \<Rightarrow> bool \<Rightarrow> sent list \<Rightarrow> 'x core_net_scheme \<Rightarrow> 'x core_net_scheme" where
  "keep_handlers height consensus_handler hs s =
     (if consensus_handler
      then s\<lparr>cs_consensus_cancel_handlers := add_handlers height hs (cs_consensus_cancel_handlers s)\<rparr>
      else s\<lparr>cs_cancel_handlers := add_handlers height hs (cs_cancel_handlers s)\<rparr>)"

definition transmit :: "u64 \<Rightarrow> bool \<Rightarrow> primary_message \<Rightarrow> socket_addr list \<Rightarrow> ('x, unit) net_handler" where
  "transmit height consensus_handler m addresses = modify (\<lambda>s.
     let sent = map (\<lambda>a. (a, ToPrimary m)) addresses in
     keep_handlers height consensus_handler sent (s\<lparr>cs_network := cs_network s @ sent\<rparr>))"

definition send_msg_normal :: "primary_message \<Rightarrow> u64 \<Rightarrow> public_key option \<Rightarrow> bool \<Rightarrow> ('x, unit) net_handler" where
  "send_msg_normal m height author consensus_handler = with_state (\<lambda>s. case author of
     Some a \<Rightarrow> bind_h (expect_h (of_result (map_err (\<lambda>_. DagUnknownAuthority a) (primary_of (cs_committee s) a)))) (\<lambda>p.
          transmit height consensus_handler m [primary_to_primary p])
   | None \<Rightarrow> transmit height consensus_handler m
          (map (\<lambda>(_, p). primary_to_primary p) (others_primaries (cs_committee s) (cs_name s))))"

definition send_msg_partition :: "primary_message \<Rightarrow> u64 \<Rightarrow> bool \<Rightarrow> bool \<Rightarrow> ('x, unit) net_handler" where
  "send_msg_partition m height consensus_handler our_partition = with_state (\<lambda>s.
     transmit height consensus_handler m
       (map (\<lambda>(_, p). primary_to_primary p)
         (filter (\<lambda>(pk, _). (our_partition \<and> pk \<in> cs_partition_keys s) \<or> (\<not> our_partition \<and> pk \<notin> cs_partition_keys s))
           (others_primaries (cs_committee s) (cs_name s)))))"

text \<open>The sorted keys of the committee and \<open>binary_search\<close> in them.\<close>

fun key_position :: "public_key \<Rightarrow> public_key list \<Rightarrow> nat option" where
  "key_position k [] = None"
| "key_position k (x # xs) = (if k = x then Some 0 else map_option Suc (key_position k xs))"

definition key_index :: "committee \<Rightarrow> public_key \<Rightarrow> nat option" where
  "key_index c k = key_position k (leader_keys c)"

definition is_malicious_node :: "'x core_net_scheme \<Rightarrow> bool" where
  "is_malicious_node s \<longleftrightarrow> cs_effect_node_ids s \<noteq> [] \<and> cs_node_index s \<in> set (cs_effect_node_ids s)"

definition fake_digest :: "nat \<Rightarrow> u8 \<Rightarrow> digest \<Rightarrow> height \<Rightarrow> digest" where
  "fake_digest i partition_id original height = Digest (word_rcat
     (le_bytes 8 (of_nat i :: u64) @ [partition_id, 0, 0, 0]
      @ take 8 (drop 12 (digest_bytes original))
      @ le_bytes 8 (height + ucast partition_id) @ drop 28 (digest_bytes original)))"

definition create_fake_header :: "'p env_scheme \<Rightarrow> header \<Rightarrow> u8 \<Rightarrow> header" where
  "create_fake_header E original partition_id =
     (let fake_payload = fold (\<lambda>(i, (_, w)). bt_insert (fake_digest i partition_id (header_digest E original) (hd_height original)) w)
            (enumerate 0 (hd_payload original)) []
      in new_header E (e_sign E) (hd_author original) (hd_height original) fake_payload []
           (hd_parent_cert original) (hd_consensus_messages original) (hd_num_active_instances original))"

definition delay_until :: "nat \<Rightarrow> delayed \<Rightarrow> ('x, unit) net_handler" where
  "delay_until t d = modify (\<lambda>s. s\<lparr>cs_egress_queue := cs_egress_queue s @ [(t, d)]\<rparr>)"

definition delay_egress :: "delayed \<Rightarrow> ('x, unit) net_handler" where
  "delay_egress d = with_state (\<lambda>s. delay_until (min (cs_now s + unat (cs_egress_penalty s)) (cs_egress_end s)) d)"

definition send_equivocate :: "'p env_scheme \<Rightarrow> primary_message \<Rightarrow> u64 \<Rightarrow> public_key option \<Rightarrow> bool \<Rightarrow> ('x, unit) net_handler" where
  "send_equivocate E m height author ch = with_state (\<lambda>s. case m of
     HeaderMsg h sync \<Rightarrow>
       if \<not> is_malicious_node s then send_msg_normal (HeaderMsg h sync) height author ch
       else (case author of
         Some pk \<Rightarrow>
           let target_index = (case key_index (cs_committee s) pk of None \<Rightarrow> 0 | Some i \<Rightarrow> i);
               cut = (case cs_affected_nodes s of [] \<Rightarrow> 0 | a # _ \<Rightarrow> unat a)
           in if target_index < cut then send_msg_normal (HeaderMsg h sync) height (Some pk) ch
              else send_msg_normal (HeaderMsg (create_fake_header E h 1) sync) height (Some pk) ch
       | None \<Rightarrow>
           if cs_partition_keys s \<noteq> {}
           then seq_h (send_msg_partition (HeaderMsg h sync) height ch True)
                  (send_msg_partition (HeaderMsg (create_fake_header E h 1) sync) height ch False)
           else send_msg_normal (HeaderMsg h sync) height None ch)
   | _ \<Rightarrow> send_msg_normal m height author ch)"

definition send_partition :: "primary_message \<Rightarrow> u64 \<Rightarrow> public_key option \<Rightarrow> bool \<Rightarrow> ('x, unit) net_handler" where
  "send_partition m height author ch = with_state (\<lambda>s.
     let hold = modify (\<lambda>s. s\<lparr>cs_partition_msgs := cs_partition_msgs s @ [(m, height, author, ch)]\<rparr>)
     in case author of
          Some a \<Rightarrow> if a \<in> cs_partition_keys s then send_msg_normal m height (Some a) ch else hold
        | None \<Rightarrow> seq_h (when_h (card (cs_partition_keys s) > 1) (send_msg_partition m height ch True)) hold)"

definition send_prepare_delay :: "primary_message \<Rightarrow> u64 \<Rightarrow> public_key option \<Rightarrow> bool \<Rightarrow> ('x, unit) net_handler" where
  "send_prepare_delay m height author ch = (case m of
     ConsensusMsg (Prepare s v tc t ps r) \<Rightarrow> delay_egress (m, height, author, ch)
   | ConsensusMsg _ \<Rightarrow> ret ()
   | ConsensusRequestMsg q \<Rightarrow> (case cr_message q of
         Prepare s v tc t ps r \<Rightarrow> delay_egress (m, height, author, ch)
       | _ \<Rightarrow> ret ())
   | _ \<Rightarrow> send_msg_normal m height author ch)"

definition send_msg :: "'p env_scheme \<Rightarrow> primary_message \<Rightarrow> u64 \<Rightarrow> public_key option \<Rightarrow> bool \<Rightarrow> ('x, unit) net_handler" where
  "send_msg E m height author ch = with_state (\<lambda>s. case cs_effect s of
     Off \<Rightarrow> send_msg_normal m height author ch
   | TempBlip \<Rightarrow> seq_h
       (case m of
          ConsensusMsg (Prepare sl v tc t ps r) \<Rightarrow> modify (\<lambda>s. s\<lparr>cs_delayed_prepare := Some (Prepare sl v tc t ps r)\<rparr>)
        | _ \<Rightarrow> ret ()) panic
   | Failure \<Rightarrow> (case m of ConsensusMsg _ \<Rightarrow> ret () | _ \<Rightarrow> send_msg_normal m height author ch)
   | Partition \<Rightarrow> send_partition m height author ch
   | Equivocate \<Rightarrow> send_equivocate E m height author ch
   | Egress \<Rightarrow> delay_egress (m, height, author, ch)
   | PrepareDelay \<Rightarrow> send_prepare_delay m height author ch
   | VoteDelay \<Rightarrow> (case m of
         ConsensusVoteMsg _ \<Rightarrow> with_state (\<lambda>s. delay_until (cs_now s + unat (cs_egress_penalty s)) (m, height, author, ch))
       | _ \<Rightarrow> send_msg_normal m height author ch))"

end
