(* ===== verification/Core_Async.thy ===== *)
theory Core_Async
  imports Core_Send "HOL-Library.Multiset"
begin

text \<open>
  The windows of simulated asynchrony: their set-up at the first commit (in
  \<open>process_commit_message\<close> of \<open>primary/src/core.rs\<close>) and the timer branch of \<open>run\<close> that opens
  and closes them, with the facts on what sending does inside and after a window.

  \<open>relevant\<close> and \<open>resend\<close> are the two operations of the core that closing a window calls.
\<close>

section \<open>Setting up the windows\<close>

definition nth_h :: "'v list \<Rightarrow> nat \<Rightarrow> ('s, 'e, 'v) handler" where
  "nth_h xs i = unwrap (if i < length xs then Some (xs ! i) else None)"

definition is_targeted :: "nat \<Rightarrow> ('x, bool) net_handler" where
  "is_targeted i = with_state (\<lambda>s.
     let explicit_targets = (if i < length (cs_asynchrony_node_ids s) then cs_asynchrony_node_ids s ! i else [])
     in if explicit_targets \<noteq> [] then ret (cs_node_index s \<in> set explicit_targets)
        else bind_h (nth_h (cs_affected_nodes s) i) (\<lambda>a.
          ret ((case key_index (cs_committee s) (cs_name s) of None \<Rightarrow> 0 | Some k \<Rightarrow> k) < unat a)))"

definition join_partition :: "nat \<Rightarrow> nat \<Rightarrow> ('x, unit) net_handler" where
  "join_partition start stop = each (\<lambda>j. with_state (\<lambda>s.
     bind_h (nth_h (leader_keys (cs_committee s)) j) (\<lambda>k.
       modify (\<lambda>s. s\<lparr>cs_partition_keys := insert k (cs_partition_keys s)\<rparr>)))) [start..<stop]"

definition set_async_window :: "nat \<Rightarrow> ('x, unit) net_handler" where
  "set_async_window i = bind_h (is_targeted i) (\<lambda>targeted. with_state (\<lambda>s.
     bind_h (nth_h (cs_asynchrony_type s) i) (\<lambda>ty.
     if \<not> targeted \<and> ty \<in> {Failure, Egress, PrepareDelay, VoteDelay} then ret ()
     else bind_h (nth_h (cs_asynchrony_start s) i) (\<lambda>start.
          bind_h (nth_h (cs_asynchrony_duration s) i) (\<lambda>duration.
          let start_offset = sat_mul start 1000;
              end_offset = start_offset + sat_mul duration 1000
          in seq_h (modify (\<lambda>s. s\<lparr>cs_async_timers := cs_async_timers s @ [(0, 0, start_offset), (0, 0, end_offset)]\<rparr>))
             (when_h (ty = Partition \<or> cs_effect s = Equivocate)
               (bind_h (unwrap (key_index (cs_committee s) (cs_name s))) (\<lambda>index.
                bind_h (nth_h (cs_affected_nodes s) i) (\<lambda>a.
                if (of_nat index :: u64) > a - 1
                then join_partition (unat a) (length (leader_keys (cs_committee s)))
                else join_partition 0 (unat a))))))))))"

definition set_async_timers :: "('x, unit) net_handler" where
  "set_async_timers = seq_h (modify (\<lambda>s. s\<lparr>cs_already_set_timers := True\<rparr>))
     (with_state (\<lambda>s. each set_async_window [0..<length (cs_asynchrony_start s)]))"

section \<open>Opening and closing a window\<close>

definition begin_window :: "('x, unit) net_handler" where
  "begin_window = with_state (\<lambda>s.
     bind_h (nth_h (cs_asynchrony_type s) 0) (\<lambda>ty.
     seq_h (modify (\<lambda>s. s\<lparr>cs_effect := ty, cs_asynchrony_type := tl (cs_asynchrony_type s),
         cs_effect_node_ids := (case cs_asynchrony_node_ids s of [] \<Rightarrow> [] | ids # _ \<Rightarrow> ids),
         cs_asynchrony_node_ids := tl (cs_asynchrony_node_ids s)\<rparr>))
     (seq_h (when_h (ty = Egress) (bind_h (nth_h (cs_asynchrony_duration s) 0) (\<lambda>d.
         modify (\<lambda>s. s\<lparr>cs_asynchrony_duration := tl (cs_asynchrony_duration s),
           cs_egress_end := cs_now s + unat (sat_mul d 1000)\<rparr>))))
     (when_h (ty = Partition \<or> ty = Equivocate)
       (bind_h (unwrap (key_index (cs_committee s) (cs_name s))) (\<lambda>index.
        let cut = (case cs_affected_nodes s of [] \<Rightarrow> 0 | a # _ \<Rightarrow> unat a)
        in seq_h (modify (\<lambda>s. s\<lparr>cs_partition_keys := {}\<rparr>))
             (if index > cut - 1 then join_partition cut (length (leader_keys (cs_committee s)))
              else join_partition 0 cut)))))))"

definition release_one :: "delayed \<Rightarrow> ('x, unit) net_handler" where
  "release_one d = (case d of (m, height, author, ch) \<Rightarrow> (case author of
     Some a \<Rightarrow> send_msg_normal m height (Some a) ch
   | None \<Rightarrow> send_msg_partition m height ch False))"

definition release_partition :: "('x, unit) net_handler" where
  "release_partition = with_state (\<lambda>s. each release_one (cs_partition_msgs s))"

definition end_window :: "('x core_net_scheme \<Rightarrow> consensus_message \<Rightarrow> bool) \<Rightarrow> (consensus_message \<Rightarrow> ('x, unit) net_handler) \<Rightarrow> ('x, unit) net_handler" where
  "end_window relevant resend = with_state (\<lambda>s.
     seq_h (case cs_effect s of
         TempBlip \<Rightarrow> (case cs_delayed_prepare s of
             Some m \<Rightarrow> seq_h (when_h (relevant s m) (ignore_err (resend m)))
                         (modify (\<lambda>s. s\<lparr>cs_delayed_prepare := None\<rparr>))
           | None \<Rightarrow> ret ())
       | Failure \<Rightarrow> seq_h (case cs_delayed_prepare s of Some m \<Rightarrow> ignore_err (resend m) | None \<Rightarrow> ret ())
           (modify (\<lambda>s. s\<lparr>cs_delayed_prepare := None\<rparr>))
       | Partition \<Rightarrow> release_partition
       | _ \<Rightarrow> ret ())
     (modify (\<lambda>s. s\<lparr>cs_effect := Off\<rparr>)))"

definition async_timer_fired :: "('x core_net_scheme \<Rightarrow> consensus_message \<Rightarrow> bool) \<Rightarrow> (consensus_message \<Rightarrow> ('x, unit) net_handler) \<Rightarrow> ('x, unit) net_handler" where
  "async_timer_fired relevant resend =
     seq_h (modify (\<lambda>s. s\<lparr>cs_during_asynchrony := \<not> cs_during_asynchrony s\<rparr>))
       (with_state (\<lambda>s. if cs_during_asynchrony s then begin_window else end_window relevant resend))"

text \<open>The queue of delayed messages yields an item whose time has come; it is sent normally.\<close>

definition egress_fired :: "nat \<Rightarrow> ('x, unit) net_handler" where
  "egress_fired i = with_state (\<lambda>s.
     if i < length (cs_egress_queue s) \<and> fst (cs_egress_queue s ! i) \<le> cs_now s
     then case cs_egress_queue s ! i of (_, m, height, author, ch) \<Rightarrow>
       seq_h (modify (\<lambda>s. s\<lparr>cs_egress_queue := take i (cs_egress_queue s) @ drop (Suc i) (cs_egress_queue s)\<rparr>))
         (send_msg_normal m height author ch)
     else ret ())"

section \<open>What sending leaves alone\<close>

definition sans_net :: "'x core_net_scheme \<Rightarrow> 'x core_net_scheme" where
  "sans_net s = s\<lparr>cs_network := [], cs_cancel_handlers := Map.empty, cs_consensus_cancel_handlers := Map.empty,
     cs_delayed_prepare := None, cs_partition_msgs := [], cs_egress_queue := []\<rparr>"

named_theorems net_frame \<open>sending only touches the network, the handlers and the held-back messages\<close>

lemma transmit_frame [net_frame]: "moves (same sans_net) (transmit h ch m as)"
  unfolding transmit_def by (rule frame.modify) (simp add: same_def sans_net_def keep_handlers_def Let_def)

lemma send_msg_normal_frame [net_frame]: "moves (same sans_net) (send_msg_normal m h a ch)"
  unfolding send_msg_normal_def by (rule frame.with_state) (auto intro!: frame.rules net_frame split: option.split)

lemma send_msg_partition_frame [net_frame]: "moves (same sans_net) (send_msg_partition m h ch b)"
  unfolding send_msg_partition_def by (rule frame.with_state) (rule net_frame)

lemma delay_until_frame [net_frame]: "moves (same sans_net) (delay_until t d)"
  unfolding delay_until_def by (rule frame.modify) (simp add: same_def sans_net_def)

lemma delay_egress_frame [net_frame]: "moves (same sans_net) (delay_egress d)"
  unfolding delay_egress_def by (rule frame.with_state) (rule net_frame)

lemma send_equivocate_frame [net_frame]: "moves (same sans_net) (send_equivocate E m h a ch)"
  unfolding send_equivocate_def
  by (rule frame.with_state) (auto simp: Let_def intro!: frame.rules net_frame split: primary_message.split option.split)

lemma send_partition_frame [net_frame]: "moves (same sans_net) (send_partition m h a ch)"
  unfolding send_partition_def
  by (rule frame.with_state)
    (auto simp: Let_def same_def sans_net_def intro!: frame.rules frame.modify net_frame split: option.split)

lemma send_prepare_delay_frame [net_frame]: "moves (same sans_net) (send_prepare_delay m h a ch)"
  unfolding send_prepare_delay_def
  by (auto intro!: frame.rules net_frame split: primary_message.split consensus_message.split)

lemma send_msg_frame [net_frame]: "moves (same sans_net) (send_msg E m h a ch)"
  unfolding send_msg_def
  by (rule frame.with_state)
    (auto simp: same_def sans_net_def intro!: frame.rules frame.modify frame.with_state net_frame
       split: async_effect_type.split primary_message.split consensus_message.split)

lemma release_partition_frame [net_frame]: "moves (same sans_net) release_partition"
  unfolding release_partition_def release_one_def
  by (rule frame.with_state) (auto intro!: frame.rules net_frame split: option.split)

text \<open>Whatever does not read the network part is unchanged by such a handler.\<close>

lemma net_frame_same:
  assumes "moves (same sans_net) h" and "\<And>s. f s = g (sans_net s)"
  shows "moves (same f) h"
  using assms by (simp add: moves_def same_def)

lemma net_frame_keeps:
  assumes "moves (same sans_net) h" and "\<And>s. I s = I (sans_net s)"
  shows "moves (keeps I) h"
  using assms by (simp add: moves_def same_def keeps_def) metis

section \<open>What reaches the network\<close>

definition copies :: "primary_message \<Rightarrow> (public_key \<times> primary_addresses) list \<Rightarrow> sent list" where
  "copies m ps = map (\<lambda>(_, p). (primary_to_primary p, ToPrimary m)) ps"

definition other_primaries :: "'x core_net_scheme \<Rightarrow> (public_key \<times> primary_addresses) list" where
  "other_primaries s = others_primaries (cs_committee s) (cs_name s)"

lemma copies_map: "map (\<lambda>a. (a, ToPrimary m)) (map (\<lambda>(_, p). primary_to_primary p) ps) = copies m ps"
  by (simp add: copies_def split_def)

lemma transmit_result:
  "\<exists>t. transmit h ch m as s = (t, Done ()) \<and> sans_net t = sans_net s \<and>
     cs_network t = cs_network s @ map (\<lambda>a. (a, ToPrimary m)) as \<and> cs_partition_msgs t = cs_partition_msgs s"
  by (simp add: transmit_def modify_def keep_handlers_def sans_net_def Let_def)

lemma transmit_copies:
  "\<exists>t. transmit h ch m (map (\<lambda>(_, p). primary_to_primary p) ps) s = (t, Done ()) \<and> sans_net t = sans_net s \<and>
     cs_network t = cs_network s @ copies m ps \<and> cs_partition_msgs t = cs_partition_msgs s"
  using transmit_result [of h ch m "map (\<lambda>(_, p). primary_to_primary p) ps" s] unfolding copies_map .

lemma sans_net_part:
  assumes "sans_net t = sans_net s"
  shows "cs_partition_keys t = cs_partition_keys s" "other_primaries t = other_primaries s"
    "cs_effect t = cs_effect s" "cs_during_asynchrony t = cs_during_asynchrony s"
proof -
  have "f (sans_net t) = f (sans_net s)" for f :: "'a core_net_scheme \<Rightarrow> 'b" using assms by simp
  from this [of cs_partition_keys] this [of other_primaries] this [of cs_effect] this [of cs_during_asynchrony]
  show "cs_partition_keys t = cs_partition_keys s" "other_primaries t = other_primaries s"
    "cs_effect t = cs_effect s" "cs_during_asynchrony t = cs_during_asynchrony s"
    by (simp_all add: sans_net_def other_primaries_def)
qed

lemma send_msg_partition_result:
  "\<exists>t. send_msg_partition m h ch ours s = (t, Done ()) \<and> sans_net t = sans_net s \<and>
     cs_network t = cs_network s @ copies m (filter (\<lambda>(pk, _). (pk \<in> cs_partition_keys s) = ours) (other_primaries s)) \<and>
     cs_partition_msgs t = cs_partition_msgs s"
proof -
  have eq: "(\<lambda>(pk, _). (ours \<and> pk \<in> cs_partition_keys s) \<or> (\<not> ours \<and> pk \<notin> cs_partition_keys s))
      = (\<lambda>(pk, _ :: primary_addresses). (pk \<in> cs_partition_keys s) = ours)" by auto
  show ?thesis unfolding send_msg_partition_def with_state_def eq
    by (simp add: transmit_copies other_primaries_def)
qed

text \<open>A broadcast sent normally reaches every other primary exactly once.\<close>

lemma broadcast_reaches_all:
  assumes "cs_effect s = Off"
  shows "\<exists>t. send_msg E m h None ch s = (t, Done ()) \<and> cs_network t = cs_network s @ copies m (other_primaries s) \<and>
    sans_net t = sans_net s"
  using assms transmit_copies [of h ch m "other_primaries s" s]
  by (auto simp: send_msg_def send_msg_normal_def with_state_def other_primaries_def)

text \<open>
  a partition loses and duplicates nothing: a broadcast made inside a partition window is
  sent at once to the primaries on our side and, when the window closes, to all others, so
  that every other primary gets exactly one copy. (The sender's side may consist of itself
  only; then nothing is sent before the window closes.)
\<close>

theorem partition_broadcast_complete:
  assumes "cs_effect s = Partition" and "cs_partition_msgs s = []"
    and "1 < card (cs_partition_keys s) \<or> cs_partition_keys s \<subseteq> {cs_name s}"
  shows "\<exists>t u. send_msg E m h None ch s = (t, Done ()) \<and> end_window relevant resend t = (u, Done ()) \<and>
    mset (cs_network u) = mset (cs_network s) + mset (copies m (other_primaries s)) \<and> cs_effect u = Off"
proof -
  let ?side = "\<lambda>ours. copies m (filter (\<lambda>(pk, _). (pk \<in> cs_partition_keys s) = ours) (other_primaries s))"
  have split: "mset (?side True) + mset (?side False) = mset (copies m (other_primaries s))"
  proof -
    have "(\<lambda>x :: public_key \<times> primary_addresses. case x of (pk, _) \<Rightarrow> (pk \<in> cs_partition_keys s) = False)
        = (\<lambda>x. \<not> (case x of (pk, _) \<Rightarrow> (pk \<in> cs_partition_keys s) = True))" by auto
    then show ?thesis unfolding copies_def mset_map mset_filter
      by (simp only: image_mset_union [symmetric] multiset_partition [symmetric])
  qed
  have "\<exists>t. send_msg E m h None ch s = (t, Done ()) \<and> sans_net t = sans_net s \<and>
      cs_network t = cs_network s @ ?side True \<and> cs_partition_msgs t = [(m, h, None, ch)]"
  proof (cases "1 < card (cs_partition_keys s)")
    case True
    obtain v where v: "send_msg_partition m h ch True s = (v, Done ())" "sans_net v = sans_net s"
        "cs_network v = cs_network s @ ?side True" "cs_partition_msgs v = []"
      using send_msg_partition_result [of m h ch True s] assms(2) by auto
    have "sans_net (v\<lparr>cs_partition_msgs := [(m, h, None, ch)]\<rparr>) = sans_net v" by (simp add: sans_net_def)
    then show ?thesis using True v assms(1)
      by (simp add: send_msg_def send_partition_def with_state_def when_h_def seq_h_def bind_h_def modify_def)
  next
    case False
    then have "?side True = []" using assms(3)
      by (auto simp: copies_def other_primaries_def others_primaries_def others_def filter_empty_conv)
    then show ?thesis using False assms(1,2)
      by (simp add: send_msg_def send_partition_def with_state_def when_h_def seq_h_def bind_h_def modify_def
          ret_def sans_net_def)
  qed
  then obtain t where t: "send_msg E m h None ch s = (t, Done ())" "sans_net t = sans_net s"
      "cs_network t = cs_network s @ ?side True" "cs_partition_msgs t = [(m, h, None, ch)]" by blast
  note same = sans_net_part [OF t(2)]
  obtain u where "send_msg_partition m h ch False t = (u, Done ())"
      "cs_network u = cs_network t @ ?side False" "cs_effect u = Partition"
    using send_msg_partition_result [of m h ch False t] same assms(1) sans_net_part(3) by metis
  then have "end_window relevant resend t = (u\<lparr>cs_effect := Off\<rparr>, Done ())" "cs_network u = cs_network t @ ?side False"
    using same(3) assms(1) t(4)
    by (simp_all add: end_window_def release_partition_def release_one_def with_state_def seq_h_def bind_h_def
        ret_def modify_def)
  with t split show ?thesis by (intro exI [of _ t] exI [of _ "u\<lparr>cs_effect := Off\<rparr>"]) (simp add: add.assoc)
qed

text \<open>
  the messages held back by a partition are never forgotten: after the window has closed
  they stay in the list, so closing the next partition window sends them to the other side
  once more.
\<close>

theorem partition_messages_resent:
  assumes "cs_effect s = Partition" and "cs_partition_msgs s = [(m, h, None, ch)]"
  shows "\<exists>t u side. end_window relevant resend s = (t, Done ()) \<and>
    end_window relevant resend (t\<lparr>cs_effect := Partition\<rparr>) = (u, Done ()) \<and>
    cs_network u = cs_network s @ copies m side @ copies m side \<and>
    side = filter (\<lambda>(pk, _). pk \<notin> cs_partition_keys s) (other_primaries s)"
proof -
  let ?side = "\<lambda>s. filter (\<lambda>(pk, _). (pk \<in> cs_partition_keys s) = False) (other_primaries s)"
  have step: "\<exists>t. end_window relevant resend s = (t\<lparr>cs_effect := Off\<rparr>, Done ()) \<and> sans_net t = sans_net s \<and>
      cs_network t = cs_network s @ copies m (?side s) \<and> cs_partition_msgs t = [(m, h, None, ch)]"
    if "cs_effect s = Partition" "cs_partition_msgs s = [(m, h, None, ch)]" for s :: "'a core_net_scheme"
    using send_msg_partition_result [of m h ch False s] that
    by (auto simp: end_window_def release_partition_def release_one_def handler_simps)
  obtain t where t: "end_window relevant resend s = (t\<lparr>cs_effect := Off\<rparr>, Done ())" "sans_net t = sans_net s"
      "cs_network t = cs_network s @ copies m (?side s)" "cs_partition_msgs t = [(m, h, None, ch)]"
    using step [OF assms] by blast
  let ?t = "t\<lparr>cs_effect := Partition\<rparr>"
  have side: "?side ?t = ?side s" using sans_net_part(1,2) [OF t(2)] by (simp add: other_primaries_def)
  obtain u where u: "end_window relevant resend ?t = (u\<lparr>cs_effect := Off\<rparr>, Done ())"
      "cs_network u = cs_network ?t @ copies m (?side ?t)"
    using step [of ?t] t(4) by auto
  have "end_window relevant resend (t\<lparr>cs_effect := Off, cs_effect := Partition\<rparr>) = (u\<lparr>cs_effect := Off\<rparr>, Done ())"
    using u(1) by simp
  moreover have "cs_network (u\<lparr>cs_effect := Off\<rparr>) = cs_network s @ copies m (?side s) @ copies m (?side s)"
    using u(2) t(3) by (simp only: side) simp
  ultimately show ?thesis using t(1) by (intro exI [of _ "t\<lparr>cs_effect := Off\<rparr>"] exI [of _ "u\<lparr>cs_effect := Off\<rparr>"]) simp
qed

text \<open>
  windows a node takes no part in get no timers but stay in the list of effects: a node
  aimed at by the second window only applies, when its first timer fires, the effect of the
  first one.
\<close>

theorem skipped_window_shifts_effects:
  assumes "cs_asynchrony_type s = [Failure, VoteDelay]" and "cs_asynchrony_start s = [a, b]"
    and "cs_asynchrony_duration s = [c, d]" and "cs_asynchrony_node_ids s = [[x], [y]]"
    and "cs_node_index s = y" and "x \<noteq> y" and "cs_effect s = Off" and "\<not> cs_during_asynchrony s"
  shows "\<exists>t u. set_async_timers s = (t, Done ()) \<and>
    cs_async_timers t = cs_async_timers s @ [(0, 0, sat_mul b 1000), (0, 0, sat_mul b 1000 + sat_mul d 1000)] \<and>
    async_timer_fired relevant resend t = (u, Done ()) \<and> cs_effect u = Failure"
  using assms
  by (simp add: set_async_timers_def set_async_window_def is_targeted_def nth_h_def upt_rec
      async_timer_fired_def begin_window_def handler_simps Let_def)

text \<open>While Prepares are delayed, requests to confirm or to commit are not sent at all.\<close>

lemma prepare_delay_drops:
  assumes "cs_effect s = PrepareDelay" and "\<forall>sl v tc t ps r. cr_message q \<noteq> Prepare sl v tc t ps r"
  shows "send_msg E (ConsensusRequestMsg q) h a ch s = (s, Done ())"
  using assms by (simp add: send_msg_def send_prepare_delay_def handler_simps split: consensus_message.split)

section \<open>A concrete node\<close>

definition sample_net :: "async_effect_type \<Rightarrow> public_key set \<Rightarrow> core_net" where
  "sample_net e side = core_params.extend sample_params (core_net.fields
     (PublicKey 1) sample_committee 1 [] Map.empty Map.empty True [Failure, VoteDelay] [5, 20] [10, 10] [2, 2]
     [[0], [1]] False e [] [] False None side [] 100 [] 0 0)"

definition sample_env :: env where
  "sample_env = codec.extend sample_codec (env.fields (\<lambda>_. sample_signature)
     (\<lambda>c. [ucast (cert_height c)]) (\<lambda>c. [ucast (cc_epoch c)]) (\<lambda>_. None) (\<lambda>_. None))"

lemma sample_net_fields:
  "cs_effect (sample_net e side) = e" "cs_partition_keys (sample_net e side) = side"
  "cs_partition_msgs (sample_net e side) = []" "cs_network (sample_net e side) = []"
  "cs_name (sample_net e side) = PublicKey 1" "cs_committee (sample_net e side) = sample_committee"
  "cs_node_index (sample_net e side) = 1" "cs_asynchrony_type (sample_net e side) = [Failure, VoteDelay]"
  "cs_asynchrony_start (sample_net e side) = [5, 20]" "cs_asynchrony_duration (sample_net e side) = [10, 10]"
  "cs_asynchrony_node_ids (sample_net e side) = [[0], [1]]" "\<not> cs_during_asynchrony (sample_net e side)"
  by (simp_all add: sample_net_def core_params.extend_def core_net.fields_def)

definition sample_copy :: "primary_message \<Rightarrow> sent" where
  "sample_copy m = (primary_to_primary (auth_primary (new_authority 1 sample_address)), ToPrimary m)"

lemma sample_copies:
  "copies m (other_primaries (sample_net e side)) = [sample_copy m, sample_copy m, sample_copy m]"
  by (simp add: sample_net_fields copies_def other_primaries_def others_primaries_def others_def
      sample_authorities sample_copy_def)

theorem partition_broadcast_complete_witness:
  "\<exists>t u. send_msg sample_env (TCMsg default_tc) 1 None False (sample_net Partition {PublicKey 1, PublicKey 2}) = (t, Done ()) \<and>
    end_window (\<lambda>_ _. True) (\<lambda>_. ret ()) t = (u, Done ()) \<and>
    mset (cs_network u) = replicate_mset 3 (sample_copy (TCMsg default_tc))"
  using partition_broadcast_complete [of "sample_net Partition {PublicKey 1, PublicKey 2}" sample_env
      "TCMsg default_tc" 1 False "\<lambda>_ _. True" "\<lambda>_. ret ()"]
  by (auto simp: sample_net_fields sample_copies numeral_3_eq_3)

theorem partition_messages_resent_witness:
  "\<exists>t u side. end_window (\<lambda>_ _. True) (\<lambda>_. ret ()) (sample_net Partition {PublicKey 1}\<lparr>cs_partition_msgs := [(TCMsg default_tc, 1, None, False)]\<rparr>) = (t, Done ()) \<and>
    end_window (\<lambda>_ _. True) (\<lambda>_. ret ()) (t\<lparr>cs_effect := Partition\<rparr>) = (u, Done ()) \<and>
    cs_network u = copies (TCMsg default_tc) side @ copies (TCMsg default_tc) side"
proof -
  let ?s = "sample_net Partition {PublicKey 1}\<lparr>cs_partition_msgs := [(TCMsg default_tc, 1, None, False)]\<rparr>"
  have "cs_effect ?s = Partition" "cs_partition_msgs ?s = [(TCMsg default_tc, 1, None, False)]" "cs_network ?s = []"
    by (simp_all add: sample_net_fields)
  then show ?thesis
    using partition_messages_resent [of ?s "TCMsg default_tc" 1 False "\<lambda>_ _. True" "\<lambda>_. ret ()"] by fastforce
qed

theorem skipped_window_shifts_effects_witness:
  "\<exists>t u. set_async_timers (sample_net Off {}) = (t, Done ()) \<and>
    async_timer_fired (\<lambda>_ _. True) (\<lambda>_. ret ()) t = (u, Done ()) \<and> cs_effect u = Failure"
  using skipped_window_shifts_effects [of "sample_net Off {}" 5 20 10 10 0 1 "\<lambda>_ _. True" "\<lambda>_. ret ()"]
  by (auto simp: sample_net_fields)

end
