(* ===== verification/Core_Reports.thy ===== *)
theory Core_Reports
  imports Core_Async
begin

text \<open>
  State reports of the primary's core (\<open>primary/src/core.rs\<close>, \<open>handle_metrics_state_message\<close> to
  \<open>persist_coordination_certificate\<close> and the metrics requests): every node signs and broadcasts
  one report per epoch, collects the reports of the others, combines them into an aggregate
  report, which is embedded in a Prepare and certified by the QC that commits it.

  The metrics files read from disk are the parameter \<open>e_read_file\<close>. The data-pollution
  experiment rewrites the node's own report with random factors: its outcome, when the die is
  cast against the node, is the argument \<open>polluted\<close>. Writing the global state of a certified
  epoch to a metrics file is output only and left out.
\<close>

record metrics_request =
  mr_id :: u64
  mr_epoch :: u64
  mr_committed_slot :: u64
  mr_slot_start :: u64
  mr_slot_end :: u64

record core_reports = core_net +
  cs_sync :: synchronizer
  cs_window_size :: u64
  cs_last_triggered_slot :: u64
  cs_metrics_connected :: bool
  cs_next_request_id :: u64
  cs_metrics_requests :: "metrics_request list"
  cs_state_reports :: "u64 \<rightharpoonup> (public_key \<times> state_report) list"
  cs_collection_timers :: "(u64 \<times> u64) list"
  cs_collection_timeout :: u64
  cs_active_collection_timers :: "u64 set"
  cs_pending_reports :: "u64 \<rightharpoonup> aggregate_report"
  cs_certifiable_reports :: "(slot \<times> view) \<rightharpoonup> aggregate_report"
  cs_certified_epochs :: "u64 set"
  cs_aggregated_epochs :: "u64 set"
  cs_pollution_node_ids :: "u64 list"
  cs_pollution_prob :: rat

type_synonym ('x, 'a) report_handler = "('x core_reports_scheme, dag_error, 'a) handler"

section \<open>Collecting\<close>

definition utf8 :: "string \<Rightarrow> u8 list" where
  "utf8 cs = map of_char cs"

definition get_str :: "string \<Rightarrow> json \<Rightarrow> u8 list option" where
  "get_str k j = (case json_get k j of Some (JString bs) \<Rightarrow> Some bs | _ \<Rightarrow> None)"

definition epoch_reports :: "'x core_reports_scheme \<Rightarrow> u64 \<Rightarrow> (public_key \<times> state_report) list" where
  "epoch_reports s e = (case cs_state_reports s e of None \<Rightarrow> [] | Some rs \<Rightarrow> rs)"

definition record_state_report :: "state_report \<Rightarrow> ('x, bool) report_handler" where
  "record_state_report r = (\<lambda>s.
     (s\<lparr>cs_state_reports := (cs_state_reports s)(sr_epoch r \<mapsto>
         hm_insert (sr_author r) r (epoch_reports s (sr_epoch r)))\<rparr>,
      Done (map_of (epoch_reports s (sr_epoch r)) (sr_author r) = None)))"

definition ensure_collection_timer :: "u64 \<Rightarrow> ('x, unit) report_handler" where
  "ensure_collection_timer epoch = modify (\<lambda>s.
     if epoch \<in> cs_active_collection_timers s then s
     else s\<lparr>cs_active_collection_timers := insert epoch (cs_active_collection_timers s),
            cs_collection_timers := cs_collection_timers s @ [(epoch, cs_collection_timeout s)]\<rparr>)"

definition report_threshold :: "committee \<Rightarrow> bool \<Rightarrow> nat" where
  "report_threshold c allow_fallback =
     (let f = (committee_size c - 1) div 3 in if allow_fallback then 2 * f + 1 else 3 * f + 1)"

definition try_build_aggregate_report :: "u64 \<Rightarrow> bool \<Rightarrow> ('x, unit) report_handler" where
  "try_build_aggregate_report epoch allow_fallback = modify (\<lambda>s.
     if epoch \<in> cs_aggregated_epochs s then s
     else case cs_state_reports s epoch of
       None \<Rightarrow> s
     | Some reports \<Rightarrow>
         if length reports < report_threshold (cs_committee s) allow_fallback then s
         else s\<lparr>cs_pending_reports := (cs_pending_reports s)(epoch \<mapsto>
                  (case cs_pending_reports s epoch of Some a \<Rightarrow> a | None \<Rightarrow> new_aggregate epoch (map snd reports))),
                cs_aggregated_epochs := insert epoch (cs_aggregated_epochs s)\<rparr>)"

definition get_pending_aggregate_report :: "'x core_reports_scheme \<Rightarrow> u64 \<Rightarrow> aggregate_report option" where
  "get_pending_aggregate_report s epoch = cs_pending_reports s epoch"

definition handle_state_report :: "'p env_scheme \<Rightarrow> state_report \<Rightarrow> ('x, unit) report_handler" where
  "handle_state_report E r = with_state (\<lambda>s.
     if \<not> is_ok (report_verify E (cs_committee s) r) then ret ()
     else bind_h (record_state_report r) (\<lambda>inserted.
          when_h inserted (seq_h (ensure_collection_timer (sr_epoch r))
            (try_build_aggregate_report (sr_epoch r) False))))"

definition own_report :: "'p env_scheme \<Rightarrow> bool \<Rightarrow> (u8 list \<Rightarrow> u8 list) \<Rightarrow> u64 \<Rightarrow> u8 list \<Rightarrow> 'x core_reports_scheme \<Rightarrow> state_report" where
  "own_report E die polluted epoch state s = new_report E (e_sign E) epoch
     (if cs_node_index s \<in> set (cs_pollution_node_ids s) \<and> cs_pollution_prob s > 0 \<and> die then polluted state else state)
     (cs_name s)"

definition handle_metrics_state_message :: "'p env_scheme \<Rightarrow> bool \<Rightarrow> (u8 list \<Rightarrow> u8 list) \<Rightarrow> u8 list \<Rightarrow> ('x, unit) report_handler" where
  "handle_metrics_state_message E die polluted message = (case e_parse_json E message of
     None \<Rightarrow> ret ()
   | Some response \<Rightarrow>
       if get_str ''status'' response \<noteq> Some (utf8 ''collected'') then ret ()
       else (case get_u64 ''epoch'' response of
         None \<Rightarrow> ret ()
       | Some epoch \<Rightarrow> (case Option.bind (get_str ''state_file'' response) (e_read_file E) of
         None \<Rightarrow> ret ()
       | Some state \<Rightarrow> with_state (\<lambda>s.
           let r = own_report E die polluted epoch state s
           in bind_h (record_state_report r) (\<lambda>_.
              seq_h (send_msg_normal (StateReportMsg r) (ce_last_committed_slot s) None False)
             (seq_h (ensure_collection_timer epoch) (try_build_aggregate_report epoch False)))))))"

definition collection_timer_fired :: "u64 \<Rightarrow> ('x, unit) report_handler" where
  "collection_timer_fired epoch =
     seq_h (modify (\<lambda>s. s\<lparr>cs_active_collection_timers := cs_active_collection_timers s - {epoch}\<rparr>))
       (try_build_aggregate_report epoch True)"

section \<open>Certifying\<close>

fun decimal :: "nat \<Rightarrow> u8 list" where
  "decimal n = (if n < 10 then [of_nat (48 + n)] else decimal (n div 10) @ [of_nat (48 + n mod 10)])"

definition coordination_key :: "u64 \<Rightarrow> key" where
  "coordination_key epoch = utf8 ''coordination_cc_epoch_'' @ decimal (unat epoch)"

definition write_store :: "key \<Rightarrow> val \<Rightarrow> ('x, unit) report_handler" where
  "write_store k v = modify (\<lambda>s. s\<lparr>cs_sync := (cs_sync s)\<lparr>sy_store := (sy_store (cs_sync s))(k \<mapsto> v)\<rparr>\<rparr>)"

definition persist_coordination_certificate :: "'p env_scheme \<Rightarrow> slot \<Rightarrow> view \<Rightarrow> qc \<Rightarrow> ('x, unit) report_handler" where
  "persist_coordination_certificate E slot view q = with_state (\<lambda>s. case cs_certifiable_reports s (slot, view) of
     None \<Rightarrow> ret ()
   | Some report \<Rightarrow>
       if ar_epoch report \<in> cs_certified_epochs s then ret ()
       else let path = (if length (qc_votes q) = committee_size (cs_committee s) then FastPath else SlowPath);
                cc = \<lparr>cc_epoch = ar_epoch report, cc_slot = slot, cc_view = view,
                      cc_report_digest = aggregate_digest E report, cc_path = path,
                      cc_qc_votes = of_nat (length (qc_votes q))\<rparr>
            in seq_h (write_store (coordination_key (ar_epoch report)) (e_ser_coordination E cc))
               (modify (\<lambda>s. s\<lparr>cs_certified_epochs := insert (ar_epoch report) (cs_certified_epochs s),
                  cs_pending_reports := (cs_pending_reports s)(ar_epoch report := None),
                  cs_certifiable_reports := retain (\<lambda>(sl, _) _. sl \<noteq> slot) (cs_certifiable_reports s)\<rparr>)))"

section \<open>Requests to the metrics collector\<close>

text \<open>\<open>committed_slot / epoch_slots\<close> panics when \<open>epoch_slots\<close> is 0.\<close>

definition send_metrics_request :: "u64 \<Rightarrow> ('x, unit) report_handler" where
  "send_metrics_request committed_slot = modify (\<lambda>s.
     if \<not> cs_metrics_connected s then s
     else let epoch = (if cs_window_size s > 0 \<and> committed_slot > 0 then sat_sub committed_slot 1 div ce_epoch_slots s else 0);
              start = sat_add (sat_mul epoch (ce_epoch_slots s)) 1
          in s\<lparr>cs_next_request_id := cs_next_request_id s + 1,
               cs_metrics_requests := cs_metrics_requests s @ [\<lparr>mr_id = cs_next_request_id s, mr_epoch = epoch,
                 mr_committed_slot = committed_slot, mr_slot_start = start,
                 mr_slot_end = sat_add start (cs_window_size s)\<rparr>]\<rparr>)"

definition trigger_metrics :: "('x, unit) report_handler" where
  "trigger_metrics = with_state (\<lambda>s.
     if cs_window_size s = 0 then ret ()
     else if ce_epoch_slots s = 0 then panic
     else let committed_slot = ce_last_committed_slot s;
              current_epoch = committed_slot div ce_epoch_slots s;
              pos_in_epoch = committed_slot mod ce_epoch_slots s
          in when_h (pos_in_epoch \<ge> cs_window_size s \<and>
                 (cs_last_triggered_slot s = 0 \<or> current_epoch > cs_last_triggered_slot s div ce_epoch_slots s))
             (seq_h (modify (\<lambda>s. s\<lparr>cs_last_triggered_slot := committed_slot\<rparr>))
               (send_metrics_request committed_slot)))"

section \<open>Reports are authentic\<close>

definition reports_ok :: "'p env_scheme \<Rightarrow> 'x core_reports_scheme \<Rightarrow> bool" where
  "reports_ok E s \<longleftrightarrow>
     (\<forall>e rs. cs_state_reports s e = Some rs \<longrightarrow> distinct (map fst rs) \<and>
        (\<forall>(a, r) \<in> set rs. a = sr_author r \<and> sr_epoch r = e \<and> report_verify E (cs_committee s) r = Done ())) \<and>
     (\<forall>e a. cs_pending_reports s e = Some a \<longrightarrow> aggregate_verify E (cs_committee s) a e = Done ())"

lemma set_hm_insert: "set (hm_insert k v m) \<subseteq> insert (k, v) (set m)"
  by (induction k v m rule: hm_insert.induct) auto

lemma record_keeps:
  assumes "reports_ok E s" and "report_verify E (cs_committee s) r = Done ()"
  shows "reports_ok E (fst (record_state_report r s))"
proof -
  have "distinct (map fst (epoch_reports s (sr_epoch r)))"
    using assms(1) by (auto simp: epoch_reports_def reports_ok_def split: option.split)
  then have "distinct (map fst (hm_insert (sr_author r) r (epoch_reports s (sr_epoch r))))"
    by (rule distinct_hm_insert)
  moreover have "(\<forall>(a, x) \<in> set (hm_insert (sr_author r) r (epoch_reports s (sr_epoch r))).
      a = sr_author x \<and> sr_epoch x = sr_epoch r \<and> report_verify E (cs_committee s) x = Done ())"
    using set_hm_insert [of "sr_author r" r "epoch_reports s (sr_epoch r)"] assms
    unfolding reports_ok_def epoch_reports_def by (fastforce split: option.splits)
  ultimately show ?thesis
    using assms(1) by (simp add: record_state_report_def reports_ok_def)
qed

lemma report_verify_Done:
  "report_verify P c r = Done () \<longleftrightarrow>
     0 < stake_of c (sr_author r) \<and> sig_verify P (sr_signature r) (report_digest P r) (sr_author r) = Done ()"
  by (auto simp: report_verify_def word_neq_0_conv)

lemma aggregate_verify_Done:
  "aggregate_verify P c a e = Done () \<longleftrightarrow>
    ar_epoch a = e \<and> distinct (map sr_author (ar_reports a)) \<and>
    (\<forall>r \<in> set (ar_reports a). sr_epoch r = e \<and> report_verify P c r = Done ())"
  by (auto simp: aggregate_verify_def aggregate_loop_Done report_verify_Done)

lemma new_aggregate_verifies:
  assumes "reports_ok E s" and "cs_state_reports s e = Some rs"
  shows "aggregate_verify E (cs_committee s) (new_aggregate e (map snd rs)) e = Done ()"
proof -
  have rs: "distinct (map fst rs)" "\<forall>(a, r) \<in> set rs. a = sr_author r \<and> sr_epoch r = e \<and> report_verify E (cs_committee s) r = Done ()"
    using assms by (auto simp: reports_ok_def)
  then have "map sr_author (map snd rs) = map fst rs" by (auto simp: list.map_comp)
  then have "distinct (map sr_author (map snd rs))" using rs(1) by (simp only:)
  then have "distinct (map sr_author (sort_key sr_author (map snd rs)))"
    by (metis mset_eq_imp_distinct_iff mset_map mset_sort)
  then show ?thesis using rs(2) by (auto simp: aggregate_verify_Done new_aggregate_def)
qed

lemma try_build_keeps: "moves (keeps (reports_ok E)) (try_build_aggregate_report e fb)"
  unfolding try_build_aggregate_report_def
proof (rule keeping.modify, unfold keeps_def, rule impI)
  fix s :: "'a core_reports_scheme"
  assume "reports_ok E s"
  with new_aggregate_verifies [OF this]
  show "reports_ok E (if e \<in> cs_aggregated_epochs s then s
     else case cs_state_reports s e of
       None \<Rightarrow> s
     | Some reports \<Rightarrow>
         if length reports < report_threshold (cs_committee s) fb then s
         else s\<lparr>cs_pending_reports := (cs_pending_reports s)(e \<mapsto>
                  (case cs_pending_reports s e of Some a \<Rightarrow> a | None \<Rightarrow> new_aggregate e (map snd reports))),
                cs_aggregated_epochs := insert e (cs_aggregated_epochs s)\<rparr>)"
    by (simp add: reports_ok_def split: option.split)
qed

lemma timer_keeps: "moves (keeps (reports_ok E)) (ensure_collection_timer e)"
  unfolding ensure_collection_timer_def by (rule keeping.modify) (simp add: keeps_def reports_ok_def)

lemma reports_ok_sans_net: "reports_ok E s = reports_ok E (sans_net s)"
  by (simp add: reports_ok_def sans_net_def)

lemma send_keeps_reports:
  "moves (same sans_net) h \<Longrightarrow> moves (keeps (reports_ok E)) h"
  by (erule net_frame_keeps) (rule reports_ok_sans_net)

lemmas report_rules = keeping.rules timer_keeps try_build_keeps send_keeps_reports [OF send_msg_normal_frame]


text \<open>
  an aggregate report is built only from enough reports: the full set of \<open>3f + 1\<close>, or
  \<open>2f + 1\<close> once the collection timer has expired; and only once per epoch.
\<close>

theorem aggregate_threshold:
  assumes "try_build_aggregate_report e fallback s = (t, Done ())"
    and "cs_pending_reports s e = None" and "cs_pending_reports t e = Some a"
  shows "report_threshold (cs_committee s) fallback \<le> length (ar_reports a) \<and> ar_epoch a = e \<and>
    e \<notin> cs_aggregated_epochs s \<and> e \<in> cs_aggregated_epochs t \<and>
    try_build_aggregate_report e fallback' t = (t, Done ())"
  using assms
  by (auto simp: try_build_aggregate_report_def modify_def new_aggregate_def split: if_splits option.splits)

text \<open>
  the coordination certificate of an epoch is stored once: persisting it writes it under
  the key of the epoch and retires the pending report, and persisting any other certifiable
  report of that epoch afterwards changes nothing.
\<close>

theorem coordination_certificate_once:
  assumes "cs_certifiable_reports s (sl, v) = Some r" and "ar_epoch r \<notin> cs_certified_epochs s"
    and "persist_coordination_certificate E sl v q s = (t, res)"
    and "cs_certifiable_reports t (sl', v') = Some r'" and "ar_epoch r' = ar_epoch r"
  shows "sy_store (cs_sync t) (coordination_key (ar_epoch r)) \<noteq> None \<and> cs_pending_reports t (ar_epoch r) = None \<and>
    persist_coordination_certificate E sl' v' q' t = (t, Done ())"
  using assms
  by (auto simp: persist_coordination_certificate_def write_store_def handler_simps Let_def)

text \<open>
  a report can become pending again after its certificate was stored: if the certificate
  came from another node's aggregate, the expiry of the collection timer still builds our own,
  which later Prepares then carry again.
\<close>

theorem report_pending_after_certified:
  assumes "e \<in> cs_certified_epochs s" and "e \<notin> cs_aggregated_epochs s" and "cs_pending_reports s e = None"
    and "cs_state_reports s e = Some rs" and "report_threshold (cs_committee s) True \<le> length rs"
  shows "get_pending_aggregate_report (fst (collection_timer_fired e s)) e = Some (new_aggregate e (map snd rs))"
  using assms
  by (simp add: collection_timer_fired_def try_build_aggregate_report_def get_pending_aggregate_report_def handler_simps)

section \<open>Concrete reports\<close>

definition sample_collecting :: core_reports where
  "sample_collecting = core_net.extend (sample_net Off {}) (core_reports.fields sample_sync 5 0 False 0 []
     [3 \<mapsto> [(PublicKey 1, sample_report 1), (PublicKey 2, sample_report 2), (PublicKey 3, sample_report 3)]]
     [] 1000 {3} Map.empty [(7, 1) \<mapsto> new_aggregate 3 [sample_report 4], (8, 1) \<mapsto> new_aggregate 3 [sample_report 4]] {} {} [] 0)"

lemma sample_collecting_fields:
  "cs_committee sample_collecting = sample_committee" "cs_name sample_collecting = PublicKey 1"
  "cs_state_reports sample_collecting =
     [3 \<mapsto> [(PublicKey 1, sample_report 1), (PublicKey 2, sample_report 2), (PublicKey 3, sample_report 3)]]"
  "cs_pending_reports sample_collecting = Map.empty" "cs_certified_epochs sample_collecting = {}"
  "cs_aggregated_epochs sample_collecting = {}"
  "cs_certifiable_reports sample_collecting =
     [(7, 1) \<mapsto> new_aggregate 3 [sample_report 4], (8, 1) \<mapsto> new_aggregate 3 [sample_report 4]]"
  by (simp_all add: sample_collecting_def core_net.extend_def core_reports.fields_def sample_net_def
      core_params.extend_def core_net.fields_def)

lemma sample_env_verify: "sig_verify sample_env sg d k = Done ()"
  by (simp add: sig_verify_Done vote_wf_def sample_env_def codec.extend_def env.fields_def sample_codec_def
      prims.extend_def codec.fields_def sample_prims_def)

lemma sample_env_signer: "honest_signer sample_env sg a"
  by (simp add: honest_signer_def sample_env_verify)

lemma sample_env_reports: "report_verify sample_env sample_committee (sample_report k) = Done () \<longleftrightarrow> k \<in> {1, 2, 3, 4}"
  by (simp add: report_verify_Done sample_report_def sample_stake sample_env_verify)

lemma sample_reports_ok: "reports_ok sample_env sample_collecting"
  by (simp add: reports_ok_def sample_collecting_fields sample_env_reports) (simp add: sample_report_def)


theorem aggregate_threshold_witness:
  "let t = fst (try_build_aggregate_report 3 True sample_collecting) in
   try_build_aggregate_report 3 False t = (t, Done ())"
proof -
  have "try_build_aggregate_report 3 True sample_collecting = (fst (try_build_aggregate_report 3 True sample_collecting), Done ())"
    by (simp add: try_build_aggregate_report_def modify_def)
  moreover have "cs_pending_reports (fst (try_build_aggregate_report 3 True sample_collecting)) 3 =
      Some (new_aggregate 3 [sample_report 1, sample_report 2, sample_report 3])"
    by (simp add: try_build_aggregate_report_def modify_def sample_collecting_fields report_threshold_def
        committee_size_def sample_authorities)
  ultimately show ?thesis
    using aggregate_threshold [of 3 True sample_collecting] by (simp add: sample_collecting_fields Let_def)
qed

theorem coordination_certificate_once_witness:
  "let t = fst (persist_coordination_certificate sample_env 7 1 default_qc sample_collecting) in
   persist_coordination_certificate sample_env 8 1 default_qc t = (t, Done ())"
proof -
  let ?t = "fst (persist_coordination_certificate sample_env 7 1 default_qc sample_collecting)"
  have "cs_certifiable_reports ?t (8, 1) = Some (new_aggregate 3 [sample_report 4])"
    by (simp add: persist_coordination_certificate_def write_store_def handler_simps Let_def
        sample_collecting_fields retain_def new_aggregate_def)
  then show ?thesis
    using coordination_certificate_once [of sample_collecting 7 1 "new_aggregate 3 [sample_report 4]" sample_env
        default_qc ?t "snd (persist_coordination_certificate sample_env 7 1 default_qc sample_collecting)"
        8 1 "new_aggregate 3 [sample_report 4]" default_qc]
    by (simp add: sample_collecting_fields new_aggregate_def Let_def)
qed

theorem report_pending_after_certified_witness:
  "get_pending_aggregate_report (fst (collection_timer_fired 3 (sample_collecting\<lparr>cs_certified_epochs := {3}\<rparr>))) 3
     = Some (new_aggregate 3 [sample_report 1, sample_report 2, sample_report 3])"
  using report_pending_after_certified [of 3 "sample_collecting\<lparr>cs_certified_epochs := {3}\<rparr>"]
  by (simp add: sample_collecting_fields report_threshold_def committee_size_def sample_authorities)

end
