(* ===== verification/Core_State.thy ===== *)
theory Core_State
  imports Core_Reports Aggregators Winning
begin

text \<open>
  The state of the primary's core (\<open>struct Core\<close> in \<open>primary/src/core.rs\<close>) and the operations
  shared by its handlers: timers, proposal tips, the synchronizer, the leader.

  \<open>core\<close> extends the records of the parameters, of sending and of state reports. Output
  channels are lists (\<open>cs_tx_info\<close>, \<open>cs_tx_committer\<close>, \<open>cs_tx_proposer\<close>); futures that yield after
  a delay are lists of what they yield, with the delay. A \<open>HashMap\<close> that is iterated is an
  association list, any other map is a function into an option.
\<close>

record core = core_reports +
  cs_gc_depth :: height
  cs_gc_round :: height
  cs_last_voted :: "height \<rightharpoonup> public_key set"
  cs_current_header :: header
  cs_sent_cert_to_proposer :: bool
  cs_votes_aggregator :: votes_aggregator
  cs_proposal_tips :: proposals
  cs_certified_tips :: proposals
  cs_consensus_instances :: "(slot \<times> digest) \<rightharpoonup> consensus_message"
  cs_views :: "slot \<rightharpoonup> view"
  cs_timers :: "(slot \<times> view) set"
  cs_last_voted_consensus :: "(slot \<times> view) set"
  cs_timer_futures :: "(slot \<times> view \<times> u64) list"
  cs_high_proposals :: "slot \<rightharpoonup> consensus_message"
  cs_high_qcs :: "slot \<rightharpoonup> consensus_message"
  cs_qc_makers :: "(slot \<times> digest) \<rightharpoonup> qc_maker"
  cs_qcs_formed :: u64
  cs_tc_makers :: "(slot \<times> view) \<rightharpoonup> tc_maker"
  cs_prepare_tickets :: "consensus_message list"
  cs_already_proposed :: "slot set"
  cs_tx_info :: "consensus_message list"
  cs_timeout_delay :: u64
  cs_committed_slots :: "slot \<rightharpoonup> commit_qc"
  cs_use_parallel_proposals :: bool
  cs_use_ride_share :: bool
  cs_car_timeout :: u64
  cs_car_timers :: "(vote \<times> u64) list"
  cs_fast_timers :: "(consensus_vote \<times> u64) list"
  cs_exponential_timeouts :: bool
  cs_tx_committer :: "(consensus_message \<times> bool) list"
  cs_tx_proposer :: "certificate list"
  cs_last_headers :: "header list"

type_synonym 'a core_handler = "(core, dag_error, 'a) handler"

definition synced :: "'a sync_handler \<Rightarrow> 'a core_handler" where
  "synced h = zoom cs_sync (\<lambda>t s. s\<lparr>cs_sync := t\<rparr>) h"

text \<open>An empty committee makes the leader elector divide by zero.\<close>

definition leader_of :: "slot \<Rightarrow> view \<Rightarrow> public_key core_handler" where
  "leader_of sl v = with_state (\<lambda>s. unwrap (get_leader (cs_committee s) sl v))"

definition start_timer :: "slot \<Rightarrow> view \<Rightarrow> u64 \<Rightarrow> unit core_handler" where
  "start_timer sl v d = modify (\<lambda>s. s\<lparr>cs_timer_futures := cs_timer_futures s @ [(sl, v, d)],
     cs_timers := insert (sl, v) (cs_timers s)\<rparr>)"

definition tips :: "core \<Rightarrow> proposals" where
  "tips s = (if ce_use_optimistic_tips s then cs_proposal_tips s else cs_certified_tips s)"

definition set_consensus_proposal :: "core \<Rightarrow> consensus_message \<Rightarrow> consensus_message" where
  "set_consensus_proposal s m = (case m of
     Prepare sl v tc ticket ps r \<Rightarrow>
       if tc = None \<or> ps = []
       then Prepare sl v tc ticket (hm_insert (cs_name s)
              \<lparr>prop_digest = hd_id (cs_current_header s), prop_height = hd_height (cs_current_header s)\<rparr> (tips s)) r
       else m
   | _ \<Rightarrow> m)"

definition to_committer :: "consensus_message \<Rightarrow> unit core_handler" where
  "to_committer m = modify (\<lambda>s. s\<lparr>cs_tx_committer := cs_tx_committer s @
     [(m, \<not> (cs_during_asynchrony s \<and> cs_effect s = Failure))]\<rparr>)"

text \<open>How many tips are above the proposals of a ticket; a tip without proposal is unwrapped.\<close>

fun newer_tips :: "proposals \<Rightarrow> proposals \<Rightarrow> nat option" where
  "newer_tips ps [] = Some 0"
| "newer_tips ps ((pk, p) # ts) = (case map_of ps pk of
     None \<Rightarrow> None
   | Some q \<Rightarrow> map_option (\<lambda>n. if prop_height p > prop_height q then Suc n else n) (newer_tips ps ts))"

definition enough_coverage :: "proposals \<Rightarrow> bool core_handler" where
  "enough_coverage ps = with_state (\<lambda>s. bind_h (unwrap (newer_tips ps (tips s))) (\<lambda>n.
     ret ((of_nat n :: u8) \<ge> ce_cut_condition_type s)))"

definition push_ticket :: "consensus_message \<Rightarrow> unit core_handler" where
  "push_ticket m = modify (\<lambda>s. s\<lparr>cs_prepare_tickets := cs_prepare_tickets s @ [m]\<rparr>)"

definition tell_proposer_info :: "consensus_message \<Rightarrow> unit core_handler" where
  "tell_proposer_info m = modify (\<lambda>s. s\<lparr>cs_tx_info := cs_tx_info s @ [m]\<rparr>)"

section \<open>The initial state\<close>

text \<open>
  \<open>Core::spawn\<close>, with the parameters as \<open>Primary::spawn\<close> passes them; \<open>node_index\<close> is the
  number the store path ends in, \<open>now\<close> the time of the start and \<open>params_file\<close> the content of
  the parameter file.
\<close>

definition core_new :: "public_key \<Rightarrow> committee \<Rightarrow> u64 \<Rightarrow> synchronizer \<Rightarrow> parameters \<Rightarrow> nat \<Rightarrow> json option \<Rightarrow> core" where
  "core_new name c idx sync p now params_file =
     core_params.extend \<lparr>ce_epoch_slots = epoch_slots p, ce_applied_begin = applied_begin p,
         ce_last_committed_slot = 0, ce_k = param_k p, ce_last_used_k = param_k p,
         ce_k_transition_end_slot = None, ce_use_fast_path = use_fast_path p,
         ce_use_optimistic_tips = use_optimistic_tips p, ce_fast_path_timeout = fast_path_timeout p,
         ce_cut_condition_type = cut_condition_type p, ce_header_size = header_size p,
         ce_max_header_delay = max_header_delay p, ce_batch_size = batch_size p,
         ce_max_batch_delay = max_batch_delay p, ce_rl_param_signal_epoch = 0,
         ce_pending_param_update_epoch = None, ce_pending_param_update_params = None,
         ce_params_file = params_file, ce_proposer_params = [], ce_signals = []\<rparr>
     \<lparr>cs_name = name, cs_committee = c, cs_node_index = idx, cs_network = [],
      cs_cancel_handlers = (\<lambda>_. None), cs_consensus_cancel_handlers = (\<lambda>_. None),
      cs_simulate_asynchrony = simulate_asynchrony p,
      cs_asynchrony_type = map effect_of_u8 (asynchrony_type p),
      cs_asynchrony_start = asynchrony_start p, cs_asynchrony_duration = asynchrony_duration p,
      cs_affected_nodes = affected_nodes p, cs_asynchrony_node_ids = asynchrony_node_ids_per_window p,
      cs_during_asynchrony = False, cs_effect = Off, cs_effect_node_ids = [], cs_async_timers = [],
      cs_already_set_timers = False, cs_delayed_prepare = None, cs_partition_keys = {},
      cs_partition_msgs = [],
      cs_egress_penalty = (if unat idx < length (egress_penalty_per_node p)
        then egress_penalty_per_node p ! unat idx else egress_penalty p),
      cs_egress_queue = [], cs_egress_end = now, cs_now = now,
      cs_sync = sync, cs_window_size = window_size p, cs_last_triggered_slot = 0,
      cs_metrics_connected = False, cs_next_request_id = 0, cs_metrics_requests = [],
      cs_state_reports = (\<lambda>_. None), cs_collection_timers = [], cs_collection_timeout = timeout_delay p,
      cs_active_collection_timers = {}, cs_pending_reports = (\<lambda>_. None),
      cs_certifiable_reports = (\<lambda>_. None), cs_certified_epochs = {}, cs_aggregated_epochs = {},
      cs_pollution_node_ids = data_pollution_node_ids p, cs_pollution_prob = data_pollution_prob p,
      cs_gc_depth = gc_depth p, cs_gc_round = 0, cs_last_voted = (\<lambda>_. None),
      cs_current_header = default_header, cs_sent_cert_to_proposer = False, cs_votes_aggregator = va_new,
      cs_proposal_tips = [], cs_certified_tips = [], cs_consensus_instances = (\<lambda>_. None),
      cs_views = (\<lambda>_. None), cs_timers = {}, cs_last_voted_consensus = {}, cs_timer_futures = [],
      cs_high_proposals = (\<lambda>_. None), cs_high_qcs = (\<lambda>_. None), cs_qc_makers = (\<lambda>_. None),
      cs_qcs_formed = 0, cs_tc_makers = (\<lambda>_. None), cs_prepare_tickets = [], cs_already_proposed = {},
      cs_tx_info = [], cs_timeout_delay = timeout_delay p, cs_committed_slots = (\<lambda>_. None),
      cs_use_parallel_proposals = use_parallel_proposals p, cs_use_ride_share = use_ride_share p,
      cs_car_timeout = car_timeout p, cs_car_timers = [], cs_fast_timers = [],
      cs_exponential_timeouts = use_exponential_timeouts p, cs_tx_committer = [], cs_tx_proposer = [],
      cs_last_headers = []\<rparr>"

text \<open>The part of \<open>run\<close> before the loop.\<close>

definition core_start :: "'p env_scheme \<Rightarrow> unit core_handler" where
  "core_start E =
     seq_h (modify (\<lambda>s. s\<lparr>cs_proposal_tips := genesis_proposals E (cs_committee s),
         cs_certified_tips := genesis_proposals E (cs_committee s)\<rparr>))
    (seq_h (with_state (\<lambda>s. start_timer 1 1 (cs_timeout_delay s)))
    (seq_h (modify (\<lambda>s. s\<lparr>cs_views := (cs_views s)(1 \<mapsto> 1)\<rparr>))
    (seq_h (bind_h (leader_of 1 1) (\<lambda>leader. with_state (\<lambda>s. when_h (cs_name s = leader)
         (seq_h (push_ticket (Prepare 0 0 None None (genesis_proposals E (cs_committee s)) None))
           (modify (\<lambda>s. s\<lparr>cs_already_proposed := insert 0 (cs_already_proposed s)\<rparr>))))))
      (with_state (\<lambda>s. bind_h (unwrap (map_of (genesis_certs E (cs_committee s)) (cs_name s))) (\<lambda>c.
         modify (\<lambda>s. s\<lparr>cs_tx_proposer := cs_tx_proposer s @ [c]\<rparr>)))))))"

section \<open>A concrete node\<close>

definition sample_core :: core where
  "sample_core = core_new (PublicKey 1) sample_committee 1 sample_sync default_parameters 0 None"

end
