(* ===== verification/Core_Consensus.thy ===== *)
theory Core_Consensus
  imports Core_State
begin

text \<open>
  The consensus handlers of the primary's core (\<open>primary/src/core.rs\<close>): tickets for new slots,
  validity of consensus messages, voting, collection of votes into QCs, commits, and the
  requests a leader broadcasts.

  The handlers call each other in a circle through \<open>send_consensus_req\<close>, which processes the
  node's own request. Each of them takes that function as the argument \<open>req\<close>; the circle is
  closed by recursion on fuel.
\<close>

type_synonym req = "consensus_message \<Rightarrow> unit core_handler"

section \<open>Tickets\<close>

definition is_prepare_ticket_ready :: "req \<Rightarrow> consensus_message \<Rightarrow> unit core_handler" where
  "is_prepare_ticket_ready req m = (case m of
     Prepare sl v tc ticket ps r \<Rightarrow> bind_h (leader_of (sl + 1) 1) (\<lambda>next_leader. with_state (\<lambda>s.
       if cs_name s \<noteq> next_leader then ret ()
       else if sl + 1 \<in> cs_already_proposed s then ret ()
       else let next_slot = sl + 1;
                ticket_k = effective_k_for_prepare_slot s next_slot
            in if next_slot > ticket_k \<and> cs_committed_slots s (next_slot - ticket_k) = None
               then push_ticket m
               else bind_h (enough_coverage ps) (\<lambda>covered.
                 if covered
                 then let qc_ticket = (if next_slot > ticket_k then cs_committed_slots s (next_slot - ticket_k) else None);
                          aggregate_report = get_pending_aggregate_report s (epoch_index_for_slot s next_slot);
                          new_prepare = Prepare next_slot 1 None qc_ticket [] aggregate_report
                      in seq_h (modify (\<lambda>s. s\<lparr>cs_already_proposed := insert next_slot (cs_already_proposed s)\<rparr>))
                           (if cs_use_ride_share s then tell_proposer_info new_prepare else req new_prepare)
                 else push_ticket m)))
   | _ \<Rightarrow> ret ())"

primrec try_tickets :: "req \<Rightarrow> nat \<Rightarrow> unit core_handler" where
  "try_tickets req 0 = ret ()"
| "try_tickets req (Suc n) = with_state (\<lambda>s. case cs_prepare_tickets s of
     [] \<Rightarrow> panic
   | m # ms \<Rightarrow> seq_h (modify (\<lambda>s. s\<lparr>cs_prepare_tickets := ms\<rparr>))
       (seq_h (is_prepare_ticket_ready req m) (try_tickets req n)))"

definition try_prepare_waiting_slots :: "req \<Rightarrow> unit core_handler" where
  "try_prepare_waiting_slots req = with_state (\<lambda>s. try_tickets req (length (cs_prepare_tickets s)))"

section \<open>Validity\<close>

text \<open>
  The proposals of a Prepare against the winning proposals of its TC: once a mismatch is found
  the rest is not looked up any more; a proposal of a lane without winner is unwrapped.
\<close>

fun matches_winning :: "proposals \<Rightarrow> proposals \<Rightarrow> bool \<Rightarrow> bool option" where
  "matches_winning w [] b = Some b"
| "matches_winning w ((pk, p) # ps) b =
     (if b then (case map_of w pk of None \<Rightarrow> None | Some q \<Rightarrow> matches_winning w ps (eq_proposal p q))
      else matches_winning w ps False)"

text \<open>\<open>Done None\<close> is an early \<open>return false\<close>, \<open>Done (Some b)\<close> the value of \<open>ticket_valid\<close>.\<close>

definition check_tc :: "'p env_scheme \<Rightarrow> committee \<Rightarrow> view \<Rightarrow> tc \<Rightarrow> proposals \<Rightarrow> (dag_error, bool option) outcome" where
  "check_tc E c view t ps =
     (if tc_view t + 1 \<noteq> view then Done None
      else let valid = is_ok (tc_verify E c t); winning = get_winning_proposals E c t
           in if winning = [] then Done (Some valid)
              else case matches_winning winning ps valid of None \<Rightarrow> Panic | Some b \<Rightarrow> Done (Some b))"

definition check_ticket :: "'p env_scheme \<Rightarrow> core \<Rightarrow> slot \<Rightarrow> view \<Rightarrow> commit_qc option \<Rightarrow> (dag_error, bool option) outcome" where
  "check_ticket E s sl view ticket =
     (if \<not> cs_use_parallel_proposals s then Panic
      else let ticket_k = (case ticket of Some q \<Rightarrow> effective_k_for_qc_slot s (cq_slot q) | None \<Rightarrow> ce_k s)
           in if sl > ticket_k \<and> cs_committed_slots s (sl - ticket_k) = None
              then case ticket of
                  None \<Rightarrow> Done None
                | Some q \<Rightarrow> if cq_slot q + ticket_k \<noteq> sl then Done None
                           else Done (Some (verify_commit E (cs_committee s) (transform_commitQC q) \<and> view = 1))
              else Done (Some (view = 1)))"

definition note_report :: "slot \<Rightarrow> view \<Rightarrow> aggregate_report \<Rightarrow> core \<Rightarrow> core" where
  "note_report sl view report s =
     (let epoch = epoch_index_for_slot s sl;
          s' = s\<lparr>cs_certifiable_reports := (cs_certifiable_reports s)((sl, view) \<mapsto> report)\<rparr>
      in if epoch \<in> cs_certified_epochs s' \<or> cs_pending_reports s' epoch \<noteq> None then s'
         else s'\<lparr>cs_pending_reports := (cs_pending_reports s')(epoch \<mapsto> report)\<rparr>)"

definition raise_view :: "slot \<Rightarrow> view \<Rightarrow> core \<Rightarrow> core" where
  "raise_view sl view s =
     (if (case cs_views s sl of None \<Rightarrow> 0 | Some v \<Rightarrow> v) < view then s\<lparr>cs_views := (cs_views s)(sl \<mapsto> view)\<rparr> else s)"

definition is_valid_prepare :: "slot \<Rightarrow> view \<Rightarrow> bool \<Rightarrow> bool core_handler" where
  "is_valid_prepare sl view ticket_valid = seq_h (modify (raise_view sl view)) (with_state (\<lambda>s.
     if (sl, view) \<notin> cs_last_voted_consensus s \<and> ticket_valid
     then bind_h (unwrap (cs_views s sl)) (\<lambda>v. ret (v = view))
     else ret False))"

definition is_valid :: "'p env_scheme \<Rightarrow> consensus_message \<Rightarrow> bool core_handler" where
  "is_valid E m = (case m of
     Prepare sl view tc ticket ps report \<Rightarrow> with_state (\<lambda>s.
       bind_h (of_result (case tc of
           Some t \<Rightarrow> check_tc E (cs_committee s) view t ps
         | None \<Rightarrow> check_ticket E s sl view ticket)) (\<lambda>checked. case checked of
         None \<Rightarrow> ret False
       | Some ticket_valid \<Rightarrow> (case report of
           None \<Rightarrow> is_valid_prepare sl view ticket_valid
         | Some a \<Rightarrow>
             if \<not> is_ok (aggregate_verify E (cs_committee s) a (epoch_index_for_slot s sl)) then ret False
             else seq_h (modify (note_report sl view a)) (is_valid_prepare sl view ticket_valid))))
   | Confirm sl view q ps report \<Rightarrow> with_state (\<lambda>s.
       if (case cs_views s sl of None \<Rightarrow> 0 | Some v \<Rightarrow> v) \<le> view \<and> verify_confirm E (cs_committee s) m
       then seq_h (modify (\<lambda>s. s\<lparr>cs_views := (cs_views s)(sl \<mapsto> view)\<rparr>)) (ret True)
       else ret False)
   | Commit sl view q ps report \<Rightarrow> with_state (\<lambda>s. ret (verify_commit E (cs_committee s) m)))"

section \<open>Voting\<close>

type_synonym sigs = "(slot \<times> digest \<times> signature) list"

definition sign_message :: "'p env_scheme \<Rightarrow> consensus_message \<Rightarrow> slot \<times> digest \<times> signature" where
  "sign_message E m = (cm_slot m, message_digest E m, e_sign E (message_digest E m))"

definition start_next_timer :: "slot \<Rightarrow> unit core_handler" where
  "start_next_timer sl = with_state (\<lambda>s.
     let next_slot = sl + 1; slot_k = effective_k_for_prepare_slot s next_slot
     in when_h (slot_k > 1 \<and> cs_committed_slots s next_slot = None \<and> (next_slot, 1) \<notin> cs_timers s \<and>
          (next_slot \<le> slot_k \<or> cs_committed_slots s (next_slot - slot_k) \<noteq> None))
        (start_timer next_slot 1 (cs_timeout_delay s)))"

definition process_prepare_message :: "req \<Rightarrow> 'p env_scheme \<Rightarrow> consensus_message \<Rightarrow> sigs \<Rightarrow> sigs core_handler" where
  "process_prepare_message req E m sigs = (case m of
     Prepare sl view tc ticket ps report \<Rightarrow>
       seq_h (ignore_err (is_prepare_ticket_ready req m))
      (seq_h (start_next_timer sl)
      (seq_h (modify (\<lambda>s. s\<lparr>cs_last_voted_consensus := insert (sl, view) (cs_last_voted_consensus s)\<rparr>))
      (seq_h (modify (\<lambda>s. if ce_use_fast_path s
           then s\<lparr>cs_high_proposals := (cs_high_proposals s)(sl \<mapsto> Prepare sl view None None ps report)\<rparr> else s))
        (ret (sigs @ [sign_message E m])))))
   | _ \<Rightarrow> ret sigs)"

definition process_confirm_message :: "'p env_scheme \<Rightarrow> consensus_message \<Rightarrow> sigs \<Rightarrow> sigs core_handler" where
  "process_confirm_message E m sigs = (case m of
     Confirm sl view q ps report \<Rightarrow>
       seq_h (modify (\<lambda>s. s\<lparr>cs_high_qcs := (cs_high_qcs s)(sl \<mapsto> m)\<rparr>)) (ret (sigs @ [sign_message E m]))
   | _ \<Rightarrow> ret sigs)"

section \<open>Commits\<close>

definition start_commit_timer :: "slot \<Rightarrow> unit core_handler" where
  "start_commit_timer sl = with_state (\<lambda>s.
     let k = effective_k_for_qc_slot s sl; timer_slot = sl + k
     in when_h ((timer_slot, 1) \<notin> cs_timers s \<and> (k = 1 \<or> cs_views s (timer_slot - 1) \<noteq> None))
        (start_timer timer_slot 1 (cs_timeout_delay s)))"

definition record_commit :: "slot \<Rightarrow> view \<Rightarrow> qc \<Rightarrow> proposals \<Rightarrow> aggregate_report option \<Rightarrow> core \<Rightarrow> core" where
  "record_commit sl view q ps report s =
     (let s' = note_committed_slot sl (s\<lparr>cs_timers := {x \<in> cs_timers s. fst x \<noteq> sl},
            cs_high_qcs := (cs_high_qcs s)(sl \<mapsto> Commit sl view q ps report)\<rparr>)
      in s'\<lparr>cs_committed_slots := (cs_committed_slots s')(sl \<mapsto>
           \<lparr>cq_slot = sl, cq_view = view, cq_qc = q, cq_proposals = ps, cq_report = report\<rparr>)\<rparr>)"

definition process_commit_message_core :: "req \<Rightarrow> 'p env_scheme \<Rightarrow> consensus_message \<Rightarrow> header \<Rightarrow> unit core_handler" where
  "process_commit_message_core req E m h = (case m of
     Commit sl view q ps report \<Rightarrow>
       seq_h (with_state (\<lambda>s. when_h (cs_simulate_asynchrony s \<and> sl = 1 \<and> \<not> cs_already_set_timers s) set_async_timers))
      (seq_h (modify (record_commit sl view q ps report))
      (seq_h (persist_coordination_certificate E sl view q)
      (seq_h (modify (apply_pending_parameters sl))
      (seq_h trigger_metrics
      (seq_h (start_commit_timer sl)
      (seq_h (bind_h (expect_h (synced (get_proposals E m h))) (\<lambda>hs. when_h (hs \<noteq> []) (to_committer m)))
        (try_prepare_waiting_slots req)))))))
   | _ \<Rightarrow> ret ())"

text \<open>
  Garbage collection of consensus slots. The code calls \<open>clean_slot_periods\<close> without awaiting
  the future, so it never runs; \<open>clean_slot\<close> is not called at all.
\<close>

definition clean_slot :: "slot \<Rightarrow> core \<Rightarrow> core" where
  "clean_slot sl s = s\<lparr>cs_consensus_instances := retain (\<lambda>x _. fst x \<noteq> sl) (cs_consensus_instances s),
     cs_consensus_cancel_handlers := retain (\<lambda>x _. x \<noteq> sl) (cs_consensus_cancel_handlers s),
     cs_qc_makers := retain (\<lambda>x _. fst x \<noteq> sl) (cs_qc_makers s)\<rparr>"

definition clean_slot_periods :: "slot \<Rightarrow> core \<Rightarrow> core" where
  "clean_slot_periods sl s =
     (let k = max 1 (effective_k_for_qc_slot s sl); period = sl mod k;
          kept = (\<lambda>x. x mod k \<noteq> period \<and> x \<le> sl)
      in s\<lparr>cs_consensus_instances := retain (\<lambda>x _. kept (fst x)) (cs_consensus_instances s),
           cs_consensus_cancel_handlers := retain (\<lambda>x _. kept x) (cs_consensus_cancel_handlers s),
           cs_qc_makers := retain (\<lambda>x _. kept (fst x)) (cs_qc_makers s)\<rparr>)"

section \<open>Collecting votes\<close>

definition is_prepare :: "consensus_message \<Rightarrow> bool" where
  "is_prepare m \<longleftrightarrow> (case m of Prepare _ _ _ _ _ _ \<Rightarrow> True | _ \<Rightarrow> False)"

text \<open>The maker of an instance, set up for the fast path only for a Prepare.\<close>

definition ready_maker :: "core \<Rightarrow> slot \<times> digest \<Rightarrow> consensus_message \<Rightarrow> qc_maker" where
  "ready_maker s key inst =
     (let m = (case cs_qc_makers s key of None \<Rightarrow> qm_new | Some m \<Rightarrow> m)
      in m\<lparr>qm_try_fast := is_prepare inst \<and> ce_use_fast_path s \<and> \<not> qm_fast_path_disabled m\<rparr>)"

definition put_maker :: "slot \<times> digest \<Rightarrow> qc_maker \<Rightarrow> unit core_handler" where
  "put_maker key m = modify (\<lambda>s. s\<lparr>cs_qc_makers := (cs_qc_makers s)(key \<mapsto> m)\<rparr>)"

text \<open>One vote, or the expiry of the fast-path timer (\<open>loopback\<close>).\<close>

definition count_vote :: "slot \<times> digest \<Rightarrow> consensus_message \<Rightarrow> public_key \<Rightarrow> signature \<Rightarrow> bool \<Rightarrow> (bool \<times> qc option) core_handler" where
  "count_vote key inst author sg loopback = with_state (\<lambda>s.
     let m = ready_maker s key inst;
         (m', r) = (if loopback then qm_get_qc (m\<lparr>qm_try_fast := False, qm_fast_path_disabled := True\<rparr>)
                    else qm_append (cs_committee s) author (snd key, sg) m)
     in seq_h (put_maker key m') (of_result r))"

definition maker_of :: "core \<Rightarrow> slot \<times> digest \<Rightarrow> qc_maker" where
  "maker_of s key = (case cs_qc_makers s key of None \<Rightarrow> qm_new | Some m \<Rightarrow> m)"

definition on_qc :: "req \<Rightarrow> slot \<times> digest \<Rightarrow> consensus_message \<Rightarrow> qc \<Rightarrow> unit core_handler" where
  "on_qc req key inst q = with_state (\<lambda>s. let m = maker_of s key in case inst of
     Prepare sl view tc ticket ps report \<Rightarrow>
       if qm_try_fast m then req (Commit sl view q ps report)
       else if \<not> qm_sent_confirm m \<and> \<not> qm_completed_fast m
       then seq_h (put_maker key (m\<lparr>qm_sent_confirm := True\<rparr>)) (req (Confirm sl view q ps report))
       else ret ()
   | Confirm sl view q' ps report \<Rightarrow> req (Commit sl view q ps report)
   | Commit sl view q' ps report \<Rightarrow> panic)"

definition process_consensus_vote :: "req \<Rightarrow> 'p env_scheme \<Rightarrow> consensus_vote \<Rightarrow> bool \<Rightarrow> unit core_handler" where
  "process_consensus_vote req E v loopback = with_state (\<lambda>s.
     let key = (cv_slot v, cv_digest v) in case cs_consensus_instances s key of
       None \<Rightarrow> ret ()
     | Some inst \<Rightarrow>
         seq_h (when_h (\<not> loopback \<and> cv_author v \<noteq> cs_name s)
           (of_result (map_err DagInvalidSignature (sig_verify E (cv_sig v) (cv_digest v) (cv_author v)))))
         (bind_h (count_vote key inst (cv_author v) (cv_sig v) loopback) (\<lambda>(ready, q).
            if \<not> ready then ret ()
            else case q of
              None \<Rightarrow> when_h (ce_use_fast_path s)
                (modify (\<lambda>s. s\<lparr>cs_fast_timers := cs_fast_timers s @ [(v, ce_fast_path_timeout s)]\<rparr>))
            | Some q \<Rightarrow> on_qc req key inst q)))"

section \<open>Requests\<close>

definition process_consensus_message :: "req \<Rightarrow> 'p env_scheme \<Rightarrow> consensus_message \<Rightarrow> public_key \<Rightarrow> unit core_handler" where
  "process_consensus_message req E m author =
     (let h = default_header\<lparr>hd_author := author\<rparr> in
      bind_h (case m of
          Prepare sl view tc ticket ps report \<Rightarrow> with_state (\<lambda>s.
            bind_h (if ce_use_optimistic_tips s then synced (optimistic_tips_ready E m h)
                    else bind_h (synced (get_proposals E m h)) (\<lambda>_. ret True)) (\<lambda>ready.
            if ready then process_prepare_message req E m [] else ret []))
        | Confirm sl view q ps report \<Rightarrow>
            bind_h (synced (get_proposals E m h)) (\<lambda>_. process_confirm_message E m [])
        | Commit sl view q ps report \<Rightarrow> seq_h (process_commit_message_core req E m h) (ret []))
      (\<lambda>sigs. if sigs = [] then ret ()
        else case last sigs of (sl, d, sg) \<Rightarrow> with_state (\<lambda>s.
          let v = \<lparr>cv_author = cs_name s, cv_slot = sl, cv_digest = d, cv_sig = sg\<rparr>
          in if author = cs_name s then expect_h (process_consensus_vote req E v False)
             else send_msg E (ConsensusVoteMsg v) sl (Some author) True)))"

definition note_instance :: "'p env_scheme \<Rightarrow> consensus_message \<Rightarrow> core \<Rightarrow> core" where
  "note_instance E m s = (case m of
     Commit _ _ _ _ _ \<Rightarrow> s
   | _ \<Rightarrow> s\<lparr>cs_consensus_instances := (cs_consensus_instances s)((cm_slot m, message_digest E m) \<mapsto> m)\<rparr>)"

definition process_consensus_request :: "req \<Rightarrow> 'p env_scheme \<Rightarrow> consensus_request \<Rightarrow> unit core_handler" where
  "process_consensus_request req E r =
     seq_h (modify (note_instance E (cr_message r)))
    (seq_h (with_state (\<lambda>s. when_h (cr_author r \<noteq> cs_name s) (of_result (request_verify E (cs_committee s) r))))
    (bind_h (is_valid E (cr_message r)) (\<lambda>valid.
       if valid then process_consensus_message req E (cr_message r) (cr_author r) else ret ())))"

primrec send_consensus_req :: "nat \<Rightarrow> 'p env_scheme \<Rightarrow> consensus_message \<Rightarrow> unit core_handler" where
  "send_consensus_req 0 E m = diverge"
| "send_consensus_req (Suc n) E m = with_state (\<lambda>s.
     let r = new_request E (e_sign E) (cs_name s) (set_consensus_proposal s m)
     in seq_h (send_msg E (ConsensusRequestMsg r) (hd_height (cs_current_header s)) None False)
          (process_consensus_request (send_consensus_req n E) E r))"

text \<open>Messages forwarded by another replica.\<close>

definition process_forwarded_message :: "req \<Rightarrow> 'p env_scheme \<Rightarrow> consensus_message \<Rightarrow> unit core_handler" where
  "process_forwarded_message req E m = (case m of
     Prepare _ _ _ _ _ _ \<Rightarrow> is_prepare_ticket_ready req m
   | Commit _ _ _ _ _ \<Rightarrow> with_state (\<lambda>s. process_commit_message_core req E m (cs_current_header s))
   | _ \<Rightarrow> ret ())"

end
