(* ===== verification/Core_Order.thy ===== *)
theory Core_Order
  imports Core_Consensus
begin

text \<open>
  What the consensus handlers leave alone and what they never undo.

  The consensus handlers change few of the fields that matter to the properties: \<open>order_part\<close>.
  The locale \<open>core_order\<close> states how: a preorder on states that is climbed by each of these
  few updates, and by everything that leaves \<open>order_part\<close> alone, is climbed by every handler.
  It is interpreted on \<open>advances\<close> (views only grow; votes, proposed slots, commits and sent
  Confirms are never forgotten; what was handed to the committer stays handed over) and on the
  part of the state that belongs to the lanes, which consensus handlers leave alone.
\<close>

section \<open>What consensus handlers may change\<close>

text \<open>The part of the state that belongs to car dissemination and to view changes.\<close>

definition lane_part where
  "lane_part s = (cs_name s, cs_committee s, cs_last_voted s, cs_current_header s, cs_sent_cert_to_proposer s, cs_votes_aggregator s,
     cs_proposal_tips s, cs_certified_tips s, cs_qcs_formed s, cs_car_timers s, cs_tx_proposer s,
     cs_last_headers s, cs_gc_round s, cs_gc_depth s, cs_tc_makers s)"

definition order_part where
  "order_part s = (cs_name s, cs_committee s, cs_views s, cs_already_proposed s, cs_last_voted_consensus s,
     cs_committed_slots s, cs_qc_makers s, cs_tx_committer s, ce_last_committed_slot s, lane_part s)"

lemmas part_defs = order_part_def lane_part_def

definition view_of :: "core \<Rightarrow> slot \<Rightarrow> view" where
  "view_of s sl = (case cs_views s sl of None \<Rightarrow> 0 | Some v \<Rightarrow> v)"

named_theorems part_frame \<open>handlers that leave \<open>order_part\<close> alone\<close>

lemma sans_net_part_frame: "moves (same sans_net) h \<Longrightarrow> moves (same order_part) h"
  by (rule net_frame_same [where g = order_part]) (simp_all add: part_defs sans_net_def)

lemma more_part:
  "core_params.more t = core_params.more s \<Longrightarrow> ce_last_committed_slot t = ce_last_committed_slot s \<Longrightarrow>
   order_part t = order_part s"
  by (cases t, cases s) (simp add: part_defs)

lemma synced_part [part_frame]: "moves (same order_part) (synced h)"
  by (simp add: moves_def same_def synced_def zoom_def part_defs split: prod.split)

lemma persist_part [part_frame]: "moves (same order_part) (persist_coordination_certificate E sl v q)"
  unfolding persist_coordination_certificate_def write_store_def Let_def
  by (rule frame.with_state) (auto intro!: frame.rules frame.modify simp: same_def part_defs split: option.split)

lemma trigger_part [part_frame]: "moves (same order_part) trigger_metrics"
  unfolding trigger_metrics_def send_metrics_request_def Let_def
  by (rule frame.with_state) (auto intro!: frame.rules frame.modify simp: same_def part_defs)

lemma start_timer_part [part_frame]: "moves (same order_part) (start_timer sl v d)"
  unfolding start_timer_def by (rule frame.modify) (simp add: same_def part_defs)

lemma start_next_timer_part [part_frame]: "moves (same order_part) (start_next_timer sl)"
  unfolding start_next_timer_def Let_def by (intro frame.rules frame.with_state part_frame)

lemma start_commit_timer_part [part_frame]: "moves (same order_part) (start_commit_timer sl)"
  unfolding start_commit_timer_def Let_def by (intro frame.rules frame.with_state part_frame)

lemma push_ticket_part [part_frame]: "moves (same order_part) (push_ticket m)"
  unfolding push_ticket_def by (rule frame.modify) (simp add: same_def part_defs)

lemma tell_info_part [part_frame]: "moves (same order_part) (tell_proposer_info m)"
  unfolding tell_proposer_info_def by (rule frame.modify) (simp add: same_def part_defs)

lemma leader_part [part_frame]: "moves (same order_part) (leader_of sl v)"
  unfolding leader_of_def by (intro frame.rules frame.with_state)

lemma coverage_part [part_frame]: "moves (same order_part) (enough_coverage ps)"
  unfolding enough_coverage_def by (intro frame.rules frame.with_state)

lemma set_async_part [part_frame]: "moves (same order_part) set_async_timers"
  unfolding set_async_timers_def set_async_window_def is_targeted_def join_partition_def nth_h_def Let_def
  by (auto intro!: frame.rules frame.with_state frame.modify simp: same_def part_defs)

lemma apply_more: "core_params.more (apply_parameter_updates j s) = core_params.more s"
proof -
  have "core_params.more (update_k k s) = core_params.more s"
    "core_params.more (update_fast_path_timeout k s) = core_params.more s" for k and s :: "'a core_params_scheme"
    by (simp_all add: update_k_def update_fast_path_timeout_def Let_def)
  then show ?thesis
    by (simp add: apply_parameter_updates_def tell_proposer_params_def update_protocol_def update_sizes_def
        opt_update_field [where g = core_params.more] Let_def split: option.split)
qed

lemma apply_last: "ce_last_committed_slot (apply_parameter_updates j s) = ce_last_committed_slot s"
  using signal_part_apply [of j s] by (simp add: signal_part_def)

lemma apply_pending_more: "core_params.more (apply_pending_parameters sl s) = core_params.more s"
  by (simp add: apply_pending_parameters_def apply_captured_def Let_def apply_more split: option.split)

lemma apply_pending_last: "ce_last_committed_slot (apply_pending_parameters sl s) = ce_last_committed_slot s"
  by (simp add: apply_pending_parameters_def apply_captured_def Let_def apply_last split: option.split)

lemma note_slot_more: "core_params.more (note_committed_slot sl s) = core_params.more s"
  by (simp add: note_committed_slot_def Let_def split: option.split)

lemma note_slot_last: "ce_last_committed_slot (note_committed_slot sl s) = max sl (ce_last_committed_slot s)"
  by (simp add: note_committed_slot_def Let_def split: option.split)

lemma apply_pending_part [part_frame]: "moves (same order_part) (modify (apply_pending_parameters sl))"
  by (rule frame.modify) (simp add: same_def more_part [OF apply_pending_more apply_pending_last])

lemma send_part [part_frame]: "moves (same order_part) (send_msg E m h a ch)"
  by (rule sans_net_part_frame [OF send_msg_frame])

lemma note_report_part: "order_part (note_report sl v a s) = order_part s"
  by (simp add: note_report_def Let_def part_defs)

lemma note_instance_part: "order_part (note_instance E m s) = order_part s"
  by (cases m) (simp_all add: note_instance_def part_defs)

lemma append_sent: "qm_sent_confirm (fst (qm_append c a v m)) = qm_sent_confirm m"
  by (simp add: qm_append_def check_fast_qc_def qm_record_def Let_def)

lemma get_qc_sent: "qm_sent_confirm (fst (qm_get_qc m)) = qm_sent_confirm m"
  by (simp add: qm_get_qc_def)

section \<open>The contract\<close>

locale core_order = step_order R for R :: "core \<Rightarrow> core \<Rightarrow> bool" +
  assumes part: "order_part t = order_part s \<Longrightarrow> R s t"
    and raise: "view_of s sl \<le> v \<Longrightarrow> R s (s\<lparr>cs_views := (cs_views s)(sl \<mapsto> v)\<rparr>)"
    and propose: "R s (s\<lparr>cs_already_proposed := insert sl (cs_already_proposed s)\<rparr>)"
    and vote: "R s (s\<lparr>cs_last_voted_consensus := insert x (cs_last_voted_consensus s)\<rparr>)"
    and commit: "R s (s\<lparr>ce_last_committed_slot := max sl (ce_last_committed_slot s),
      cs_committed_slots := (cs_committed_slots s)(sl \<mapsto> q)\<rparr>)"
    and deliver: "R s (s\<lparr>cs_tx_committer := cs_tx_committer s @ [m]\<rparr>)"
    and maker: "qm_sent_confirm (maker_of s key) \<longrightarrow> qm_sent_confirm mk \<Longrightarrow>
      R s (s\<lparr>cs_qc_makers := (cs_qc_makers s)(key \<mapsto> mk)\<rparr>)"
begin

lemma frame: "moves (same order_part) h \<Longrightarrow> moves R h"
  by (simp add: moves_def same_def part)

lemmas steps = part_frame [THEN frame]

lemma to_committer_moves: "moves R (to_committer m)"
  unfolding to_committer_def by (rule modify) (rule deliver)

lemma raise_view_moves: "R s (raise_view sl v s)"
  using raise [of s sl v] by (auto simp: raise_view_def view_of_def refl)

lemma is_valid_prepare_moves: "moves R (is_valid_prepare sl v b)"
  unfolding is_valid_prepare_def
  by (auto intro!: rules with_state modify raise_view_moves)

lemma is_valid_moves: "moves R (is_valid E m)"
proof (cases m)
  case (Prepare sl view tc ticket ps report)
  then show ?thesis unfolding is_valid_def
    by (auto intro!: rules with_state modify is_valid_prepare_moves part note_report_part
        split: option.split)
next
  case (Confirm sl view q ps report)
  then show ?thesis unfolding is_valid_def Confirm using raise [of _ sl view]
    by (auto simp: moves_def with_state_def view_of_def seq_h_def bind_h_def modify_def ret_def refl)
next
  case Commit
  then show ?thesis unfolding is_valid_def by (auto intro!: rules with_state)
qed

lemma record_commit_moves: "R s (record_commit sl v q ps r s)"
proof -
  let ?s = "s\<lparr>cs_timers := {x \<in> cs_timers s. fst x \<noteq> sl}, cs_high_qcs := (cs_high_qcs s)(sl \<mapsto> Commit sl v q ps r)\<rparr>"
  let ?q = "\<lparr>cq_slot = sl, cq_view = v, cq_qc = q, cq_proposals = ps, cq_report = r\<rparr>"
  have "core_params.more (note_committed_slot sl ?s) = core_params.more (?s\<lparr>ce_last_committed_slot := max sl (ce_last_committed_slot s)\<rparr>)"
    by (simp add: note_slot_more)
  then have "order_part (note_committed_slot sl ?s) = order_part (?s\<lparr>ce_last_committed_slot := max sl (ce_last_committed_slot s)\<rparr>)"
    by (rule more_part) (simp add: note_slot_last)
  then have "order_part (record_commit sl v q ps r s) = order_part (s\<lparr>ce_last_committed_slot := max sl (ce_last_committed_slot s),
      cs_committed_slots := (cs_committed_slots s)(sl \<mapsto> ?q)\<rparr>)"
    by (simp add: record_commit_def Let_def part_defs)
  then show ?thesis by (rule trans [OF commit part])
qed

lemma put_maker_moves:
  "qm_sent_confirm (maker_of s key) \<longrightarrow> qm_sent_confirm m \<Longrightarrow> R s (fst (put_maker key m s))"
  by (simp add: put_maker_def modify_def maker)

lemma count_vote_moves: "moves R (count_vote key inst a sg loopback)"
  unfolding count_vote_def
proof (rule with_state_at)
  fix s
  let ?m = "ready_maker s key inst"
  obtain m' r where mr: "(if loopback then qm_get_qc (?m\<lparr>qm_try_fast := False, qm_fast_path_disabled := True\<rparr>)
      else qm_append (cs_committee s) a (snd key, sg) ?m) = (m', r)" by (metis surj_pair)
  have "qm_sent_confirm ?m = qm_sent_confirm (maker_of s key)"
    by (simp add: ready_maker_def maker_of_def Let_def)
  moreover have "qm_sent_confirm m' = qm_sent_confirm ?m"
    using mr append_sent [of "cs_committee s" a "(snd key, sg)" ?m]
      get_qc_sent [of "?m\<lparr>qm_try_fast := False, qm_fast_path_disabled := True\<rparr>"]
    by (auto split: if_splits)
  ultimately have "R s (fst (put_maker key m' s))" by (intro put_maker_moves) simp
  then show "R s (fst ((let m = ?m; (m', r) = (if loopback
        then qm_get_qc (m\<lparr>qm_try_fast := False, qm_fast_path_disabled := True\<rparr>)
        else qm_append (cs_committee s) a (snd key, sg) m)
      in seq_h (put_maker key m') (of_result r)) s))"
    using mr by (simp add: Let_def) (rule seq_at, auto simp: at [OF of_result])
qed

text \<open>The handlers of the circle, for any \<open>req\<close> that climbs.\<close>

lemma ticket_moves:
  assumes "\<And>m. moves R (req m)"
  shows "moves R (is_prepare_ticket_ready req m)"
proof (cases m)
  case (Prepare sl v tc ticket ps r)
  have "moves R (modify (\<lambda>s. s\<lparr>cs_already_proposed := insert x (cs_already_proposed s)\<rparr>))" for x
    by (rule modify) (rule propose)
  then show ?thesis unfolding is_prepare_ticket_ready_def Prepare
    by (auto simp: Let_def intro!: bind seq ret with_state assms steps)
qed (simp_all add: is_prepare_ticket_ready_def ret)

lemma try_tickets_moves:
  assumes "\<And>m. moves R (req m)"
  shows "moves R (try_tickets req n)"
proof (induction n)
  case (Suc n)
  have "moves R (modify (\<lambda>s. s\<lparr>cs_prepare_tickets := ms\<rparr>))" for ms
    by (rule modify) (simp add: part part_defs)
  then show ?case
    by (auto intro!: with_state rules Suc ticket_moves assms split: list.split)
qed (simp add: ret)

lemma waiting_moves: "(\<And>m. moves R (req m)) \<Longrightarrow> moves R (try_prepare_waiting_slots req)"
  unfolding try_prepare_waiting_slots_def by (intro with_state try_tickets_moves)

lemma note_vote_moves:
  "moves R (modify (\<lambda>s. s\<lparr>cs_last_voted_consensus := insert x (cs_last_voted_consensus s)\<rparr>))"
  by (rule modify) (rule vote)

lemma high_proposal_moves:
  "moves R (modify (\<lambda>s. if ce_use_fast_path s
      then s\<lparr>cs_high_proposals := (cs_high_proposals s)(sl \<mapsto> m)\<rparr> else s))"
  by (rule modify) (simp add: part part_defs)

lemma process_prepare_moves:
  assumes "\<And>m. moves R (req m)"
  shows "moves R (process_prepare_message req E m sigs)"
  unfolding process_prepare_message_def
  by (auto intro!: seq ignore ret ticket_moves note_vote_moves high_proposal_moves assms steps
      split: consensus_message.split)

lemma process_confirm_moves: "moves R (process_confirm_message E m sigs)"
  unfolding process_confirm_message_def
  by (auto intro!: rules modify simp: part part_defs split: consensus_message.split)

lemma note_commit_moves: "moves R (modify (record_commit sl v q ps r))"
  by (rule modify) (rule record_commit_moves)

lemma process_commit_moves:
  assumes "\<And>m. moves R (req m)"
  shows "moves R (process_commit_message_core req E m h)"
  unfolding process_commit_message_core_def
  by (auto intro!: seq bind with_state when_cond expect ret note_commit_moves
      to_committer_moves waiting_moves assms steps split: consensus_message.split)

lemma on_qc_moves:
  assumes "\<And>m. moves R (req m)"
  shows "moves R (on_qc req key inst q)"
  unfolding on_qc_def
proof (rule with_state_at)
  fix s
  have put: "R s (fst (put_maker key ((maker_of s key)\<lparr>qm_sent_confirm := True\<rparr>) s))"
    by (rule put_maker_moves) simp
  show "R s (fst ((let m = maker_of s key in case inst of
     Prepare sl view tc ticket ps report \<Rightarrow>
       if qm_try_fast m then req (Commit sl view q ps report)
       else if \<not> qm_sent_confirm m \<and> \<not> qm_completed_fast m
       then seq_h (put_maker key (m\<lparr>qm_sent_confirm := True\<rparr>)) (req (Confirm sl view q ps report))
       else ret ()
   | Confirm sl view q' ps report \<Rightarrow> req (Commit sl view q ps report)
   | Commit sl view q' ps report \<Rightarrow> panic) s))"
    unfolding Let_def
    by (auto intro!: at [OF assms] at [OF ret] at [OF panic] seq_at put
        split: consensus_message.split)
qed

lemma fast_timer_moves:
  "moves R (modify (\<lambda>s. s\<lparr>cs_fast_timers := cs_fast_timers s @ [(v, ce_fast_path_timeout s)]\<rparr>))"
  by (rule modify) (simp add: part part_defs)

lemma process_vote_moves:
  assumes "\<And>m. moves R (req m)"
  shows "moves R (process_consensus_vote req E v loopback)"
  unfolding process_consensus_vote_def Let_def
  by (intro with_state)
    (auto intro!: rules on_qc_moves count_vote_moves fast_timer_moves assms split: option.split)

lemma process_message_moves:
  assumes "\<And>m. moves R (req m)"
  shows "moves R (process_consensus_message req E m author)"
  unfolding process_consensus_message_def Let_def
  by (auto intro!: bind seq ret expect with_state process_prepare_moves process_confirm_moves process_commit_moves
      process_vote_moves assms steps split: consensus_message.split prod.split)

lemma process_request_moves:
  assumes "\<And>m. moves R (req m)"
  shows "moves R (process_consensus_request req E r)"
  unfolding process_consensus_request_def
  by (auto intro!: rules modify with_state is_valid_moves process_message_moves assms
      simp: part note_instance_part)

lemma send_req_moves: "moves R (send_consensus_req n E m)"
proof (induction n arbitrary: m)
  case (Suc n)
  then show ?case
    by (auto simp: Let_def intro!: with_state seq process_request_moves steps)
qed (simp add: diverge)

lemma forwarded_moves:
  assumes "\<And>m. moves R (req m)"
  shows "moves R (process_forwarded_message req E m)"
  unfolding process_forwarded_message_def
  by (auto intro!: ret with_state ticket_moves process_commit_moves assms split: consensus_message.split)

end

section \<open>The order of progress\<close>

definition confirmed :: "core \<Rightarrow> (slot \<times> digest) set" where
  "confirmed s = {k. qm_sent_confirm (maker_of s k)}"

definition advances :: "core \<Rightarrow> core \<Rightarrow> bool" where
  "advances s t \<longleftrightarrow> cs_name t = cs_name s \<and> cs_committee t = cs_committee s \<and>
     (\<forall>sl. cs_views s sl \<noteq> None \<longrightarrow> cs_views t sl \<noteq> None) \<and> (\<forall>sl. view_of s sl \<le> view_of t sl) \<and>
     cs_already_proposed s \<subseteq> cs_already_proposed t \<and>
     cs_last_voted_consensus s \<subseteq> cs_last_voted_consensus t \<and>
     dom (cs_committed_slots s) \<subseteq> dom (cs_committed_slots t) \<and> confirmed s \<subseteq> confirmed t \<and>
     (\<exists>ms. cs_tx_committer t = cs_tx_committer s @ ms)"

lemmas advances_defs = advances_def view_of_def confirmed_def maker_of_def

interpretation adv: core_order advances
proof
  show "advances s s" for s by (simp add: advances_def)
  show "advances s u" if st: "advances s t" and tu: "advances t u" for s t u
  proof -
    have "view_of s sl \<le> view_of u sl" for sl
      using st tu order_trans [of "view_of s sl" "view_of t sl" "view_of u sl"] unfolding advances_def by blast
    moreover have "\<exists>ms. cs_tx_committer u = cs_tx_committer s @ ms"
      using st tu unfolding advances_def by (elim conjE exE) simp
    ultimately show ?thesis using st tu unfolding advances_def by (elim conjE) (intro conjI allI impI; (simp; fail)?; blast?)
  qed
  show "advances s t" if "order_part t = order_part s" for s t
    using that by (simp add: order_part_def advances_defs)
qed (auto simp: advances_defs)

lemmas advances_part = adv.part
lemmas adv_steps = adv.steps
lemmas frame_advances = adv.frame

interpretation lane: core_order "same lane_part"
  by unfold_locales (simp_all add: same_def part_defs)

end
