(* ===== verification/Core_Progress.thy ===== *)
theory Core_Progress
  imports Core_Order
begin

text \<open>
  The circle of consensus handlers returns: each nested request uses up a slot that was not
  proposed before or a vote collector that had not sent its Confirm, and a Commit leads back
  into the circle only through a new slot. Hence a fuel of \<open>2 * budget + 2\<close> is enough.
\<close>

section \<open>Handlers outside the circle return\<close>

named_theorems ret_frame \<open>handlers that always return\<close>

lemma tally_returns: "tally reuse unk c xs used w \<noteq> Diverge"
  by (induction xs arbitrary: used w) (simp_all add: then_r_def bind_r_def ensure_r_def Let_def)

lemma sig_verify_returns: "sig_verify P s d k \<noteq> Diverge"
  by (simp add: sig_verify_def bind_r_def sig_from_bytes_def key_from_bytes_def ensure_r_def)

lemma map_err_returns: "r \<noteq> Diverge \<Longrightarrow> map_err f r \<noteq> Diverge"
  by (cases r) (simp_all add: map_err_def)

lemma signed_returns: "signed_by_member P c a d s \<noteq> Diverge"
  by (simp add: signed_by_member_def then_r_def bind_r_def ensure_r_def map_err_returns sig_verify_returns)

lemma request_returns: "request_verify P c r \<noteq> Diverge"
  by (simp add: request_verify_def signed_returns)

lemma primary_of_returns: "primary_of c a \<noteq> Diverge"
  by (simp add: primary_of_def lookup_authority_def bind_r_def split: option.split)

lemma de_header_returns: "de_header P b \<noteq> Diverge"
  by (simp add: de_header_def split: option.split)

lemma read_ret [ret_frame]: "returns (store_read k)" and genesis_ret [ret_frame]: "returns (genesis_of pk)"
  and tell_ret [ret_frame]: "returns (tell_waiter m)"
  by (auto simp: store_read_def genesis_of_def tell_waiter_def intro!: returns_rules)

lemma push_missing_ret [ret_frame]: "returns (push_missing pk p ms)"
  unfolding push_missing_def by (auto intro!: returns_rules)

lemma push_missing_tip_ret [ret_frame]: "returns (push_missing_tip pk p ms)"
  unfolding push_missing_tip_def by (auto intro!: returns_rules)

lemma lookup_ret [ret_frame]: "returns (lookup_proposal P pk p acc)"
  unfolding lookup_proposal_def
  by (cases acc) (auto intro!: returns_rules ret_frame de_header_returns split: option.split)

lemma confirm_ret [ret_frame]: "returns (confirm_proposal P x acc)"
  unfolding confirm_proposal_def by (cases acc) (auto intro!: returns_rules ret_frame)

lemma proposal_step_ret [ret_frame]: "returns (proposal_step P m d x acc)"
  unfolding proposal_step_def prepare_proposal_def commit_proposal_def
  by (cases acc) (auto intro!: returns_rules ret_frame split: consensus_message.split)

lemma get_proposals_ret [ret_frame]: "returns (get_proposals P m d)"
  unfolding get_proposals_def by (auto intro!: returns_rules ret_frame split: prod.split)

lemma tips_ready_ret [ret_frame]: "returns (optimistic_tips_ready P m d)"
  unfolding optimistic_tips_ready_def tip_step_def
  by (auto intro!: returns_rules ret_frame split: consensus_message.split option.split prod.split)

lemma synced_ret [ret_frame]: "returns h \<Longrightarrow> returns (synced h)"
  unfolding synced_def by (rule returns_zoom)

lemma transmit_ret [ret_frame]: "returns (transmit h ch m as)"
  unfolding transmit_def by (rule returns_basic)

lemma send_normal_ret [ret_frame]: "returns (send_msg_normal m h a ch)"
  unfolding send_msg_normal_def
  by (auto intro!: returns_rules ret_frame map_err_returns primary_of_returns split: option.split)

lemma send_msg_ret [ret_frame]: "returns (send_msg E m h a ch)"
  unfolding send_msg_def send_partition_def send_equivocate_def send_prepare_delay_def delay_egress_def
    delay_until_def send_msg_partition_def Let_def
  by (auto intro!: returns_rules ret_frame
      split: async_effect_type.split primary_message.split consensus_message.split option.split)

lemma set_async_ret [ret_frame]: "returns set_async_timers"
  unfolding set_async_timers_def set_async_window_def is_targeted_def join_partition_def nth_h_def Let_def
  by (auto intro!: returns_rules)

lemma persist_ret [ret_frame]: "returns (persist_coordination_certificate E sl v q)"
  unfolding persist_coordination_certificate_def write_store_def Let_def
  by (auto intro!: returns_rules split: option.split)

lemma trigger_ret [ret_frame]: "returns trigger_metrics"
  unfolding trigger_metrics_def send_metrics_request_def Let_def by (auto intro!: returns_rules)

lemma start_timers_ret [ret_frame]: "returns (start_next_timer sl)" "returns (start_commit_timer sl)"
  by (auto simp: start_next_timer_def start_commit_timer_def start_timer_def Let_def intro!: returns_rules)

lemma leader_ret [ret_frame]: "returns (leader_of sl v)" and coverage_ret [ret_frame]: "returns (enough_coverage ps)"
  and push_ret [ret_frame]: "returns (push_ticket m)" and info_ret [ret_frame]: "returns (tell_proposer_info m)"
  and committer_ret [ret_frame]: "returns (to_committer m)" and put_ret [ret_frame]: "returns (put_maker key mk)"
  by (auto simp: leader_of_def enough_coverage_def push_ticket_def tell_proposer_info_def to_committer_def
      put_maker_def intro!: returns_rules)

lemma count_vote_ret [ret_frame]: "returns (count_vote key inst a sg loopback)"
proof -
  have "snd (qm_append c a v m) \<noteq> Diverge" "snd (qm_get_qc m) \<noteq> Diverge" for c v m
    by (simp_all add: qm_append_def check_fast_qc_def qm_get_qc_def Let_def)
  then show ?thesis unfolding count_vote_def Let_def split_def
    by (intro returns_with_state returns_seq put_ret returns_of_result) simp
qed

lemma check_tc_returns: "check_tc E c v t ps \<noteq> Diverge"
  by (simp add: check_tc_def Let_def split: option.split)

lemma check_ticket_returns: "check_ticket E s sl v ticket \<noteq> Diverge"
  by (simp add: check_ticket_def Let_def split: option.split)

lemma is_valid_ret [ret_frame]: "returns (is_valid E m)"
  unfolding is_valid_def is_valid_prepare_def
  by (auto intro!: returns_rules simp: check_tc_returns check_ticket_returns split: consensus_message.split option.splits)

section \<open>The budget\<close>

definition unproposed :: "core \<Rightarrow> nat" where
  "unproposed s = card (- cs_already_proposed s)"

definition unconfirmed :: "core \<Rightarrow> nat" where
  "unconfirmed s = card (- confirmed s)"

definition budget :: "core \<Rightarrow> nat" where
  "budget s = unproposed s + unconfirmed s"

lemma finite_digests: "finite (UNIV :: digest set)"
proof -
  have "(UNIV :: digest set) = range Digest" by (metis UNIV_eq_I digest.exhaust rangeI)
  then show ?thesis by (metis finite finite_imageI)
qed

lemma finite_keys: "finite (S :: (slot \<times> digest) set)"
proof -
  have "finite (UNIV :: (slot \<times> digest) set)"
    using finite_digests by (simp add: UNIV_Times_UNIV [symmetric] del: UNIV_Times_UNIV)
  then show ?thesis by (rule rev_finite_subset) simp
qed

lemma budget_mono: "advances s t \<Longrightarrow> budget t \<le> budget s"
  unfolding budget_def unproposed_def unconfirmed_def advances_def
  by (intro add_mono card_mono finite_keys) auto

lemma budget_propose:
  assumes "sl \<notin> cs_already_proposed s"
  shows "budget (s\<lparr>cs_already_proposed := insert sl (cs_already_proposed s)\<rparr>) < budget s"
proof -
  have "- insert sl (cs_already_proposed s) \<subset> - cs_already_proposed s" using assms by auto
  then have "card (- insert sl (cs_already_proposed s)) < card (- cs_already_proposed s)"
    by (rule psubset_card_mono [rotated]) simp
  then show ?thesis by (simp add: budget_def unproposed_def unconfirmed_def confirmed_def maker_of_def)
qed

lemma budget_confirm:
  assumes "\<not> qm_sent_confirm (maker_of s key)" and "qm_sent_confirm m"
  shows "budget (fst (put_maker key m s)) < budget s"
proof -
  have "- confirmed (fst (put_maker key m s)) \<subset> - confirmed s"
    using assms by (auto simp: confirmed_def put_maker_def modify_def maker_of_def)
  then have "card (- confirmed (fst (put_maker key m s))) < card (- confirmed s)"
    by (rule psubset_card_mono [OF finite_keys])
  then show ?thesis by (simp add: budget_def unproposed_def unconfirmed_def put_maker_def modify_def)
qed

section \<open>Enough fuel\<close>

definition rank :: "consensus_message \<Rightarrow> nat" where
  "rank m = (case m of Commit _ _ _ _ _ \<Rightarrow> 1 | _ \<Rightarrow> 2)"

text \<open>What a request needs from the function that serves nested requests.\<close>

definition serves :: "nat \<Rightarrow> req \<Rightarrow> bool" where
  "serves n req \<longleftrightarrow> (\<forall>m s. 2 * budget s + rank m \<le> n \<longrightarrow> ends_at advances (req m) s)"

lemma servesD: "serves n req \<Longrightarrow> 2 * budget s + rank m \<le> n \<Longrightarrow> ends_at advances (req m) s"
  by (simp add: serves_def)

lemma ends_frame: "moves (same order_part) h \<Longrightarrow> returns h \<Longrightarrow> ends_at advances h s"
  by (intro adv.ends frame_advances)

lemma ends_basic: "ends_at advances (ret a) s" "ends_at advances panic s"
  by (simp_all add: ends_at_def ret_def panic_def adv.refl)

lemma ticket_ends:
  assumes "serves n req" and "2 * budget s \<le> n"
  shows "ends_at advances (is_prepare_ticket_ready req m) s"
proof (cases m)
  case (Prepare sl v tc ticket ps r)
  have propose: "ends_at advances (seq_h (modify (\<lambda>s. s\<lparr>cs_already_proposed := insert x (cs_already_proposed s)\<rparr>))
      (if b then tell_proposer_info new else req new)) u"
    if "x \<notin> cs_already_proposed u" "2 * budget u \<le> n" "rank new = 2" for x b new u
  proof (rule adv.ends_seq)
    show "ends_at advances (modify (\<lambda>s. s\<lparr>cs_already_proposed := insert x (cs_already_proposed s)\<rparr>)) u"
      by (auto simp: ends_at_def modify_def advances_def view_of_def confirmed_def maker_of_def)
    fix t assume "modify (\<lambda>s. s\<lparr>cs_already_proposed := insert x (cs_already_proposed s)\<rparr>) u = (t, Done ())"
    then have "2 * budget t + rank new \<le> n"
      using budget_propose [OF that(1)] that(2,3) by (auto simp: modify_def)
    then show "ends_at advances (if b then tell_proposer_info new else req new) t"
      using servesD [OF assms(1)] by (auto intro: ends_frame part_frame ret_frame)
  qed
  show ?thesis unfolding is_prepare_ticket_ready_def Prepare consensus_message.case
  proof (rule adv.ends_bind [OF ends_frame [OF leader_part leader_ret]], rule adv.ends_with_state)
    fix next_leader t assume "advances s t"
    then have b: "2 * budget t \<le> n" using budget_mono assms(2) by fastforce
    let ?next = "sl + 1" and ?new = "\<lambda>q a. Prepare (sl + 1) 1 None q [] a"
    have cover: "ends_at advances (bind_h (enough_coverage ps) (\<lambda>covered. if covered
        then seq_h (modify (\<lambda>s. s\<lparr>cs_already_proposed := insert ?next (cs_already_proposed s)\<rparr>))
          (if cs_use_ride_share t then tell_proposer_info (?new q a) else req (?new q a))
        else push_ticket m)) t" if "?next \<notin> cs_already_proposed t" for q a
    proof (rule adv.ends_bind [OF ends_frame [OF coverage_part coverage_ret]])
      fix covered u assume u: "enough_coverage ps t = (u, Done covered)"
      then have "u = t" by (auto simp: enough_coverage_def handler_simps split: option.splits)
      then show "ends_at advances (if covered
        then seq_h (modify (\<lambda>s. s\<lparr>cs_already_proposed := insert ?next (cs_already_proposed s)\<rparr>))
          (if cs_use_ride_share t then tell_proposer_info (?new q a) else req (?new q a))
        else push_ticket m) u"
        using propose [OF that b] by (auto simp: rank_def intro: ends_frame part_frame ret_frame)
    qed
    show "ends_at advances (if cs_name t \<noteq> next_leader then ret ()
       else if sl + 1 \<in> cs_already_proposed t then ret ()
       else let next_slot = sl + 1; ticket_k = effective_k_for_prepare_slot t next_slot
            in if next_slot > ticket_k \<and> cs_committed_slots t (next_slot - ticket_k) = None
               then push_ticket (Prepare sl v tc ticket ps r)
               else bind_h (enough_coverage ps) (\<lambda>covered.
                 if covered
                 then let qc_ticket = (if next_slot > ticket_k then cs_committed_slots t (next_slot - ticket_k) else None);
                          aggregate_report = get_pending_aggregate_report t (epoch_index_for_slot t next_slot);
                          new_prepare = Prepare next_slot 1 None qc_ticket [] aggregate_report
                      in seq_h (modify (\<lambda>s. s\<lparr>cs_already_proposed := insert next_slot (cs_already_proposed s)\<rparr>))
                           (if cs_use_ride_share t then tell_proposer_info new_prepare else req new_prepare)
                 else push_ticket (Prepare sl v tc ticket ps r))) t"
      using cover [unfolded Prepare] unfolding Let_def
      by (auto intro: ends_basic ends_frame part_frame ret_frame)
  qed
qed (simp_all add: is_prepare_ticket_ready_def ends_basic)

lemma tickets_ends:
  assumes "serves n req"
  shows "2 * budget s \<le> n \<Longrightarrow> ends_at advances (try_tickets req j) s"
proof (induction j arbitrary: s)
  case (Suc j)
  show ?case
  proof (cases "cs_prepare_tickets s")
    case (Cons m ms)
    let ?t = "s\<lparr>cs_prepare_tickets := ms\<rparr>"
    have t: "ends_at advances (modify (\<lambda>s. s\<lparr>cs_prepare_tickets := ms\<rparr>)) s"
      by (simp add: ends_at_def modify_def advances_part part_defs)
    have "ends_at advances (seq_h (modify (\<lambda>s. s\<lparr>cs_prepare_tickets := ms\<rparr>))
        (seq_h (is_prepare_ticket_ready req m) (try_tickets req j))) s"
    proof (intro adv.ends_seq t)
      show "ends_at advances (is_prepare_ticket_ready req m) u" if "advances s u" for u
        using budget_mono [OF that] Suc.prems by (intro ticket_ends [OF assms]) simp
      show "ends_at advances (try_tickets req j) w" if "advances s u" "advances u w" for u w
        using budget_mono [OF that(1)] budget_mono [OF that(2)] Suc.prems by (intro Suc.IH) simp
    qed
    then show ?thesis using Cons by (simp add: ends_at_def with_state_def)
  qed (simp add: ends_at_def with_state_def panic_def adv.refl)
qed (simp add: ends_basic)

lemma waiting_ends:
  "serves n req \<Longrightarrow> 2 * budget s \<le> n \<Longrightarrow> ends_at advances (try_prepare_waiting_slots req) s"
  unfolding try_prepare_waiting_slots_def by (intro adv.ends_with_state tickets_ends)

lemma budget_along: "advances s t \<Longrightarrow> 2 * budget s + c \<le> n \<Longrightarrow> 2 * budget t + c \<le> n"
  by (drule budget_mono) simp

lemmas ends_intros = ends_basic ends_frame part_frame ret_frame adv.ends [OF adv.note_vote_moves returns_basic(7)]
  adv.ends [OF adv.high_proposal_moves returns_basic(7)] adv.ends [OF adv.note_commit_moves returns_basic(7)]
  adv.ends [OF adv.to_committer_moves committer_ret] adv.ends [OF adv.fast_timer_moves returns_basic(7)]
  adv.ends [OF adv.count_vote_moves count_vote_ret] adv.ends [OF adv.is_valid_moves is_valid_ret]
  ends_frame [OF sans_net_part_frame [OF send_msg_frame] send_msg_ret]

lemma process_prepare_ends:
  assumes "serves n req" and "2 * budget s \<le> n"
  shows "ends_at advances (process_prepare_message req E m sigs) s"
  unfolding process_prepare_message_def
  by (auto intro!: adv.ends_seq adv.ends_ignore ticket_ends [OF assms] intro: ends_intros
      split: consensus_message.split)

lemma process_confirm_ends: "ends_at advances (process_confirm_message E m sigs) s"
  by (rule adv.ends [OF adv.process_confirm_moves]) (auto simp: process_confirm_message_def intro!: returns_rules split: consensus_message.split)

lemma commit_prefix_ends:
  "ends_at advances (with_state (\<lambda>s. when_h (cs_simulate_asynchrony s \<and> sl = 1 \<and> \<not> cs_already_set_timers s) set_async_timers)) s"
  "ends_at advances (bind_h (expect_h (synced (get_proposals E m h))) (\<lambda>hs. when_h (hs \<noteq> []) (to_committer m))) s"
  "ends_at advances (modify (apply_pending_parameters sl)) s"
  by (auto intro!: adv.ends adv.with_state adv.rules adv_steps adv.to_committer_moves returns_rules ret_frame)

lemma process_commit_ends:
  assumes "serves n req" and "2 * budget s \<le> n"
  shows "ends_at advances (process_commit_message_core req E m h) s"
proof (cases m)
  case (Commit sl view q ps report)
  have b: "2 * budget t \<le> n" if "advances s t" for t
    using budget_along [OF that, of 0 n] assms(2) by simp
  show ?thesis unfolding process_commit_message_core_def Commit consensus_message.case
    by (intro adv.ends_seq commit_prefix_ends waiting_ends [OF assms(1)])
      (auto intro: ends_intros, meson b adv.trans)
qed (simp_all add: process_commit_message_core_def ends_basic)

lemma on_qc_ends:
  assumes "serves n req" and "2 * budget s + 1 \<le> n"
  shows "ends_at advances (on_qc req key inst q) s"
proof (cases inst)
  case (Prepare sl view tc ticket ps report)
  let ?m = "maker_of s key"
  have confirm: "ends_at advances (seq_h (put_maker key (?m\<lparr>qm_sent_confirm := True\<rparr>)) (req (Confirm sl view q ps report))) s"
    if "\<not> qm_sent_confirm ?m"
  proof (rule adv.ends_seq)
    show "ends_at advances (put_maker key (?m\<lparr>qm_sent_confirm := True\<rparr>)) s"
      using adv.put_maker_moves [of s key "?m\<lparr>qm_sent_confirm := True\<rparr>"] by (simp add: ends_at_def put_maker_def modify_def)
    fix t assume "put_maker key (?m\<lparr>qm_sent_confirm := True\<rparr>) s = (t, Done ())"
    then have "2 * budget t + 2 \<le> n"
      using budget_confirm [OF that, of "?m\<lparr>qm_sent_confirm := True\<rparr>"] assms(2) by simp
    then show "ends_at advances (req (Confirm sl view q ps report)) t"
      by (intro servesD [OF assms(1)]) (simp add: rank_def)
  qed
  moreover have "ends_at advances (req (Commit sl view q ps report)) s"
    using assms(2) by (intro servesD [OF assms(1)]) (simp add: rank_def)
  ultimately show ?thesis unfolding on_qc_def Prepare
    by (intro adv.ends_with_state) (auto simp: Let_def ends_basic)
next
  case (Confirm sl view q' ps report)
  then have "ends_at advances (req (Commit sl view q ps report)) s"
    using assms(2) by (intro servesD [OF assms(1)]) (simp add: rank_def)
  then show ?thesis unfolding on_qc_def Confirm by (intro adv.ends_with_state) (simp add: Let_def)
qed (simp add: on_qc_def with_state_def ends_at_def panic_def adv.refl Let_def)

lemma process_vote_ends:
  assumes "serves n req" and "2 * budget s + 1 \<le> n"
  shows "ends_at advances (process_consensus_vote req E v loopback) s"
proof -
  let ?check = "when_h (\<not> loopback \<and> cv_author v \<noteq> cs_name s)
    (of_result (map_err DagInvalidSignature (sig_verify E (cv_sig v) (cv_digest v) (cv_author v))))"
  have check: "ends_at advances ?check s"
    by (intro adv.ends adv.rules returns_rules map_err_returns sig_verify_returns)
  have b: "2 * budget t + 1 \<le> n" if "advances s t" for t using budget_along [OF that assms(2)] .
  let ?key = "(cv_slot v, cv_digest v)"
  show ?thesis unfolding process_consensus_vote_def Let_def
  proof (rule adv.ends_with_state)
    show "ends_at advances (case cs_consensus_instances s ?key of
       None \<Rightarrow> ret ()
     | Some inst \<Rightarrow> seq_h ?check (bind_h (count_vote ?key inst (cv_author v) (cv_sig v) loopback) (\<lambda>(ready, q).
            if \<not> ready then ret ()
            else case q of
              None \<Rightarrow> when_h (ce_use_fast_path s)
                (modify (\<lambda>s. s\<lparr>cs_fast_timers := cs_fast_timers s @ [(v, ce_fast_path_timeout s)]\<rparr>))
            | Some q \<Rightarrow> on_qc req ?key inst q))) s"
    proof (cases "cs_consensus_instances s ?key")
      case (Some inst)
      have timer: "ends_at advances (when_h c (modify (\<lambda>s. s\<lparr>cs_fast_timers := cs_fast_timers s @ [(v, ce_fast_path_timeout s)]\<rparr>))) t" for c t
        by (intro adv.ends adv.when_cond adv.fast_timer_moves returns_when returns_basic)
      have "ends_at advances (case x of (ready, q) \<Rightarrow> if \<not> ready then ret () else case q of
              None \<Rightarrow> when_h (ce_use_fast_path s)
                (modify (\<lambda>s. s\<lparr>cs_fast_timers := cs_fast_timers s @ [(v, ce_fast_path_timeout s)]\<rparr>))
            | Some q \<Rightarrow> on_qc req ?key inst q) u" if "advances s t" "advances t u" for x t u
        using b [OF adv.trans [OF that]]
        by (auto split: prod.split option.split intro: ends_basic timer on_qc_ends [OF assms(1)])
      then show ?thesis using Some
        by (auto intro!: adv.ends_seq check adv.ends_bind adv.ends [OF adv.count_vote_moves count_vote_ret])
    qed (simp add: ends_basic)
  qed
qed

lemma process_message_ends:
  assumes "serves n req" and "2 * budget s + rank m \<le> Suc n"
  shows "ends_at advances (process_consensus_message req E m author) s"
proof -
  have b0: "2 * budget t \<le> n" if "advances s t" for t
    using budget_along [OF that assms(2)] by (cases m) (simp_all add: rank_def)
  have b1: "2 * budget t + 1 \<le> n" if "advances s t" "\<not> is_commit m" for t
    using budget_along [OF that(1) assms(2)] that(2) by (cases m) (simp_all add: rank_def is_commit_def)
  let ?h = "default_header\<lparr>hd_author := author\<rparr>"
  let ?vote = "\<lambda>sigs :: sigs. if sigs = [] then ret ()
        else case last sigs of (sl, d, sg) \<Rightarrow> with_state (\<lambda>s.
          let v = \<lparr>cv_author = cs_name s, cv_slot = sl, cv_digest = d, cv_sig = sg\<rparr>
          in if author = cs_name s then expect_h (process_consensus_vote req E v False)
             else send_msg E (ConsensusVoteMsg v) sl (Some author) True)"
  have vote: "ends_at advances (?vote sigs) t" if "advances s t" "\<not> is_commit m" for sigs t
    using b1 [OF that] unfolding Let_def
    by (auto split: prod.split intro!: ends_basic adv.ends_with_state adv.ends_expect process_vote_ends [OF assms(1)]
        ends_frame [OF sans_net_part_frame [OF send_msg_frame] send_msg_ret])
  have tips: "ends_at advances (if b then synced (optimistic_tips_ready E m ?h)
      else bind_h (synced (get_proposals E m ?h)) (\<lambda>_. ret True)) t" for b t
    by (auto intro!: adv.ends adv.rules returns_rules adv_steps intro: ret_frame)
  show ?thesis
  proof (cases m)
    case (Prepare sl view tc ticket ps r)
    have nc: "\<not> is_commit m" by (simp add: Prepare is_commit_def)
    show ?thesis
      unfolding process_consensus_message_def Let_def Prepare consensus_message.case
      by (intro adv.ends_bind vote [unfolded Let_def] adv.ends_with_state tips [unfolded Prepare])
        (auto simp: nc intro!: ends_basic process_prepare_ends [OF assms(1)], (meson b0 adv.trans)+)
  next
    case (Confirm sl view q ps r)
    have nc: "\<not> is_commit m" by (simp add: Confirm is_commit_def)
    have sync: "ends_at advances (synced (get_proposals E (Confirm sl view q ps r) ?h)) t" for t
      by (intro ends_intros)
    show ?thesis
      unfolding process_consensus_message_def Let_def Confirm consensus_message.case
      by (intro adv.ends_bind vote [unfolded Let_def] process_confirm_ends sync) (auto simp: nc)
  next
    case (Commit sl view q ps r)
    have "process_consensus_message req E m author s = seq_h (process_commit_message_core req E m ?h) (ret ()) s"
      by (simp add: process_consensus_message_def Commit seq_h_def bind_h_def ret_def Let_def split: prod.split outcome.split)
    moreover have "ends_at advances (seq_h (process_commit_message_core req E m ?h) (ret ())) s"
      by (intro adv.ends_seq process_commit_ends [OF assms(1)] ends_basic b0 adv.refl)
    ultimately show ?thesis by (simp add: ends_at_def)
  qed
qed

lemma process_request_ends:
  assumes "serves n req" and "2 * budget s + rank (cr_message r) \<le> Suc n"
  shows "ends_at advances (process_consensus_request req E r) s"
proof -
  have b: "2 * budget t + rank (cr_message r) \<le> Suc n" if "advances s t" for t
    using budget_along [OF that assms(2)] .
  have noted: "ends_at advances (modify (note_instance E (cr_message r))) s"
    by (simp add: ends_at_def modify_def advances_part note_instance_part)
  have check: "ends_at advances (with_state (\<lambda>s. when_h (cr_author r \<noteq> cs_name s)
      (of_result (request_verify E (cs_committee s) r)))) t" for t
    by (intro adv.ends adv.with_state adv.rules returns_rules request_returns)
  have body: "ends_at advances (if valid then process_consensus_message req E (cr_message r) (cr_author r) else ret ()) t"
    if "advances s t" for valid t
    by (auto intro: process_message_ends [OF assms(1) b [OF that]] ends_basic)
  show ?thesis unfolding process_consensus_request_def
    by (intro adv.ends_seq noted check adv.ends_bind [OF adv.ends [OF adv.is_valid_moves is_valid_ret]] body)
      (meson adv.trans)+
qed

lemma rank_set_proposal: "rank (set_consensus_proposal s m) = rank m"
  by (simp add: rank_def set_consensus_proposal_def split: consensus_message.split)

lemma send_req_serves: "serves n (send_consensus_req n E)"
  unfolding serves_def
proof (induction n)
  case 0
  then show ?case by (simp add: rank_def split: consensus_message.split)
next
  case (Suc n)
  have serve: "serves n (send_consensus_req n E)" using Suc by (simp add: serves_def)
  show ?case
  proof (intro allI impI)
    fix m s assume le: "2 * budget s + rank m \<le> Suc n"
    let ?r = "new_request E (e_sign E) (cs_name s) (set_consensus_proposal s m)"
    have "2 * budget t + rank (cr_message ?r) \<le> Suc n" if "advances s t" for t
      using budget_along [OF that le] by (simp add: new_request_def rank_set_proposal)
    then show "ends_at advances (send_consensus_req (Suc n) E m) s"
      by (auto simp: Let_def intro!: adv.ends_with_state adv.ends_seq process_request_ends [OF serve]
          ends_frame [OF sans_net_part_frame [OF send_msg_frame] send_msg_ret])
  qed
qed

text \<open>
  the circle of consensus handlers always returns: from any state, with fuel for twice
  the number of slots not proposed yet and of vote collectors without Confirm, plus two, a
  request (to prepare, to confirm or to commit) is broadcast and processed to the end, and so
  are requests, votes and forwarded messages of other replicas.
\<close>

theorem consensus_handlers_return:
  assumes "2 * budget s + 2 \<le> n"
  shows "snd (send_consensus_req n E m s) \<noteq> Diverge \<and>
    snd (process_consensus_request (send_consensus_req n E) E r s) \<noteq> Diverge \<and>
    snd (process_consensus_vote (send_consensus_req n E) E v loopback s) \<noteq> Diverge \<and>
    snd (process_forwarded_message (send_consensus_req n E) E m s) \<noteq> Diverge"
proof -
  let ?req = "send_consensus_req n E"
  have serve: "serves n ?req" by (rule send_req_serves)
  have "rank x \<le> 2" for x by (cases x) (simp_all add: rank_def)
  then have le: "2 * budget s + rank x \<le> n" for x using assms by (meson add_le_mono le_trans order_refl)
  have "ends_at advances (?req m) s" using le by (rule servesD [OF serve])
  moreover have "ends_at advances (process_consensus_request ?req E r) s"
    using le [of "cr_message r"] by (intro process_request_ends [OF serve]) simp
  moreover have "ends_at advances (process_consensus_vote ?req E v loopback) s"
    using assms by (intro process_vote_ends [OF serve]) simp
  moreover have "ends_at advances (process_forwarded_message ?req E m) s"
    using assms unfolding process_forwarded_message_def
    by (auto split: consensus_message.split intro!: ends_basic ticket_ends [OF serve] adv.ends_with_state
        process_commit_ends [OF serve])
  ultimately show ?thesis by (simp add: ends_at_def)
qed

theorem consensus_handlers_return_witness:
  "snd (send_consensus_req (2 * budget sample_core + 2) sample_env (Prepare 1 1 None None [] None) sample_core) \<noteq> Diverge"
  using consensus_handlers_return [of sample_core] by blast

end
