(* ===== verification/Core_Timeout.thy ===== *)
theory Core_Timeout
  imports Core_Progress
begin

text \<open>
  View change (\<open>primary/src/core.rs\<close>): the duration of view timers, the expiry of a local timer,
  the collection of timeouts into a timeout certificate, and the Prepare of the next leader.
\<close>

section \<open>Duration of view timers\<close>

text \<open>
  \<open>timeout_delay as f64\<close>: the nearest multiple of a power of two with 53 significant bits, ties
  to even. The product with a power of two is exact, and \<open>as u64\<close> truncates and saturates.
\<close>

fun excess_bits :: "nat \<Rightarrow> nat" where
  "excess_bits n = (if n < 2 ^ 53 then 0 else Suc (excess_bits (n div 2)))"

declare excess_bits.simps [simp del]

definition f64_of :: "u64 \<Rightarrow> nat" where
  "f64_of w = (let n = unat w; e = excess_bits n; q = n div 2 ^ e; r = n mod 2 ^ e
     in if 2 * r < 2 ^ e \<or> (2 * r = 2 ^ e \<and> even q) then q * 2 ^ e else (q + 1) * 2 ^ e)"

definition scale_f64 :: "nat \<Rightarrow> int \<Rightarrow> u64" where
  "scale_f64 x e =
     (if e < 0 then of_nat (x div 2 ^ nat (min (- e) 65))
      else if x = 0 then 0
      else if e \<ge> 64 then - 1
      else of_nat (min (x * 2 ^ nat e) (2 ^ 64 - 1)))"

definition calculate_timeout :: "core \<Rightarrow> slot \<Rightarrow> view \<Rightarrow> u64" where
  "calculate_timeout s sl v =
     (if sl > 4 \<and> cs_exponential_timeouts s
      then scale_f64 (f64_of (cs_timeout_delay s)) (sint (ucast (v - 1) :: 32 word))
      else cs_timeout_delay s)"

section \<open>Timeouts\<close>

definition generate_prepare_from_tc :: "req \<Rightarrow> 'p env_scheme \<Rightarrow> tc \<Rightarrow> unit core_handler" where
  "generate_prepare_from_tc req E t = bind_h (leader_of (tc_slot t) (tc_view t + 1)) (\<lambda>leader. with_state (\<lambda>s.
     when_h (cs_name s = leader)
       (let winning_proposals = get_winning_proposals E (cs_committee s) t;
            aggregate_report = get_pending_aggregate_report s (epoch_index_for_slot s (tc_slot t));
            prepare_message = Prepare (tc_slot t) (tc_view t + 1) (Some t) None winning_proposals aggregate_report
        in if cs_use_ride_share s then tell_proposer_info prepare_message else req prepare_message)))"

definition add_timeout :: "timeout \<Rightarrow> tc option core_handler" where
  "add_timeout t = with_state (\<lambda>s.
     let key = (to_slot t, to_view t);
         m = (case cs_tc_makers s key of None \<Rightarrow> tm_new | Some m \<Rightarrow> m);
         (m', r) = tm_append (cs_committee s) t m
     in seq_h (modify (\<lambda>s. s\<lparr>cs_tc_makers := (cs_tc_makers s)(key \<mapsto> m')\<rparr>)) (of_result r))"

definition advance_view :: "slot \<Rightarrow> view \<Rightarrow> unit core_handler" where
  "advance_view sl v = seq_h (modify (\<lambda>s. s\<lparr>cs_views := (cs_views s)(sl \<mapsto> v)\<rparr>))
     (with_state (\<lambda>s. start_timer sl v (calculate_timeout s sl v)))"

definition handle_timeout :: "req \<Rightarrow> 'p env_scheme \<Rightarrow> timeout \<Rightarrow> unit core_handler" where
  "handle_timeout req E t = with_state (\<lambda>s.
     if (case cs_views s (to_slot t) of Some view \<Rightarrow> to_view t < view | None \<Rightarrow> False) then ret ()
     else if cs_committed_slots s (to_slot t) \<noteq> None then ret ()
     else seq_h (of_result (timeout_verify E (cs_committee s) t))
       (bind_h (add_timeout t) (\<lambda>tc. case tc of
          None \<Rightarrow> ret ()
        | Some c \<Rightarrow> seq_h (advance_view (to_slot t) (to_view t + 1)) (generate_prepare_from_tc req E c))))"

definition handle_tc :: "req \<Rightarrow> 'p env_scheme \<Rightarrow> tc \<Rightarrow> unit core_handler" where
  "handle_tc req E t = generate_prepare_from_tc req E t"

definition local_timeout_round :: "req \<Rightarrow> 'p env_scheme \<Rightarrow> slot \<Rightarrow> view \<Rightarrow> unit core_handler" where
  "local_timeout_round req E sl v = with_state (\<lambda>s.
     if (sl, v) \<notin> cs_timers s then ret ()
     else if (case cs_views s sl of Some view \<Rightarrow> view > v | None \<Rightarrow> False) then ret ()
     else if cs_committed_slots s sl \<noteq> None then ret ()
     else let t = new_timeout E (e_sign E) sl v (cs_high_qcs s sl) (cs_high_proposals s sl) (cs_name s)
          in seq_h (send_msg E (TimeoutMsg t) sl None True) (handle_timeout req E t))"

section \<open>Timeouts double\<close>

lemma f64_of_small:
  assumes "unat w < 2 ^ 53"
  shows "f64_of w = unat w"
proof -
  have "excess_bits (unat w) = 0" using assms by (subst excess_bits.simps) simp
  then show ?thesis by (simp add: f64_of_def)
qed

lemma scale_up: "scale_f64 x (int e) = of_nat (min (x * 2 ^ e) (2 ^ 64 - 1))"
proof (cases "x = 0 \<or> e < 64")
  case True
  then show ?thesis by (auto simp: scale_f64_def)
next
  case False
  then have "2 ^ 64 \<le> (2 :: nat) ^ e" by (intro power_increasing) simp_all
  moreover have "(2 :: nat) ^ e \<le> x * 2 ^ e" using False by simp
  ultimately have "min (x * 2 ^ e) (2 ^ 64 - 1) = 2 ^ 64 - 1" by linarith
  moreover have "(of_nat (2 ^ 64 - 1) :: u64) = - 1" by simp
  ultimately show ?thesis using False by (simp add: scale_f64_def)
qed

lemma doubling: "unat (((\<lambda>d. sat_mul d 2) ^^ e) (d :: u64)) = min (unat d * 2 ^ e) (2 ^ 64 - 1)"
proof (induction e)
  case 0
  have "unat d < 2 ^ 64" using unsigned_less [of d, where ?'a = nat] by simp
  then show ?case by simp
next
  case (Suc e)
  have "min (min a (M :: nat) * 2) M = min (a * 2) M" for a M by (cases "a \<le> M") simp_all
  then show ?case using Suc by (simp add: unat_sat_mul mult.assoc)
qed

text \<open>
  C11: the floating-point formula for exponential timeouts is saturating doubling: for delays
  below \<open>2^53\<close> milliseconds, from slot 5 on, the timer of view \<open>v\<close> lasts as long as the
  configured delay doubled \<open>v - 1\<close> times, capped at the largest 64-bit value.
\<close>

theorem timeout_doubles:
  assumes "4 < sl" and "cs_exponential_timeouts s" and "unat (cs_timeout_delay s) < 2 ^ 53"
    and "1 \<le> v" and "unat v \<le> 2 ^ 31"
  shows "calculate_timeout s sl v = ((\<lambda>d. sat_mul d 2) ^^ (unat v - 1)) (cs_timeout_delay s)"
proof -
  have pred: "unat (v - 1) = unat v - 1" using assms(4) by (simp add: unat_sub)
  have low: "unat v - 1 < 2 ^ 31" using assms(5) by (simp add: less_eq_Suc_le)
  have "uint (ucast (v - 1) :: 32 word) = int (unat v - 1)"
    using pred low by (simp add: unsigned_ucast_eq take_bit_nat_eq_self uint_nat flip: of_nat_take_bit)
  moreover have "sint (ucast (v - 1) :: 32 word) = signed_take_bit 31 (uint (ucast (v - 1) :: 32 word))"
    by (simp add: sint_uint)
  moreover have "signed_take_bit 31 (int (unat v - 1)) = int (unat v - 1)"
    using low by (intro signed_take_bit_int_eq_self) simp_all
  ultimately have "sint (ucast (v - 1) :: 32 word) = int (unat v - 1)" by simp
  then have "calculate_timeout s sl v = of_nat (min (unat (cs_timeout_delay s) * 2 ^ (unat v - 1)) (2 ^ 64 - 1))"
    using assms(1,2) by (simp add: calculate_timeout_def f64_of_small [OF assms(3)] scale_up)
  also have "\<dots> = ((\<lambda>d. sat_mul d 2) ^^ (unat v - 1)) (cs_timeout_delay s)"
    by (simp only: doubling [symmetric]) simp
  finally show ?thesis .
qed

section \<open>A quorum of timeouts changes the view\<close>

text \<open>
  What is known before the quorum is reached: the collector holds the timeouts heard so far
  and their weight, nothing else has changed.
\<close>

definition tm_of :: "core \<Rightarrow> slot \<Rightarrow> view \<Rightarrow> tc_maker" where
  "tm_of s sl v = (case cs_tc_makers s (sl, v) of None \<Rightarrow> tm_new | Some m \<Rightarrow> m)"

definition awaits :: "slot \<Rightarrow> view \<Rightarrow> core \<Rightarrow> bool" where
  "awaits sl v s \<longleftrightarrow> cs_committed_slots s sl = None \<and> (case cs_views s sl of Some w \<Rightarrow> w \<le> v | None \<Rightarrow> True)"

definition changed :: "slot \<Rightarrow> view \<Rightarrow> core \<Rightarrow> bool" where
  "changed sl v s \<longleftrightarrow> cs_views s sl = Some (v + 1) \<and> (sl, v + 1) \<in> cs_timers s"

lemma tm_of_update [simp]: "tm_of (s\<lparr>cs_tc_makers := (cs_tc_makers s)((sl, v) \<mapsto> m)\<rparr>) sl v = m"
  by (simp add: tm_of_def)

text \<open>One timeout of a new author, for a node that does not lead the next view.\<close>

lemma handle_timeout_step:
  assumes "awaits sl v s" and "to_slot t = sl" and "to_view t = v" and "timeout_verify E (cs_committee s) t = Done ()"
    and "to_author t \<notin> tm_used (tm_of s sl v)" and "get_leader (cs_committee s) sl (v + 1) = Some l" and "l \<noteq> cs_name s"
  defines "w \<equiv> tm_weight (tm_of s sl v) + stake_of (cs_committee s) (to_author t)"
  shows "\<exists>u. handle_timeout req E t s = (u, Done ()) \<and> cs_committee u = cs_committee s \<and> cs_name u = cs_name s \<and>
    cs_committed_slots u = cs_committed_slots s \<and>
    (if quorum_threshold (cs_committee s) \<le> w then changed sl v u
     else awaits sl v u \<and> tm_weight (tm_of u sl v) = w \<and>
       tm_used (tm_of u sl v) = insert (to_author t) (tm_used (tm_of s sl v)))"
proof -
  have "\<not> (case cs_views s sl of Some view \<Rightarrow> v < view | None \<Rightarrow> False)" "cs_committed_slots s sl = None"
    using assms(1) by (auto simp: awaits_def split: option.splits)
  then show ?thesis using assms(2-7)
    by (auto simp: handle_timeout_def add_timeout_def tm_append_def advance_view_def start_timer_def
        generate_prepare_from_tc_def leader_of_def handler_simps Let_def tm_of_def [symmetric] w_def changed_def
        awaits_def split: option.splits)
qed

lemma changed_ignores:
  assumes "changed sl v s" and "v < v + 1" and "\<forall>t \<in> set ts. to_slot t = sl \<and> to_view t = v"
  shows "each (handle_timeout req E) ts s = (s, Done ())"
  using assms(3)
proof (induction ts)
  case (Cons t ts)
  then have "handle_timeout req E t s = (s, Done ())"
    using assms(1,2) by (simp add: handle_timeout_def changed_def handler_simps)
  then show ?case using Cons by (simp add: seq_h_def bind_h_def)
qed (simp add: ret_def)

lemma timeouts_collect:
  assumes "committee_ok c" and "get_leader c sl (v + 1) = Some l" and "l \<noteq> name" and "v < v + 1"
  shows "awaits sl v s \<Longrightarrow> cs_committee s = c \<Longrightarrow> cs_name s = name \<Longrightarrow> finite (tm_used (tm_of s sl v)) \<Longrightarrow>
    unat (tm_weight (tm_of s sl v)) = sum (voting_weight c) (tm_used (tm_of s sl v)) \<Longrightarrow>
    tm_weight (tm_of s sl v) < quorum_threshold c \<Longrightarrow>
    \<forall>t \<in> set ts. to_slot t = sl \<and> to_view t = v \<and> timeout_verify E c t = Done () \<Longrightarrow>
    distinct (map to_author ts) \<Longrightarrow> to_author ` set ts \<inter> tm_used (tm_of s sl v) = {} \<Longrightarrow>
    unat (quorum_threshold c) \<le> sum (voting_weight c) (tm_used (tm_of s sl v) \<union> to_author ` set ts) \<Longrightarrow>
    \<exists>u. each (handle_timeout req E) ts s = (u, Done ()) \<and> changed sl v u"
proof (induction ts arbitrary: s)
  case Nil
  then show ?case by (simp add: word_less_nat_alt)
next
  case (Cons t ts)
  let ?used = "tm_used (tm_of s sl v)" and ?w = "tm_weight (tm_of s sl v) + stake_of c (to_author t)"
  obtain u where u: "handle_timeout req E t s = (u, Done ())" "cs_committee u = c" "cs_name u = name"
      "if quorum_threshold c \<le> ?w then changed sl v u else awaits sl v u \<and> tm_weight (tm_of u sl v) = ?w \<and>
         tm_used (tm_of u sl v) = insert (to_author t) ?used"
  proof -
    have t: "to_slot t = sl" "to_view t = v" "timeout_verify E (cs_committee s) t = Done ()" "to_author t \<notin> ?used"
      "get_leader (cs_committee s) sl (v + 1) = Some l" "l \<noteq> cs_name s"
      using Cons.prems(2,3,7,9) assms(2,3) by simp_all
    note step = handle_timeout_step [OF Cons.prems(1) t, of req, unfolded Cons.prems(2,3)]
    from step show thesis by (elim exE conjE) (rule that)
  qed
  have new: "to_author t \<notin> ?used" using Cons.prems(9) by simp
  have "sum (voting_weight c) (insert (to_author t) ?used) < 2 ^ 32"
    using Cons.prems(4) by (intro weight_word [OF assms(1)]) simp
  then have w: "unat ?w = sum (voting_weight c) (insert (to_author t) ?used)"
    using new Cons.prems(4,5) unat_add_no_wrap [of "tm_weight (tm_of s sl v)" "stake_of c (to_author t)"]
    by (simp add: voting_weight_def)
  have "\<exists>x. each (handle_timeout req E) ts u = (x, Done ()) \<and> changed sl v x"
  proof (cases "quorum_threshold c \<le> ?w")
    case True
    then have "changed sl v u" using u(4) by simp
    with changed_ignores [OF this assms(4), of ts req E] Cons.prems(7) show ?thesis by auto
  next
    case False
    then have "awaits sl v u" "tm_weight (tm_of u sl v) = ?w" "tm_used (tm_of u sl v) = insert (to_author t) ?used"
      using u(4) by simp_all
    with Cons.IH [of u] u(2,3) Cons.prems False w show ?thesis by (auto simp: Un_insert_right)
  qed
  then show ?case using u(1) by (auto simp: seq_h_def bind_h_def)
qed

text \<open>
  C10: a quorum of timeouts changes the view: once the valid timeouts of distinct authorities
  with quorum stake for the current view of an undecided slot have arrived, in any order,
  a node that does not lead the next view has entered it and runs its timer.
\<close>

theorem quorum_of_timeouts_changes_view:
  assumes "committee_ok (cs_committee s)" and "cs_committed_slots s sl = None"
    and "case cs_views s sl of Some w \<Rightarrow> w \<le> v | None \<Rightarrow> True" and "v < v + 1" and "cs_tc_makers s (sl, v) = None"
    and "get_leader (cs_committee s) sl (v + 1) = Some l" and "l \<noteq> cs_name s"
    and "\<forall>t \<in> set ts. to_slot t = sl \<and> to_view t = v \<and> timeout_verify E (cs_committee s) t = Done ()"
    and "distinct (map to_author ts)"
    and "unat (quorum_threshold (cs_committee s)) \<le> sum (voting_weight (cs_committee s)) (to_author ` set ts)"
  shows "\<exists>u. each (handle_timeout req E) ts s = (u, Done ()) \<and>
    cs_views u sl = Some (v + 1) \<and> (sl, v + 1) \<in> cs_timers u"
proof -
  have m: "tm_of s sl v = tm_new" using assms(5) by (simp add: tm_of_def)
  have "0 < unat (quorum_threshold (cs_committee s))" using thresholds(1) [OF assms(1)] by simp
  then have q: "0 < quorum_threshold (cs_committee s)" by (simp add: word_less_nat_alt)
  have "awaits sl v s" using assms(2,3) by (simp add: awaits_def)
  then show ?thesis
    using timeouts_collect [OF assms(1,6,7,4), of s ts E req] assms(8-10) q
    by (simp add: m tm_new_def changed_def)
qed

theorem quorum_of_timeouts_changes_view_witness:
  "\<exists>u. each (handle_timeout (\<lambda>_. ret ()) sample_env)
      (map (\<lambda>k. Timeout 9 1 None None (PublicKey k) sample_signature) [2, 3, 4]) sample_core = (u, Done ()) \<and>
    cs_views u 9 = Some 2 \<and> (9, 2) \<in> cs_timers u"
proof -
  let ?ts = "map (\<lambda>k. Timeout 9 1 None None (PublicKey k) sample_signature) [2, 3, 4]"
  have fields: "cs_name sample_core = PublicKey 1" "cs_committee sample_core = sample_committee"
      "cs_committed_slots sample_core = Map.empty" "cs_views sample_core = Map.empty" "cs_tc_makers sample_core = Map.empty"
    by (simp_all add: sample_core_def core_new_def core_params.extend_def)
  have "leader_keys sample_committee = [PublicKey 1, PublicKey 2, PublicKey 3, PublicKey 4]"
    by (simp add: leader_keys_def sample_authorities less_eq_public_key_def)
  then have "get_leader sample_committee 9 2 = Some (PublicKey 4)"
    by (simp add: get_leader_def committee_size_def sample_authorities)
  then show ?thesis
    using quorum_of_timeouts_changes_view [of sample_core 9 1 "PublicKey 4" ?ts sample_env "\<lambda>_. ret ()"]
    by (simp add: fields sample_ok sample_thresholds sample_weight timeout_verify_def signed_by_member_Done
        sample_env_verify sample_stake)
qed

theorem timeout_doubles_witness:
  "calculate_timeout (sample_core\<lparr>cs_exponential_timeouts := True, cs_timeout_delay := 1000\<rparr>) 5 4 = 8000"
  using timeout_doubles [of 5 "sample_core\<lparr>cs_exponential_timeouts := True, cs_timeout_delay := 1000\<rparr>" 4]
  by (simp add: sat_mul_def numeral_3_eq_3 word_le_nat_alt word_less_nat_alt)

end
