(* ===== verification/Core_Dag.thy ===== *)
theory Core_Dag
  imports Core_Timeout
begin

text \<open>
  Car dissemination in the primary's core (\<open>primary/src/core.rs\<close>): own headers and headers of
  other lanes, votes for cars, certificates, and the consensus messages that ride on headers.
\<close>

section \<open>Certificates\<close>

definition process_certificate :: "req \<Rightarrow> 'p env_scheme \<Rightarrow> certificate \<Rightarrow> unit core_handler" where
  "process_certificate req E c =
     seq_h (write_store (digest_bytes (certificate_digest E c)) (e_ser_certificate E c))
       (with_state (\<lambda>s. bind_h (unwrap (map_of (cs_certified_tips s) (cert_author c))) (\<lambda>tip.
          when_h (cert_height c > prop_height tip)
            (seq_h (modify (\<lambda>s. s\<lparr>cs_certified_tips := hm_insert (cert_author c)
                 \<lparr>prop_digest = cert_header_digest c, prop_height = cert_height c\<rparr> (cs_certified_tips s)\<rparr>))
               (try_prepare_waiting_slots req)))))"

section \<open>Consensus messages on headers\<close>

primrec consensus_ready_loop :: "'p env_scheme \<Rightarrow> header \<Rightarrow> (digest \<times> consensus_message) list \<Rightarrow> bool \<Rightarrow> bool core_handler" where
  "consensus_ready_loop E h [] is_ready = ret is_ready"
| "consensus_ready_loop E h (x # xs) is_ready = (case snd x of
     Prepare _ _ _ _ _ _ \<Rightarrow>
       if is_ready
       then bind_h (expect_h (synced (get_proposals E (snd x) h))) (\<lambda>hs. consensus_ready_loop E h xs (hs \<noteq> []))
       else consensus_ready_loop E h xs False
   | _ \<Rightarrow> consensus_ready_loop E h xs is_ready)"

definition is_consensus_ready :: "'p env_scheme \<Rightarrow> header \<Rightarrow> bool core_handler" where
  "is_consensus_ready E h = consensus_ready_loop E h (hd_consensus_messages h) True"

definition process_carried_message :: "req \<Rightarrow> 'p env_scheme \<Rightarrow> header \<Rightarrow> consensus_message \<Rightarrow> sigs \<Rightarrow> sigs core_handler" where
  "process_carried_message req E h m sigs = bind_h (is_valid E m) (\<lambda>valid.
     if \<not> valid then ret sigs
     else case m of
       Prepare _ _ _ _ _ _ \<Rightarrow> process_prepare_message req E m sigs
     | Confirm _ _ _ _ _ \<Rightarrow> bind_h (synced (get_proposals E m h)) (\<lambda>_. process_confirm_message E m sigs)
     | Commit _ _ _ _ _ \<Rightarrow> seq_h (process_commit_message_core req E m h) (ret sigs))"

definition process_consensus_messages :: "req \<Rightarrow> 'p env_scheme \<Rightarrow> header \<Rightarrow> sigs core_handler" where
  "process_consensus_messages req E h =
     fold_h (\<lambda>x. process_carried_message req E h (snd x)) (hd_consensus_messages h) []"

section \<open>Votes\<close>

text \<open>The vote a car timer yields: without signatures (the car) or with one (the fast path).\<close>

definition timer_vote :: "digest \<Rightarrow> (slot \<times> digest \<times> signature) list \<Rightarrow> vote" where
  "timer_vote d cvs = \<lparr>vt_id = d, vt_height = 0, vt_origin = default_key, vt_author = default_key,
     vt_signature = default_signature, vt_consensus_votes = cvs\<rparr>"

definition start_car_timer :: "vote \<Rightarrow> u64 \<Rightarrow> unit core_handler" where
  "start_car_timer v d = modify (\<lambda>s. s\<lparr>cs_car_timers := cs_car_timers s @ [(v, d)]\<rparr>)"

definition announce_qc :: "bool \<Rightarrow> consensus_message \<Rightarrow> qc \<Rightarrow> unit core_handler" where
  "announce_qc fast inst q = (case inst of
     Prepare sl view tc ticket ps report \<Rightarrow>
       tell_proposer_info (if fast then Commit sl view q ps report else Confirm sl view q ps report)
   | Confirm sl view q' ps report \<Rightarrow> tell_proposer_info (Commit sl view q ps report)
   | Commit _ _ _ _ _ \<Rightarrow> ret ())"

definition process_carried_vote :: "'p env_scheme \<Rightarrow> public_key \<Rightarrow> bool \<Rightarrow> slot \<times> digest \<times> signature \<Rightarrow> unit core_handler" where
  "process_carried_vote E author loopback = (\<lambda>(sl, d, sg). with_state (\<lambda>s.
     case cs_consensus_instances s (sl, d) of
       None \<Rightarrow> ret ()
     | Some inst \<Rightarrow>
         seq_h (when_h (\<not> loopback \<and> author \<noteq> cs_name s)
           (of_result (map_err DagInvalidSignature (sig_verify E sg (message_digest E inst) author))))
         (bind_h (count_vote (sl, d) inst author sg loopback) (\<lambda>(ready, q).
            if \<not> ready then ret ()
            else case q of
              None \<Rightarrow> when_h (ce_use_fast_path s)
                (start_car_timer (timer_vote default_digest [(sl, d, default_signature)]) (ce_fast_path_timeout s))
            | Some q \<Rightarrow> seq_h (modify (\<lambda>s. s\<lparr>cs_qcs_formed := cs_qcs_formed s + 1\<rparr>))
                (with_state (\<lambda>s. announce_qc (qm_try_fast (maker_of s (sl, d))) inst q))))))"

definition on_aggregator :: "(votes_aggregator, dag_error, 'a) handler \<Rightarrow> 'a core_handler" where
  "on_aggregator h = zoom cs_votes_aggregator (\<lambda>a s. s\<lparr>cs_votes_aggregator := a\<rparr>) h"

definition finish_vote :: "vote \<Rightarrow> bool \<Rightarrow> unit core_handler" where
  "finish_vote v loopback = with_state (\<lambda>s.
     let h = cs_current_header s;
         consensus_ready = (hd_consensus_messages h = [] \<or> cs_qcs_formed s = hd_num_active_instances h);
         car_timeout = (loopback \<and> vt_consensus_votes v = [])
     in bind_h (on_aggregator (va_append (cs_committee s) v)) (\<lambda>(car_cert_ready, first).
        let consensus_ready = (consensus_ready \<or> car_timeout)
        in bind_h (if car_cert_ready \<and> consensus_ready then on_aggregator va_get else ret None) (\<lambda>dissemination_cert.
           let dissemination_ready = (car_cert_ready \<and> dissemination_cert \<noteq> None)
           in seq_h (when_h (dissemination_ready \<and> \<not> consensus_ready \<and> first)
                (start_car_timer (timer_vote (vt_id v) []) (cs_car_timeout s)))
             (with_state (\<lambda>s. when_h (\<not> cs_sent_cert_to_proposer s \<and> dissemination_ready \<and> consensus_ready)
                (bind_h (unwrap dissemination_cert) (\<lambda>c. modify (\<lambda>s.
                   s\<lparr>cs_tx_proposer := cs_tx_proposer s @ [c], cs_sent_cert_to_proposer := True, cs_qcs_formed := 0\<rparr>))))))))"

definition process_vote :: "'p env_scheme \<Rightarrow> vote \<Rightarrow> bool \<Rightarrow> unit core_handler" where
  "process_vote E v loopback = with_state (\<lambda>s.
     let consensus_loopback = (loopback \<and> vt_consensus_votes v \<noteq> [])
     in if vt_id v \<noteq> hd_id (cs_current_header s) \<or> consensus_loopback then ret ()
        else seq_h (each (process_carried_vote E (vt_author v) loopback) (vt_consensus_votes v))
          (finish_vote v loopback))"

section \<open>Headers\<close>

definition proposal_of :: "'p env_scheme \<Rightarrow> header \<Rightarrow> proposal" where
  "proposal_of E h = \<lparr>prop_digest = header_digest E h, prop_height = hd_height h\<rparr>"

definition parent_stake :: "committee \<Rightarrow> certificate \<Rightarrow> stake" where
  "parent_stake c cert = sum_list (map (\<lambda>(pk, _). stake_of c pk) (cert_votes cert))"

definition cast_vote :: "req \<Rightarrow> 'p env_scheme \<Rightarrow> header \<Rightarrow> unit core_handler" where
  "cast_vote req E h = bind_h (process_consensus_messages req E h) (\<lambda>consensus_votes. with_state (\<lambda>s.
     let v = new_vote E (e_sign E) h (cs_name s) consensus_votes
     in if vt_origin v = cs_name s then expect_h (process_vote E v False)
        else send_msg E (VoteMsg v) (hd_height h) (Some (hd_author h)) False))"

definition vote_once :: "req \<Rightarrow> 'p env_scheme \<Rightarrow> header \<Rightarrow> unit core_handler" where
  "vote_once req E h = with_state (\<lambda>s.
     let voted = (case cs_last_voted s (hd_height h) of None \<Rightarrow> {} | Some a \<Rightarrow> a)
     in seq_h (modify (\<lambda>s. s\<lparr>cs_last_voted := (cs_last_voted s)(hd_height h \<mapsto> insert (hd_author h) voted)\<rparr>))
          (when_h (hd_author h \<notin> voted) (cast_vote req E h)))"

definition adopt_tip :: "req \<Rightarrow> 'p env_scheme \<Rightarrow> header \<Rightarrow> unit core_handler" where
  "adopt_tip req E h = with_state (\<lambda>s. when_h (ce_use_optimistic_tips s)
     (bind_h (unwrap (map_of (cs_proposal_tips s) (hd_author h))) (\<lambda>tip.
        when_h (hd_height h > prop_height tip)
          (seq_h (modify (\<lambda>s. s\<lparr>cs_proposal_tips := hm_insert (hd_author h) (proposal_of E h) (cs_proposal_tips s)\<rparr>))
             (try_prepare_waiting_slots req)))))"

definition process_header :: "req \<Rightarrow> 'p env_scheme \<Rightarrow> header \<Rightarrow> bool \<Rightarrow> unit core_handler" where
  "process_header req E h sync = with_state (\<lambda>s.
     seq_h (ensure (cert_height (hd_parent_cert h) + 1 = hd_height h) (MalformedHeader (hd_id h)))
    (seq_h (ensure (parent_stake (cs_committee s) (hd_parent_cert h) \<ge> validity_threshold (cs_committee s)
         \<or> cert_height (hd_parent_cert h) = 0) (HeaderRequiresQuorum (hd_id h)))
    (seq_h (process_certificate req E (hd_parent_cert h))
    (bind_h (synced (missing_payload h sync)) (\<lambda>missing. if missing then ret () else
     seq_h (with_state (\<lambda>s. when_h (ce_use_optimistic_tips s) (write_store (optimistic_key (header_digest E h)) [1])))
    (bind_h (synced (get_parent_header E h)) (\<lambda>parent. if parent = None then ret () else
     bind_h (is_consensus_ready E h) (\<lambda>ready. if \<not> ready then ret () else
     seq_h (write_store (digest_bytes (header_digest E h)) (c_ser_header E h))
    (seq_h (adopt_tip req E h) (vote_once req E h)))))))))) "

definition note_own_header :: "'p env_scheme \<Rightarrow> header \<Rightarrow> core \<Rightarrow> core" where
  "note_own_header E h s =
     (let s' = s\<lparr>cs_last_headers := take 2 (h # cs_last_headers s), cs_current_header := h,
            cs_sent_cert_to_proposer := False, cs_votes_aggregator := va_new\<rparr>
      in if ce_use_optimistic_tips s'
         then s'\<lparr>cs_proposal_tips := hm_insert (hd_author h) (proposal_of E h) (cs_proposal_tips s')\<rparr>
         else s'\<lparr>cs_certified_tips := hm_insert (hd_author h) (proposal_of E h) (cs_certified_tips s')\<rparr>)"

definition augment_header :: "core \<Rightarrow> header \<Rightarrow> header" where
  "augment_header s h = h\<lparr>hd_consensus_messages :=
     map (\<lambda>(d, m). (d, set_consensus_proposal s m)) (hd_consensus_messages h)\<rparr>"

fun note_carried :: "(digest \<times> consensus_message) list \<Rightarrow> core \<Rightarrow> core" where
  "note_carried [] s = s"
| "note_carried ((d, m) # xs) s = note_carried xs (case m of
     Commit _ _ _ _ _ \<Rightarrow> s
   | _ \<Rightarrow> s\<lparr>cs_consensus_instances := (cs_consensus_instances s)((cm_slot m, d) \<mapsto> m)\<rparr>)"

definition process_own_header :: "req \<Rightarrow> 'p env_scheme \<Rightarrow> header \<Rightarrow> unit core_handler" where
  "process_own_header req E h =
     seq_h (modify (note_own_header E h)) (with_state (\<lambda>s.
       let h' = augment_header s h
       in seq_h (modify (note_carried (hd_consensus_messages h')))
         (seq_h (send_msg E (HeaderMsg h' False) (hd_height h') None False)
           (process_header req E h' False))))"

section \<open>Checks of what arrives\<close>

definition sanitize_header :: "'p env_scheme \<Rightarrow> committee \<Rightarrow> header \<Rightarrow> (dag_error, unit) outcome" where
  "sanitize_header E c h = header_verify E c h"

definition sanitize_vote :: "'p env_scheme \<Rightarrow> core \<Rightarrow> vote \<Rightarrow> (dag_error, unit) outcome" where
  "sanitize_vote E s v =
     (if hd_id (cs_current_header s) = vt_id v \<and> va_complete (cs_votes_aggregator s)
      then (if vt_consensus_votes v = [] then Fail CarAlreadySatisfied else Done ())
      else vote_verify E (cs_committee s) v)"

definition sanitize_certificate :: "'p env_scheme \<Rightarrow> core \<Rightarrow> certificate \<Rightarrow> (dag_error, unit) outcome" where
  "sanitize_certificate E s c =
     then_r (ensure_r (cs_gc_round s \<le> cert_height c) (CertificateTooOld (certificate_digest E c) (cert_height c)))
       (certificate_verify E (cs_committee s) c)"

section \<open>Loopbacks\<close>

definition process_loopback :: "req \<Rightarrow> 'p env_scheme \<Rightarrow> consensus_message \<Rightarrow> header \<Rightarrow> unit core_handler" where
  "process_loopback req E m h = (case m of
     Prepare sl view _ _ _ _ \<Rightarrow> with_state (\<lambda>s.
       if cs_use_ride_share s then process_header req E h False
       else if (sl, view) \<in> cs_last_voted_consensus s then ret ()
       else process_consensus_message req E m (hd_author h))
   | Confirm _ _ _ _ _ \<Rightarrow> ret ()
   | Commit _ _ _ _ _ \<Rightarrow> to_committer m)"

end
