(* ===== verification/Core_Loop.thy ===== *)
theory Core_Loop
  imports Core_Dag
begin

text \<open>
  The main loop of the primary's core (\<open>Core::run\<close> in \<open>primary/src/core.rs\<close>): one step takes an
  event from one of the channels or timers, runs its handler, treats the error it returns, and
  collects garbage.

  Which event comes next is up to the environment; \<open>reachable\<close> closes the start of a core under
  all of them. A timer event names the position of a pending timer, so any pending timer may
  fire at any time. The timers of missed payloads are never started (the code that starts
  them is commented out), hence their branch of the loop has no event.
\<close>

datatype core_event =
    Arrive primary_message
  | OwnHeader header
  | HeaderBack header
  | InstanceBack consensus_message header
  | HeaderSync digest
  | ViewTimer nat
  | CarTimer nat
  | FastTimer nat
  | MetricsState bool "u8 list \<Rightarrow> u8 list" "u8 list"
  | ParamSignal "u8 list option"
  | CollectionTimer nat
  | AsyncTimer nat
  | EgressTimer nat

section \<open>Dispatch\<close>

definition arrive :: "nat \<Rightarrow> 'p env_scheme \<Rightarrow> primary_message \<Rightarrow> unit core_handler" where
  "arrive n E m = (let req = send_consensus_req n E in with_state (\<lambda>s. case m of
     HeaderMsg h sync \<Rightarrow> seq_h (of_result (sanitize_header E (cs_committee s) h)) (process_header req E h sync)
   | VoteMsg v \<Rightarrow> seq_h (of_result (sanitize_vote E s v)) (process_vote E v False)
   | CertificateMsg c \<Rightarrow> seq_h (of_result (sanitize_certificate E s c)) (process_certificate req E c)
   | TimeoutMsg t \<Rightarrow> handle_timeout req E t
   | TCMsg t \<Rightarrow> handle_tc req E t
   | ConsensusMsg cm \<Rightarrow> process_forwarded_message req E cm
   | ConsensusRequestMsg r \<Rightarrow> process_consensus_request req E r
   | ConsensusVoteMsg v \<Rightarrow> process_consensus_vote req E v False
   | StateReportMsg r \<Rightarrow> handle_state_report E r
   | _ \<Rightarrow> panic))"

text \<open>Taking the timer at a position out of its pool.\<close>

definition pop_nth :: "(core \<Rightarrow> 'x list) \<Rightarrow> ('x list \<Rightarrow> core \<Rightarrow> core) \<Rightarrow> nat \<Rightarrow> ('x \<Rightarrow> unit core_handler) \<Rightarrow> unit core_handler" where
  "pop_nth get put i k = with_state (\<lambda>s.
     if i < length (get s)
     then seq_h (modify (put (take i (get s) @ drop (Suc i) (get s)))) (k (get s ! i))
     else ret ())"

definition still_relevant :: "core \<Rightarrow> consensus_message \<Rightarrow> bool" where
  "still_relevant s m = (case m of
     Prepare sl view _ _ _ _ \<Rightarrow> view = (case cs_views s sl of None \<Rightarrow> 0 | Some v \<Rightarrow> v)
   | _ \<Rightarrow> False)"

definition handle_event :: "nat \<Rightarrow> 'p env_scheme \<Rightarrow> core_event \<Rightarrow> unit core_handler" where
  "handle_event n E ev = (let req = send_consensus_req n E in case ev of
     Arrive m \<Rightarrow> arrive n E m
   | OwnHeader h \<Rightarrow> process_own_header req E h
   | HeaderBack h \<Rightarrow> process_header req E h True
   | InstanceBack m h \<Rightarrow> process_loopback req E m h
   | HeaderSync d \<Rightarrow> synced (fetch_header d)
   | ViewTimer i \<Rightarrow> pop_nth cs_timer_futures (\<lambda>xs s. s\<lparr>cs_timer_futures := xs\<rparr>) i
       (\<lambda>(sl, v, _). local_timeout_round req E sl v)
   | CarTimer i \<Rightarrow> pop_nth cs_car_timers (\<lambda>xs s. s\<lparr>cs_car_timers := xs\<rparr>) i
       (\<lambda>(v, _). ignore_err (process_vote E v True))
   | FastTimer i \<Rightarrow> pop_nth cs_fast_timers (\<lambda>xs s. s\<lparr>cs_fast_timers := xs\<rparr>) i
       (\<lambda>(v, _). ignore_err (process_consensus_vote req E v True))
   | MetricsState die polluted msg \<Rightarrow> ignore_err (handle_metrics_state_message E die polluted msg)
   | ParamSignal signal \<Rightarrow> (case signal of
       Some msg \<Rightarrow> modify (handle_param_update_signal (e_parse_json E) msg)
     | None \<Rightarrow> ret ())
   | CollectionTimer i \<Rightarrow> pop_nth cs_collection_timers (\<lambda>xs s. s\<lparr>cs_collection_timers := xs\<rparr>) i
       (\<lambda>(epoch, _). collection_timer_fired epoch)
   | AsyncTimer i \<Rightarrow> pop_nth cs_async_timers (\<lambda>xs s. s\<lparr>cs_async_timers := xs\<rparr>) i
       (\<lambda>_. async_timer_fired still_relevant req)
   | EgressTimer i \<Rightarrow> egress_fired i)"

section \<open>Garbage collection\<close>

definition reference_height :: "core \<Rightarrow> height" where
  "reference_height s = (case map (prop_height \<circ> snd) (cs_certified_tips s) of
     [] \<Rightarrow> hd_height (cs_current_header s)
   | h # hs \<Rightarrow> fold min hs h)"

definition retain_slots :: "slot \<Rightarrow> core \<Rightarrow> core" where
  "retain_slots cutoff s = s\<lparr>
     cs_consensus_instances := retain (\<lambda>(sl, _) _. sl \<ge> cutoff) (cs_consensus_instances s),
     cs_consensus_cancel_handlers := retain (\<lambda>sl _. sl \<ge> cutoff) (cs_consensus_cancel_handlers s),
     cs_views := retain (\<lambda>sl _. sl \<ge> cutoff) (cs_views s),
     cs_timers := {x \<in> cs_timers s. fst x \<ge> cutoff},
     cs_last_voted_consensus := {x \<in> cs_last_voted_consensus s. fst x \<ge> cutoff},
     cs_high_proposals := retain (\<lambda>sl _. sl \<ge> cutoff) (cs_high_proposals s),
     cs_high_qcs := retain (\<lambda>sl _. sl \<ge> cutoff) (cs_high_qcs s),
     cs_qc_makers := retain (\<lambda>(sl, _) _. sl \<ge> cutoff) (cs_qc_makers s),
     cs_tc_makers := retain (\<lambda>(sl, _) _. sl \<ge> cutoff) (cs_tc_makers s),
     cs_committed_slots := retain (\<lambda>sl _. sl \<ge> cutoff) (cs_committed_slots s),
     cs_already_proposed := {sl \<in> cs_already_proposed s. sl \<ge> cutoff},
     cs_prepare_tickets := filter (\<lambda>m. case m of Prepare sl _ _ _ _ _ \<Rightarrow> sl \<ge> cutoff | _ \<Rightarrow> True) (cs_prepare_tickets s)\<rparr>"

definition slot_cutoff :: "core \<Rightarrow> slot" where
  "slot_cutoff s = sat_sub (ce_last_committed_slot s) (max (sat_mul (ce_k s) 2) (cs_gc_depth s))"

definition collect_garbage :: "core \<Rightarrow> core" where
  "collect_garbage s =
     (let cutoff = sat_sub (reference_height s) (cs_gc_depth s)
      in (retain_slots (slot_cutoff s) (s\<lparr>
            cs_last_voted := retain (\<lambda>h _. h \<ge> cutoff) (cs_last_voted s),
            cs_cancel_handlers := retain (\<lambda>h _. h \<ge> cutoff) (cs_cancel_handlers s)\<rparr>))
         \<lparr>cs_gc_round := (reference_height s div cs_gc_depth s) * cs_gc_depth s\<rparr>)"

definition notify_workers :: "height \<Rightarrow> unit core_handler" where
  "notify_workers reference = with_state (\<lambda>s.
     bind_h (expect_h (of_result (map_err (\<lambda>_. DagStoreError) (our_workers (cs_committee s) (cs_name s))))) (\<lambda>ws.
       modify (\<lambda>s. s\<lparr>cs_network := cs_network s @
         map (\<lambda>w. (primary_to_worker w, ToWorker (Cleanup reference))) ws\<rparr>)))"

definition cleanup :: "unit core_handler" where
  "cleanup = with_state (\<lambda>s.
     when_h (cs_gc_depth s > 0 \<and> reference_height s div cs_gc_depth s > cs_gc_round s div cs_gc_depth s)
       (seq_h (modify collect_garbage) (notify_workers (reference_height s))))"

section \<open>One turn of the loop\<close>

definition treat_error :: "unit core_handler \<Rightarrow> unit core_handler" where
  "treat_error h = (\<lambda>s. case h s of
     (t, Fail e) \<Rightarrow> (t, if e = DagStoreError then Panic else Done ())
   | r \<Rightarrow> r)"

definition core_step :: "nat \<Rightarrow> 'p env_scheme \<Rightarrow> core_event \<Rightarrow> unit core_handler" where
  "core_step n E ev = seq_h (treat_error (handle_event n E ev)) cleanup"

inductive reachable :: "nat \<Rightarrow> 'p env_scheme \<Rightarrow> core \<Rightarrow> core \<Rightarrow> bool" for n E s0 where
  start: "core_start E s0 = (s, Done ()) \<Longrightarrow> reachable n E s0 s"
| turn: "reachable n E s0 s \<Longrightarrow> core_step n E ev s = (t, Done ()) \<Longrightarrow> reachable n E s0 t"
| clock: "reachable n E s0 s \<Longrightarrow> reachable n E s0 (s\<lparr>cs_now := cs_now s + d\<rparr>)"
| params_file: "reachable n E s0 s \<Longrightarrow> reachable n E s0 (s\<lparr>ce_params_file := f\<rparr>)"

end
