(* ===== verification/Core_Turn.thy ===== *)
theory Core_Turn
  imports Core_Loop
begin

text \<open>
  What a turn of the core's loop may do to the state, whatever the event.

  The locale \<open>event_order\<close> extends the contract of the consensus handlers by the updates that
  dissemination and view changes make, \<open>turn_order\<close> by garbage collection: a preorder climbed
  by all of them is climbed by every event, or by every turn. They are interpreted on the growth of the outputs (\<open>grows\<close>) and on
  the well-formedness of the lanes (\<open>lanes_wf\<close>).
\<close>

section \<open>Handlers that leave consensus and lanes alone\<close>

lemma set_of_part [part_frame]: "moves (same order_part) (write_store k v)"
  unfolding write_store_def by (rule frame.modify) (simp add: same_def part_defs)

lemma send_normal_part [part_frame]: "moves (same order_part) (send_msg_normal m h a ch)"
  by (rule sans_net_part_frame [OF send_msg_normal_frame])

lemma send_side_part [part_frame]: "moves (same order_part) (send_msg_partition m h ch b)"
  by (rule sans_net_part_frame [OF send_msg_partition_frame])

lemma collection_part [part_frame]:
  "moves (same order_part) (ensure_collection_timer e)" "moves (same order_part) (try_build_aggregate_report e b)"
  "moves (same order_part) (record_state_report r)"
  by (simp_all add: moves_def ensure_collection_timer_def try_build_aggregate_report_def record_state_report_def
      handler_simps same_def part_defs Let_def split: option.split)

lemma reports_part [part_frame]:
  "moves (same order_part) (handle_state_report E r)" "moves (same order_part) (collection_timer_fired e)"
  "moves (same order_part) (handle_metrics_state_message E die polluted msg)"
  unfolding handle_state_report_def collection_timer_fired_def handle_metrics_state_message_def Let_def
  by (auto intro!: frame.rules frame.with_state frame.modify part_frame simp: same_def part_defs split: option.split)

lemma egress_part [part_frame]: "moves (same order_part) (egress_fired i)"
  unfolding egress_fired_def
  by (auto intro!: frame.rules frame.with_state frame.modify part_frame simp: same_def part_defs split: prod.split)

lemma begin_part [part_frame]: "moves (same order_part) begin_window"
  unfolding begin_window_def join_partition_def nth_h_def Let_def
  by (auto intro!: frame.rules frame.with_state frame.modify simp: same_def part_defs)

lemma release_part [part_frame]: "moves (same order_part) release_partition"
  unfolding release_partition_def release_one_def
  by (auto intro!: frame.each frame.with_state part_frame split: prod.split option.split)

lemma signal_more:
  "core_params.more (handle_param_update_signal parse m s) = core_params.more s"
  "ce_last_committed_slot (handle_param_update_signal parse m s) = ce_last_committed_slot s"
proof -
  have capture: "core_params.more (capture_pending_parameters s) = core_params.more s"
      "ce_last_committed_slot (capture_pending_parameters s) = ce_last_committed_slot s" for s :: "'a core_params_scheme"
    by (simp_all add: capture_pending_parameters_def split: option.split)
  have check: "core_params.more (check_and_update_parameters s) = core_params.more s"
      "ce_last_committed_slot (check_and_update_parameters s) = ce_last_committed_slot s" for s :: "'a core_params_scheme"
    by (simp_all add: check_and_update_parameters_def apply_more apply_last split: option.split)
  have epoch: "core_params.more (signal_by_epoch e s) = core_params.more s"
      "ce_last_committed_slot (signal_by_epoch e s) = ce_last_committed_slot s" for e and s :: "'a core_params_scheme"
    unfolding signal_by_epoch_def Let_def by (simp_all add: capture split: option.split)
  show "core_params.more (handle_param_update_signal parse m s) = core_params.more s"
    "ce_last_committed_slot (handle_param_update_signal parse m s) = ce_last_committed_slot s"
    unfolding handle_param_update_signal_def Let_def by (simp_all add: epoch check split: option.split)
qed

lemma signal_part [part_frame]: "moves (same order_part) (modify (handle_param_update_signal parse m))"
  by (rule frame.modify) (simp add: same_def more_part [OF signal_more])

lemma notify_part [part_frame]: "moves (same order_part) (notify_workers r)"
  unfolding notify_workers_def
  by (auto intro!: frame.rules frame.with_state frame.modify simp: same_def part_defs)

section \<open>The contracts of an event and of a turn\<close>

definition voters_at :: "core \<Rightarrow> height \<Rightarrow> public_key set" where
  "voters_at s h = (case cs_last_voted s h of None \<Rightarrow> {} | Some a \<Rightarrow> a)"

locale event_order = core_order R for R :: "core \<Rightarrow> core \<Rightarrow> bool" +
  assumes set_view: "R s (s\<lparr>cs_views := (cs_views s)(sl \<mapsto> v)\<rparr>)"
    and collect_timeout: "R s (s\<lparr>cs_tc_makers := m\<rparr>)"
    and certified: "R s (s\<lparr>cs_certified_tips := hm_insert a p (cs_certified_tips s)\<rparr>)"
    and tip: "R s (s\<lparr>cs_proposal_tips := hm_insert a p (cs_proposal_tips s)\<rparr>)"
    and car_timer: "vt_consensus_votes vt \<noteq> [] \<Longrightarrow> R s (s\<lparr>cs_car_timers := cs_car_timers s @ [(vt, d)]\<rparr>)"
    and car_timer_off: "set ts \<subseteq> set (cs_car_timers s) \<Longrightarrow> R s (s\<lparr>cs_car_timers := ts\<rparr>)"
    and voter: "R s (s\<lparr>cs_last_voted := (cs_last_voted s)(ht \<mapsto> insert a (voters_at s ht))\<rparr>)"
    and own_header: "R s (s\<lparr>cs_last_headers := take 2 (h # cs_last_headers s), cs_current_header := h,
        cs_sent_cert_to_proposer := False, cs_votes_aggregator := va_new\<rparr>)"
    and aggregate: "R s (s\<lparr>cs_votes_aggregator := a'\<rparr>)"
    and qc_formed: "R s (s\<lparr>cs_qcs_formed := q\<rparr>)"
    and send_cert: "R s (s\<lparr>cs_tx_proposer := cs_tx_proposer s @ [c], cs_sent_cert_to_proposer := True, cs_qcs_formed := 0\<rparr>)"
begin

lemmas turn_steps = part_frame [THEN frame]

subsection \<open>View changes\<close>

lemma generate_moves:
  assumes "\<And>m. moves R (req m)"
  shows "moves R (generate_prepare_from_tc req E t)"
  unfolding generate_prepare_from_tc_def Let_def
  by (auto intro!: bind with_state when_cond turn_steps assms)

lemma add_timeout_moves: "moves R (add_timeout t)"
  unfolding add_timeout_def Let_def
  by (auto intro!: with_state seq modify of_result collect_timeout split: prod.split)

lemma advance_view_moves: "moves R (advance_view sl v)"
  unfolding advance_view_def by (auto intro!: seq modify with_state set_view turn_steps)

lemma handle_timeout_moves:
  assumes "\<And>m. moves R (req m)"
  shows "moves R (handle_timeout req E t)"
  unfolding handle_timeout_def
  by (auto intro!: with_state seq bind ret of_result add_timeout_moves advance_view_moves generate_moves assms
      split: option.split)

lemma local_timeout_moves:
  assumes "\<And>m. moves R (req m)"
  shows "moves R (local_timeout_round req E sl v)"
  unfolding local_timeout_round_def Let_def
  by (auto intro!: with_state seq ret turn_steps handle_timeout_moves assms)

subsection \<open>Dissemination\<close>

lemma certificate_moves:
  assumes "\<And>m. moves R (req m)"
  shows "moves R (process_certificate req E c)"
  unfolding process_certificate_def
  by (auto intro!: seq bind with_state when_cond unwrap modify certified waiting_moves turn_steps assms)

lemma carried_message_moves:
  assumes "\<And>m. moves R (req m)"
  shows "moves R (process_consensus_messages req E h)"
  unfolding process_consensus_messages_def process_carried_message_def
  by (auto intro!: fold bind seq ret is_valid_moves process_prepare_moves process_confirm_moves
      process_commit_moves turn_steps assms split: consensus_message.split)

lemma ready_moves: "moves R (is_consensus_ready E h)"
proof -
  have "moves R (consensus_ready_loop E h xs b)" for xs b
    by (induction xs arbitrary: b) (auto intro!: bind ret expect turn_steps split: consensus_message.split)
  then show ?thesis by (simp add: is_consensus_ready_def)
qed

lemma on_aggregator_moves: "moves R (on_aggregator h)"
  by (simp add: moves_def on_aggregator_def zoom_def aggregate split: prod.split)

lemma announce_moves: "moves R (announce_qc b inst q)"
  unfolding announce_qc_def by (auto intro!: ret turn_steps split: consensus_message.split)

lemma car_timer_moves: "vt_consensus_votes v \<noteq> [] \<Longrightarrow> moves R (start_car_timer v d)"
  unfolding start_car_timer_def by (intro modify car_timer)

lemma carried_vote_moves: "moves R (process_carried_vote E a loopback x)"
  unfolding process_carried_vote_def
  by (auto intro!: with_state seq bind ret when_cond of_result count_vote_moves car_timer_moves modify qc_formed
      announce_moves simp: timer_vote_def split: prod.split option.split)

text \<open>The timer of a car is never started: the certificate is only taken once consensus is ready.\<close>

lemma finish_vote_moves: "moves R (finish_vote v loopback)"
proof -
  show ?thesis unfolding finish_vote_def Let_def
  proof (rule with_state, rule bind [OF on_aggregator_moves])
    fix s :: core and x :: "bool \<times> bool"
    let ?ready = "hd_consensus_messages (cs_current_header s) = []
      \<or> cs_qcs_formed s = hd_num_active_instances (cs_current_header s)
      \<or> loopback \<and> vt_consensus_votes v = []"
    show "moves R (case x of (car_cert_ready, first) \<Rightarrow>
       bind_h (if car_cert_ready \<and> ((hd_consensus_messages (cs_current_header s) = []
           \<or> cs_qcs_formed s = hd_num_active_instances (cs_current_header s))
           \<or> loopback \<and> vt_consensus_votes v = []) then on_aggregator va_get else ret None)
         (\<lambda>cert. seq_h (when_h ((car_cert_ready \<and> cert \<noteq> None)
              \<and> \<not> ((hd_consensus_messages (cs_current_header s) = []
                 \<or> cs_qcs_formed s = hd_num_active_instances (cs_current_header s))
                 \<or> loopback \<and> vt_consensus_votes v = []) \<and> first)
                (start_car_timer (timer_vote (vt_id v) []) (cs_car_timeout s)))
             (with_state (\<lambda>sa. when_h (\<not> cs_sent_cert_to_proposer sa \<and> (car_cert_ready \<and> cert \<noteq> None)
              \<and> ((hd_consensus_messages (cs_current_header s) = []
                 \<or> cs_qcs_formed s = hd_num_active_instances (cs_current_header s))
                 \<or> loopback \<and> vt_consensus_votes v = []))
                (bind_h (unwrap cert) (\<lambda>c. modify (\<lambda>s. s\<lparr>cs_tx_proposer := cs_tx_proposer s @ [c],
                   cs_sent_cert_to_proposer := True, cs_qcs_formed := 0\<rparr>)))))))"
    proof (cases x)
      case (Pair ready first)
      show ?thesis
      proof (cases ?ready)
        case True
        then show ?thesis unfolding Pair
          by (auto intro!: bind seq on_aggregator_moves ret with_state when_cond unwrap modify send_cert)
      next
        case False
        then show ?thesis unfolding Pair
          by (auto simp: when_h_def intro!: seq ret with_state)
      qed
    qed
  qed
qed

lemma lane_vote_moves: "moves R (process_vote E v loopback)"
  unfolding process_vote_def Let_def
  by (auto intro!: with_state ret seq each carried_vote_moves finish_vote_moves)

lemma cast_vote_moves:
  assumes "\<And>m. moves R (req m)"
  shows "moves R (cast_vote req E h)"
  unfolding cast_vote_def Let_def
  by (auto intro!: bind with_state expect carried_message_moves lane_vote_moves turn_steps assms)

lemma vote_once_moves:
  assumes "\<And>m. moves R (req m)"
  shows "moves R (vote_once req E h)"
  unfolding vote_once_def voters_at_def [symmetric] Let_def
  by (rule with_state_at, rule seq_at) (auto simp: modify_def intro!: voter at [OF when_cond] cast_vote_moves assms)

lemma header_moves:
  assumes "\<And>m. moves R (req m)"
  shows "moves R (process_header req E h sync)"
  unfolding process_header_def adopt_tip_def
  by (auto intro!: with_state seq bind ret ensure when_cond unwrap modify certificate_moves ready_moves
      vote_once_moves waiting_moves tip turn_steps assms)

lemma own_header_moves:
  assumes "\<And>m. moves R (req m)"
  shows "moves R (process_own_header req E h)"
proof -
  have own: "R s (note_own_header E h s)" for s
    unfolding note_own_header_def Let_def
    using trans [OF own_header tip] trans [OF own_header certified] by (auto split: if_splits)
  have carried: "order_part (note_carried xs s) = order_part s" for xs s
    by (induction xs s rule: note_carried.induct) (auto simp: part_defs split: consensus_message.split)
  show ?thesis unfolding process_own_header_def Let_def
    by (auto intro!: seq with_state modify own part carried turn_steps header_moves assms)
qed

lemma loopback_moves:
  assumes "\<And>m. moves R (req m)"
  shows "moves R (process_loopback req E m h)"
  unfolding process_loopback_def
  by (auto intro!: with_state ret header_moves process_message_moves to_committer_moves assms
      split: consensus_message.split)

subsection \<open>The turn\<close>

lemma arrive_moves: "moves R (arrive n E m)"
  unfolding arrive_def Let_def
  by (auto intro!: with_state seq of_result panic header_moves lane_vote_moves certificate_moves
      handle_timeout_moves forwarded_moves process_request_moves process_vote_moves generate_moves turn_steps
      send_req_moves simp: handle_tc_def split: primary_message.split)

lemma pop_moves:
  assumes "\<And>i s. R s (put (take i (get s) @ drop (Suc i) (get s)) s)" and "\<And>x. moves R (k x)"
  shows "moves R (pop_nth get put i k)"
  unfolding pop_nth_def
proof (rule with_state_at)
  fix s
  show "R s (fst ((if i < length (get s)
      then seq_h (modify (put (take i (get s) @ drop (Suc i) (get s)))) (k (get s ! i)) else ret ()) s))"
    using assms(1) at [OF assms(2)] by (auto intro!: seq_at at [OF ret] simp: modify_def)
qed

lemma window_moves: "moves R (async_timer_fired still_relevant (send_consensus_req n E))"
proof -
  have "moves R (end_window still_relevant (send_consensus_req n E))"
    unfolding end_window_def
    by (auto intro!: with_state seq ret modify when_cond ignore send_req_moves turn_steps part
        simp: part_defs split: async_effect_type.split option.split)
  then show ?thesis unfolding async_timer_fired_def
    by (auto intro!: seq modify with_state turn_steps part simp: part_defs)
qed

lemma event_moves: "moves R (handle_event n E ev)"
proof -
  have [intro!]: "moves R (send_consensus_req n E m)" for m by (rule send_req_moves)
  have sub: "set (take i xs @ drop (Suc i) xs) \<subseteq> set xs" for i and xs :: "'x list"
    by (auto dest: in_set_takeD in_set_dropD)
  show ?thesis unfolding handle_event_def Let_def
    by (cases ev) (auto intro!: ret ignore arrive_moves own_header_moves header_moves loopback_moves lane_vote_moves
      process_vote_moves local_timeout_moves window_moves turn_steps pop_moves part car_timer_off [OF sub]
      simp: part_defs split: option.split prod.split)
qed

lemma treat_moves: "moves R h \<Longrightarrow> moves R (treat_error h)"
  by (auto simp: moves_def treat_error_def split: prod.split outcome.split) (metis fst_conv)+

end

locale turn_order = event_order R for R :: "core \<Rightarrow> core \<Rightarrow> bool" +
  assumes garbage: "reference_height s div cs_gc_depth s > cs_gc_round s div cs_gc_depth s \<Longrightarrow> R s (collect_garbage s)"
begin

lemma cleanup_moves: "moves R cleanup"
proof -
  have "R s (fst (cleanup s))" for s
  proof (cases "cs_gc_depth s > 0 \<and> reference_height s div cs_gc_depth s > cs_gc_round s div cs_gc_depth s")
    case True
    then have "R s (collect_garbage s)" by (intro garbage) simp
    moreover have "R (collect_garbage s) (fst (notify_workers (reference_height s) (collect_garbage s)))"
      by (rule at) (rule turn_steps)
    ultimately show ?thesis using True
      by (simp add: cleanup_def with_state_def when_h_def seq_h_def bind_h_def modify_def trans)
  qed (auto simp: cleanup_def with_state_def when_h_def ret_def refl)
  then show ?thesis by (simp add: moves_def)
qed

lemma turn_moves: "moves R (core_step n E ev)"
  unfolding core_step_def by (intro seq treat_moves event_moves cleanup_moves)

end

end
