(* ===== verification/Core_Invariants.thy ===== *)
theory Core_Invariants
  imports Core_Turn
begin

text \<open>
  What holds in every turn and in every reachable state of the core: outputs are never
  retracted, the lanes stay well formed, and no turn runs out of fuel.
\<close>

section \<open>Outputs only grow\<close>

definition grows :: "core \<Rightarrow> core \<Rightarrow> bool" where
  "grows s t \<longleftrightarrow> cs_name t = cs_name s \<and> cs_committee t = cs_committee s \<and> cs_gc_depth t = cs_gc_depth s \<and>
     cs_gc_round s \<le> cs_gc_round t \<and>
     (\<exists>ms. cs_tx_committer t = cs_tx_committer s @ ms) \<and> (\<exists>cs. cs_tx_proposer t = cs_tx_proposer s @ cs)"

lemma period_up:
  fixes a b d :: "'a::len word"
  assumes "b div d < a div d"
  shows "b \<le> a div d * d"
proof -
  have d: "0 < unat d"
  proof (rule ccontr)
    assume "\<not> 0 < unat d"
    then have "unat (a div d) = 0" by (simp add: unat_div_distrib)
    then show False using assms by (simp add: word_less_nat_alt)
  qed
  have "unat a div unat d * unat d \<le> unat a" by simp
  then have "unat a div unat d * unat d < 2 ^ LENGTH('a)" using unsigned_less [of a] by (rule le_less_trans)
  then have "unat (a div d * d) = unat a div unat d * unat d"
    using unat_mult_no_wrap [of "a div d" d] by (simp add: unat_div_distrib)
  moreover have "unat b div unat d < unat a div unat d" using assms by (simp add: word_less_nat_alt unat_div_distrib)
  then have "unat b \<le> unat a div unat d * unat d"
    using d by (metis div_less_iff_less_mult less_or_eq_imp_le)
  ultimately show ?thesis by (simp add: word_le_nat_alt)
qed

interpretation growing: turn_order grows
proof
  show "grows s u" if "grows s t" "grows t u" for s t u
    using that order_trans [of "cs_gc_round s" "cs_gc_round t" "cs_gc_round u"] unfolding grows_def
    by (elim conjE exE) simp
  show "grows s t" if "order_part t = order_part s" for s t
    using that by (simp add: part_defs grows_def)
  show "grows s (collect_garbage s)" if "cs_gc_round s div cs_gc_depth s < reference_height s div cs_gc_depth s" for s
    using period_up [OF that] by (simp add: grows_def collect_garbage_def retain_slots_def Let_def)
qed (simp_all add: grows_def)

text \<open>
  C7: no turn retracts what the core handed out: whatever the event and however it ends, the
  messages for the committer and the certificates for the proposer are only appended to,
  and the garbage-collection boundary never moves back.
\<close>

theorem outputs_never_retracted:
  "let t = fst (core_step n E ev s) in
   (\<exists>ms. cs_tx_committer t = cs_tx_committer s @ ms) \<and> (\<exists>cs. cs_tx_proposer t = cs_tx_proposer s @ cs) \<and>
   cs_gc_round s \<le> cs_gc_round t \<and> cs_name t = cs_name s \<and> cs_committee t = cs_committee s"
  using growing.at [OF growing.turn_moves, of s n E ev] by (simp add: grows_def Let_def)

section \<open>Well-formed lanes\<close>

text \<open>
  Every member of the committee has a certified and an optimistic tip, no lane has two; at
  most two own headers are kept; a pending car timer always carries a consensus vote.
\<close>

definition lanes_wf :: "core \<Rightarrow> bool" where
  "lanes_wf s \<longleftrightarrow>
     members (cs_committee s) \<subseteq> set (map fst (cs_certified_tips s)) \<and> distinct (map fst (cs_certified_tips s)) \<and>
     members (cs_committee s) \<subseteq> set (map fst (cs_proposal_tips s)) \<and> distinct (map fst (cs_proposal_tips s)) \<and>
     length (cs_last_headers s) \<le> 2 \<and> (\<forall>x \<in> set (cs_car_timers s). vt_consensus_votes (fst x) \<noteq> [])"

lemma lanes_insert:
  assumes "lanes_wf s"
  shows "lanes_wf (s\<lparr>cs_certified_tips := hm_insert a p (cs_certified_tips s)\<rparr>)"
    and "lanes_wf (s\<lparr>cs_proposal_tips := hm_insert a p (cs_proposal_tips s)\<rparr>)"
  using assms keys_hm_insert [of a p "cs_certified_tips s"] keys_hm_insert [of a p "cs_proposal_tips s"]
  by (auto simp: lanes_wf_def distinct_hm_insert simp del: set_map)

interpretation lanes: turn_order "keeps lanes_wf"
proof
  show "keeps lanes_wf s t" if "order_part t = order_part s" for s t
    using that by (simp add: part_defs keeps_def lanes_wf_def)
  show "keeps lanes_wf s (s\<lparr>cs_certified_tips := hm_insert a p (cs_certified_tips s)\<rparr>)"
    and "keeps lanes_wf s (s\<lparr>cs_proposal_tips := hm_insert a p (cs_proposal_tips s)\<rparr>)" for s a p
    by (simp_all add: keeps_def lanes_insert)
  show "keeps lanes_wf s (s\<lparr>cs_car_timers := ts\<rparr>)" if "set ts \<subseteq> set (cs_car_timers s)" for s ts
    using that by (auto simp: keeps_def lanes_wf_def)
  show "keeps lanes_wf s (collect_garbage s)" for s
    by (simp add: keeps_def lanes_wf_def collect_garbage_def retain_slots_def Let_def)
qed (auto simp: keeps_def lanes_wf_def)

lemma start_lanes:
  assumes "core_start E s = (t, Done ())" and "committee_wf (cs_committee s)"
    and "cs_car_timers s = []" and "cs_last_headers s = []"
  shows "lanes_wf t \<and> cs_name t = cs_name s \<and> cs_committee t = cs_committee s"
proof -
  let ?tips = "genesis_proposals E (cs_committee s)"
  have keys: "map fst ?tips = map fst (authorities (cs_committee s))"
    by (simp add: genesis_proposals_def comp_def case_prod_beta)
  have "distinct (map fst ?tips)"
    using assms(2) unfolding committee_wf_def keys by (simp add: strict_sorted_iff)
  moreover have "cs_certified_tips t = ?tips \<and> cs_proposal_tips t = ?tips \<and> cs_committee t = cs_committee s \<and>
      cs_name t = cs_name s \<and> cs_car_timers t = [] \<and> cs_last_headers t = []"
    using assms(1,3,4)
    by (auto simp: core_start_def start_timer_def leader_of_def push_ticket_def handler_simps
        split: option.splits if_splits)
  ultimately show ?thesis using keys by (auto simp: lanes_wf_def members_def simp del: set_map)
qed

lemma reachable_lanes:
  assumes "reachable n E s0 s" and "committee_wf (cs_committee s0)"
    and "cs_car_timers s0 = []" and "cs_last_headers s0 = []"
  shows "lanes_wf s \<and> cs_name s = cs_name s0 \<and> cs_committee s = cs_committee s0"
  using assms(1)
proof induction
  case (start s)
  then show ?case using start_lanes assms(2-4) by blast
next
  case (turn s ev t)
  have "keeps lanes_wf s t" "grows s t"
    using turn(2) keeping.at [OF lanes.turn_moves, of s n E ev] growing.at [OF growing.turn_moves, of s n E ev] by simp_all
  then show ?case using turn.IH by (simp add: keeps_def grows_def)
qed (auto simp: lanes_wf_def)

text \<open>
  C6: in every reachable state of a core started with a well-formed committee, each member of
  the committee has exactly one certified and one optimistic tip, and name and committee
  are those of the start. So reading the tip of a member never panics.
\<close>

theorem reachable_lanes_wf:
  assumes "reachable n E (core_new name c idx sync p now params_file) s" and "committee_wf c"
  shows "(\<forall>a \<in> members c. map_of (cs_certified_tips s) a \<noteq> None \<and> map_of (cs_proposal_tips s) a \<noteq> None) \<and>
    distinct (map fst (cs_certified_tips s)) \<and> distinct (map fst (cs_proposal_tips s)) \<and>
    length (cs_last_headers s) \<le> 2 \<and> cs_name s = name \<and> cs_committee s = c"
  using reachable_lanes [OF assms(1)] assms(2)
  by (auto simp: core_new_def core_params.extend_def lanes_wf_def map_of_eq_None_iff)

text \<open>
  the timers of cars do nothing. In every reachable state, the expiry of a pending car
  timer only takes the timer out of the pool: the votes they carry are consensus votes,
  which \<open>process_vote\<close> returns on at once, and the timer that was to release a car without
  waiting for its consensus messages is never started.
\<close>

theorem car_timers_are_dead:
  assumes "reachable n E (core_new name c idx sync p now params_file) s" and "committee_wf c"
  shows "handle_event n E (CarTimer i) s =
    (s\<lparr>cs_car_timers := (if i < length (cs_car_timers s)
        then take i (cs_car_timers s) @ drop (Suc i) (cs_car_timers s) else cs_car_timers s)\<rparr>, Done ())"
proof -
  have "lanes_wf s" using reachable_lanes [OF assms(1)] assms(2) by (simp add: core_new_def core_params.extend_def)
  then have "vt_consensus_votes (fst (cs_car_timers s ! i)) \<noteq> []" if "i < length (cs_car_timers s)"
    using that by (simp add: lanes_wf_def)
  then show ?thesis
    by (auto simp: handle_event_def pop_nth_def process_vote_def handler_simps Let_def split: prod.split)
qed

section \<open>A concrete core\<close>

lemma start_returns:
  assumes "get_leader (cs_committee s) 1 1 \<noteq> None" and "cs_name s \<in> members (cs_committee s)"
  shows "\<exists>t. core_start E s = (t, Done ())"
proof -
  have "map_of (genesis_certs E (cs_committee s)) (cs_name s) \<noteq> None"
    using assms(2) by (auto simp: members_def genesis_certs_def map_of_eq_None_iff image_iff split: prod.splits)
  then show ?thesis using assms(1)
    by (auto simp: core_start_def start_timer_def leader_of_def push_ticket_def handler_simps split: option.splits)
qed

lemma sample_core_fields:
  "cs_name sample_core = PublicKey 1" "cs_committee sample_core = sample_committee"
  "cs_effect sample_core = Off" "cs_views sample_core = Map.empty"
  by (simp_all add: sample_core_def core_new_def core_params.extend_def)

lemma sample_leaders: "leader_keys sample_committee = [PublicKey 1, PublicKey 2, PublicKey 3, PublicKey 4]"
  by (simp add: leader_keys_def sample_authorities less_eq_public_key_def)

lemma sample_reachable: "\<exists>s. reachable n sample_env sample_core s"
proof -
  have "\<exists>t. core_start sample_env sample_core = (t, Done ())"
    by (rule start_returns) (simp_all add: sample_core_fields sample_members get_leader_def sample_leaders
        committee_size_def sample_authorities)
  then show ?thesis by (blast intro: reachable.start)
qed

theorem reachable_lanes_wf_witness:
  "\<exists>s. reachable 2 sample_env sample_core s \<and> map_of (cs_certified_tips s) (PublicKey 3) \<noteq> None"
proof -
  obtain s where s: "reachable 2 sample_env sample_core s" using sample_reachable by blast
  have "committee_wf sample_committee" using sample_ok by (simp add: committee_ok_def)
  then show ?thesis using s reachable_lanes_wf [OF s [unfolded sample_core_def]] by (auto simp: sample_members)
qed

theorem car_timers_are_dead_witness:
  "\<exists>s. reachable 2 sample_env sample_core s \<and> snd (handle_event 2 sample_env (CarTimer 0) s) = Done ()"
proof -
  obtain s where s: "reachable 2 sample_env sample_core s" using sample_reachable by blast
  have "committee_wf sample_committee" using sample_ok by (simp add: committee_ok_def)
  then show ?thesis using s car_timers_are_dead [OF s [unfolded sample_core_def], of 0] by auto
qed

end
