(* ===== verification/Core_Returns.thy ===== *)
theory Core_Returns
  imports Core_Turn
begin

text \<open>
  Every turn of the core's loop returns: with the fuel \<open>enough_fuel\<close> the circle of consensus
  handlers returns from every state, and no other handler recurses.
\<close>

definition enough_fuel :: nat where
  "enough_fuel = 2 * (2 ^ 64 + 2 ^ 320) + 2"

lemma card_digest: "card (UNIV :: digest set) = 2 ^ 256"
proof -
  have "(UNIV :: digest set) = range Digest" by (metis UNIV_eq_I digest.exhaust rangeI)
  moreover have "card (range Digest) = card (UNIV :: 256 word set)" by (rule card_image) (simp add: inj_on_def)
  ultimately show ?thesis by (simp add: card_word)
qed

lemma budget_bound: "budget s \<le> 2 ^ 64 + 2 ^ 320"
proof -
  have "unproposed s \<le> card (UNIV :: slot set)" unfolding unproposed_def by (rule card_mono) simp_all
  moreover have "unconfirmed s \<le> card (UNIV :: (slot \<times> digest) set)"
    unfolding unconfirmed_def by (rule card_mono [OF finite_keys]) simp
  moreover have "card (UNIV :: (slot \<times> digest) set) = 2 ^ 64 * 2 ^ 256"
    by (simp add: UNIV_Times_UNIV [symmetric] card_cartesian_product card_digest card_word del: UNIV_Times_UNIV)
  ultimately show ?thesis unfolding budget_def by (simp add: card_word)
qed

lemma within_fuel: "enough_fuel \<le> n \<Longrightarrow> c \<le> 2 \<Longrightarrow> 2 * budget s + c \<le> n"
  using budget_bound [of s] by (simp add: enough_fuel_def)

lemma ends_returns: "(\<And>s. ends_at advances h s) \<Longrightarrow> returns h"
  by (simp add: ends_at_def returns_def)

lemma circle_returns:
  assumes "enough_fuel \<le> n"
  shows "returns (send_consensus_req n E m)"
    and "returns (is_prepare_ticket_ready (send_consensus_req n E) m)"
    and "returns (try_prepare_waiting_slots (send_consensus_req n E))"
    and "returns (process_prepare_message (send_consensus_req n E) E m sigs)"
    and "returns (process_commit_message_core (send_consensus_req n E) E m h)"
    and "returns (process_consensus_vote (send_consensus_req n E) E v b)"
    and "returns (process_consensus_message (send_consensus_req n E) E m a)"
    and "returns (process_consensus_request (send_consensus_req n E) E r)"
proof -
  note fuel = within_fuel [OF assms] and serve = send_req_serves [of n E]
  have rank: "rank m \<le> 2" for m by (cases m) (simp_all add: rank_def)
  have rank_Suc: "2 * budget s + rank m \<le> Suc n" for s m using fuel [OF rank, of s m] by simp
  show "returns (send_consensus_req n E m)"
    by (rule ends_returns) (rule servesD [OF serve fuel [OF rank]])
  show "returns (is_prepare_ticket_ready (send_consensus_req n E) m)"
    using fuel [of 0] by (intro ends_returns ticket_ends [OF serve]) simp
  show "returns (try_prepare_waiting_slots (send_consensus_req n E))"
    using fuel [of 0] by (intro ends_returns waiting_ends [OF serve]) simp
  show "returns (process_prepare_message (send_consensus_req n E) E m sigs)"
    using fuel [of 0] by (intro ends_returns process_prepare_ends [OF serve]) simp
  show "returns (process_commit_message_core (send_consensus_req n E) E m h)"
    using fuel [of 0] by (intro ends_returns process_commit_ends [OF serve]) simp
  show "returns (process_consensus_vote (send_consensus_req n E) E v b)"
    using fuel [of 1] by (intro ends_returns process_vote_ends [OF serve]) simp
  show "returns (process_consensus_message (send_consensus_req n E) E m a)"
    by (intro ends_returns process_message_ends [OF serve] rank_Suc)
  show "returns (process_consensus_request (send_consensus_req n E) E r)"
    by (intro ends_returns process_request_ends [OF serve] rank_Suc)
qed

section \<open>Handlers outside the circle\<close>

definition settled :: "('e, 'a) outcome \<Rightarrow> bool" where
  "settled r \<longleftrightarrow> r \<noteq> Diverge"

lemma settled_basic: "settled (Done a)" "settled (Fail e)" "settled Panic" "settled (ensure_r b e)"
  by (simp_all add: settled_def ensure_r_def)

lemma settled_bind: "settled r \<Longrightarrow> (\<And>a. settled (k a)) \<Longrightarrow> settled (bind_r r k)"
  by (cases r) (simp_all add: settled_def bind_r_def)

lemma settled_then: "settled q \<Longrightarrow> settled p \<Longrightarrow> settled (then_r q p)"
  by (simp add: then_r_def settled_bind)

lemma settled_each: "(\<And>x. settled (g x)) \<Longrightarrow> settled (each_r g xs)"
  by (induction xs) (simp_all add: settled_basic settled_then)

lemma settled_err: "settled r \<Longrightarrow> settled (map_err f r)"
  by (simp add: settled_def map_err_returns)

lemma settled_checks: "settled (sig_verify P sg d k)" "settled (tally reuse unk c xs used w)"
  "settled (signed_by_member P c a d sg)" "settled (sig_from_bytes P sg)" "settled (key_from_bytes P k)"
  by (simp_all add: settled_def sig_verify_returns tally_returns signed_returns sig_from_bytes_def key_from_bytes_def)

lemmas settled_rules = settled_basic settled_bind settled_then settled_each settled_err settled_checks

lemma settled_batch: "settled (batch_multi_loop P ds votes acc)"
  by (induction P ds votes acc rule: batch_multi_loop.induct) (auto intro!: settled_rules)

lemma settled_workers: "settled (worker_of c a i)" "settled (our_workers c a)"
  by (auto simp: worker_of_def our_workers_def lookup_authority_def intro!: settled_rules split: option.split)

lemma settled_verify: "settled (header_verify P c h)" "settled (certificate_verify P c cert)"
  "settled (vote_verify P c v)" "settled (timeout_verify P c t)"
  unfolding header_verify_def certificate_verify_def vote_verify_def timeout_verify_def verify_batch_multi_def
  by (auto intro!: settled_rules settled_workers settled_batch split: prod.split)

lemma returns_settled: "settled r \<Longrightarrow> returns (of_result r)"
  by (simp add: settled_def returns_of_result)

lemma sync_ret [ret_frame]: "returns (missing_payload h b)" "returns (get_parent_header P h)" "returns (fetch_header d)"
  unfolding missing_payload_def get_parent_header_def fetch_header_def payload_step_def Let_def
  by (auto intro!: returns_rules ret_frame de_header_returns split: option.split)

lemma write_ret [ret_frame]: "returns (write_store k v)" and start_ret [ret_frame]: "returns (start_timer sl vw d)"
  and car_ret [ret_frame]: "returns (start_car_timer vt d)"
  by (auto simp: write_store_def start_timer_def start_car_timer_def intro!: returns_rules)

lemma confirm_message_ret [ret_frame]: "returns (process_confirm_message E m sigs)"
  by (auto simp: process_confirm_message_def intro!: returns_rules split: consensus_message.split)

lemma ready_ret [ret_frame]: "returns (is_consensus_ready E h)"
proof -
  have "returns (consensus_ready_loop E h xs b)" for xs b
    by (induction xs arbitrary: b) (auto intro!: returns_rules ret_frame split: consensus_message.split)
  then show ?thesis by (simp add: is_consensus_ready_def)
qed

lemma aggregator_ret [ret_frame]: "returns (on_aggregator (va_append c v))" "returns (on_aggregator va_get)"
  unfolding on_aggregator_def
  by (rule returns_zoom, simp add: returns_def va_append_def va_get_def Let_def)+

lemma lane_vote_ret [ret_frame]: "returns (process_vote E v loopback)"
  unfolding process_vote_def process_carried_vote_def finish_vote_def announce_qc_def Let_def
  by (auto intro!: returns_rules ret_frame returns_settled settled_rules
      split: option.split prod.split consensus_message.split)

lemma reports_ret [ret_frame]: "returns (handle_state_report E r)" "returns (collection_timer_fired e)"
  "returns (handle_metrics_state_message E die polluted msg)"
proof -
  have parts: "returns (ensure_collection_timer e)" "returns (try_build_aggregate_report e b)" "returns (record_state_report r)"
    for e b r
    by (auto simp: ensure_collection_timer_def try_build_aggregate_report_def record_state_report_def Let_def
        returns_def handler_simps split: option.split)
  show "returns (handle_state_report E r)" "returns (collection_timer_fired e)"
    "returns (handle_metrics_state_message E die polluted msg)"
    unfolding handle_state_report_def collection_timer_fired_def handle_metrics_state_message_def Let_def
    by (auto intro!: returns_rules parts ret_frame split: option.split)
qed

lemma windows_ret [ret_frame]: "returns (egress_fired i)" "returns begin_window" "returns release_partition"
  unfolding egress_fired_def begin_window_def release_partition_def release_one_def join_partition_def nth_h_def
    send_msg_partition_def Let_def
  by (auto intro!: returns_rules ret_frame split: prod.split option.split)

lemma cleanup_ret [ret_frame]: "returns cleanup"
  unfolding cleanup_def notify_workers_def
  by (auto intro!: returns_rules returns_settled settled_rules settled_workers)

section \<open>Handlers that call the circle\<close>

text \<open>
  C1: every turn of the loop returns: with the fuel for all slots and all collectors there can
  be, no event in any state makes the core recurse forever.
\<close>

theorem turn_returns:
  assumes "enough_fuel \<le> n"
  shows "snd (core_step n E ev s) \<noteq> Diverge"
proof -
  note circle = circle_returns [OF assms]
  have generate [intro!]: "returns (generate_prepare_from_tc (send_consensus_req n E) E t)" for t
    unfolding generate_prepare_from_tc_def Let_def by (auto intro!: returns_rules circle ret_frame)
  have timeout [intro!]: "returns (handle_timeout (send_consensus_req n E) E t)" for t
  proof -
    have "returns (add_timeout t)"
      by (auto simp: add_timeout_def tm_append_def returns_def handler_simps Let_def)
    then show ?thesis unfolding handle_timeout_def advance_view_def
      by (auto intro!: returns_rules ret_frame returns_settled settled_verify split: option.split)
  qed
  have local_timeout [intro!]: "returns (local_timeout_round (send_consensus_req n E) E sl v)" for sl v
    unfolding local_timeout_round_def Let_def by (auto intro!: returns_rules ret_frame)
  have cert [intro!]: "returns (process_certificate (send_consensus_req n E) E c)" for c
    unfolding process_certificate_def by (auto intro!: returns_rules circle ret_frame)
  have header [intro!]: "returns (process_header (send_consensus_req n E) E h b)" for h b
    unfolding process_header_def adopt_tip_def vote_once_def cast_vote_def process_consensus_messages_def
      process_carried_message_def Let_def
    by (auto intro!: returns_rules circle ret_frame split: consensus_message.split)
  have own [intro!]: "returns (process_own_header (send_consensus_req n E) E h)" for h
    unfolding process_own_header_def Let_def by (auto intro!: returns_rules ret_frame)
  have loopback [intro!]: "returns (process_loopback (send_consensus_req n E) E m h)" for m h
    unfolding process_loopback_def by (auto intro!: returns_rules circle ret_frame split: consensus_message.split)
  have forwarded [intro!]: "returns (process_forwarded_message (send_consensus_req n E) E m)" for m
    unfolding process_forwarded_message_def by (auto intro!: returns_rules circle split: consensus_message.split)
  have arrive [intro!]: "returns (arrive n E m)" for m
    unfolding arrive_def handle_tc_def sanitize_header_def sanitize_vote_def sanitize_certificate_def Let_def
    by (auto intro!: returns_rules circle ret_frame returns_settled settled_rules settled_verify split: primary_message.split)
  have window [intro!]: "returns (async_timer_fired still_relevant (send_consensus_req n E))"
    unfolding async_timer_fired_def end_window_def
    by (auto intro!: returns_rules circle ret_frame split: async_effect_type.split option.split)
  have pop: "returns (pop_nth get put i k)" if "\<And>x. returns (k x)" for get put i k
    unfolding pop_nth_def using that by (auto intro!: returns_rules)
  have "returns (handle_event n E ev)"
    unfolding handle_event_def Let_def
    by (cases ev) (auto intro!: returns_rules pop circle ret_frame split: option.split prod.split)
  then have "returns (treat_error (handle_event n E ev))"
    by (auto simp: returns_def treat_error_def split: prod.split outcome.split) (metis snd_conv)
  then have "returns (core_step n E ev)" unfolding core_step_def by (intro returns_rules ret_frame)
  then show ?thesis by (simp add: returns_def)
qed

theorem turn_returns_witness:
  "snd (core_step (2 * (2 ^ 64 + 2 ^ 320) + 2) sample_env (Arrive (TCMsg default_tc)) sample_core) \<noteq> Diverge"
  by (rule turn_returns) (simp add: enough_fuel_def)

end
