(* ===== verification/Core_Faults.thy ===== *)
theory Core_Faults
  imports Core_Turn
begin

text \<open>
  What a faulty peer can do to a correct core: events that crash it, make it record commits
  nobody decided, vote for proposals nobody proposed, or vote in a view it has left. Each
  theorem exhibits the event and the reaction of the code.
\<close>

section \<open>Unchecked parent certificates\<close>

text \<open>
  C37: one authority can crash every correct node with one header. The parent certificate of a
  header is not verified: if it names a lane nobody has (with height 0, so that not even a
  stake is asked for), a validly signed header passes all checks and \<open>process_certificate\<close>
  unwraps the missing tip of that lane.
\<close>

theorem forged_parent_panics:
  assumes "honest_signer E sg a" and "0 < stake_of (cs_committee s) a" and "map_of (cs_certified_tips s) x = None"
  shows "\<exists>h. hd_author h = a \<and> header_verify E (cs_committee s) h = Done () \<and>
    snd (core_step n E (Arrive (HeaderMsg h sync)) s) = Panic"
proof -
  let ?h = "new_header E sg a 1 [] [] (default_certificate\<lparr>cert_author := x\<rparr>) [] 0"
  have valid: "header_verify E (cs_committee s) ?h = Done ()"
    using assms(1,2) by (simp add: header_verify_iff new_header_def Let_def honest_signer_def header_digest_def header_input_def)
  have "snd (handle_event n E (Arrive (HeaderMsg ?h sync)) s) = Panic"
    using valid assms(3)
    by (simp add: handle_event_def arrive_def sanitize_header_def process_header_def process_certificate_def
        write_store_def handler_simps Let_def new_header_def default_certificate_def)
  then show ?thesis using valid
    by (intro exI [of _ ?h]) (auto simp: core_step_def treat_error_def handler_simps new_header_def Let_def
        split: prod.splits outcome.splits)
qed

section \<open>Unchecked timeout certificates\<close>

text \<open>
  C38: a TC is acted on without any check: for every choice of proposals there is a TC, with a
  single unsigned timeout, on whose arrival the leader of the next view broadcasts a Prepare
  for exactly these proposals, as often as such TCs arrive.
\<close>

theorem forged_tc_dictates:
  assumes "get_leader (cs_committee s) sl (v + 1) = Some (cs_name s)" and "\<not> cs_use_ride_share s"
  shows "\<forall>ps. \<exists>t. length (tc_timeouts t) = 1 \<and>
    handle_tc req E t s = req (Prepare sl (v + 1) (Some t) None ps
      (get_pending_aggregate_report s (epoch_index_for_slot s sl))) s"
proof
  fix ps
  let ?t = "TC sl v [Timeout sl v (Some (Commit sl v default_qc ps None)) None default_key default_signature]"
  have "get_winning_proposals E (cs_committee s) ?t = ps"
    by (simp add: get_winning_proposals_def winner_qc_def)
  then show "\<exists>t. length (tc_timeouts t) = 1 \<and> handle_tc req E t s = req (Prepare sl (v + 1) (Some t) None ps
      (get_pending_aggregate_report s (epoch_index_for_slot s sl))) s"
    using assms by (intro exI [of _ ?t])
      (simp add: handle_tc_def generate_prepare_from_tc_def leader_of_def handler_simps Let_def)
qed

text \<open>
  a committed slot can be voted on again: with the empty TC for the view before, a Prepare
  of any later view and for any proposals passes \<open>is_valid\<close>, whether or not the slot is
  committed and whoever leads that view.
\<close>

theorem forged_tc_prepare_valid:
  assumes "0 < view" and "view_of s sl \<le> view" and "(sl, view) \<notin> cs_last_voted_consensus s"
  shows "\<forall>ps. \<exists>t. is_valid E (Prepare sl view (Some (TC sl (view - 1) [])) None ps None) s = (t, Done True) \<and>
    cs_committed_slots t = cs_committed_slots s \<and> cs_views t sl = Some view"
proof
  fix ps
  show "\<exists>t. is_valid E (Prepare sl view (Some (TC sl (view - 1) [])) None ps None) s = (t, Done True) \<and>
    cs_committed_slots t = cs_committed_slots s \<and> cs_views t sl = Some view"
  using assms
    by (auto simp: is_valid_def check_tc_def tc_verify_def eq_tc_def is_ok_def is_valid_prepare_def raise_view_def view_of_def get_winning_proposals_def winner_start_def handler_simps split: option.splits)
qed

section \<open>Unchecked commits\<close>

text \<open>What is left to do once a Commit is recorded.\<close>

definition after_record :: "req \<Rightarrow> 'p env_scheme \<Rightarrow> slot \<Rightarrow> view \<Rightarrow> qc \<Rightarrow> consensus_message \<Rightarrow> header \<Rightarrow> unit core_handler" where
  "after_record req E sl v q m h =
     seq_h (persist_coordination_certificate E sl v q)
    (seq_h (modify (apply_pending_parameters sl))
    (seq_h trigger_metrics
    (seq_h (start_commit_timer sl)
    (seq_h (bind_h (expect_h (synced (get_proposals E m h))) (\<lambda>hs. when_h (hs \<noteq> []) (to_committer m)))
      (try_prepare_waiting_slots req)))))"

lemma commit_split:
  assumes "\<not> cs_simulate_asynchrony s"
  shows "process_commit_message_core req E (Commit sl v q ps r) h s =
    after_record req E sl v q (Commit sl v q ps r) h (record_commit sl v q ps r s)"
  using assms
  by (simp add: process_commit_message_core_def after_record_def with_state_def when_h_def seq_h_def bind_h_def ret_def modify_def)

lemma commit_records:
  assumes "\<And>m. moves advances (req m)" and "\<not> cs_simulate_asynchrony s"
  shows "sl \<in> dom (cs_committed_slots (fst (process_commit_message_core req E (Commit sl v q ps r) h s)))"
proof -
  have "moves advances (after_record req E sl v q m h)" for m
    unfolding after_record_def
    by (intro adv.seq adv.bind adv.expect adv.when_cond adv_steps adv.to_committer_moves adv.waiting_moves assms(1))
  then have "advances (record_commit sl v q ps r s) (fst (after_record req E sl v q m h (record_commit sl v q ps r s)))" for m
    by (simp add: moves_def)
  then show ?thesis by (auto simp: commit_split [OF assms(2)] advances_def record_commit_def Let_def)
qed

text \<open>
  a forwarded Commit is believed without any check: whatever its certificate, and whoever
  sent it, on its arrival the node records the slot as committed.
\<close>

theorem forged_commit_recorded:
  assumes "\<not> cs_simulate_asynchrony s"
  shows "sl \<in> dom (cs_committed_slots (fst (handle_event n E (Arrive (ConsensusMsg (Commit sl v q ps r))) s)))"
  using commit_records [of "send_consensus_req n E", OF adv.send_req_moves assms]
  by (simp add: handle_event_def arrive_def process_forwarded_message_def with_state_def Let_def)

definition quiet_part :: "core \<Rightarrow> (consensus_message \<times> bool) list \<times> waiter_message list \<times> consensus_message list" where
  "quiet_part s = (cs_tx_committer s, sy_sent (cs_sync s), cs_prepare_tickets s)"

lemma quiet_steps:
  "moves (same quiet_part) (persist_coordination_certificate E sl v q)"
  "moves (same quiet_part) (modify (apply_pending_parameters sl))"
  "moves (same quiet_part) trigger_metrics"
  "moves (same quiet_part) (start_commit_timer sl)"
proof -
  have more: "quiet_part t = quiet_part s" if "core_params.more t = core_params.more s" for s t :: core
    using that by (cases t, cases s) (simp add: quiet_part_def)
  show "moves (same quiet_part) (modify (apply_pending_parameters sl))"
    by (rule frame.modify) (simp add: same_def more [OF apply_pending_more])
qed (auto intro!: frame.rules frame.with_state frame.modify
    simp: same_def quiet_part_def persist_coordination_certificate_def write_store_def trigger_metrics_def
      send_metrics_request_def start_commit_timer_def start_timer_def Let_def split: option.split)

lemma get_proposals_zero:
  assumes "\<forall>x \<in> set ps. prop_height (snd x) = 0"
  shows "get_proposals E (Commit sl v q ps r) h = ret []"
proof -
  have "fold_h (proposal_step E (Commit sl v q ps r) h) xs acc = ret acc" if "set xs \<subseteq> set ps" for xs acc
    using that by (induction xs) (use assms in \<open>auto simp: proposal_step_def commit_proposal_def\<close>)
  then show ?thesis by (simp add: get_proposals_def)
qed

lemma synced_of_ret [simp]: "synced (ret a) = ret a"
  by (simp add: synced_def zoom_def ret_def)

lemma expect_of_ret [simp]: "expect_h (ret a) = ret a"
  by (simp add: expect_h_def ret_def)

text \<open>
  a Commit without proposals (a Byzantine leader can get one certified, since proposals
  are not part of what is signed) is recorded but never reaches the committer, and nothing
  is requested that could bring it there later: execution stops at its slot.
\<close>

theorem empty_commit_stuck:
  assumes "\<forall>x \<in> set ps. prop_height (snd x) = 0" and "cs_prepare_tickets s = []" and "\<not> cs_simulate_asynchrony s"
    and "\<And>m. moves advances (req m)"
  shows "\<exists>t res. process_commit_message_core req E (Commit sl v q ps r) h s = (t, res) \<and>
    cs_committed_slots t sl \<noteq> None \<and> cs_tx_committer t = cs_tx_committer s \<and> sy_sent (cs_sync t) = sy_sent (cs_sync s)"
proof -
  define u where "u = record_commit sl v q ps r s"
  define quiet where "quiet t \<longleftrightarrow> quiet_part t = quiet_part u \<and> cs_prepare_tickets t = []" for t
  have "quiet_part u = quiet_part s"
  proof -
    have "cs_tx_committer t = cs_tx_committer w \<and> cs_sync t = cs_sync w \<and> cs_prepare_tickets t = cs_prepare_tickets w"
      if "core_params.more t = core_params.more w" for t w :: core
      using that by (cases t, cases w) simp
    from this [OF note_slot_more] show ?thesis by (simp add: u_def record_commit_def quiet_part_def Let_def)
  qed
  have step: "moves (keeps quiet) g" if "moves (same quiet_part) g" for g :: "unit core_handler"
    using that by (auto simp: moves_def same_def keeps_def quiet_def quiet_part_def)
  have "moves (keeps quiet) (try_prepare_waiting_slots req)"
    by (simp add: moves_def keeps_def quiet_def try_prepare_waiting_slots_def with_state_def ret_def)
  then have "moves (keeps quiet) (after_record req E sl v q (Commit sl v q ps r) h)" (is "moves _ ?rest")
    unfolding after_record_def get_proposals_zero [OF assms(1)] synced_of_ret expect_of_ret bind_h_ret
    by (intro keeping.when_cond keeping.seq keeping.ret step [OF quiet_steps(1)] step [OF quiet_steps(2)] step [OF quiet_steps(3)]
        step [OF quiet_steps(4)]) simp_all
  then have "quiet (fst (?rest u))"
    using \<open>quiet_part u = quiet_part s\<close> assms(2) by (auto simp: moves_def keeps_def quiet_def quiet_part_def)
  moreover have "process_commit_message_core req E (Commit sl v q ps r) h s = ?rest u"
    using commit_split [OF assms(3)] by (simp add: u_def)
  moreover have "sl \<in> dom (cs_committed_slots (fst (process_commit_message_core req E (Commit sl v q ps r) h s)))"
    by (rule commit_records [OF assms(4,3)])
  ultimately show ?thesis using \<open>quiet_part u = quiet_part s\<close>
    by (intro exI [of _ "fst (?rest u)"] exI [of _ "snd (?rest u)"]) (auto simp: quiet_def quiet_part_def)
qed

section \<open>Unchecked forwarded Prepares\<close>

text \<open>
  the next leader can be crashed by one message: a forwarded Prepare, which nobody has to
  sign, that proposes nothing for a lane the leader has a tip of makes
  \<open>enough_coverage\<close> unwrap the missing proposal.
\<close>

theorem incomplete_prepare_panics:
  assumes "get_leader (cs_committee s) (sl + 1) 1 = Some (cs_name s)" and "sl + 1 \<notin> cs_already_proposed s"
    and "sl + 1 \<le> effective_k_for_prepare_slot s (sl + 1)" and "tips s = (a, p) # ts"
  shows "snd (core_step n E (Arrive (ConsensusMsg (Prepare sl v tc ticket [] r))) s) = Panic"
proof -
  have "snd (handle_event n E (Arrive (ConsensusMsg (Prepare sl v tc ticket [] r))) s) = Panic"
    using assms leD [OF assms(3)]
    by (simp add: handle_event_def arrive_def process_forwarded_message_def is_prepare_ticket_ready_def leader_of_def
        enough_coverage_def handler_simps Let_def)
  then show ?thesis
    by (auto simp: core_step_def treat_error_def handler_simps split: prod.splits outcome.splits)
qed

section \<open>Votes in views that are over\<close>

text \<open>
  a Prepare that had to wait for its proposals is voted on when they arrive even if the
  node has moved to a later view in the meantime: \<open>process_loopback\<close> checks only that it has
  not voted in that view yet.
\<close>

theorem loopback_votes_in_old_view:
  assumes "view < view_of s sl" and "(sl, view) \<notin> cs_last_voted_consensus s" and "\<not> cs_use_ride_share s"
    and "ce_use_optimistic_tips s" and "get_leader (cs_committee s) (sl + 1) 1 = Some l" and "l \<noteq> cs_name s"
  shows "(sl, view) \<in> cs_last_voted_consensus (fst (handle_event n E (InstanceBack (Prepare sl view tc ticket [] r) h) s))"
proof -
  let ?m = "Prepare sl view tc ticket [] r" and ?req = "send_consensus_req n E"
  define vote :: "sigs \<Rightarrow> unit core_handler" where "vote sigs = (if sigs = [] then ret ()
        else case last sigs of (sl, d, sg) \<Rightarrow> with_state (\<lambda>s.
          let v = \<lparr>cv_author = cs_name s, cv_slot = sl, cv_digest = d, cv_sig = sg\<rparr>
          in if hd_author h = cs_name s then expect_h (process_consensus_vote ?req E v False)
             else send_msg E (ConsensusVoteMsg v) sl (Some (hd_author h)) True))" for sigs
  have ready: "optimistic_tips_ready E ?m g = ret True" for g by (simp add: optimistic_tips_ready_def)
  obtain t sigs where t: "process_prepare_message ?req E ?m [] s = (t, Done sigs)" "(sl, view) \<in> cs_last_voted_consensus t"
  proof -
    have "is_prepare_ticket_ready ?req ?m s = (s, Done ())"
      using assms(5,6) by (simp add: is_prepare_ticket_ready_def leader_of_def handler_simps)
    moreover obtain s1 where "start_next_timer sl s = (s1, Done ())"
      by (fastforce simp: start_next_timer_def start_timer_def handler_simps Let_def)
    ultimately show thesis
      using that by (auto simp: process_prepare_message_def seq_h_def bind_h_def ignore_err_def modify_def ret_def)
  qed
  have "moves advances (vote sigs)" for sigs
    unfolding vote_def Let_def
    by (auto intro!: adv.ret adv.with_state adv.expect adv.process_vote_moves adv.send_req_moves adv_steps split: prod.split)
  then have "advances t (fst (vote sigs t))" by (simp add: moves_def)
  moreover have "handle_event n E (InstanceBack ?m h) s = vote sigs t"
    using assms(2-4) t(1)
    by (simp add: handle_event_def process_loopback_def process_consensus_message_def ready vote_def [abs_def] with_state_def
        bind_h_Done Let_def)
  ultimately show ?thesis using t(2) by (auto simp: advances_def)
qed

lemma timeout_below_quorum:
  assumes "cs_committed_slots a (to_slot t) = None"
    and "\<not> (case cs_views a (to_slot t) of Some w \<Rightarrow> to_view t < w | None \<Rightarrow> False)"
    and "cs_tc_makers a (to_slot t, to_view t) = None"
    and "stake_of (cs_committee a) (to_author t) < quorum_threshold (cs_committee a)"
  shows "\<exists>m res. handle_timeout req E t a = (a\<lparr>cs_tc_makers := m\<rparr>, res)"
proof (cases "timeout_verify E (cs_committee a) t")
  case (Done x)
  have "\<not> quorum_threshold (cs_committee a) \<le> stake_of (cs_committee a) (to_author t)" using assms(4) by simp
  with Done assms have "handle_timeout req E t a = (a\<lparr>cs_tc_makers := (cs_tc_makers a)((to_slot t, to_view t) \<mapsto>
      fst (tm_append (cs_committee a) t tm_new))\<rparr>, Done ())"
    by (simp add: handle_timeout_def add_timeout_def tm_append_def tm_new_def handler_simps Let_def)
  then show ?thesis by blast
next
  case (Fail e)
  with assms have "handle_timeout req E t a = (a\<lparr>cs_tc_makers := cs_tc_makers a\<rparr>, Fail e)"
    by (simp add: handle_timeout_def handler_simps)
  then show ?thesis by blast
next
  case Panic
  with assms have "handle_timeout req E t a = (a\<lparr>cs_tc_makers := cs_tc_makers a\<rparr>, Panic)"
    by (simp add: handle_timeout_def handler_simps)
  then show ?thesis by blast
next
  case Diverge
  with assms have "handle_timeout req E t a = (a\<lparr>cs_tc_makers := cs_tc_makers a\<rparr>, Diverge)"
    by (simp add: handle_timeout_def handler_simps)
  then show ?thesis by blast
qed

text \<open>
  a timeout does not end the view for the node that sent it: after broadcasting a Timeout
  without any QC for the current view, it still accepts a Confirm of that view, and votes
  for it. So a value can be committed in a view whose TC does not show it.
\<close>

theorem timeout_keeps_voting:
  assumes "(sl, v) \<in> cs_timers s" and "cs_committed_slots s sl = None" and "view_of s sl \<le> v"
    and "cs_high_qcs s sl = None" and "cs_effect s = Off" and "cs_tc_makers s (sl, v) = None"
    and "stake_of (cs_committee s) (cs_name s) < quorum_threshold (cs_committee s)"
    and "verify_confirm E (cs_committee s) (Confirm sl v q ps r)"
  shows "\<exists>t res u. local_timeout_round req E sl v s = (t, res) \<and>
    cs_network t = cs_network s @ copies (TimeoutMsg (new_timeout E (e_sign E) sl v None (cs_high_proposals s sl) (cs_name s)))
      (other_primaries s) \<and>
    is_valid E (Confirm sl v q ps r) t = (u, Done True)"
proof -
  let ?t = "new_timeout E (e_sign E) sl v None (cs_high_proposals s sl) (cs_name s)"
  obtain a where a: "send_msg E (TimeoutMsg ?t) sl None True s = (a, Done ())" "sans_net a = sans_net s"
      "cs_network a = cs_network s @ copies (TimeoutMsg ?t) (other_primaries s)"
    using broadcast_reaches_all [OF assms(5)] by blast
  have same: "cs_views a = cs_views s" "cs_committed_slots a = cs_committed_slots s" "cs_tc_makers a = cs_tc_makers s"
    "cs_committee a = cs_committee s"
    using arg_cong [OF a(2), of cs_views] arg_cong [OF a(2), of cs_committed_slots] arg_cong [OF a(2), of cs_tc_makers]
      arg_cong [OF a(2), of cs_committee] by (simp_all add: sans_net_def)
  have old: "\<not> (case cs_views s sl of Some w \<Rightarrow> v < w | None \<Rightarrow> False)"
    using assms(3) by (auto simp: view_of_def split: option.splits)
  obtain m res where h: "handle_timeout req E ?t a = (a\<lparr>cs_tc_makers := m\<rparr>, res)"
  proof -
    have t: "to_slot ?t = sl" "to_view ?t = v" "to_author ?t = cs_name s" by (simp_all add: new_timeout_def)
    have "\<exists>m res. handle_timeout req E ?t a = (a\<lparr>cs_tc_makers := m\<rparr>, res)"
      by (rule timeout_below_quorum) (use assms(2,6,7) old in \<open>simp_all only: t same not_False_eq_True\<close>)
    then show thesis using that by blast
  qed
  have "local_timeout_round req E sl v s = (a\<lparr>cs_tc_makers := m\<rparr>, res)"
    using assms(1,2,4) old a(1) h
    by (simp add: local_timeout_round_def with_state_def seq_h_def bind_h_def Let_def)
  moreover have "\<exists>u. is_valid E (Confirm sl v q ps r) (a\<lparr>cs_tc_makers := m\<rparr>) = (u, Done True)"
    using assms(3,8) same by (simp add: is_valid_def view_of_def handler_simps del: verify_confirm.simps)
  ultimately show ?thesis using a(3) by auto
qed

section \<open>Concrete instances\<close>

lemma sample_fields:
  "cs_name sample_core = PublicKey 1" "cs_committee sample_core = sample_committee" "cs_effect sample_core = Off"
  "cs_views sample_core = Map.empty" "cs_last_voted_consensus sample_core = {}" "cs_already_proposed sample_core = {}"
  "cs_committed_slots sample_core = Map.empty" "cs_tc_makers sample_core = Map.empty" "cs_high_qcs sample_core = Map.empty"
  "cs_certified_tips sample_core = []" "cs_timers sample_core = {}" "cs_prepare_tickets sample_core = []"
  "cs_simulate_asynchrony sample_core = simulate_asynchrony default_parameters"
  "cs_use_ride_share sample_core = use_ride_share default_parameters"
  by (simp_all add: sample_core_def core_new_def core_params.extend_def)

lemma sample_leader: "get_leader sample_committee sl v = Some ([PublicKey 1, PublicKey 2, PublicKey 3, PublicKey 4] ! (unat (v + sl) mod 4))"
  by (simp add: get_leader_def leader_keys_def committee_size_def sample_authorities less_eq_public_key_def Let_def)

theorem forged_parent_panics_witness:
  "\<exists>h. snd (core_step 2 sample_env (Arrive (HeaderMsg h False)) sample_core) = Panic"
  using forged_parent_panics [of sample_env "\<lambda>_. sample_signature" "PublicKey 2" sample_core "PublicKey 99" 2 False]
  by (auto simp: sample_env_signer sample_fields sample_stake)

theorem forged_tc_dictates_witness:
  "\<exists>t. length (tc_timeouts t) = 1 \<and> handle_tc (\<lambda>m s. (s\<lparr>cs_tx_info := [m]\<rparr>, Done ())) sample_env t (sample_core\<lparr>cs_use_ride_share := False\<rparr>) =
     (sample_core\<lparr>cs_use_ride_share := False, cs_tx_info := [Prepare 3 5 (Some t) None [(PublicKey 9, \<lparr>prop_digest = Digest 5, prop_height = 7\<rparr>)]
        (get_pending_aggregate_report sample_core (epoch_index_for_slot sample_core 3))]\<rparr>, Done ())"
  using forged_tc_dictates [where s = "sample_core\<lparr>cs_use_ride_share := False\<rparr>" and sl = 3 and v = 4
      and E = sample_env and req = "\<lambda>m s. (s\<lparr>cs_tx_info := [m]\<rparr>, Done ())"]
  by (auto simp: sample_fields sample_leader get_pending_aggregate_report_def epoch_index_for_slot_def)

theorem forged_tc_prepare_valid_witness:
  "\<exists>t. is_valid sample_env (Prepare 1 1 (Some (TC 1 0 [])) None [(PublicKey 9, \<lparr>prop_digest = Digest 5, prop_height = 7\<rparr>)] None) sample_core = (t, Done True)"
  using forged_tc_prepare_valid [of 1 sample_core 1 sample_env] by (auto simp: sample_fields view_of_def)

theorem forged_commit_recorded_witness:
  "5 \<in> dom (cs_committed_slots (fst (handle_event 2 sample_env (Arrive (ConsensusMsg (Commit 5 1 default_qc [] None)))
     (sample_core\<lparr>cs_simulate_asynchrony := False\<rparr>))))"
  by (rule forged_commit_recorded) simp

theorem empty_commit_stuck_witness:
  "\<exists>t res. process_commit_message_core (\<lambda>_. ret ()) sample_env (Commit 5 1 default_qc [] None) default_header
     (sample_core\<lparr>cs_simulate_asynchrony := False\<rparr>) = (t, res) \<and> cs_committed_slots t 5 \<noteq> None \<and> cs_tx_committer t = cs_tx_committer sample_core"
  using empty_commit_stuck [of "[]" "sample_core\<lparr>cs_simulate_asynchrony := False\<rparr>" "\<lambda>_. ret ()" sample_env 5 1 default_qc None default_header]
  by (auto simp: sample_fields adv.ret)

theorem incomplete_prepare_panics_witness:
  "snd (core_step 2 sample_env (Arrive (ConsensusMsg (Prepare 0 0 None None [] None)))
     (sample_core\<lparr>cs_name := PublicKey 3, ce_use_optimistic_tips := True, ce_k := 4, ce_last_used_k := 4, ce_k_transition_end_slot := None,
        cs_proposal_tips := [(PublicKey 2, \<lparr>prop_digest = Digest 5, prop_height = 7\<rparr>)]\<rparr>)) = Panic"
  by (rule incomplete_prepare_panics)
    (simp_all add: sample_fields sample_leader tips_def effective_k_for_prepare_slot_def base_k_for_slot_def
      k_with_transition_guard_def word_le_nat_alt split: option.split)

theorem loopback_votes_in_old_view_witness:
  "(1, 1) \<in> cs_last_voted_consensus (fst (handle_event 2 sample_env (InstanceBack (Prepare 1 1 None None [] None) default_header)
     (sample_core\<lparr>cs_views := [1 \<mapsto> 2], cs_use_ride_share := False, ce_use_optimistic_tips := True\<rparr>)))"
  by (rule loopback_votes_in_old_view [where l = "PublicKey 4"])
    (simp_all add: sample_fields sample_leader view_of_def)

lemma sample_env_qc: "qc_verify sample_env sample_committee \<lparr>qc_id = d, qc_votes = sample_votes [1, 2, 3]\<rparr> = Done ()"
proof -
  have "verify_batch sample_env d vs = Done ()" for vs
    by (simp add: verify_batch_Done vote_wf_def sample_env_def codec.extend_def env.fields_def sample_codec_def
        prims.extend_def codec.fields_def sample_prims_def)
  then show ?thesis
    by (simp add: qc_verify_Done voters_ok_def sample_votes_def sample_stake sample_quorum_word)
qed

theorem timeout_keeps_voting_witness:
  "let q = \<lparr>qc_id = prepare_digest sample_env 1 1 None, qc_votes = sample_votes [1, 2, 3]\<rparr> in
   \<exists>t res u. local_timeout_round (\<lambda>_. ret ()) sample_env 1 1 (sample_core\<lparr>cs_timers := {(1, 1)}\<rparr>) = (t, res) \<and>
     is_valid sample_env (Confirm 1 1 q [] None) t = (u, Done True)"
  using timeout_keeps_voting [of 1 1 "sample_core\<lparr>cs_timers := {(1, 1)}\<rparr>" sample_env
      "\<lparr>qc_id = prepare_digest sample_env 1 1 None, qc_votes = sample_votes [1, 2, 3]\<rparr>" "[]" None "\<lambda>_. ret ()"]
  by (auto simp: sample_fields view_of_def sample_stake sample_quorum_word verify_confirm_iff sample_env_qc Let_def
      simp del: verify_confirm.simps)

end
