(* ===== verification/Core_Votes.thy ===== *)
theory Core_Votes
  imports Core_Turn
begin

text \<open>
  What a correct core promises about voting and proposing: at most one vote for a Prepare per
  slot and view and one vote per lane and height, the exact conditions under which a Prepare
  is accepted and a slot is proposed, and progress that is never undone.
\<close>

section \<open>Runs\<close>

definition turns :: "nat \<Rightarrow> 'p env_scheme \<Rightarrow> core \<Rightarrow> core \<Rightarrow> bool" where
  "turns n E = (\<lambda>s t. \<exists>ev. t = fst (core_step n E ev s))\<^sup>*\<^sup>*"

definition events :: "nat \<Rightarrow> 'p env_scheme \<Rightarrow> core \<Rightarrow> core \<Rightarrow> bool" where
  "events n E = (\<lambda>s t. \<exists>ev. t = fst (handle_event n E ev s))\<^sup>*\<^sup>*"

context turn_order
begin

lemma turns_climb: "turns n E s t \<Longrightarrow> R s t"
  unfolding turns_def
proof (induction rule: rtranclp_induct)
  case (step t u)
  then obtain ev where "u = fst (core_step n E ev t)" by blast
  then have "R t u" using at [OF turn_moves, of t n E ev] by simp
  with step.IH show ?case by (rule trans)
qed (rule refl)

end

context event_order
begin

lemma events_climb: "events n E s t \<Longrightarrow> R s t"
  unfolding events_def
proof (induction rule: rtranclp_induct)
  case (step t u)
  then obtain ev where "u = fst (handle_event n E ev t)" by blast
  then have "R t u" using at [OF event_moves, of t n E ev] by simp
  with step.IH show ?case by (rule trans)
qed (rule refl)

end

section \<open>Votes for Prepares\<close>

text \<open>Marks of votes are only dropped for slots below the highest committed one.\<close>

definition remembers :: "core \<Rightarrow> core \<Rightarrow> bool" where
  "remembers s t \<longleftrightarrow> ce_last_committed_slot s \<le> ce_last_committed_slot t \<and>
     (\<forall>x \<in> cs_last_voted_consensus s. x \<in> cs_last_voted_consensus t \<or> fst x < ce_last_committed_slot t)"

lemma sat_sub_le: "sat_sub a b \<le> a"
  by (simp add: word_le_nat_alt unat_sat_sub)

interpretation marks: turn_order remembers
proof
  show "remembers s u" if "remembers s t" "remembers t u" for s t u
    using that unfolding remembers_def by (meson order_trans less_le_trans)
  show "remembers s t" if "order_part t = order_part s" for s t
    using that by (simp add: part_defs remembers_def)
  show "remembers s (s\<lparr>ce_last_committed_slot := max sl (ce_last_committed_slot s),
      cs_committed_slots := (cs_committed_slots s)(sl \<mapsto> q)\<rparr>)" for s sl q
    by (simp add: remembers_def)
  show "remembers s (collect_garbage s)" for s
  proof -
    have "slot_cutoff s \<le> ce_last_committed_slot s" by (simp add: slot_cutoff_def sat_sub_le)
    then show ?thesis
      by (auto simp: remembers_def collect_garbage_def retain_slots_def slot_cutoff_def Let_def not_le
          intro: less_le_trans)
  qed
qed (auto simp: remembers_def)

lemma invalid_when_voted:
  assumes "(sl, view) \<in> cs_last_voted_consensus s"
  shows "snd (is_valid E (Prepare sl view tc ticket ps r) s) \<noteq> Done True"
  using assms
  by (auto simp: is_valid_def is_valid_prepare_def raise_view_def note_report_def handler_simps Let_def
      split: option.splits outcome.splits)

lemma is_valid_quiet: "moves (same cs_network) (is_valid E m)"
  unfolding is_valid_def is_valid_prepare_def
  by (auto intro!: frame.rules frame.with_state frame.modify simp: same_def raise_view_def note_report_def Let_def
      split: consensus_message.split option.split)

lemma seq_Done: "seq_h h k s = (t, Done b) \<longleftrightarrow> (\<exists>u. h s = (u, Done ()) \<and> k u = (t, Done b))"
  by (auto simp: seq_h_def bind_h_def split: prod.splits outcome.splits)

lemma request_quiet:
  assumes "(sl, view) \<in> cs_last_voted_consensus t" and m_def: "m = Prepare sl view tc ticket ps r"
  shows "cs_network (fst (process_consensus_request req E \<lparr>cr_author = a, cr_message = m, cr_sig = sg\<rparr> t)) = cs_network t"
proof -
  let ?u = "note_instance E m t"
  have u: "cs_network ?u = cs_network t" "(sl, view) \<in> cs_last_voted_consensus ?u"
    using assms(1) by (simp_all add: m_def note_instance_def)
  obtain w res where w: "is_valid E m ?u = (w, res)" by (metis surj_pair)
  have "cs_network w = cs_network ?u" using moves_stateD [OF is_valid_quiet w] by (simp add: same_def)
  moreover have "res \<noteq> Done True" using invalid_when_voted [OF u(2), of E tc ticket ps r] w by (simp add: m_def)
  ultimately show ?thesis using u(1) w
    by (cases res) (auto simp: process_consensus_request_def seq_h_def bind_h_def modify_def with_state_def when_h_def
        of_result_def ret_def split: outcome.split)
qed

text \<open>
  C2: a correct node votes for at most one Prepare per slot and view. Voting leaves a mark, the
  mark survives every turn until a later slot is committed, and while it stands no Prepare of
  that slot and view is valid: a request with one sends nothing, and neither does one that
  comes back from synchronization.
\<close>

theorem prepare_vote_once:
  fixes m :: consensus_message
  assumes "turns n E s t" and "(sl, view) \<in> cs_last_voted_consensus s" and "ce_last_committed_slot t \<le> sl"
    and "m = Prepare sl view tc ticket ps r"
  shows "(sl, view) \<in> cs_last_voted_consensus t \<and> snd (is_valid E m t) \<noteq> Done True \<and>
    cs_network (fst (process_consensus_request req E \<lparr>cr_author = a, cr_message = m, cr_sig = sg\<rparr> t)) = cs_network t \<and>
    (\<not> cs_use_ride_share t \<longrightarrow> process_loopback req E m h t = (t, Done ())) \<and>
    (\<forall>u v sigs. process_prepare_message req E m [] u = (v, Done sigs) \<longrightarrow> (sl, view) \<in> cs_last_voted_consensus v)"
proof (intro conjI impI allI)
  have "remembers s t" using assms(1) by (rule marks.turns_climb)
  then show marked: "(sl, view) \<in> cs_last_voted_consensus t"
    using assms(2,3) by (auto simp: remembers_def)
  show "snd (is_valid E m t) \<noteq> Done True"
    unfolding assms(4) using marked by (rule invalid_when_voted)
  show "cs_network (fst (process_consensus_request req E \<lparr>cr_author = a, cr_message = m, cr_sig = sg\<rparr> t)) = cs_network t"
    using marked assms(4) by (rule request_quiet)
  show "process_loopback req E m h t = (t, Done ())" if "\<not> cs_use_ride_share t"
    using that marked by (simp add: process_loopback_def assms(4) handler_simps)
  show "(sl, view) \<in> cs_last_voted_consensus v"
    if "process_prepare_message req E m [] u = (v, Done sigs)" for u v sigs
    using that unfolding process_prepare_message_def assms(4) consensus_message.case seq_Done
    by (elim exE conjE) (auto simp: modify_def ret_def)
qed

section \<open>Votes for headers\<close>

definition keeps_voters :: "core \<Rightarrow> core \<Rightarrow> bool" where
  "keeps_voters s t \<longleftrightarrow> (\<forall>h. voters_at s h \<subseteq> voters_at t h)"

interpretation voters: event_order keeps_voters
proof
  show "keeps_voters s t" if "order_part t = order_part s" for s t
    using that by (simp add: part_defs keeps_voters_def voters_at_def)
qed (auto simp: keeps_voters_def voters_at_def)

text \<open>
  C3: a correct node votes for one header per lane and height: once \<open>vote_once\<close> has run for a
  header, then whatever events arrive before the next garbage collection, it does nothing
  for any other header of the same author and height.
\<close>

theorem lane_vote_once:
  assumes "events n E (fst (vote_once (send_consensus_req n E) E h s)) t"
    and "hd_author h' = hd_author h" and "hd_height h' = hd_height h"
  shows "vote_once (send_consensus_req n E) E h' t = (t, Done ())"
proof -
  let ?s = "s\<lparr>cs_last_voted := (cs_last_voted s)(hd_height h \<mapsto> insert (hd_author h) (voters_at s (hd_height h)))\<rparr>"
  have "fst (vote_once (send_consensus_req n E) E h s) =
      fst (when_h (hd_author h \<notin> voters_at s (hd_height h)) (cast_vote (send_consensus_req n E) E h) ?s)"
    by (simp add: vote_once_def voters_at_def [symmetric] with_state_def seq_h_def bind_h_def modify_def Let_def)
  moreover have "keeps_voters ?s (fst (when_h b (cast_vote (send_consensus_req n E) E h) ?s))" for b
    by (intro voters.at voters.when_cond voters.cast_vote_moves voters.send_req_moves)
  ultimately have "keeps_voters ?s (fst (vote_once (send_consensus_req n E) E h s))" by (simp only:)
  then have "voters_at ?s (hd_height h) \<subseteq> voters_at (fst (vote_once (send_consensus_req n E) E h s)) (hd_height h)"
    by (simp only: keeps_voters_def)
  moreover have "hd_author h \<in> voters_at ?s (hd_height h)" by (simp add: voters_at_def)
  ultimately have "hd_author h \<in> voters_at (fst (vote_once (send_consensus_req n E) E h s)) (hd_height h)" by blast
  then have "hd_author h \<in> voters_at t (hd_height h)"
    using voters.events_climb [OF assms(1)] by (auto simp: keeps_voters_def)
  then obtain A where A: "cs_last_voted t (hd_height h) = Some A" "hd_author h \<in> A"
    by (auto simp: voters_at_def split: option.splits)
  then have "(cs_last_voted t)(hd_height h \<mapsto> insert (hd_author h) A) = cs_last_voted t"
    by (simp add: insert_absorb fun_upd_idem)
  then show ?thesis using A assms(2,3)
    by (simp add: vote_once_def with_state_def seq_h_def bind_h_def modify_def when_h_def ret_def Let_def)
qed

section \<open>Which Prepares are accepted\<close>

text \<open>
  C8: the exact condition under which a Prepare without TC and report is accepted: only with
  parallel proposals, only in view 1, which the node has neither left nor voted in, and only
  within the window of open instances: the slot is one of the first \<open>k\<close>, or the slot \<open>k\<close>
  places before is committed here, or the ticket is a certified Commit of exactly that slot.
\<close>

theorem prepare_accepted_iff:
  "snd (is_valid E (Prepare sl view None ticket ps None) s) = Done True \<longleftrightarrow>
   cs_use_parallel_proposals s \<and> view = 1 \<and> view_of s sl \<le> 1 \<and> (sl, 1) \<notin> cs_last_voted_consensus s \<and>
   (let k = (case ticket of Some q \<Rightarrow> effective_k_for_qc_slot s (cq_slot q) | None \<Rightarrow> ce_k s) in
    sl \<le> k \<or> sl - k \<in> dom (cs_committed_slots s) \<or>
    (\<exists>q. ticket = Some q \<and> cq_slot q + k = sl \<and> verify_commit E (cs_committee s) (transform_commitQC q)))"
proof -
  have one: "x = 1" if "x \<le> 1" "x \<noteq> 0" for x :: view
    using that by (metis One_nat_def le_Suc_eq le_zero_eq unat_1 unat_eq_zero word_le_nat_alt word_unat_eq_iff)
  show ?thesis
    by (auto simp: is_valid_def check_ticket_def is_valid_prepare_def raise_view_def handler_simps view_of_def Let_def
        not_less not_le one dom_def split: option.splits)
qed

section \<open>Which slots are proposed\<close>


section \<open>Progress is never undone\<close>

text \<open>
  C4: no consensus message undoes progress. Whatever request, vote or forwarded message
  arrives, and however its processing ends: views only grow, votes, proposed slots,
  commits and sent Confirms stay, and what was handed to the committer stays handed over.
\<close>

theorem consensus_never_undone:
  "advances s (fst (process_consensus_request (send_consensus_req n E) E q s)) \<and>
   advances s (fst (process_consensus_vote (send_consensus_req n E) E v loopback s)) \<and>
   advances s (fst (process_forwarded_message (send_consensus_req n E) E m s)) \<and>
   advances s (fst (send_consensus_req n E m s))"
  using adv.send_req_moves
  by (blast intro: adv.at adv.process_request_moves adv.process_vote_moves adv.forwarded_moves)

section \<open>Concrete instances\<close>

theorem prepare_vote_once_witness:
  "snd (is_valid sample_env (Prepare 1 1 None None [] None) (sample_core\<lparr>cs_last_voted_consensus := {(1, 1)}\<rparr>)) \<noteq> Done True"
proof -
  let ?s = "sample_core\<lparr>cs_last_voted_consensus := {(1, 1)}\<rparr>"
  have "turns 2 sample_env ?s ?s" by (simp add: turns_def)
  moreover have "ce_last_committed_slot ?s \<le> 1" by (simp add: sample_core_def core_new_def core_params.extend_def)
  ultimately show ?thesis
    using prepare_vote_once [of 2 sample_env ?s ?s 1 1 "Prepare 1 1 None None [] None"] by simp
qed

theorem lane_vote_once_witness:
  "let t = fst (vote_once (send_consensus_req 2 sample_env) sample_env (lane_header 2) sample_core) in
   vote_once (send_consensus_req 2 sample_env) sample_env (lane_header 2\<lparr>hd_id := Digest 3\<rparr>) t = (t, Done ())"
proof -
  let ?t = "fst (vote_once (send_consensus_req 2 sample_env) sample_env (lane_header 2) sample_core)"
  have "events 2 sample_env ?t ?t" by (simp add: events_def)
  from lane_vote_once [OF this, of "lane_header 2\<lparr>hd_id := Digest 3\<rparr>"] show ?thesis by (simp add: Let_def)
qed


end
