(* ===== verification/Proposer.thy ===== *)
theory Proposer
  imports Signing
begin

text \<open>
  The proposer (\<open>primary/src/proposer.rs\<close>): it collects batch digests of the own workers,
  consensus messages of the core and the certificate of the last own header, and makes the
  next header of the own lane.

  One turn of \<open>run\<close> is the check at the top of the loop followed by one branch of the
  \<open>select!\<close>. Instants are natural numbers of milliseconds; a turn takes the time at which it
  starts, and the timer has expired when its deadline is not later. Headers sent to the core
  are appended to \<open>po_sent\<close>. Logging is left out.
\<close>

section \<open>State and operations\<close>

record proposer =
  po_name :: public_key
  po_committee :: committee
  po_header_size :: u64
  po_max_header_delay :: u64
  po_height :: height
  po_last_parent :: "certificate option"
  po_consensus_instances :: "(digest \<times> consensus_message) list"
  po_digests :: "(digest \<times> worker_id \<times> batch_metadata) list"
  po_payload_size :: u64
  po_num_active_instances :: u64
  po_use_special_rule :: bool
  po_is_special :: bool
  po_deadline :: nat
  po_sent :: "header list"

type_synonym 'a proposer_handler = "(proposer, dag_error, 'a) handler"

datatype proposer_event =
    NewInstance consensus_message
  | NewParent certificate
  | NewBatch digest worker_id batch_metadata
  | NewParams u64 u64
  | DeadlinePassed

definition proposer_new :: "'p prims_scheme \<Rightarrow> public_key \<Rightarrow> committee \<Rightarrow> u64 \<Rightarrow> u64 \<Rightarrow> (dag_error, proposer) outcome" where
  "proposer_new P name c hs delay = bind_r (genesis_cert P c) (\<lambda>genesis.
     Done \<lparr>po_name = name, po_committee = c, po_header_size = hs, po_max_header_delay = delay,
       po_height = 0, po_last_parent = Some genesis, po_consensus_instances = [], po_digests = [],
       po_payload_size = 0, po_num_active_instances = 0, po_use_special_rule = False,
       po_is_special = False, po_deadline = unat delay, po_sent = []\<rparr>)"

text \<open>\<open>collect()\<close> into a \<open>BTreeMap\<close>: a later entry replaces an earlier one of the same digest.\<close>

definition drained_payload :: "(digest \<times> worker_id \<times> batch_metadata) list \<Rightarrow> (digest \<times> worker_id) list" where
  "drained_payload ds = fold (\<lambda>(d, w, _). bt_insert d w) ds []"

definition drained_metadata :: "(digest \<times> worker_id \<times> batch_metadata) list \<Rightarrow> (digest \<times> batch_metadata) list" where
  "drained_metadata ds = fold (\<lambda>(d, _, m). bt_insert d m) ds []"

definition make_header :: "'p prims_scheme \<Rightarrow> (digest \<Rightarrow> signature) \<Rightarrow> unit proposer_handler" where
  "make_header P sign = with_state (\<lambda>s. let drained = po_digests s in
     seq_h (modify (\<lambda>s. s\<lparr>po_digests := []\<rparr>))
     (bind_h (unwrap (po_last_parent s)) (\<lambda>parent.
      let h = new_header P sign (po_name s) (po_height s) (drained_payload drained) (drained_metadata drained)
                parent (po_consensus_instances s) (po_num_active_instances s);
          header = (if po_is_special s then h\<lparr>hd_special := True\<rparr> else h)
      in modify (\<lambda>s. s\<lparr>po_sent := po_sent s @ [header], po_last_parent := None,
           po_consensus_instances := [], po_num_active_instances := 0\<rparr>))))"

definition propose_check :: "'p prims_scheme \<Rightarrow> (digest \<Rightarrow> signature) \<Rightarrow> nat \<Rightarrow> unit proposer_handler" where
  "propose_check P sign now = with_state (\<lambda>s.
     let enough_parent = po_last_parent s \<noteq> None;
         enough_digests = po_payload_size s \<ge> po_header_size s;
         timer_expired = po_deadline s \<le> now
     in when_h ((timer_expired \<or> enough_digests) \<and> (enough_parent \<or> po_is_special s))
        (seq_h (make_header P sign)
          (modify (\<lambda>s. s\<lparr>po_payload_size := 0, po_deadline := now + unat (po_max_header_delay s)\<rparr>))))"

definition is_active :: "consensus_message \<Rightarrow> bool" where
  "is_active m = (case m of Commit s v q ps r \<Rightarrow> False | _ \<Rightarrow> True)"

definition receive_instance :: "'p prims_scheme \<Rightarrow> consensus_message \<Rightarrow> proposer \<Rightarrow> proposer" where
  "receive_instance P m s =
     (let s' = (if is_active m
                then s\<lparr>po_is_special := po_use_special_rule s \<or> po_is_special s,
                       po_num_active_instances := po_num_active_instances s + 1\<rparr>
                else s)
      in s'\<lparr>po_consensus_instances := hm_insert (message_digest P m) m (po_consensus_instances s')\<rparr>)"

definition receive_parent :: "certificate \<Rightarrow> proposer \<Rightarrow> proposer" where
  "receive_parent parent s =
     (if cert_height parent < po_height s then s
      else s\<lparr>po_height := po_height s + 1, po_last_parent := Some parent\<rparr>)"

fun receive_event :: "'p prims_scheme \<Rightarrow> proposer_event \<Rightarrow> proposer \<Rightarrow> proposer" where
  "receive_event P (NewInstance m) s = receive_instance P m s"
| "receive_event P (NewParent parent) s = receive_parent parent s"
| "receive_event P (NewBatch d w m) s =
     s\<lparr>po_payload_size := po_payload_size s + 32, po_digests := po_digests s @ [(d, w, m)]\<rparr>"
| "receive_event P (NewParams hs delay) s = s\<lparr>po_header_size := hs, po_max_header_delay := delay\<rparr>"
| "receive_event P DeadlinePassed s = s"

definition proposer_turn :: "'p prims_scheme \<Rightarrow> (digest \<Rightarrow> signature) \<Rightarrow> nat \<times> proposer_event \<Rightarrow> unit proposer_handler" where
  "proposer_turn P sign x = seq_h (propose_check P sign (fst x)) (modify (receive_event P (snd x)))"

section \<open>What one turn does\<close>

definition next_header :: "'p prims_scheme \<Rightarrow> (digest \<Rightarrow> signature) \<Rightarrow> certificate \<Rightarrow> proposer \<Rightarrow> header" where
  "next_header P sign parent s = (new_header P sign (po_name s) (po_height s) (drained_payload (po_digests s))
     (drained_metadata (po_digests s)) parent (po_consensus_instances s) (po_num_active_instances s))
     \<lparr>hd_special := po_is_special s\<rparr>"

definition proposes_now :: "nat \<Rightarrow> proposer \<Rightarrow> bool" where
  "proposes_now now s \<longleftrightarrow> (po_deadline s \<le> now \<or> po_header_size s \<le> po_payload_size s) \<and> po_last_parent s \<noteq> None"

definition after_header :: "'p prims_scheme \<Rightarrow> (digest \<Rightarrow> signature) \<Rightarrow> nat \<Rightarrow> certificate \<Rightarrow> proposer \<Rightarrow> proposer" where
  "after_header P sign now parent s = s\<lparr>po_sent := po_sent s @ [next_header P sign parent s], po_last_parent := None,
     po_consensus_instances := [], po_num_active_instances := 0, po_digests := [], po_payload_size := 0,
     po_deadline := now + unat (po_max_header_delay s)\<rparr>"

lemma new_header_fields [simp]:
  "hd_author (new_header P sign a h pl md c ms n) = a" "hd_height (new_header P sign a h pl md c ms n) = h"
  "hd_payload (new_header P sign a h pl md c ms n) = pl" "hd_parent_cert (new_header P sign a h pl md c ms n) = c"
  "hd_consensus_messages (new_header P sign a h pl md c ms n) = ms"
  "hd_num_active_instances (new_header P sign a h pl md c ms n) = n"
  "hd_batch_metadata (new_header P sign a h pl md c ms n) = md" "hd_special (new_header P sign a h pl md c ms n) = False"
  by (simp_all add: new_header_def Let_def)

lemma next_header_fields [simp]:
  "hd_author (next_header P sign c s) = po_name s" "hd_height (next_header P sign c s) = po_height s"
  "hd_payload (next_header P sign c s) = drained_payload (po_digests s)" "hd_parent_cert (next_header P sign c s) = c"
  "hd_consensus_messages (next_header P sign c s) = po_consensus_instances s"
  "hd_num_active_instances (next_header P sign c s) = po_num_active_instances s"
  "hd_batch_metadata (next_header P sign c s) = drained_metadata (po_digests s)"
  by (simp_all add: next_header_def)

lemma special_off: "hd_special h = False \<Longrightarrow> h\<lparr>hd_special := False\<rparr> = h"
  by (cases h) simp

lemma propose_check_run:
  assumes "\<not> po_is_special s"
  shows "propose_check P sign now s =
    (case po_last_parent s of
       Some parent \<Rightarrow> (if proposes_now now s then after_header P sign now parent s else s, Done ())
     | None \<Rightarrow> (s, Done ()))"
  using assms
  by (auto simp: propose_check_def make_header_def handler_simps Let_def proposes_now_def after_header_def
      next_header_def special_off split: option.splits)

lemma proposer_turn_run:
  assumes "\<not> po_is_special s"
  shows "proposer_turn P sign (now, ev) s = (receive_event P ev (fst (propose_check P sign now s)), Done ())"
  using propose_check_run [OF assms, of P sign now]
  by (auto simp: proposer_turn_def handler_simps split: option.splits)

section \<open>The lane a proposer makes\<close>

text \<open>
  The core answers with certificates of headers the proposer has made and, at the start, with
  the genesis certificate of the own lane. The lane is taken to have fewer than \<open>2 ^ 64\<close>
  headers.
\<close>

definition own_event :: "proposer \<Rightarrow> proposer_event \<Rightarrow> bool" where
  "own_event s ev = (case ev of
     NewParent parent \<Rightarrow> cert_height parent \<in> insert 0 (hd_height ` set (po_sent s))
   | _ \<Rightarrow> True)"

inductive proposing :: "'p prims_scheme \<Rightarrow> (digest \<Rightarrow> signature) \<Rightarrow> public_key \<Rightarrow> committee \<Rightarrow> proposer \<Rightarrow> bool"
  for P sign name c where
  start: "proposer_new P name c hs delay = Done s \<Longrightarrow> proposing P sign name c s"
| turn: "proposing P sign name c s \<Longrightarrow> own_event (fst (propose_check P sign now s)) ev \<Longrightarrow>
    po_height s \<noteq> - 1 \<Longrightarrow> proposing P sign name c (fst (proposer_turn P sign (now, ev) s))"

inductive_cases proposingE: "proposing P sign name c s"

text \<open>
  The invariant of the lane: while a parent waits, no header of the current height has been
  made, and the parent is of the height below.
\<close>

definition lane_step :: "header \<Rightarrow> bool" where
  "lane_step h \<longleftrightarrow> hd_height h \<noteq> 0 \<longrightarrow> cert_height (hd_parent_cert h) + 1 = hd_height h"

definition lane_ok :: "public_key \<Rightarrow> proposer \<Rightarrow> bool" where
  "lane_ok name s \<longleftrightarrow>
     po_name s = name \<and> \<not> po_use_special_rule s \<and> \<not> po_is_special s \<and>
     sorted_wrt (<) (map hd_height (po_sent s)) \<and>
     (\<forall>h \<in> set (po_sent s). hd_height h \<le> po_height s \<and> (po_last_parent s \<noteq> None \<longrightarrow> hd_height h < po_height s)) \<and>
     (\<forall>parent. po_last_parent s = Some parent \<longrightarrow> po_height s \<noteq> 0 \<longrightarrow> cert_height parent + 1 = po_height s) \<and>
     (\<forall>h \<in> set (po_sent s). lane_step h \<and> hd_author h = name \<and> \<not> hd_special h)"

lemma lane_ok_new: "proposer_new P name c hs delay = Done s \<Longrightarrow> lane_ok name s"
  by (auto simp: proposer_new_def lane_ok_def)

lemma lane_ok_check:
  assumes "lane_ok name s"
  shows "lane_ok name (fst (propose_check P sign now s))"
  using assms
  by (auto simp: propose_check_run lane_ok_def after_header_def sorted_wrt_append lane_step_def next_header_def
      split: option.split)

lemma lane_ok_receive:
  assumes "lane_ok name s" and "own_event s ev" and "po_height s \<noteq> - 1"
  shows "lane_ok name (receive_event P ev s)"
proof (cases ev)
  case (NewParent parent)
  have "unat (po_height s + 1) = Suc (unat (po_height s))"
    using assms(3) by (intro unat_Suc_no_wrap [where b = "- 1"]) (simp add: word_order.not_eq_extremum)
  then have up: "h \<le> po_height s + 1 \<and> h < po_height s + 1" if "h \<le> po_height s" for h
    using that by (simp add: word_less_nat_alt word_le_nat_alt)
  show ?thesis
  proof (cases "cert_height parent < po_height s")
    case False
    moreover have "cert_height parent \<le> po_height s"
      using assms(1, 2) by (auto simp: NewParent own_event_def lane_ok_def)
    ultimately have "cert_height parent = po_height s" by simp
    then show ?thesis using assms(1) by (auto simp: NewParent receive_parent_def lane_ok_def up)
  qed (use assms(1) in \<open>simp add: NewParent receive_parent_def\<close>)
qed (use assms in \<open>auto simp: lane_ok_def receive_instance_def Let_def\<close>)

lemma check_keeps_height: "\<not> po_is_special s \<Longrightarrow> po_height (fst (propose_check P sign now s)) = po_height s"
  by (simp add: propose_check_run after_header_def split: option.split)

lemma lane_ok_special: "lane_ok name s \<Longrightarrow> \<not> po_is_special s"
  by (simp add: lane_ok_def)

lemma proposing_lane_ok: "proposing P sign name c s \<Longrightarrow> lane_ok name s"
  by (induction rule: proposing.induct)
    (simp_all add: lane_ok_new proposer_turn_run lane_ok_special lane_ok_receive lane_ok_check check_keeps_height)

text \<open>
  C25: the proposer never panics and never makes two headers of one height: its headers have
  strictly increasing heights, all are its own, and each but a possible first one of height 0
  extends a certificate of the height right below, which is what the core checks.
\<close>

theorem proposer_lane:
  assumes "proposing P sign name c s"
  shows "snd (proposer_turn P sign (now, ev) s) = Done () \<and>
    sorted_wrt (<) (map hd_height (po_sent s)) \<and>
    (\<forall>h \<in> set (po_sent s). hd_author h = name \<and> \<not> hd_special h \<and>
       (hd_height h = 0 \<or> cert_height (hd_parent_cert h) + 1 = hd_height h))"
  using proposing_lane_ok [OF assms] by (auto simp: lane_ok_def lane_step_def proposer_turn_run)

definition sample_proposer :: proposer where
  "sample_proposer = (case proposer_new sample_prims (PublicKey 1) sample_committee 32 100 of Done s \<Rightarrow> s)"

lemma sample_proposer_new: "proposer_new sample_prims (PublicKey 1) sample_committee 32 100 = Done sample_proposer"
  by (simp add: sample_proposer_def proposer_new_def genesis_cert_def header_genesis_def sample_authorities bind_r_def)

definition sample_parent :: "height \<Rightarrow> certificate" where
  "sample_parent h = default_certificate\<lparr>cert_height := h\<rparr>"

definition sample_proposed :: proposer where
  "sample_proposed = fst (proposer_turn sample_prims (\<lambda>_. sample_signature) (100, DeadlinePassed)
     (fst (proposer_turn sample_prims (\<lambda>_. sample_signature) (5, NewParent (sample_parent 0)) sample_proposer)))"

lemma sample_proposer_fields: "po_height sample_proposer = 0" "\<not> po_is_special sample_proposer"
  "po_last_parent sample_proposer = Some (default_certificate\<lparr>cert_header_digest := header_digest sample_prims (genesis_header_of (PublicKey 1))\<rparr>)"
  "po_deadline sample_proposer = 100" "po_payload_size sample_proposer = 0" "po_header_size sample_proposer = 32"
  "po_sent sample_proposer = []" "po_name sample_proposer = PublicKey 1" "po_max_header_delay sample_proposer = 100"
  by (simp_all add: sample_proposer_def proposer_new_def genesis_cert_def header_genesis_def sample_authorities bind_r_def)

lemma sample_proposed_sent: "map hd_height (po_sent sample_proposed) = [1]"
  "proposing sample_prims (\<lambda>_. sample_signature) (PublicKey 1) sample_committee sample_proposed"
proof -
  let ?s = "fst (proposer_turn sample_prims (\<lambda>_. sample_signature) (5, NewParent (sample_parent 0)) sample_proposer)"
  have first: "proposing sample_prims (\<lambda>_. sample_signature) (PublicKey 1) sample_committee sample_proposer"
    by (rule proposing.start [OF sample_proposer_new])
  have next1: "proposing sample_prims (\<lambda>_. sample_signature) (PublicKey 1) sample_committee ?s"
    by (rule proposing.turn [OF first]) (simp_all add: own_event_def sample_parent_def sample_proposer_fields)
  have s: "?s = sample_proposer\<lparr>po_height := 1, po_last_parent := Some (sample_parent 0)\<rparr>"
    by (simp add: proposer_turn_run propose_check_run sample_proposer_fields proposes_now_def receive_parent_def sample_parent_def)
  show "map hd_height (po_sent sample_proposed) = [1]"
    unfolding sample_proposed_def s
    by (simp add: proposer_turn_run propose_check_run sample_proposer_fields proposes_now_def after_header_def)
  show "proposing sample_prims (\<lambda>_. sample_signature) (PublicKey 1) sample_committee sample_proposed"
    unfolding sample_proposed_def
    by (rule proposing.turn [OF next1]) (simp_all add: own_event_def s sample_proposer_fields)
qed

theorem proposer_lane_witness:
  "\<exists>h. po_sent sample_proposed = [h] \<and> cert_height (hd_parent_cert h) + 1 = hd_height h"
  using proposer_lane [OF sample_proposed_sent(2), of 0 DeadlinePassed] sample_proposed_sent(1) by auto

section \<open>What a header carries\<close>

text \<open>Feeding events without a check in between, and the batches and messages among them.\<close>

definition receive_all :: "'p prims_scheme \<Rightarrow> proposer_event list \<Rightarrow> proposer \<Rightarrow> proposer" where
  "receive_all P evs s = fold (receive_event P) evs s"

definition batch_of :: "proposer_event \<Rightarrow> (digest \<times> worker_id \<times> batch_metadata) list" where
  "batch_of ev = (case ev of NewBatch d w m \<Rightarrow> [(d, w, m)] | _ \<Rightarrow> [])"

definition instance_of :: "proposer_event \<Rightarrow> consensus_message list" where
  "instance_of ev = (case ev of NewInstance m \<Rightarrow> [m] | _ \<Rightarrow> [])"

lemma keys_drained: "set (map fst (drained_payload ds)) = fst ` set ds"
proof -
  have "set (map fst (fold (\<lambda>(d, w, _). bt_insert d w) ds acc)) = fst ` set ds \<union> set (map fst acc)" for acc
  proof (induction ds arbitrary: acc)
    case (Cons x ds)
    obtain d w m where x: "x = (d, w, m)" by (cases x)
    show ?case unfolding x using Cons.IH [of "bt_insert d w acc"] keys_bt_insert [of d w acc] by simp
  qed simp
  from this [of "[]"] show ?thesis by (simp add: drained_payload_def)
qed

definition proposed :: "proposer \<Rightarrow> digest set" where
  "proposed s = fst ` set (po_digests s) \<union> (\<Union>h \<in> set (po_sent s). fst ` set (hd_payload h))"

lemma proposed_check: "\<not> po_is_special s \<Longrightarrow> proposed (fst (propose_check P sign now s)) = proposed s"
  using keys_drained [of "po_digests s"]
  by (auto simp: propose_check_run proposed_def after_header_def split: option.split)

lemma proposed_receive: "proposed (receive_event P ev s) = proposed s \<union> fst ` set (batch_of ev)"
  by (cases ev) (auto simp: proposed_def batch_of_def receive_instance_def receive_parent_def Let_def)

lemma never_special:
  assumes "\<not> po_use_special_rule s" and "\<not> po_is_special s"
  shows "\<not> po_use_special_rule (fst (proposer_turn P sign (now, ev) s)) \<and>
    \<not> po_is_special (fst (proposer_turn P sign (now, ev) s))"
proof -
  let ?t = "fst (propose_check P sign now s)"
  have "\<not> po_use_special_rule ?t" and "\<not> po_is_special ?t"
    using assms by (auto simp: propose_check_run after_header_def split: option.split)
  then show ?thesis
    using assms(2) by (cases ev) (auto simp: proposer_turn_run receive_instance_def receive_parent_def Let_def)
qed

lemma proposed_turns:
  assumes "\<not> po_use_special_rule s" and "\<not> po_is_special s"
  shows "proposed (fst (each (proposer_turn P sign) evs s)) = proposed s \<union> fst ` set (concat (map (batch_of \<circ> snd) evs)) \<and>
    snd (each (proposer_turn P sign) evs s) = Done ()"
  using assms
proof (induction evs arbitrary: s)
  case (Cons x evs)
  obtain now ev where x: "x = (now, ev)" by (cases x)
  let ?t = "fst (proposer_turn P sign x s)"
  have turn: "proposer_turn P sign x s = (?t, Done ())"
    by (simp add: x proposer_turn_run [OF Cons.prems(2)])
  have "proposed ?t = proposed s \<union> fst ` set (batch_of ev)"
    using Cons.prems(2) by (simp add: x proposer_turn_run proposed_receive proposed_check)
  moreover have "\<not> po_use_special_rule ?t" and "\<not> po_is_special ?t"
    using never_special [OF Cons.prems, of P sign now ev] by (simp_all add: x)
  moreover have "each (proposer_turn P sign) (x # evs) s = each (proposer_turn P sign) evs ?t"
    by (simp add: seq_h_def bind_h_Done [where h = "proposer_turn P sign x", OF turn])
  ultimately show ?case
    using Cons.IH [of ?t] by (auto simp: x)
qed (simp add: ret_def)

text \<open>
  C30: no batch digest is lost. After any turns of the loop, the digests reported by the workers
  are exactly those in the payload of some header sent to the core or still waiting.
\<close>

theorem batches_proposed:
  assumes "proposer_new P name c hs delay = Done s"
  shows "proposed (fst (each (proposer_turn P sign) evs s)) = {d. \<exists>w m now. (now, NewBatch d w m) \<in> set evs} \<and>
    snd (each (proposer_turn P sign) evs s) = Done ()"
proof -
  have off: "\<not> po_use_special_rule s" "\<not> po_is_special s" and none: "proposed s = {}"
    using assms by (auto simp: proposer_new_def proposed_def)
  have "fst ` set (concat (map (batch_of \<circ> snd) evs)) = {d. \<exists>w m now. (now, NewBatch d w m) \<in> set evs}"
    by (force simp: batch_of_def image_iff split: proposer_event.splits)
  then show ?thesis using proposed_turns [OF off, of P sign evs] none by simp
qed

definition sample_metadata :: batch_metadata where
  "sample_metadata = \<lparr>bm_author = PublicKey 1, bm_sample_tx_ids = [], bm_sample_tx_timestamps = [],
     bm_sample_tx_sizes = [], bm_transaction_count = 1, bm_batch_size = 9, bm_avg_transaction_size = 9\<rparr>"

theorem batches_proposed_witness:
  "proposed (fst (each (proposer_turn sample_prims (\<lambda>_. sample_signature)) [(1, NewBatch (Digest 5) 0 sample_metadata)] sample_proposer)) =
   {Digest 5}"
  using batches_proposed [OF sample_proposer_new, of "\<lambda>_. sample_signature" "[(1, NewBatch (Digest 5) 0 sample_metadata)]"] by auto

text \<open>The messages and the counter of a header between two headers.\<close>

lemma receive_instances:
  "po_consensus_instances (receive_all P evs s) =
     fold (\<lambda>m. hm_insert (message_digest P m) m) (concat (map instance_of evs)) (po_consensus_instances s) \<and>
   po_num_active_instances (receive_all P evs s) =
     po_num_active_instances s + of_nat (length (filter is_active (concat (map instance_of evs))))"
proof (induction evs arbitrary: s)
  case (Cons ev evs)
  show ?case using Cons.IH [of "receive_event P ev s"]
    by (cases ev) (simp_all add: receive_all_def receive_instance_def receive_parent_def instance_of_def Let_def)
qed (simp add: receive_all_def)

lemma keys_fold_instances:
  "fst ` set (fold (\<lambda>m. hm_insert (message_digest P m) m) ms acc) = message_digest P ` set ms \<union> fst ` set acc"
proof (induction ms arbitrary: acc)
  case (Cons m ms)
  have "fst ` set (hm_insert (message_digest P m) m acc) = insert (message_digest P m) (fst ` set acc)"
    using keys_hm_insert [of "message_digest P m" m acc] by simp
  then show ?case using Cons.IH [of "hm_insert (message_digest P m) m acc"] by simp
qed simp

lemma distinct_fold_instances:
  "distinct (map fst acc) \<Longrightarrow> distinct (map fst (fold (\<lambda>m. hm_insert (message_digest P m) m) ms acc))"
  by (induction ms arbitrary: acc) (simp_all add: distinct_hm_insert)

text \<open>
  a header carries one message per digest received since the last header, but its count of
  active instances counts every Prepare and Confirm received. The two agree only when no digest
  came twice: a second Prepare of the same slot and view raises the count, not the messages, and
  the core waits for as many QCs as the count says before it issues the certificate of the car.
\<close>

theorem header_counts_messages:
  assumes "po_consensus_instances s = []" and "po_num_active_instances s = 0"
    and "t = receive_all P evs s" and "\<not> po_is_special t" and "proposes_now now t"
  shows "\<exists>h. po_sent (fst (propose_check P sign now t)) = po_sent t @ [h] \<and>
    (let ms = concat (map instance_of evs) in
     fst ` set (hd_consensus_messages h) = message_digest P ` set ms \<and>
     length (hd_consensus_messages h) = card (message_digest P ` set ms) \<and>
     hd_num_active_instances h = of_nat (length (filter is_active ms)))"
proof -
  let ?m = "po_consensus_instances t" and ?ms = "concat (map instance_of evs)"
  obtain parent where parent: "po_last_parent t = Some parent" using assms(5) by (auto simp: proposes_now_def)
  have m: "?m = fold (\<lambda>m. hm_insert (message_digest P m) m) ?ms []"
    using receive_instances [of P evs s] assms(1, 3) by simp
  have keys: "fst ` set ?m = message_digest P ` set ?ms" by (simp add: m keys_fold_instances)
  have "distinct (map fst ?m)" unfolding m by (rule distinct_fold_instances) simp
  then have "length ?m = card (fst ` set ?m)"
    using distinct_card [of "map fst ?m"] by simp
  moreover have "po_sent (fst (propose_check P sign now t)) = po_sent t @ [next_header P sign parent t]"
    using assms(4, 5) parent by (simp add: propose_check_run after_header_def)
  ultimately show ?thesis
    using keys receive_instances [of P evs s] assms(2, 3) by (simp add: Let_def)
qed

theorem header_counts_messages_witness:
  "\<exists>(t :: proposer) h. po_sent t = [h] \<and> length (hd_consensus_messages h) = 1 \<and> hd_num_active_instances h = 2"
proof -
  let ?evs = "[NewInstance (Prepare 1 2 None None [] None), NewInstance (Prepare 1 2 (Some default_tc) None [] None)]"
  let ?t = "receive_all sample_prims ?evs sample_proposer"
  have t: "po_consensus_instances sample_proposer = []" "po_num_active_instances sample_proposer = 0"
    "\<not> po_is_special ?t" "proposes_now 100 ?t" "po_sent ?t = []"
    by (simp_all add: receive_all_def receive_instance_def is_active_def Let_def proposes_now_def
        sample_proposer_def proposer_new_def genesis_cert_def header_genesis_def sample_authorities bind_r_def)
  obtain h where h: "po_sent (fst (propose_check sample_prims (\<lambda>_. sample_signature) 100 ?t)) = [h]"
    and n: "length (hd_consensus_messages h) = 1 \<and> hd_num_active_instances h = 2"
    using header_counts_messages [OF t(1, 2) refl t(3, 4), of "\<lambda>_. sample_signature"] t(5)
    by (auto simp: Let_def instance_of_def is_active_def simp del: word_neq_0_conv)
  show ?thesis using h n by blast
qed

end
