(* ===== verification/Batches.thy ===== *)
theory Batches
  imports Core_Async
begin

text \<open>
  Batches of transactions in a worker: the batch maker (\<open>worker/src/batch_maker.rs\<close>), the
  processor that stores a batch and reports its digest (\<open>processor.rs\<close>), and the dispatch of
  incoming messages (\<open>worker.rs\<close>).

  \<open>wcodec\<close> extends the parameters by \<open>bincode\<close> at type \<open>WorkerMessage\<close>. A turn of the batch
  maker takes the time in milliseconds; its timer is a deadline. What it broadcasts is appended
  to \<open>bk_sent\<close>, what it hands to the processor to \<open>bk_to_processor\<close>. Logging and the metrics
  file are left out.
\<close>

section \<open>Data\<close>

record transaction =
  tx_data :: "u8 list"
  tx_created_at :: "128 word"
  tx_size :: u64

type_synonym batch = "transaction list"

datatype worker_message = Batch batch | BatchRequest "digest list" public_key

record wcodec = codec +
  w_ser :: "worker_message \<Rightarrow> u8 list"
  w_de :: "u8 list \<Rightarrow> worker_message option"

definition batch_digest :: "'p wcodec_scheme \<Rightarrow> val \<Rightarrow> digest" where
  "batch_digest P bytes = hash32 P bytes"

text \<open>
  The worker has its own five effects, read with \<open>transmute\<close>: a larger number is undefined
  behaviour, here \<open>None\<close>.
\<close>

datatype worker_effect = W_Off | W_TempBlip | W_Failure | W_Partition | W_Egress

definition uint_to_enum :: "u8 \<Rightarrow> worker_effect option" where
  "uint_to_enum v = (if v < 5 then Some ([W_Off, W_TempBlip, W_Failure, W_Partition, W_Egress] ! unat v) else None)"

section \<open>The batch maker\<close>

record batch_maker =
  bk_batch_size :: u64
  bk_max_batch_delay :: u64
  bk_workers :: "(public_key \<times> socket_addr) list"
  bk_current_batch :: batch
  bk_current_batch_size :: u64
  bk_during_asynchrony :: bool
  bk_partition_keys :: "public_key set"
  bk_partition_queue :: "worker_message list"
  bk_store :: "key \<rightharpoonup> val"
  bk_simulate_asynchrony :: bool
  bk_asynchrony_type :: "u8 list"
  bk_asynchrony_start :: "u64 list"
  bk_asynchrony_duration :: "u64 list"
  bk_affected_nodes :: "u64 list"
  bk_keys :: "public_key list"
  bk_name :: public_key
  bk_async_timers :: "(slot \<times> view \<times> u64) list"
  bk_deadline :: nat
  bk_to_processor :: "val list"
  bk_sent :: "(socket_addr \<times> val) list"

type_synonym 'a batch_handler = "(batch_maker, dag_error, 'a) handler"

definition join_side :: "nat \<Rightarrow> nat \<Rightarrow> unit batch_handler" where
  "join_side start stop = each (\<lambda>j. with_state (\<lambda>s. bind_h (nth_h (bk_keys s) j) (\<lambda>k.
     modify (\<lambda>s. s\<lparr>bk_partition_keys := insert k (bk_partition_keys s)\<rparr>)))) [start..<stop]"

definition maker_window :: "nat \<Rightarrow> unit batch_handler" where
  "maker_window i = with_state (\<lambda>s.
     bind_h (nth_h (bk_asynchrony_start s) i) (\<lambda>start_offset.
     bind_h (nth_h (bk_asynchrony_duration s) i) (\<lambda>duration.
     seq_h (modify (\<lambda>s. s\<lparr>bk_async_timers := bk_async_timers s @
         [(0, 0, start_offset), (0, 0, start_offset + sat_mul duration 1000)]\<rparr>))
     (bind_h (nth_h (bk_asynchrony_type s) i) (\<lambda>ty.
      bind_h (unwrap (uint_to_enum ty)) (\<lambda>effect.
      when_h (effect = W_Partition)
       (seq_h (modify (\<lambda>s. s\<lparr>bk_keys := sort (bk_keys s)\<rparr>))
       (with_state (\<lambda>s.
        bind_h (unwrap (key_position (bk_name s) (bk_keys s))) (\<lambda>index.
        bind_h (nth_h (bk_affected_nodes s) i) (\<lambda>a.
        if (of_nat index :: u64) > a - 1 then join_side (unat a) (length (bk_keys s)) else join_side 0 (unat a))))))))))))"

definition maker_start :: "unit batch_handler" where
  "maker_start = with_state (\<lambda>s. when_h (bk_simulate_asynchrony s) (each maker_window [0..<length (bk_asynchrony_start s)]))"

definition seal :: "'p wcodec_scheme \<Rightarrow> unit batch_handler" where
  "seal P = with_state (\<lambda>s.
     let message = Batch (bk_current_batch s);
         serialized = w_ser P message;
         reached = (if bk_during_asynchrony s
                    then filter (\<lambda>(pk, _). pk \<in> bk_partition_keys s) (bk_workers s) else bk_workers s)
     in modify (\<lambda>s. s\<lparr>bk_current_batch_size := 0, bk_current_batch := [],
          bk_store := (bk_store s)(digest_bytes (batch_digest P serialized) \<mapsto> serialized),
          bk_to_processor := bk_to_processor s @ [serialized],
          bk_partition_queue := (if bk_during_asynchrony s then bk_partition_queue s @ [message] else bk_partition_queue s),
          bk_sent := bk_sent s @ map (\<lambda>(_, a). (a, serialized)) reached\<rparr>))"

definition reset_timer :: "nat \<Rightarrow> unit batch_handler" where
  "reset_timer now = modify (\<lambda>s. s\<lparr>bk_deadline := now + unat (bk_max_batch_delay s)\<rparr>)"

datatype maker_event =
    NewTransaction transaction
  | BatchTimer
  | BatchParams u64 u64
  | AsyncTimer

fun maker_turn :: "'p wcodec_scheme \<Rightarrow> nat \<times> maker_event \<Rightarrow> unit batch_handler" where
  "maker_turn P (now, NewTransaction tx) =
     seq_h (modify (\<lambda>s. s\<lparr>bk_current_batch_size := bk_current_batch_size s + tx_size tx,
         bk_current_batch := bk_current_batch s @ [tx]\<rparr>))
       (with_state (\<lambda>s. when_h (bk_current_batch_size s \<ge> bk_batch_size s) (seq_h (seal P) (reset_timer now))))"
| "maker_turn P (now, BatchTimer) = with_state (\<lambda>s.
     when_h (bk_deadline s \<le> now) (seq_h (when_h (bk_current_batch s \<noteq> []) (seal P)) (reset_timer now)))"
| "maker_turn P (now, BatchParams bs delay) =
     seq_h (modify (\<lambda>s. s\<lparr>bk_batch_size := bs, bk_max_batch_delay := delay\<rparr>)) (reset_timer now)"
| "maker_turn P (now, AsyncTimer) = modify (\<lambda>s. s\<lparr>bk_during_asynchrony := \<not> bk_during_asynchrony s\<rparr>)"

definition maker_run :: "'p wcodec_scheme \<Rightarrow> (nat \<times> maker_event) list \<Rightarrow> batch_maker \<Rightarrow> batch_maker" where
  "maker_run P evs s = fold (\<lambda>ev s. fst (maker_turn P ev s)) evs s"

definition maker_new :: "u64 \<Rightarrow> u64 \<Rightarrow> (public_key \<times> socket_addr) list \<Rightarrow> (key \<rightharpoonup> val) \<Rightarrow> parameters \<Rightarrow> public_key list \<Rightarrow> public_key \<Rightarrow> batch_maker" where
  "maker_new n delay workers db ps keys name = \<lparr>bk_batch_size = n, bk_max_batch_delay = delay,
     bk_workers = workers, bk_current_batch = [], bk_current_batch_size = 0, bk_during_asynchrony = False,
     bk_partition_keys = {}, bk_partition_queue = [], bk_store = db,
     bk_simulate_asynchrony = simulate_asynchrony ps, bk_asynchrony_type = asynchrony_type ps,
     bk_asynchrony_start = asynchrony_start ps, bk_asynchrony_duration = asynchrony_duration ps,
     bk_affected_nodes = affected_nodes ps, bk_keys = keys, bk_name = name, bk_async_timers = [],
     bk_deadline = unat delay, bk_to_processor = [], bk_sent = []\<rparr>"

section \<open>The processor\<close>

definition u64_of_be :: "u8 list \<Rightarrow> u64" where
  "u64_of_be bs = foldl (\<lambda>acc b. acc * 256 + ucast b) 0 bs"

definition is_sample :: "transaction \<Rightarrow> bool" where
  "is_sample tx \<longleftrightarrow> 9 \<le> length (tx_data tx) \<and> hd (tx_data tx) = 0"

definition sample_id :: "transaction \<Rightarrow> u64" where
  "sample_id tx = u64_of_be (take 8 (drop 1 (tx_data tx)))"

definition data_length :: "transaction \<Rightarrow> u64" where
  "data_length tx = of_nat (length (tx_data tx))"

definition empty_metadata :: "public_key \<Rightarrow> batch_metadata" where
  "empty_metadata name = \<lparr>bm_author = name, bm_sample_tx_ids = [], bm_sample_tx_timestamps = [], bm_sample_tx_sizes = [],
     bm_transaction_count = 0, bm_batch_size = 0, bm_avg_transaction_size = 0\<rparr>"

definition metadata_of :: "public_key \<Rightarrow> batch \<Rightarrow> batch_metadata" where
  "metadata_of name txs =
     (let samples = filter is_sample txs; total = sum_list (map data_length txs); count = of_nat (length txs)
      in \<lparr>bm_author = name, bm_sample_tx_ids = map sample_id samples,
          bm_sample_tx_timestamps = map tx_created_at samples, bm_sample_tx_sizes = map data_length samples,
          bm_transaction_count = count, bm_batch_size = total,
          bm_avg_transaction_size = (if count > 0 then total div count else 0)\<rparr>)"

definition processor_step :: "'p wcodec_scheme \<Rightarrow> worker_id \<Rightarrow> public_key \<Rightarrow> bool \<Rightarrow> val \<Rightarrow> (key \<rightharpoonup> val) \<Rightarrow> (key \<rightharpoonup> val) \<times> worker_primary_message" where
  "processor_step P i name own_digest batch db =
     (let d = batch_digest P batch;
          meta = (case w_de P batch of Some (Batch txs) \<Rightarrow> metadata_of name txs | _ \<Rightarrow> empty_metadata name)
      in (db(digest_bytes d \<mapsto> batch), if own_digest then OurBatch d i meta else OthersBatch d i meta))"

section \<open>Dispatch in the worker\<close>

definition transaction_of :: "128 word \<Rightarrow> u8 list \<Rightarrow> transaction" where
  "transaction_of now message = \<lparr>tx_data = message, tx_created_at = now, tx_size = of_nat (length message)\<rparr>"

datatype worker_task = ToProcessor val | ToWorkerHelper "digest list" public_key

definition receive_worker :: "'p wcodec_scheme \<Rightarrow> val \<Rightarrow> worker_task option" where
  "receive_worker P serialized = (case w_de P serialized of
     Some (Batch _) \<Rightarrow> Some (ToProcessor serialized)
   | Some (BatchRequest missing requestor) \<Rightarrow> Some (ToWorkerHelper missing requestor)
   | None \<Rightarrow> None)"

text \<open>The parameters a worker passes to its batch maker when the signal file changes.\<close>

definition batch_params_of :: "json \<Rightarrow> (u64 \<times> u64) option" where
  "batch_params_of j = (case (get_u64 ''batch_size'' j, get_u64 ''max_batch_delay'' j) of
     (Some bs, Some mbd) \<Rightarrow> Some (bs, mbd) | _ \<Rightarrow> None)"

section \<open>No transaction is lost\<close>

definition tx_of :: "maker_event \<Rightarrow> transaction list" where
  "tx_of ev = (case ev of NewTransaction tx \<Rightarrow> [tx] | _ \<Rightarrow> [])"

text \<open>
  The batches a maker has sealed, as its processor gets them, with the addresses each was
  broadcast to.
\<close>

definition sealed_as :: "'p wcodec_scheme \<Rightarrow> batch list \<Rightarrow> batch_maker \<Rightarrow> bool" where
  "sealed_as P bs s \<longleftrightarrow> bk_to_processor s = map (w_ser P \<circ> Batch) bs \<and>
     (\<forall>b \<in> set bs. bk_store s (digest_bytes (batch_digest P (w_ser P (Batch b)))) \<noteq> None)"

definition sealed_at :: "'p wcodec_scheme \<Rightarrow> nat \<Rightarrow> batch_maker \<Rightarrow> batch_maker" where
  "sealed_at P now u = (fst (seal P u))\<lparr>bk_deadline := now + unat (bk_max_batch_delay u)\<rparr>"

definition with_transaction :: "transaction \<Rightarrow> batch_maker \<Rightarrow> batch_maker" where
  "with_transaction tx s = s\<lparr>bk_current_batch_size := bk_current_batch_size s + tx_size tx,
     bk_current_batch := bk_current_batch s @ [tx]\<rparr>"

lemma seal_then_reset: "seq_h (seal P) (reset_timer now) u = (sealed_at P now u, Done ())"
  by (simp add: sealed_at_def seal_def reset_timer_def handler_simps Let_def)

lemma transaction_turn:
  "maker_turn P (now, NewTransaction tx) s =
     (let u = with_transaction tx s in
      (if bk_batch_size u \<le> bk_current_batch_size u then sealed_at P now u else u, Done ()))"
proof -
  let ?u = "with_transaction tx s"
  have "maker_turn P (now, NewTransaction tx) s =
      when_h (bk_current_batch_size ?u \<ge> bk_batch_size ?u) (seq_h (seal P) (reset_timer now)) ?u"
    by (simp add: with_transaction_def seq_h_def bind_h_def modify_def with_state_def)
  then show ?thesis by (simp add: when_h_def seal_then_reset ret_def Let_def)
qed

lemma timer_turn:
  "maker_turn P (now, BatchTimer) s =
     (if bk_deadline s \<le> now
      then if bk_current_batch s \<noteq> [] then sealed_at P now s else s\<lparr>bk_deadline := now + unat (bk_max_batch_delay s)\<rparr>
      else s, Done ())"
  by (simp add: with_state_def when_h_def seal_then_reset ret_def) (simp add: seq_h_def bind_h_def ret_def reset_timer_def modify_def)

lemma sealed_sealed_at:
  "sealed_as P bs u \<Longrightarrow> sealed_as P (bs @ [bk_current_batch u]) (sealed_at P now u) \<and> bk_current_batch (sealed_at P now u) = []"
  by (auto simp: sealed_as_def sealed_at_def seal_def handler_simps Let_def)

lemma sealed_frame:
  "bk_to_processor t = bk_to_processor s \<Longrightarrow> bk_store t = bk_store s \<Longrightarrow> sealed_as P bs s \<Longrightarrow> sealed_as P bs t"
  by (simp add: sealed_as_def)

lemma sealed_turn:
  assumes "sealed_as P bs s"
  shows "snd (maker_turn P (now, ev) s) = Done () \<and>
    (\<exists>bs'. sealed_as P (bs @ bs') (fst (maker_turn P (now, ev) s)) \<and> [] \<notin> set bs' \<and>
      concat bs' @ bk_current_batch (fst (maker_turn P (now, ev) s)) = bk_current_batch s @ tx_of ev)"
proof -
  have still: "\<exists>bs'. sealed_as P (bs @ bs') t \<and> [] \<notin> set bs' \<and> concat bs' @ bk_current_batch t = r"
    if "bk_to_processor t = bk_to_processor s" "bk_store t = bk_store s" "bk_current_batch t = r" for t r
    using sealed_frame [OF that(1, 2) assms] that(3) by (intro exI [of _ "[]"]) simp
  have cut: "\<exists>bs'. sealed_as P (bs @ bs') (sealed_at P now u) \<and> [] \<notin> set bs' \<and>
      concat bs' @ bk_current_batch (sealed_at P now u) = bk_current_batch u"
    if "bk_to_processor u = bk_to_processor s" "bk_store u = bk_store s" "bk_current_batch u \<noteq> []" for u
    using sealed_sealed_at [OF sealed_frame [OF that(1, 2) assms]] that(3)
    by (intro exI [of _ "[bk_current_batch u]"]) simp
  show ?thesis
  proof (cases ev)
    case (NewTransaction tx)
    let ?u = "with_transaction tx s"
    have u: "bk_to_processor ?u = bk_to_processor s" "bk_store ?u = bk_store s" "bk_current_batch ?u = bk_current_batch s @ [tx]"
      by (simp_all add: with_transaction_def)
    show ?thesis
    proof (cases "bk_batch_size ?u \<le> bk_current_batch_size ?u")
      case True
      then show ?thesis using cut [OF u(1, 2)] by (simp only: NewTransaction transaction_turn Let_def if_True fst_conv snd_conv tx_of_def maker_event.case) (simp add: u(3))
    next
      case False
      then show ?thesis using still [OF u] by (simp only: NewTransaction transaction_turn Let_def if_False fst_conv snd_conv tx_of_def maker_event.case)
    qed
  next
    case BatchTimer
    then show ?thesis
      using still [of s] still [of "s\<lparr>bk_deadline := now + unat (bk_max_batch_delay s)\<rparr>"] cut [of s]
      by (simp add: timer_turn tx_of_def del: maker_turn.simps)
  qed (use still in \<open>simp_all add: tx_of_def handler_simps reset_timer_def\<close>)
qed

lemma maker_run_sealed:
  "sealed_as P bs s \<Longrightarrow> \<exists>bs'. sealed_as P (bs @ bs') (maker_run P evs s) \<and> [] \<notin> set bs' \<and>
     concat bs' @ bk_current_batch (maker_run P evs s) = bk_current_batch s @ concat (map (tx_of \<circ> snd) evs)"
proof (induction evs arbitrary: s bs)
  case Nil
  then show ?case by (intro exI [of _ "[]"]) (simp add: maker_run_def)
next
  case (Cons x evs)
  obtain now ev where x: "x = (now, ev)" by (cases x)
  let ?t = "fst (maker_turn P x s)"
  obtain b1 where b1: "sealed_as P (bs @ b1) ?t" "[] \<notin> set b1" "concat b1 @ bk_current_batch ?t = bk_current_batch s @ tx_of ev"
    using sealed_turn [OF Cons.prems, of now ev] by (auto simp: x)
  obtain b2 where b2: "sealed_as P ((bs @ b1) @ b2) (maker_run P evs ?t)" "[] \<notin> set b2"
      "concat b2 @ bk_current_batch (maker_run P evs ?t) = bk_current_batch ?t @ concat (map (tx_of \<circ> snd) evs)"
    using Cons.IH [OF b1(1)] by blast
  have "concat (b1 @ b2) @ bk_current_batch (maker_run P evs ?t) = bk_current_batch s @ concat (map (tx_of \<circ> snd) (x # evs))"
    using b1(3) b2(3) by (simp add: x)
  then show ?case
    using b1(2) b2(1, 2) by (intro exI [of _ "b1 @ b2"]) (simp add: maker_run_def comp_def)
qed

definition maker_part :: "batch_maker \<Rightarrow> val list \<times> batch \<times> (key \<rightharpoonup> val) \<times> (socket_addr \<times> val) list \<times> (public_key \<times> socket_addr) list" where
  "maker_part s = (bk_to_processor s, bk_current_batch s, bk_store s, bk_sent s, bk_workers s)"

lemmas maker_rules = frame.rules [where part = maker_part] frame.with_state [where part = maker_part]
  frame.modify [where part = maker_part]

lemma nth_part: "moves (same maker_part) (nth_h xs i)"
  unfolding nth_h_def by (intro maker_rules)

lemma maker_start_part: "moves (same maker_part) maker_start"
  unfolding maker_start_def maker_window_def join_side_def Let_def
  by (auto intro!: maker_rules nth_part simp: same_def maker_part_def)

text \<open>
  C29: no transaction is lost, duplicated or reordered. Whatever transactions, timers, parameter
  updates and asynchrony windows arrive, the batches handed to the processor, one after the
  other, followed by the batch in the making, are exactly the transactions received, in order;
  no batch is empty, and each is in the store under its digest.
\<close>

theorem transactions_batched:
  assumes "maker_start (maker_new n delay workers db ps keys name) = (s, Done ())"
  shows "\<exists>bs. bk_to_processor (maker_run P evs s) = map (w_ser P \<circ> Batch) bs \<and> [] \<notin> set bs \<and>
    concat bs @ bk_current_batch (maker_run P evs s) = concat (map (tx_of \<circ> snd) evs) \<and>
    (\<forall>b \<in> set bs. bk_store (maker_run P evs s) (digest_bytes (batch_digest P (w_ser P (Batch b)))) \<noteq> None)"
proof -
  have "maker_part s = maker_part (maker_new n delay workers db ps keys name)"
    using maker_start_part assms by (auto simp: moves_def same_def dest!: spec [of _ "maker_new n delay workers db ps keys name"])
  then have "sealed_as P [] s" "bk_current_batch s = []"
    by (simp_all add: maker_part_def maker_new_def sealed_as_def)
  from maker_run_sealed [OF this(1), of evs] this(2) show ?thesis by (auto simp: sealed_as_def)
qed

definition sample_wcodec :: wcodec where
  "sample_wcodec = codec.extend sample_codec (wcodec.fields (\<lambda>m. case m of Batch b \<Rightarrow> [of_nat (length b)] | _ \<Rightarrow> [])
     (\<lambda>bs. case bs of [] \<Rightarrow> Some (BatchRequest [] (PublicKey 0)) | b # _ \<Rightarrow> Some (Batch (replicate (unat b) (transaction_of 0 [])))))"

definition sample_maker :: batch_maker where
  "sample_maker = maker_new 4 100 [(PublicKey 2, SocketAddr [1] 7)] (\<lambda>_. None) default_parameters [PublicKey 1, PublicKey 2] (PublicKey 1)"

lemma sample_maker_start: "maker_start sample_maker = (sample_maker, Done ())"
  by (simp add: maker_start_def sample_maker_def maker_new_def default_parameters_def handler_simps)

theorem transactions_batched_witness:
  "\<exists>bs. concat bs @ bk_current_batch (maker_run sample_wcodec
      [(1, NewTransaction (transaction_of 0 [1])), (2, NewTransaction (transaction_of 1 [2]))] sample_maker) =
    [transaction_of 0 [1], transaction_of 1 [2]]"
  using transactions_batched [OF sample_maker_start [unfolded sample_maker_def], of sample_wcodec
      "[(1, NewTransaction (transaction_of 0 [1])), (2, NewTransaction (transaction_of 1 [2]))]"]
  by (auto simp: tx_of_def sample_maker_def)

section \<open>Batches sealed while asynchrony is simulated\<close>

lemma sealed_sends:
  "bk_sent (sealed_at P now u) = bk_sent u @ map (\<lambda>(_, a). (a, w_ser P (Batch (bk_current_batch u))))
     (if bk_during_asynchrony u then filter (\<lambda>(pk, _). pk \<in> bk_partition_keys u) (bk_workers u) else bk_workers u)"
  "bk_to_processor (sealed_at P now u) = bk_to_processor u @ [w_ser P (Batch (bk_current_batch u))]"
  by (simp_all add: sealed_at_def seal_def handler_simps Let_def)

definition sends_only :: "batch_maker \<Rightarrow> batch_maker \<Rightarrow> bool" where
  "sends_only s t \<longleftrightarrow> (\<exists>out later. bk_sent t = bk_sent s @ out \<and> bk_to_processor t = bk_to_processor s @ later \<and> snd ` set out \<subseteq> set later)"

lemma sends_only_refl: "bk_sent t = bk_sent s \<Longrightarrow> bk_to_processor t = bk_to_processor s \<Longrightarrow> sends_only s t"
  by (simp add: sends_only_def)

lemma sends_only_seal:
  assumes "bk_sent u = bk_sent s" and "bk_to_processor u = bk_to_processor s"
  shows "sends_only s (sealed_at P now u)"
  unfolding sends_only_def sealed_sends assms
  by (intro exI conjI, rule refl, rule refl) auto

lemma sends_only_trans:
  assumes "sends_only s t" and "sends_only t u"
  shows "sends_only s u"
proof -
  obtain o1 l1 where 1: "bk_sent t = bk_sent s @ o1" "bk_to_processor t = bk_to_processor s @ l1" "snd ` set o1 \<subseteq> set l1"
    using assms(1) by (auto simp: sends_only_def)
  obtain o2 l2 where 2: "bk_sent u = bk_sent t @ o2" "bk_to_processor u = bk_to_processor t @ l2" "snd ` set o2 \<subseteq> set l2"
    using assms(2) by (auto simp: sends_only_def)
  show ?thesis
    unfolding sends_only_def using 1 2 by (intro exI [of _ "o1 @ o2"] exI [of _ "l1 @ l2"]) auto
qed

lemma sends_only_turn: "sends_only s (fst (maker_turn P (now, ev) s))"
proof (cases ev)
  case (NewTransaction tx)
  show ?thesis
    by (simp add: NewTransaction transaction_turn Let_def with_transaction_def sends_only_seal sends_only_refl del: maker_turn.simps)
next
  case BatchTimer
  then show ?thesis by (simp add: timer_turn sends_only_seal sends_only_refl del: maker_turn.simps)
qed (simp_all add: handler_simps reset_timer_def sends_only_refl)

lemma sends_only_run: "sends_only s (maker_run P evs s)"
proof (induction evs arbitrary: s)
  case (Cons x evs)
  obtain now ev where "x = (now, ev)" by (cases x)
  then show ?case
    using sends_only_trans [OF sends_only_turn Cons] by (simp add: maker_run_def)
qed (simp add: maker_run_def sends_only_refl)

text \<open>
  while asynchrony is simulated, of whatever kind, a sealed batch goes only to the workers of
  the own side of a partition, so to nobody when the window is not a partition. It is kept in a
  queue, but nothing takes it out again: later turns only send the batches they seal themselves.
\<close>

theorem window_batches_withheld:
  assumes "bk_during_asynchrony s" and "\<forall>(pk, a) \<in> set (bk_workers s). pk \<notin> bk_partition_keys s"
    and "bk_deadline s \<le> now" and "bk_current_batch s \<noteq> []"
  shows "let b = w_ser P (Batch (bk_current_batch s)); t = fst (maker_turn P (now, BatchTimer) s) in
    bk_to_processor t = bk_to_processor s @ [b] \<and> bk_sent t = bk_sent s \<and>
    (\<exists>out later. bk_sent (maker_run P evs t) = bk_sent s @ out \<and>
       bk_to_processor (maker_run P evs t) = bk_to_processor s @ b # later \<and> snd ` set out \<subseteq> set later)"
proof -
  let ?t = "sealed_at P now s"
  have none: "filter (\<lambda>(pk, _). pk \<in> bk_partition_keys s) (bk_workers s) = []"
    using assms(2) by (auto simp: filter_empty_conv)
  have "fst (maker_turn P (now, BatchTimer) s) = ?t"
    using assms(3, 4) by (simp add: timer_turn del: maker_turn.simps)
  moreover have "sends_only ?t (maker_run P evs ?t)" by (rule sends_only_run)
  ultimately show ?thesis
    using assms(1) by (auto simp: Let_def sealed_sends none sends_only_def)
qed

definition sample_window :: batch_maker where
  "sample_window = sample_maker\<lparr>bk_during_asynchrony := True, bk_current_batch := [transaction_of 0 [1]]\<rparr>"

theorem window_batches_withheld_witness:
  "bk_sent (fst (maker_turn sample_wcodec (100, BatchTimer) sample_window)) = []"
proof -
  have s: "bk_during_asynchrony sample_window" "\<forall>(pk, a) \<in> set (bk_workers sample_window). pk \<notin> bk_partition_keys sample_window"
    "bk_deadline sample_window \<le> 100" "bk_current_batch sample_window \<noteq> []" "bk_sent sample_window = []"
    by (simp_all add: sample_window_def sample_maker_def maker_new_def)
  show ?thesis using window_batches_withheld [OF s(1-4), of sample_wcodec "[]"] s(5) by (simp only: Let_def)
qed

section \<open>What the processor reports\<close>

lemma u64_of_be_Cons: "u64_of_be (b # bs) = ucast b * 256 ^ length bs + u64_of_be bs"
proof -
  have "foldl (\<lambda>acc b. acc * 256 + ucast b) acc bs = acc * 256 ^ length bs + u64_of_be bs" for acc :: u64 and bs :: "u8 list"
  proof (induction bs rule: rev_induct)
    case (snoc b bs)
    then show ?case by (simp add: u64_of_be_def algebra_simps)
  qed (simp add: u64_of_be_def)
  from this [of "ucast b" bs] show ?thesis by (simp add: u64_of_be_def)
qed

lemma u64_of_be_bytes: "u64_of_be (be_bytes n w) = take_bit (8 * n) w"
proof (induction n)
  case (Suc n)
  have byte: "(ucast (word_byte n w) :: u64) = take_bit 8 (drop_bit (8 * n) w)"
    by (rule bit_word_eqI) (auto simp: bit_ucast_iff bit_word_byte bit_take_bit_iff bit_drop_bit_eq)
  have "be_bytes (Suc n) w = word_byte n w # be_bytes n w" by (simp add: be_bytes_def le_bytes_def)
  then have "u64_of_be (be_bytes (Suc n) w) = push_bit (8 * n) (take_bit 8 (drop_bit (8 * n) w)) + take_bit (8 * n) w"
    by (simp add: u64_of_be_Cons Suc byte push_bit_eq_mult power_mult)
  also have "\<dots> = push_bit (8 * n) (drop_bit (8 * n) (take_bit (8 * Suc n) w)) + take_bit (8 * n) (take_bit (8 * Suc n) w)"
    by (simp add: drop_bit_take_bit)
  also have "\<dots> = take_bit (8 * Suc n) w" by (rule bits_ident)
  finally show ?case .
qed (simp add: u64_of_be_def be_bytes_def le_bytes_def)


definition sample_tx :: transaction where
  "sample_tx = transaction_of 5 (0 # be_bytes 8 (77 :: u64) @ [1, 2])"

definition echo_wcodec :: "transaction list \<Rightarrow> wcodec" where
  "echo_wcodec txs = codec.extend sample_codec (wcodec.fields (\<lambda>m. [1]) (\<lambda>bs. Some (Batch txs)))"


end
