(* ===== verification/Header_Waiter.thy ===== *)
theory Header_Waiter
  imports Core_Send
begin

text \<open>
  The header waiter (\<open>primary/src/header_waiter.rs\<close>): it asks other nodes for what the
  synchronizer misses and hands a header or a consensus message back to the core once all it
  waited for is in the store.

  A suspended \<open>waiter\<close>, \<open>proposal_waiter\<close> or \<open>optimistic_tip_waiter\<close> future is a \<open>waiter\<close>
  record; its cancel channel is a number. The sender of that channel lives in \<open>hw_pending\<close>:
  when the entry is replaced or removed the sender is dropped, \<open>handler.recv()\<close> completes and
  the future may end with \<open>Ok(None)\<close>. The store is an argument \<open>db\<close> of a turn; keys are never
  removed from it, so a future may complete as soon as \<open>db\<close> has all its keys
  (\<open>store_notify\<close> in \<open>Store\<close>). Time is in milliseconds. What is sent over the network is
  appended to \<open>hw_sent\<close>.
\<close>

section \<open>State\<close>

datatype delivery = DeliverHeader header | DeliverInstance consensus_message header

record waiter =
  wt_token :: nat
  wt_keys :: "key list"
  wt_deliver :: delivery

datatype waiter_output =
    SendTo socket_addr net_message
  | LuckyBroadcast "socket_addr list" net_message u64

record header_waiter =
  hw_name :: public_key
  hw_committee :: committee
  hw_gc_depth :: height
  hw_sync_retry_delay :: u64
  hw_sync_retry_nodes :: u64
  hw_use_fast_sync :: bool
  hw_use_optimistic_tips :: bool
  hw_parent_requests :: "(digest \<times> height \<times> nat) list"
  hw_header_requests :: "(digest \<times> height \<times> nat) list"
  hw_batch_requests :: "digest \<rightharpoonup> height"
  hw_pending :: "(digest \<times> height \<times> nat) list"
  hw_waiting :: "waiter list"
  hw_next_token :: nat
  hw_cancelled :: "nat set"
  hw_sent :: "waiter_output list"
  hw_to_core :: "header list"
  hw_to_instances :: "(consensus_message \<times> header) list"

type_synonym 'a waiter_handler = "(header_waiter, dag_error, 'a) handler"

definition waiter_new :: "public_key \<Rightarrow> committee \<Rightarrow> height \<Rightarrow> u64 \<Rightarrow> u64 \<Rightarrow> bool \<Rightarrow> bool \<Rightarrow> header_waiter" where
  "waiter_new name c depth delay nodes fast optimistic = \<lparr>hw_name = name, hw_committee = c,
     hw_gc_depth = depth, hw_sync_retry_delay = delay, hw_sync_retry_nodes = nodes,
     hw_use_fast_sync = fast, hw_use_optimistic_tips = optimistic, hw_parent_requests = [],
     hw_header_requests = [], hw_batch_requests = (\<lambda>_. None), hw_pending = [], hw_waiting = [],
     hw_next_token = 0, hw_cancelled = {}, hw_sent = [], hw_to_core = [], hw_to_instances = []\<rparr>"

section \<open>Registering\<close>

definition is_pending :: "digest \<Rightarrow> header_waiter \<Rightarrow> bool" where
  "is_pending i s \<longleftrightarrow> i \<in> fst ` set (hw_pending s)"

definition add_waiter :: "digest \<Rightarrow> height \<Rightarrow> key list \<Rightarrow> delivery \<Rightarrow> header_waiter \<Rightarrow> header_waiter" where
  "add_waiter i height keys deliver s = s\<lparr>
     hw_pending := hm_insert i (height, hw_next_token s) (hw_pending s),
     hw_waiting := hw_waiting s @ [\<lparr>wt_token = hw_next_token s, wt_keys = keys, wt_deliver = deliver\<rparr>],
     hw_next_token := hw_next_token s + 1\<rparr>"

definition send_out :: "waiter_output \<Rightarrow> unit waiter_handler" where
  "send_out x = modify (\<lambda>s. s\<lparr>hw_sent := hw_sent s @ [x]\<rparr>)"

text \<open>\<open>entry(d).or_insert_with(..)\<close> on the requests for parents; the result says whether it was new.\<close>

definition request_parent :: "digest \<Rightarrow> height \<Rightarrow> nat \<Rightarrow> bool waiter_handler" where
  "request_parent d height now = with_state (\<lambda>s.
     if d \<in> fst ` set (hw_parent_requests s) then ret False
     else seq_h (modify (\<lambda>s. s\<lparr>hw_parent_requests := hm_insert d (height, now) (hw_parent_requests s)\<rparr>)) (ret True))"

definition address_of_primary :: "public_key \<Rightarrow> socket_addr waiter_handler" where
  "address_of_primary a = with_state (\<lambda>s.
     expect_h (of_result (bind_r (map_err (\<lambda>_. DagUnknownAuthority a) (primary_of (hw_committee s) a))
       (\<lambda>p. Done (primary_to_primary p)))))"

definition other_primary_addresses :: "header_waiter \<Rightarrow> socket_addr list" where
  "other_primary_addresses s = map (\<lambda>(_, p). primary_to_primary p) (others_primaries (hw_committee s) (hw_name s))"

section \<open>Commands of the synchronizer\<close>

text \<open>Each returns whether the loop goes on to the cleanup; \<open>continue\<close> skips it.\<close>

definition request_batch :: "height \<Rightarrow> digest \<times> worker_id \<Rightarrow> (worker_id \<times> digest list) list \<Rightarrow> (worker_id \<times> digest list) list waiter_handler" where
  "request_batch rnd x acc = with_state (\<lambda>s.
     if hw_batch_requests s (fst x) \<noteq> None then ret acc
     else seq_h (modify (\<lambda>s. s\<lparr>hw_batch_requests := (hw_batch_requests s)(fst x \<mapsto> rnd)\<rparr>))
       (ret (hm_insert (snd x) ((case map_of acc (snd x) of None \<Rightarrow> [] | Some ds \<Rightarrow> ds) @ [fst x]) acc)))"

definition ask_worker :: "public_key \<Rightarrow> worker_id \<times> digest list \<Rightarrow> unit waiter_handler" where
  "ask_worker author x = with_state (\<lambda>s.
     bind_h (expect_h (of_result (map_err (\<lambda>_. DagUnknownAuthority (hw_name s)) (worker_of (hw_committee s) (hw_name s) (fst x)))))
       (\<lambda>w. send_out (SendTo (primary_to_worker w) (ToWorker (Synchronize (snd x) author)))))"

definition sync_batches :: "(digest \<times> worker_id) list \<Rightarrow> header \<Rightarrow> bool waiter_handler" where
  "sync_batches missing h = with_state (\<lambda>s.
     if is_pending (hd_id h) s then ret False
     else seq_h (modify (add_waiter (hd_id h) (hd_height h) (map (\<lambda>(d, w). payload_key d w) missing) (DeliverHeader h)))
       (bind_h (fold_h (request_batch (hd_height h)) missing []) (\<lambda>requires_sync.
        seq_h (each (ask_worker (hd_author h)) requires_sync) (ret True))))"

definition sync_header :: "nat \<Rightarrow> digest \<Rightarrow> bool waiter_handler" where
  "sync_header now missing = with_state (\<lambda>s.
     if missing \<in> fst ` set (hw_header_requests s) then ret True
     else seq_h (modify (\<lambda>s. s\<lparr>hw_header_requests := hm_insert missing (0, now) (hw_header_requests s)\<rparr>))
       (seq_h (send_out (LuckyBroadcast (other_primary_addresses s)
          (ToPrimary (HeadersRequest [missing] (hw_name s))) (hw_sync_retry_nodes s))) (ret True)))"

definition sync_parent :: "nat \<Rightarrow> digest \<Rightarrow> header \<Rightarrow> height \<Rightarrow> bool waiter_handler" where
  "sync_parent now missing h lower_bound = with_state (\<lambda>s.
     if is_pending (hd_id h) s then ret False
     else seq_h (modify (add_waiter (hd_id h) (hd_height h) [digest_bytes missing] (DeliverHeader h)))
       (seq_h
         (if hw_use_fast_sync s
          then when_h (hd_height h - 1 > lower_bound)
            (bind_h (request_parent missing lower_bound now) (\<lambda>new.
             bind_h (address_of_primary (hd_author h)) (\<lambda>a.
             send_out (SendTo a (ToPrimary (FastSyncHeadersRequest (if new then [(missing, lower_bound)] else []) (hw_name s)))))))
          else bind_h (request_parent missing (hd_height h) now) (\<lambda>new.
             when_h new (bind_h (address_of_primary (hd_author h)) (\<lambda>a.
             send_out (SendTo a (ToPrimary (HeadersRequest [missing] (hw_name s))))))))
         (ret True)))"

definition waits_for_tips :: "consensus_message \<Rightarrow> header_waiter \<Rightarrow> bool" where
  "waits_for_tips m s \<longleftrightarrow> (case m of Prepare sl v tc t ps r \<Rightarrow> hw_use_optimistic_tips s | _ \<Rightarrow> False)"

definition proposal_key :: "bool \<Rightarrow> proposal \<Rightarrow> key" where
  "proposal_key tips p = (if tips then optimistic_key (prop_digest p) else digest_bytes (prop_digest p))"

definition fast_request :: "bool \<Rightarrow> nat \<Rightarrow> public_key \<times> proposal \<times> height \<Rightarrow> (digest \<times> height) list \<Rightarrow> (digest \<times> height) list waiter_handler" where
  "fast_request already now = (\<lambda>(_, p, lower_bound) acc.
     if prop_height p > lower_bound \<and> \<not> already
     then bind_h (request_parent (prop_digest p) lower_bound now) (\<lambda>new.
          ret (if new then acc @ [(prop_digest p, lower_bound)] else acc))
     else ret acc)"

definition slow_request :: "nat \<Rightarrow> public_key \<times> proposal \<times> height \<Rightarrow> digest list \<Rightarrow> digest list waiter_handler" where
  "slow_request now = (\<lambda>(_, p, _) acc.
     bind_h (request_parent (prop_digest p) (prop_height p) now) (\<lambda>new.
     ret (if new then acc @ [prop_digest p] else acc)))"

definition sync_proposals :: "'p prims_scheme \<Rightarrow> nat \<Rightarrow> missing \<Rightarrow> consensus_message \<Rightarrow> header \<Rightarrow> bool waiter_handler" where
  "sync_proposals P now missing m h = with_state (\<lambda>s.
     let i = proposal_digest P m; already = is_pending i s in
     seq_h (modify (add_waiter i (hd_height h)
         (map (\<lambda>(_, p, _). proposal_key (waits_for_tips m s) p) missing) (DeliverInstance m h)))
     (seq_h
       (if hw_use_fast_sync s
        then bind_h (fold_h (fast_request already now) missing []) (\<lambda>requires_sync.
             when_h (requires_sync \<noteq> []) (bind_h (address_of_primary (hd_author h)) (\<lambda>a.
             send_out (SendTo a (ToPrimary (FastSyncHeadersRequest requires_sync (hw_name s)))))))
        else bind_h (fold_h (slow_request now) missing []) (\<lambda>requires_sync.
             when_h (requires_sync \<noteq> []) (bind_h (address_of_primary (hd_author h)) (\<lambda>a.
             send_out (SendTo a (ToPrimary (HeadersRequest requires_sync (hw_name s))))))))
       (ret True)))"

fun receive_command :: "'p prims_scheme \<Rightarrow> nat \<Rightarrow> waiter_message \<Rightarrow> bool waiter_handler" where
  "receive_command P now (SyncBatches missing h _) = sync_batches missing h"
| "receive_command P now (SyncHeader d) = sync_header now d"
| "receive_command P now (SyncParent d h lower_bound) = sync_parent now d h lower_bound"
| "receive_command P now (SyncProposals missing m h) = sync_proposals P now missing m h"

section \<open>Completion, cancellation and retries\<close>

definition waiter_ready :: "(key \<rightharpoonup> val) \<Rightarrow> waiter \<Rightarrow> bool" where
  "waiter_ready db w \<longleftrightarrow> (\<forall>k \<in> set (wt_keys w). db k \<noteq> None)"

definition cancellable :: "header_waiter \<Rightarrow> waiter \<Rightarrow> bool" where
  "cancellable s w \<longleftrightarrow> wt_token w \<notin> (snd \<circ> snd) ` set (hw_pending s) \<or> wt_token w \<in> hw_cancelled s"

definition drop_waiter :: "waiter \<Rightarrow> header_waiter \<Rightarrow> header_waiter" where
  "drop_waiter w s = s\<lparr>hw_waiting := filter (\<lambda>x. wt_token x \<noteq> wt_token w) (hw_waiting s)\<rparr>"

definition forget_batches :: "header \<Rightarrow> header_waiter \<Rightarrow> header_waiter" where
  "forget_batches h s = s\<lparr>hw_batch_requests := (hw_batch_requests s) |` (- fst ` set (hd_payload h))\<rparr>"

fun hand_back :: "'p prims_scheme \<Rightarrow> delivery \<Rightarrow> header_waiter \<Rightarrow> header_waiter" where
  "hand_back P (DeliverHeader h) s =
     (let s' = forget_batches h (s\<lparr>hw_pending := hm_remove (hd_id h) (hw_pending s)\<rparr>)
      in s'\<lparr>hw_parent_requests := hm_remove (cert_header_digest (hd_parent_cert h)) (hw_parent_requests s'),
            hw_to_core := hw_to_core s' @ [h]\<rparr>)"
| "hand_back P (DeliverInstance m h) s =
     (let s' = forget_batches h (s\<lparr>hw_pending := hm_remove (proposal_digest P m) (hw_pending s)\<rparr>)
      in s'\<lparr>hw_parent_requests := fold (\<lambda>(_, p). hm_remove (prop_digest p)) (cm_proposals m) (hw_parent_requests s'),
            hw_to_instances := hw_to_instances s' @ [(m, h)]\<rparr>)"

definition retries :: "nat \<Rightarrow> header_waiter \<Rightarrow> (digest \<times> height) list" where
  "retries now s = map (\<lambda>(d, lower_bound, _). (d, lower_bound))
     (filter (\<lambda>(_, _, timestamp). timestamp + unat (hw_sync_retry_delay s) < now) (hw_parent_requests s))"

definition retry_requests :: "nat \<Rightarrow> unit waiter_handler" where
  "retry_requests now = with_state (\<lambda>s. send_out (LuckyBroadcast (other_primary_addresses s)
     (ToPrimary (if hw_use_fast_sync s then FastSyncHeadersRequest (retries now s) (hw_name s)
                 else HeadersRequest (map fst (retries now s)) (hw_name s)))
     (hw_sync_retry_nodes s)))"

text \<open>
  Cleanup sends \<open>()\<close> on the cancel channels of old entries. A channel holds one message: when
  its future has ended the send fails at once, when an earlier \<open>()\<close> was not yet consumed it
  waits for a future that only this task polls, so it never returns.
\<close>

definition cancel_entry :: "height \<Rightarrow> digest \<times> height \<times> nat \<Rightarrow> unit waiter_handler" where
  "cancel_entry gc_rnd = (\<lambda>(_, r, token). with_state (\<lambda>s.
     if r \<le> gc_rnd \<and> token \<in> wt_token ` set (hw_waiting s)
     then if token \<in> hw_cancelled s then diverge else modify (\<lambda>s. s\<lparr>hw_cancelled := insert token (hw_cancelled s)\<rparr>)
     else ret ()))"

definition waiter_gc :: "height \<Rightarrow> unit waiter_handler" where
  "waiter_gc rnd = with_state (\<lambda>s. when_h (rnd > hw_gc_depth s)
     (each (cancel_entry (rnd - hw_gc_depth s)) (hw_pending s)))"

section \<open>One turn\<close>

datatype waiter_event =
    Command waiter_message
  | Completed nat
  | Cancelled nat
  | RetryTimer

definition find_waiter :: "(waiter \<Rightarrow> bool) \<Rightarrow> nat \<Rightarrow> header_waiter \<Rightarrow> waiter option" where
  "find_waiter ok token s = find (\<lambda>w. wt_token w = token \<and> ok w) (hw_waiting s)"

text \<open>An event that cannot happen in the state leaves it as it is.\<close>

definition waiter_turn :: "'p prims_scheme \<Rightarrow> (key \<rightharpoonup> val) \<Rightarrow> nat \<Rightarrow> height \<Rightarrow> waiter_event \<Rightarrow> unit waiter_handler" where
  "waiter_turn P db now rnd ev = (case ev of
     Command m \<Rightarrow> bind_h (receive_command P now m) (\<lambda>go_on. when_h go_on (waiter_gc rnd))
   | Completed token \<Rightarrow> with_state (\<lambda>s. case find_waiter (waiter_ready db) token s of
       None \<Rightarrow> ret ()
     | Some w \<Rightarrow> seq_h (modify (\<lambda>s. hand_back P (wt_deliver w) (drop_waiter w s))) (waiter_gc rnd))
   | Cancelled token \<Rightarrow> with_state (\<lambda>s. case find_waiter (cancellable s) token s of
       None \<Rightarrow> ret ()
     | Some w \<Rightarrow> seq_h (modify (drop_waiter w)) (waiter_gc rnd))
   | RetryTimer \<Rightarrow> seq_h (retry_requests now) (waiter_gc rnd))"

section \<open>What a command registers\<close>

definition registration :: "'p prims_scheme \<Rightarrow> waiter_message \<Rightarrow> header_waiter \<Rightarrow> (digest \<times> height \<times> key list \<times> delivery) option" where
  "registration P m s = (case m of
     SyncBatches missing h _ \<Rightarrow> if is_pending (hd_id h) s then None
       else Some (hd_id h, hd_height h, map (\<lambda>(d, w). payload_key d w) missing, DeliverHeader h)
   | SyncParent d h _ \<Rightarrow> if is_pending (hd_id h) s then None
       else Some (hd_id h, hd_height h, [digest_bytes d], DeliverHeader h)
   | SyncProposals missing cm h \<Rightarrow> Some (proposal_digest P cm, hd_height h,
       map (\<lambda>(_, p, _). proposal_key (waits_for_tips cm s) p) missing, DeliverInstance cm h)
   | SyncHeader d \<Rightarrow> None)"

definition register :: "(digest \<times> height \<times> key list \<times> delivery) option \<Rightarrow> header_waiter \<Rightarrow> header_waiter" where
  "register r s = (case r of None \<Rightarrow> s | Some (i, height, keys, deliver) \<Rightarrow> add_waiter i height keys deliver s)"

definition hw_part :: "header_waiter \<Rightarrow> (digest \<times> height \<times> nat) list \<times> waiter list \<times> nat \<times> nat set \<times> header list
    \<times> (consensus_message \<times> header) list \<times> height" where
  "hw_part s = (hw_pending s, hw_waiting s, hw_next_token s, hw_cancelled s, hw_to_core s, hw_to_instances s, hw_gc_depth s)"

named_theorems waiter_frame \<open>sending and noting requests leaves the registered waiters alone\<close>

lemmas waiter_rules = frame.rules [where part = hw_part] frame.with_state [where part = hw_part]
  frame.modify [where part = hw_part]

lemma send_out_fixed [waiter_frame]: "moves (same hw_part) (send_out x)"
  unfolding send_out_def by (rule frame.modify) (simp add: same_def hw_part_def)

lemma request_parent_fixed [waiter_frame]: "moves (same hw_part) (request_parent d h now)"
  unfolding request_parent_def by (auto intro!: waiter_rules simp: same_def hw_part_def)

lemma address_fixed [waiter_frame]: "moves (same hw_part) (address_of_primary a)"
  unfolding address_of_primary_def by (intro waiter_rules)

lemma request_batch_fixed [waiter_frame]: "moves (same hw_part) (request_batch r x acc)"
  unfolding request_batch_def by (auto intro!: waiter_rules simp: same_def hw_part_def)

lemma ask_worker_fixed [waiter_frame]: "moves (same hw_part) (ask_worker a x)"
  unfolding ask_worker_def by (intro waiter_rules waiter_frame)

lemma fast_request_fixed [waiter_frame]: "moves (same hw_part) (fast_request b now x acc)"
  unfolding fast_request_def by (cases x) (auto intro!: waiter_rules waiter_frame)

lemma slow_request_fixed [waiter_frame]: "moves (same hw_part) (slow_request now x acc)"
  unfolding slow_request_def by (cases x) (auto intro!: waiter_rules waiter_frame)

lemma retry_fixed [waiter_frame]: "moves (same hw_part) (retry_requests now)"
  unfolding retry_requests_def by (intro waiter_rules waiter_frame)

text \<open>Registering first, then only steps of the frame.\<close>

lemma registered_then:
  "moves (same hw_part) h \<Longrightarrow> hw_part (fst (seq_h (modify f) h s)) = hw_part (f s)"
  by (simp add: seq_h_def bind_h_def modify_def moves_def same_def)

lemma ret_state: "fst (ret a s) = s"
  by (simp add: ret_def)

lemma receive_command_part:
  "hw_part (fst (receive_command P now m s)) = hw_part (register (registration P m s) s)"
proof (cases m)
  case (SyncHeader d)
  then show ?thesis
    by (simp add: sync_header_def registration_def register_def handler_simps send_out_def hw_part_def)
qed (simp_all add: sync_batches_def sync_parent_def sync_proposals_def registration_def register_def Let_def with_state_def
      ret_state, (auto intro!: registered_then waiter_rules waiter_frame)+)

section \<open>Headers are never cancelled\<close>

text \<open>
  Runs of the waiter in which no garbage collection takes place (the round it watches is never
  advanced in this system) and the ids of headers, a set \<open>D\<close>, are no digests of proposals.
\<close>

definition apart :: "'p prims_scheme \<Rightarrow> digest set \<Rightarrow> waiter_event \<Rightarrow> bool" where
  "apart P D ev = (case ev of
     Command (SyncBatches _ h _) \<Rightarrow> hd_id h \<in> D
   | Command (SyncParent _ h _) \<Rightarrow> hd_id h \<in> D
   | Command (SyncProposals _ m _) \<Rightarrow> proposal_digest P m \<notin> D
   | _ \<Rightarrow> True)"

inductive waiter_runs :: "'p prims_scheme \<Rightarrow> digest set \<Rightarrow> header_waiter \<Rightarrow> bool" for P D where
  start: "waiter_runs P D (waiter_new name c depth delay nodes fast optimistic)"
| turn: "waiter_runs P D s \<Longrightarrow> apart P D ev \<Longrightarrow> rnd \<le> hw_gc_depth s \<Longrightarrow>
    waiter_runs P D (fst (waiter_turn P db now rnd ev s))"

definition owns :: "digest set \<Rightarrow> 'p prims_scheme \<Rightarrow> (digest \<times> height \<times> nat) list \<Rightarrow> waiter \<Rightarrow> bool" where
  "owns D P pending w = (case wt_deliver w of
     DeliverHeader h \<Rightarrow> hd_id h \<in> D \<and> (\<exists>height. map_of pending (hd_id h) = Some (height, wt_token w))
   | DeliverInstance m h \<Rightarrow> proposal_digest P m \<notin> D)"

definition waiters_ok :: "'p prims_scheme \<Rightarrow> digest set \<Rightarrow> header_waiter \<Rightarrow> bool" where
  "waiters_ok P D s \<longleftrightarrow> distinct (map wt_token (hw_waiting s)) \<and> hw_cancelled s = {} \<and>
     (\<forall>w \<in> set (hw_waiting s). wt_token w < hw_next_token s \<and> owns D P (hw_pending s) w)"

lemma waiters_ok_part: "hw_part s = hw_part t \<Longrightarrow> waiters_ok P D s \<longleftrightarrow> waiters_ok P D t"
  by (simp add: waiters_ok_def hw_part_def)

lemma waiters_ok_register:
  assumes "waiters_ok P D s" and "apart P D (Command m)"
  shows "waiters_ok P D (register (registration P m s) s)"
proof (cases "registration P m s")
  case (Some r)
  obtain i height keys deliver where r: "r = (i, height, keys, deliver)" by (cases r)
  have new: "owns D P (hm_insert i (height, hw_next_token s) (hw_pending s))
      \<lparr>wt_token = hw_next_token s, wt_keys = keys, wt_deliver = deliver\<rparr>"
    using assms(2) Some by (auto simp: owns_def r registration_def apart_def split: waiter_message.splits if_splits)
  have old: "owns D P (hm_insert i (height, hw_next_token s) (hw_pending s)) w" if "w \<in> set (hw_waiting s)" for w
  proof -
    have "owns D P (hw_pending s) w" using assms(1) that by (simp add: waiters_ok_def)
    moreover have "i \<noteq> hd_id h" if "hd_id h \<in> D" "map_of (hw_pending s) (hd_id h) = Some x" for h x
      using assms(2) Some that map_of_SomeD [OF that(2)]
      by (auto simp: r registration_def apart_def is_pending_def image_iff split: waiter_message.splits if_splits)
    ultimately show ?thesis by (auto simp: owns_def split: delivery.splits)
  qed
  show ?thesis
    using assms(1) new old by (auto simp: Some r register_def add_waiter_def waiters_ok_def less_Suc_eq)
qed (use assms in \<open>simp add: register_def\<close>)

lemma waiters_ok_drop: "waiters_ok P D s \<Longrightarrow> waiters_ok P D (drop_waiter w s)"
  by (auto simp: waiters_ok_def drop_waiter_def distinct_map_filter)

lemma owner_unique:
  assumes "waiters_ok P D s" and "w \<in> set (hw_waiting s)" and "v \<in> set (hw_waiting s)"
    and "wt_deliver w = DeliverHeader h" and "wt_deliver v = DeliverHeader g" and "hd_id h = hd_id g"
  shows "wt_token w = wt_token v"
proof -
  have "owns D P (hw_pending s) w" and "owns D P (hw_pending s) v"
    using assms(1-3) by (simp_all add: waiters_ok_def)
  then show ?thesis using assms(4-6) by (auto simp: owns_def)
qed

lemma hand_back_fields [simp]:
  "hw_waiting (hand_back P d s) = hw_waiting s" "hw_cancelled (hand_back P d s) = hw_cancelled s"
  "hw_next_token (hand_back P d s) = hw_next_token s" "hw_gc_depth (hand_back P d s) = hw_gc_depth s"
  "hw_pending (hand_back P d s) = hm_remove (case d of DeliverHeader h \<Rightarrow> hd_id h | DeliverInstance m h \<Rightarrow> proposal_digest P m) (hw_pending s)"
  "hw_to_core (hand_back P d s) = hw_to_core s @ (case d of DeliverHeader h \<Rightarrow> [h] | DeliverInstance m h \<Rightarrow> [])"
  "hw_to_instances (hand_back P d s) = hw_to_instances s @ (case d of DeliverHeader h \<Rightarrow> [] | DeliverInstance m h \<Rightarrow> [(m, h)])"
  by (cases d; simp add: Let_def forget_batches_def)+

declare hand_back.simps [simp del]

lemma waiters_ok_hand_back:
  assumes ok: "waiters_ok P D s" and w: "w \<in> set (hw_waiting s)"
  shows "waiters_ok P D (hand_back P (wt_deliver w) (drop_waiter w s))"
proof -
  let ?i = "case wt_deliver w of DeliverHeader h \<Rightarrow> hd_id h | DeliverInstance m h \<Rightarrow> proposal_digest P m"
  have "owns D P (hm_remove ?i (hw_pending s)) v" if v: "v \<in> set (hw_waiting s)" "wt_token v \<noteq> wt_token w" for v
  proof -
    have ov: "owns D P (hw_pending s) v" and ow: "owns D P (hw_pending s) w"
      using ok v w by (auto simp: waiters_ok_def)
    have "hd_id g \<noteq> ?i" if "wt_deliver v = DeliverHeader g" for g
      using owner_unique [OF ok v(1) w that] v(2) ov ow that
      by (auto simp: owns_def split: delivery.splits)
    then show ?thesis using ov by (auto simp: owns_def split: delivery.splits)
  qed
  then show ?thesis
    using waiters_ok_drop [OF ok, of w] by (auto simp: waiters_ok_def drop_waiter_def)
qed

lemma no_gc: "rnd \<le> hw_gc_depth s \<Longrightarrow> waiter_gc rnd s = (s, Done ())"
  by (auto simp: waiter_gc_def handler_simps)

lemma find_waiter_Some: "find_waiter ok token s = Some w \<Longrightarrow> w \<in> set (hw_waiting s) \<and> wt_token w = token \<and> ok w"
  by (auto simp: find_waiter_def find_Some_iff)

lemma part_depth: "hw_part s = hw_part t \<Longrightarrow> hw_gc_depth s = hw_gc_depth t"
  by (simp add: hw_part_def)

lemma then_gc:
  assumes "hw_part (fst (h s)) = hw_part u" and "rnd \<le> hw_gc_depth u"
  shows "hw_part (fst (bind_h h (\<lambda>a. when_h (f a) (waiter_gc rnd)) s)) = hw_part u"
proof -
  obtain t r where h: "h s = (t, r)" by (cases "h s")
  have "rnd \<le> hw_gc_depth t" using assms part_depth [of t u] by (simp add: h)
  then show ?thesis using assms(1) by (cases r) (simp_all add: bind_h_def h when_h_def no_gc ret_def)
qed

lemmas then_gc_always = then_gc [where f = "\<lambda>_. True", simplified when_h_def if_True]

text \<open>The effect of a turn on the registered waiters, when nothing is collected.\<close>

lemma turn_part:
  assumes "rnd \<le> hw_gc_depth s"
  shows "hw_part (fst (waiter_turn P db now rnd ev s)) = hw_part (case ev of
     Command m \<Rightarrow> register (registration P m s) s
   | Completed token \<Rightarrow> (case find_waiter (waiter_ready db) token s of
       None \<Rightarrow> s | Some w \<Rightarrow> hand_back P (wt_deliver w) (drop_waiter w s))
   | Cancelled token \<Rightarrow> (case find_waiter (cancellable s) token s of None \<Rightarrow> s | Some w \<Rightarrow> drop_waiter w s)
   | RetryTimer \<Rightarrow> s)"
proof (cases ev)
  case (Command m)
  have "hw_part (fst (receive_command P now m s)) = hw_part (register (registration P m s) s)"
    by (rule receive_command_part)
  moreover have "hw_gc_depth (register (registration P m s) s) = hw_gc_depth s"
    by (simp add: register_def add_waiter_def split: option.split prod.split)
  ultimately show ?thesis
    using assms then_gc [of "receive_command P now m" s "register (registration P m s) s" rnd "\<lambda>go_on. go_on"]
    by (simp add: Command waiter_turn_def)
next
  case RetryTimer
  have "hw_part (fst (retry_requests now s)) = hw_part s" using retry_fixed by (simp add: moves_def same_def)
  from then_gc_always [of "retry_requests now", OF this assms] show ?thesis
    by (simp add: RetryTimer waiter_turn_def seq_h_def)
next
  case (Completed token)
  show ?thesis
    using assms by (cases "find_waiter (waiter_ready db) token s")
      (simp_all add: Completed waiter_turn_def with_state_def seq_h_def bind_h_def modify_def ret_def no_gc drop_waiter_def)
next
  case (Cancelled token)
  show ?thesis
    using assms by (cases "find_waiter (cancellable s) token s")
      (simp_all add: Cancelled waiter_turn_def with_state_def seq_h_def bind_h_def modify_def ret_def no_gc drop_waiter_def)
qed

lemma waiters_ok_turn:
  assumes "waiters_ok P D s" and "apart P D ev" and "rnd \<le> hw_gc_depth s"
  shows "waiters_ok P D (fst (waiter_turn P db now rnd ev s))"
  using waiters_ok_part [OF turn_part [OF assms(3), of P db now ev], of P D] assms(1, 2)
  by (auto simp: waiters_ok_register waiters_ok_drop waiters_ok_hand_back dest!: find_waiter_Some
      split: waiter_event.splits option.splits)

lemma waiter_runs_ok: "waiter_runs P D s \<Longrightarrow> waiters_ok P D s"
  by (induction rule: waiter_runs.induct) (auto intro: waiters_ok_turn, simp add: waiters_ok_def waiter_new_def)

lemma not_cancellable:
  assumes "waiters_ok P D s" and "w \<in> set (hw_waiting s)" and "wt_deliver w = DeliverHeader h"
  shows "\<not> cancellable s w"
proof -
  have "owns D P (hw_pending s) w" using assms(1, 2) by (simp add: waiters_ok_def)
  then obtain height where "map_of (hw_pending s) (hd_id h) = Some (height, wt_token w)"
    using assms(3) by (auto simp: owns_def)
  then have "wt_token w \<in> (snd \<circ> snd) ` set (hw_pending s)"
    by (metis (no_types, lifting) comp_apply image_eqI map_of_SomeD snd_conv)
  then show ?thesis using assms(1) by (simp add: cancellable_def waiters_ok_def)
qed

lemma find_own:
  assumes "waiters_ok P D s" and "w \<in> set (hw_waiting s)" and "ok w"
  shows "find_waiter ok (wt_token w) s = Some w"
proof -
  have "find_waiter ok (wt_token w) s \<noteq> None"
    using assms(2, 3) by (auto simp: find_waiter_def find_None_iff)
  then obtain v where v: "find_waiter ok (wt_token w) s = Some v" by blast
  then have "v \<in> set (hw_waiting s)" "wt_token v = wt_token w" using find_waiter_Some by blast+
  then have "v = w" using assms(1, 2) by (simp add: waiters_ok_def distinct_map inj_on_def)
  then show ?thesis using v by simp
qed

lemma turn_of_waiter:
  assumes "waiters_ok P D s" and "w \<in> set (hw_waiting s)" and "wt_deliver w = DeliverHeader h" and "rnd \<le> hw_gc_depth s"
  shows "let t = fst (waiter_turn P db now rnd ev s) in
    w \<in> set (hw_waiting t) \<or> (hw_to_core t = hw_to_core s @ [h] \<and> waiter_ready db w \<and> \<not> is_pending (hd_id h) t)"
proof -
  let ?u = "case ev of
     Command m \<Rightarrow> register (registration P m s) s
   | Completed token \<Rightarrow> (case find_waiter (waiter_ready db) token s of
       None \<Rightarrow> s | Some w \<Rightarrow> hand_back P (wt_deliver w) (drop_waiter w s))
   | Cancelled token \<Rightarrow> (case find_waiter (cancellable s) token s of None \<Rightarrow> s | Some w \<Rightarrow> drop_waiter w s)
   | RetryTimer \<Rightarrow> s"
  have same_waiter: "v = w" if "v \<in> set (hw_waiting s)" "wt_token v = wt_token w" for v
    using assms(1, 2) that by (simp add: waiters_ok_def distinct_map inj_on_def)
  have "w \<in> set (hw_waiting ?u) \<or> (hw_to_core ?u = hw_to_core s @ [h] \<and> waiter_ready db w \<and> \<not> is_pending (hd_id h) ?u)"
  proof (cases ev)
    case (Command m)
    then show ?thesis using assms(2)
      by (cases "registration P m s") (auto simp: register_def add_waiter_def split: prod.split)
  next
    case (Completed token)
    show ?thesis
    proof (cases "find_waiter (waiter_ready db) token s")
      case (Some v)
      then have v: "v \<in> set (hw_waiting s)" "waiter_ready db v" using find_waiter_Some by blast+
      show ?thesis
      proof (cases "wt_token v = wt_token w")
        case True
        then have "v = w" by (rule same_waiter [OF v(1)])
        then show ?thesis
          using Some v assms(3) by (simp add: Completed drop_waiter_def is_pending_def)
      qed (use assms(2) in \<open>simp add: Completed Some drop_waiter_def\<close>)
    qed (use assms(2) in \<open>simp add: Completed\<close>)
  next
    case (Cancelled token)
    show ?thesis
    proof (cases "find_waiter (cancellable s) token s")
      case (Some v)
      then have v: "v \<in> set (hw_waiting s)" "cancellable s v" using find_waiter_Some by blast+
      then have "wt_token v \<noteq> wt_token w" using not_cancellable [OF assms(1-3)] same_waiter by blast
      then show ?thesis using assms(2) by (simp add: Cancelled Some drop_waiter_def)
    qed (use assms(2) in \<open>simp add: Cancelled\<close>)
  qed (use assms(2) in simp)
  then show ?thesis
    using turn_part [OF assms(4), of P db now ev] by (simp add: hw_part_def is_pending_def Let_def)
qed

text \<open>
  C26: a header that was suspended is not forgotten. Its future can never be cancelled; after any
  turn it still waits, or it has just been handed back to the core with everything it waited for
  in the store; and once all that is in the store, the completion of the future does hand it
  back and lets the same header be suspended again.
\<close>

theorem suspended_header_returns:
  assumes "waiter_runs P D s" and "w \<in> set (hw_waiting s)" and "wt_deliver w = DeliverHeader h"
    and "rnd \<le> hw_gc_depth s"
  shows "\<not> cancellable s w \<and>
    (let t = fst (waiter_turn P db now rnd ev s) in
       w \<in> set (hw_waiting t) \<or> (hw_to_core t = hw_to_core s @ [h] \<and> waiter_ready db w \<and> \<not> is_pending (hd_id h) t)) \<and>
    (let t = fst (waiter_turn P db now rnd (Completed (wt_token w)) s) in
       if waiter_ready db w then hw_to_core t = hw_to_core s @ [h] \<and> \<not> is_pending (hd_id h) t else hw_to_core t = hw_to_core s)"
proof -
  have ok: "waiters_ok P D s" by (rule waiter_runs_ok [OF assms(1)])
  have "find_waiter (waiter_ready db) (wt_token w) s = (if waiter_ready db w then Some w else None)"
  proof (cases "waiter_ready db w")
    case False
    have "v = w" if "v \<in> set (hw_waiting s)" "wt_token v = wt_token w" for v
      using ok assms(2) that by (simp add: waiters_ok_def distinct_map inj_on_def)
    then show ?thesis using False by (auto simp: find_waiter_def find_None_iff)
  qed (simp add: find_own [OF ok assms(2)])
  then have "let t = fst (waiter_turn P db now rnd (Completed (wt_token w)) s) in
       if waiter_ready db w then hw_to_core t = hw_to_core s @ [h] \<and> \<not> is_pending (hd_id h) t else hw_to_core t = hw_to_core s"
    using turn_part [OF assms(4), of P db now "Completed (wt_token w)"] assms(3)
    by (auto simp: Let_def hw_part_def is_pending_def drop_waiter_def)
  then show ?thesis using not_cancellable [OF ok assms(2, 3)] turn_of_waiter [OF ok assms(2-4), of db now ev] by simp
qed

definition sample_waiter :: header_waiter where
  "sample_waiter = waiter_new (PublicKey 1) sample_committee 50 5000 3 False True"

definition sample_suspended :: header_waiter where
  "sample_suspended = fst (waiter_turn sample_prims (\<lambda>_. None) 0 0
     (Command (SyncParent (Digest 7) (default_header\<lparr>hd_id := Digest 5, hd_author := PublicKey 2\<rparr>) 1)) sample_waiter)"

lemma sample_suspended_run: "waiter_runs sample_prims {Digest 5} sample_suspended"
  "hw_waiting sample_suspended = [\<lparr>wt_token = 0, wt_keys = [digest_bytes (Digest 7)],
     wt_deliver = DeliverHeader (default_header\<lparr>hd_id := Digest 5, hd_author := PublicKey 2\<rparr>)\<rparr>]"
proof -
  show "waiter_runs sample_prims {Digest 5} sample_suspended"
    unfolding sample_suspended_def sample_waiter_def
    by (intro waiter_runs.intros) (simp_all add: apart_def waiter_new_def)
  show "hw_waiting sample_suspended = [\<lparr>wt_token = 0, wt_keys = [digest_bytes (Digest 7)],
     wt_deliver = DeliverHeader (default_header\<lparr>hd_id := Digest 5, hd_author := PublicKey 2\<rparr>)\<rparr>]"
    using turn_part [of 0 sample_waiter sample_prims "\<lambda>_. None" 0 "Command (SyncParent (Digest 7) (default_header\<lparr>hd_id := Digest 5, hd_author := PublicKey 2\<rparr>) 1)"]
    by (simp add: sample_suspended_def hw_part_def sample_waiter_def waiter_new_def registration_def register_def
        add_waiter_def is_pending_def)
qed

theorem suspended_header_returns_witness:
  "\<not> cancellable sample_suspended \<lparr>wt_token = 0, wt_keys = [digest_bytes (Digest 7)],
     wt_deliver = DeliverHeader (default_header\<lparr>hd_id := Digest 5, hd_author := PublicKey 2\<rparr>)\<rparr>"
  using suspended_header_returns [OF sample_suspended_run(1), of _ _ 0] by (simp add: sample_suspended_run(2))

section \<open>Messages with the same proposals cancel each other\<close>

lemma find_append: "find ok (xs @ ys) = (case find ok xs of None \<Rightarrow> find ok ys | Some x \<Rightarrow> Some x)"
  by (induction xs) auto

lemma hm_insert_twice: "hm_insert k v (hm_insert k v' m) = hm_insert k v m"
  by (induction m) auto

text \<open>
  consensus messages are registered under the digest of their proposals alone. When a second
  message with the same proposals has to wait, the future of the first loses its cancel channel:
  it can end at once, before any header has arrived, and then is gone without the message having
  been handed back. A Commit that waits for its headers is dropped in this way by a Confirm or a
  later Commit of the same proposals.
\<close>

theorem later_message_cancels:
  assumes "proposal_digest P m = proposal_digest P m'" and "rnd \<le> hw_gc_depth s"
    and "\<forall>x \<in> (snd \<circ> snd) ` set (hw_pending s). x < hw_next_token s"
    and "\<forall>w \<in> set (hw_waiting s). wt_token w < hw_next_token s"
    and "s' = fst (waiter_turn P db now rnd (Command (SyncProposals missing m h)) s)"
    and "u = fst (waiter_turn P db' now' rnd (Command (SyncProposals missing' m' h')) s')"
    and "t = fst (waiter_turn P db'' now'' rnd (Cancelled (hw_next_token s)) u)"
  shows "DeliverInstance m h \<in> wt_deliver ` set (hw_waiting u) \<and>
    hw_waiting t = filter (\<lambda>w. wt_token w \<noteq> hw_next_token s) (hw_waiting u) \<and>
    (\<forall>w \<in> set (hw_waiting t). wt_token w \<noteq> hw_next_token s) \<and> hw_to_instances t = hw_to_instances s"
proof -
  let ?i = "proposal_digest P m" and ?n = "hw_next_token s"
  let ?w = "\<lparr>wt_token = ?n, wt_keys = map (\<lambda>(_, p, _). proposal_key (waits_for_tips m s) p) missing, wt_deliver = DeliverInstance m h\<rparr>"
  have s': "hw_part s' = hw_part (register (registration P (SyncProposals missing m h) s) s)"
    by (simp add: assms(5) turn_part [OF assms(2)])
  have d': "rnd \<le> hw_gc_depth s'"
    using assms(2) s' by (simp add: hw_part_def registration_def register_def add_waiter_def)
  have u: "hw_part u = hw_part (register (registration P (SyncProposals missing' m' h') s') s')"
    by (simp add: assms(6) turn_part [OF d'])
  have du: "rnd \<le> hw_gc_depth u"
    using d' u by (simp add: hw_part_def registration_def register_def add_waiter_def)
  obtain w' where waiting: "hw_waiting u = hw_waiting s @ [?w, w']" and w': "wt_token w' = ?n + 1"
    and pending: "hw_pending u = hm_insert ?i (hd_height h', ?n + 1) (hw_pending s)"
    and sent: "hw_to_instances u = hw_to_instances s"
    using s' u assms(1) by (simp add: hw_part_def registration_def register_def add_waiter_def hm_insert_twice)
  have "(snd \<circ> snd) ` set (hw_pending u) \<subseteq> insert (?n + 1) ((snd \<circ> snd) ` set (hw_pending s))"
    using image_mono [OF set_hm_insert_subset [of ?i "(hd_height h', ?n + 1)" "hw_pending s"], of "snd \<circ> snd"] by (simp add: pending)
  then have gone: "cancellable u ?w" using assms(3) by (force simp: cancellable_def)
  have "find (\<lambda>w. wt_token w = ?n \<and> cancellable u w) (hw_waiting s) = None"
    using assms(4) by (auto simp: find_None_iff)
  then have "find_waiter (cancellable u) ?n u = Some ?w"
    using gone by (simp add: find_waiter_def waiting find_append)
  then have "hw_part t = hw_part (drop_waiter ?w u)"
    using turn_part [OF du, of P db'' now'' "Cancelled ?n"] by (simp add: assms(7))
  then show ?thesis using sent by (auto simp: hw_part_def drop_waiter_def waiting)
qed

theorem later_message_cancels_witness:
  "\<exists>(u :: header_waiter) (t :: header_waiter). DeliverInstance (Commit 1 1 default_qc [] None) default_header \<in> wt_deliver ` set (hw_waiting u) \<and>
     (\<forall>w \<in> set (hw_waiting t). wt_token w \<noteq> 0) \<and> hw_to_instances t = []"
proof -
  have same: "proposal_digest sample_prims (Commit 1 1 default_qc [] None) = proposal_digest sample_prims (Confirm 2 1 default_qc [] None)"
    by (simp add: proposal_digest_def)
  have empty: "\<forall>x \<in> (snd \<circ> snd) ` set (hw_pending sample_waiter). x < hw_next_token sample_waiter"
    "\<forall>w \<in> set (hw_waiting sample_waiter). wt_token w < hw_next_token sample_waiter"
    "0 \<le> hw_gc_depth sample_waiter" "hw_next_token sample_waiter = 0" "hw_to_instances sample_waiter = []"
    by (simp_all add: sample_waiter_def waiter_new_def)
  let ?none = "\<lambda>_ :: key. None :: val option" and ?m = "Commit 1 1 default_qc [] None" and ?m' = "Confirm 2 1 default_qc [] None"
  define s' where "s' = fst (waiter_turn sample_prims ?none 0 0 (Command (SyncProposals [] ?m default_header)) sample_waiter)"
  define u where "u = fst (waiter_turn sample_prims ?none 0 0 (Command (SyncProposals [] ?m' default_header)) s')"
  define t where "t = fst (waiter_turn sample_prims ?none 0 0 (Cancelled (hw_next_token sample_waiter)) u)"
  note cancelled = later_message_cancels [OF same empty(3, 1, 2) s'_def u_def t_def]
  have "DeliverInstance ?m default_header \<in> wt_deliver ` set (hw_waiting u)" by (rule cancelled [THEN conjunct1])
  moreover have "\<forall>w \<in> set (hw_waiting t). wt_token w \<noteq> 0"
    using cancelled [THEN conjunct2, THEN conjunct2, THEN conjunct1] by (simp only: empty(4) not_False_eq_True)
  moreover have "hw_to_instances t = []"
    using cancelled [THEN conjunct2, THEN conjunct2, THEN conjunct2] by (simp only: empty(5))
  ultimately show ?thesis by blast
qed

section \<open>What was suspended can go on\<close>

lemma payload_present:
  assumes "\<forall>x \<in> set xs. sy_store s (payload_key (fst x) (snd x)) \<noteq> None"
  shows "fold_h payload_step xs acc s = (s, Done acc)"
  using assms
  by (induction xs arbitrary: acc) (auto simp: payload_step_def store_read_def handler_simps)

lemma missing_payload_none:
  assumes "\<forall>x \<in> set (hd_payload h). sy_store s (payload_key (fst x) (snd x)) \<noteq> None"
  shows "missing_payload h force s = (s, Done False)"
  using payload_present [OF assms]
  by (simp add: missing_payload_def with_state_def bind_h_def ret_def)

text \<open>What the waiter has added once it has received a command.\<close>

definition waits_on :: "'p prims_scheme \<Rightarrow> nat \<Rightarrow> waiter_message \<Rightarrow> header_waiter \<Rightarrow> key list \<Rightarrow> delivery \<Rightarrow> bool" where
  "waits_on P now m w keys deliver \<longleftrightarrow> hw_waiting (fst (receive_command P now m w)) =
     hw_waiting w @ [\<lparr>wt_token = hw_next_token w, wt_keys = keys, wt_deliver = deliver\<rparr>]"

lemma waits_on_register:
  "registration P m w = Some (i, height, keys, deliver) \<Longrightarrow> waits_on P now m w keys deliver"
  using receive_command_part [of P now m w] by (simp add: waits_on_def hw_part_def register_def add_waiter_def)

definition still_missing :: "(key \<rightharpoonup> val) \<Rightarrow> (digest \<times> worker_id) list \<Rightarrow> (digest \<times> worker_id) set" where
  "still_missing db xs = {x \<in> set xs. db (payload_key (fst x) (snd x)) = None}"

lemma set_hm_insert_new: "k \<notin> fst ` set m \<Longrightarrow> set (hm_insert k v m) = insert (k, v) (set m)"
  by (induction k v m rule: hm_insert.induct) auto

lemma payload_fold:
  assumes "distinct (map fst xs)" and "fst ` set xs \<inter> fst ` set acc = {}"
  shows "\<exists>ms. fold_h payload_step xs acc s = (s, Done ms) \<and> set ms = set acc \<union> still_missing (sy_store s) xs"
  using assms
proof (induction xs arbitrary: acc)
  case (Cons x xs)
  obtain d w where x: "x = (d, w)" by (cases x)
  show ?case
  proof (cases "sy_store s (payload_key d w) = None")
    case True
    have "fst ` set xs \<inter> fst ` set (hm_insert d w acc) = {}" using Cons.prems by (auto simp: x)
    moreover have "set (hm_insert d w acc) = insert (d, w) (set acc)"
      using Cons.prems(2) by (intro set_hm_insert_new) (auto simp: x)
    ultimately show ?thesis
      using Cons.IH [of "hm_insert d w acc"] Cons.prems(1) True
      by (auto simp: x payload_step_def store_read_def handler_simps still_missing_def)
  next
    case False
    then show ?thesis
      using Cons.IH [of acc] Cons.prems by (auto simp: x payload_step_def store_read_def handler_simps still_missing_def)
  qed
qed (simp add: ret_def still_missing_def)

text \<open>
  waiting makes progress. When a header is suspended because its payload is not complete, or
  because its parent is unknown, what the synchronizer sends makes the header waiter wait for
  exactly the keys whose absence caused it: as soon as a later store has them, the same check
  succeeds, so a header handed back is not suspended again for the same reason.
\<close>

theorem resumed_header_proceeds:
  assumes "distinct (map fst (hd_payload h))" and "sy_store s \<subseteq>\<^sub>m db"
    and "c_de_header P bytes \<noteq> None"
  shows "(snd (missing_payload h force s) = Done True \<longrightarrow>
      (\<exists>m keys. sy_sent (fst (missing_payload h force s)) = sy_sent s @ [m] \<and>
        (\<forall>w. \<not> is_pending (hd_id h) w \<longrightarrow> waits_on P now m w keys (DeliverHeader h)) \<and>
        ((\<forall>k \<in> set keys. db k \<noteq> None) \<longrightarrow> snd (missing_payload h force (s\<lparr>sy_store := db\<rparr>)) = Done False))) \<and>
    (snd (get_parent_header P h s) = Done None \<longrightarrow>
      (\<exists>m key. sy_sent (fst (get_parent_header P h s)) = sy_sent s @ [m] \<and>
        (\<forall>w. \<not> is_pending (hd_id h) w \<longrightarrow> waits_on P now m w [key] (DeliverHeader h)) \<and>
        (db key = Some bytes \<longrightarrow> (\<exists>p. snd (get_parent_header P h (s\<lparr>sy_store := db\<rparr>)) = Done (Some p)))))"
proof (intro conjI impI)
  assume miss: "snd (missing_payload h force s) = Done True"
  obtain ms where ms: "fold_h payload_step (hd_payload h) [] s = (s, Done ms)" "set ms = still_missing (sy_store s) (hd_payload h)"
    using payload_fold [OF assms(1), of "[]" s] by auto
  have sent: "sy_sent (fst (missing_payload h force s)) = sy_sent s @ [SyncBatches ms h force]"
    using miss ms(1) by (auto simp: missing_payload_def tell_waiter_def handler_simps split: if_splits)
  have "snd (missing_payload h force (s\<lparr>sy_store := db\<rparr>)) = Done False"
    if "\<forall>k \<in> set (map (\<lambda>(d, w). payload_key d w) ms). db k \<noteq> None"
  proof -
    have "\<forall>x \<in> set (hd_payload h). db (payload_key (fst x) (snd x)) \<noteq> None"
    proof
      fix x assume x: "x \<in> set (hd_payload h)"
      show "db (payload_key (fst x) (snd x)) \<noteq> None"
      proof (cases "sy_store s (payload_key (fst x) (snd x))")
        case None
        then have "x \<in> set ms" using x ms(2) by (simp add: still_missing_def)
        then have "payload_key (fst x) (snd x) \<in> set (map (\<lambda>(d, w). payload_key d w) ms)"
          by (auto simp: case_prod_beta image_iff intro: bexI [of _ x])
        then show ?thesis using that by blast
      next
        case (Some v)
        then show ?thesis using assms(2) by (metis domI map_le_def option.distinct(1))
      qed
    qed
    then show ?thesis by (simp add: missing_payload_none)
  qed
  then show "\<exists>m keys. sy_sent (fst (missing_payload h force s)) = sy_sent s @ [m] \<and>
        (\<forall>w. \<not> is_pending (hd_id h) w \<longrightarrow> waits_on P now m w keys (DeliverHeader h)) \<and>
        ((\<forall>k \<in> set keys. db k \<noteq> None) \<longrightarrow> snd (missing_payload h force (s\<lparr>sy_store := db\<rparr>)) = Done False)"
    by (intro exI [of _ "SyncBatches ms h force"] exI [of _ "map (\<lambda>(d, w). payload_key d w) ms"])
      (simp add: sent waits_on_register registration_def)
next
  assume miss: "snd (get_parent_header P h s) = Done None"
  let ?parent = "cert_header_digest (hd_parent_cert h)"
  obtain g last where g: "sy_genesis s (hd_author h) = Some g" "sy_last_fast s (hd_author h) = Some last"
      "?parent \<noteq> header_digest P g" "sy_store s (digest_bytes ?parent) = None"
    using miss by (auto simp: get_parent_header_def genesis_of_def store_read_def handler_simps de_header_def Let_def
        split: option.splits if_splits)
  then have sent: "sy_sent (fst (get_parent_header P h s)) = sy_sent s @ [SyncParent ?parent h last]"
    by (simp add: get_parent_header_def genesis_of_def store_read_def handler_simps tell_waiter_def Let_def)
  obtain p where p: "c_de_header P bytes = Some p" using assms(3) by blast
  have "\<exists>p. snd (get_parent_header P h (s\<lparr>sy_store := db\<rparr>)) = Done (Some p)" if "db (digest_bytes ?parent) = Some bytes"
    using g p that by (simp add: get_parent_header_def genesis_of_def store_read_def handler_simps de_header_def Let_def)
  then show "\<exists>m key. sy_sent (fst (get_parent_header P h s)) = sy_sent s @ [m] \<and>
        (\<forall>w. \<not> is_pending (hd_id h) w \<longrightarrow> waits_on P now m w [key] (DeliverHeader h)) \<and>
        (db key = Some bytes \<longrightarrow> (\<exists>p. snd (get_parent_header P h (s\<lparr>sy_store := db\<rparr>)) = Done (Some p)))"
    by (intro exI [of _ "SyncParent ?parent h last"] exI [of _ "digest_bytes ?parent"])
      (simp add: sent waits_on_register registration_def)
qed

theorem resumed_header_proceeds_witness:
  "\<exists>m keys. sy_sent (fst (missing_payload (lane_header 1\<lparr>hd_payload := [(Digest 9, 0)]\<rparr>) True sample_sync)) = [m] \<and>
     waits_on sample_codec 7 m sample_waiter keys (DeliverHeader (lane_header 1\<lparr>hd_payload := [(Digest 9, 0)]\<rparr>))"
proof -
  let ?h = "lane_header 1\<lparr>hd_payload := [(Digest 9, 0)]\<rparr>"
  have h: "distinct (map fst (hd_payload ?h))" "sy_store sample_sync \<subseteq>\<^sub>m sy_store sample_sync" "c_de_header sample_codec [1] \<noteq> None"
    "\<not> is_pending (hd_id ?h) sample_waiter" "hd_id ?h = default_digest" "hd_height ?h = 1" "sy_sent sample_sync = []"
    by (simp_all add: sample_de is_pending_def sample_waiter_def waiter_new_def lane_header_def default_header_def sample_sync_def sync_new_def)
  have "length (payload_key (Digest 9) 0) = 36" "length (digest_bytes (Digest 1001)) = 32" "length (digest_bytes (Digest 1002)) = 32"
    by (simp_all add: payload_key_def digest_bytes_def)
  then have "payload_key (Digest 9) 0 \<noteq> digest_bytes (Digest 1001)" and "payload_key (Digest 9) 0 \<noteq> digest_bytes (Digest 1002)" by auto
  then have "snd (missing_payload ?h True sample_sync) = Done True"
    by (simp add: missing_payload_def payload_step_def store_read_def tell_waiter_def handler_simps sample_sync_def sync_new_def
        lane_header_def)
  then show ?thesis
    using resumed_header_proceeds [OF h(1-3), of True 7, THEN conjunct1] h(4-7) by auto
qed

end
