(* ===== verification/Primary_Tasks.thy ===== *)
theory Primary_Tasks
  imports Header_Waiter
begin

text \<open>
  The small tasks of a primary: the helper that answers requests for certificates and headers
  (\<open>primary/src/helper.rs\<close>), the payload receiver (\<open>payload_receiver.rs\<close>), the garbage
  collector (\<open>garbage_collector.rs\<close>) and the dispatch of incoming network messages to the
  tasks (\<open>primary.rs\<close>).

  Tasks only read or write the store and send messages, so each has the store or its outbox as
  state. \<open>de_cert\<close> stands for \<open>bincode::deserialize\<close> at type \<open>Certificate\<close>. The fast
  synchronisation walks from a header down to a lower bound; the loop takes fuel, and
  \<open>fast_sync_answers_chain\<close> shows that the height of the header is enough.
\<close>

section \<open>Helper\<close>

record helper =
  he_committee :: committee
  he_store :: "key \<rightharpoonup> val"
  he_sent :: "(socket_addr \<times> primary_message) list"

type_synonym 'a helper_handler = "(helper, dag_error, 'a) handler"

datatype helper_request =
    CertRequest "digest list" public_key
  | HeaderRequest "digest list" public_key
  | FastRequest "(digest \<times> height) list" public_key

definition answer :: "socket_addr \<Rightarrow> primary_message \<Rightarrow> unit helper_handler" where
  "answer a m = modify (\<lambda>s. s\<lparr>he_sent := he_sent s @ [(a, m)]\<rparr>)"

definition with_stored :: "digest \<Rightarrow> (val \<Rightarrow> unit helper_handler) \<Rightarrow> unit helper_handler" where
  "with_stored d k = with_state (\<lambda>s. case he_store s (digest_bytes d) of None \<Rightarrow> ret () | Some bytes \<Rightarrow> k bytes)"

definition answer_cert :: "(val \<Rightarrow> certificate option) \<Rightarrow> socket_addr \<Rightarrow> digest \<Rightarrow> unit helper_handler" where
  "answer_cert de_cert a d = with_stored d (\<lambda>bytes. bind_h (unwrap (de_cert bytes)) (\<lambda>c. answer a (CertificateMsg c)))"

definition answer_header :: "'p codec_scheme \<Rightarrow> socket_addr \<Rightarrow> digest \<Rightarrow> unit helper_handler" where
  "answer_header P a d = with_stored d (\<lambda>bytes. bind_h (unwrap (c_de_header P bytes)) (\<lambda>h. answer a (HeaderMsg h True)))"

primrec ancestors_down :: "nat \<Rightarrow> 'p codec_scheme \<Rightarrow> socket_addr \<Rightarrow> height \<Rightarrow> height \<Rightarrow> digest \<Rightarrow> unit helper_handler" where
  "ancestors_down 0 P a lower_bound height parent = diverge"
| "ancestors_down (Suc n) P a lower_bound height parent =
     (if height > lower_bound
      then with_state (\<lambda>s.
           bind_h (unwrap (he_store s (digest_bytes parent))) (\<lambda>bytes.
           bind_h (unwrap (c_de_header P bytes)) (\<lambda>h.
           seq_h (answer a (HeaderMsg h True))
             (ancestors_down n P a lower_bound (height - 1) (cert_header_digest (hd_parent_cert h))))))
      else ret ())"

definition answer_fast :: "nat \<Rightarrow> 'p codec_scheme \<Rightarrow> socket_addr \<Rightarrow> digest \<times> height \<Rightarrow> unit helper_handler" where
  "answer_fast n P a x = with_stored (fst x) (\<lambda>bytes. bind_h (unwrap (c_de_header P bytes)) (\<lambda>h.
     seq_h (answer a (HeaderMsg h True))
       (ancestors_down n P a (snd x) (hd_height h - 1) (cert_header_digest (hd_parent_cert h)))))"

definition to_requestor :: "public_key \<Rightarrow> (socket_addr \<Rightarrow> unit helper_handler) \<Rightarrow> unit helper_handler" where
  "to_requestor origin k = with_state (\<lambda>s. case primary_of (he_committee s) origin of
     Done p \<Rightarrow> k (primary_to_primary p) | _ \<Rightarrow> ret ())"

fun helper_step :: "nat \<Rightarrow> 'p codec_scheme \<Rightarrow> (val \<Rightarrow> certificate option) \<Rightarrow> helper_request \<Rightarrow> unit helper_handler" where
  "helper_step n P de_cert (CertRequest ds origin) = to_requestor origin (\<lambda>a. each (answer_cert de_cert a) ds)"
| "helper_step n P de_cert (HeaderRequest ds origin) = to_requestor origin (\<lambda>a. each (answer_header P a) ds)"
| "helper_step n P de_cert (FastRequest ds origin) = to_requestor origin (\<lambda>a. each (answer_fast n P a) ds)"

section \<open>Payload receiver and garbage collector\<close>

definition receive_payload :: "digest \<times> worker_id \<times> batch_metadata \<Rightarrow> (key \<rightharpoonup> val) \<Rightarrow> (key \<rightharpoonup> val)" where
  "receive_payload = (\<lambda>(d, w, _) db. db(payload_key d w \<mapsto> []))"

record collector =
  gc_store :: "key \<rightharpoonup> val"
  gc_consensus_round :: height
  gc_last_committed :: height
  gc_loopback :: "certificate list"
  gc_addresses :: "socket_addr list"
  gc_sent :: "(socket_addr \<times> primary_worker_message) list"

definition collector_step :: "'p prims_scheme \<Rightarrow> certificate \<Rightarrow> collector \<Rightarrow> collector" where
  "collector_step P c s =
     (let s' = (if gc_store s (digest_bytes (certificate_digest P c)) = None then s\<lparr>gc_loopback := gc_loopback s @ [c]\<rparr> else s)
      in if cert_height c > gc_last_committed s'
         then s'\<lparr>gc_last_committed := cert_height c, gc_consensus_round := cert_height c,
                gc_sent := gc_sent s' @ map (\<lambda>a. (a, Cleanup (cert_height c))) (gc_addresses s')\<rparr>
         else s')"

section \<open>Dispatch\<close>

datatype inbox = ToCore primary_message | ToHelper helper_request

fun primary_dispatch :: "primary_message \<Rightarrow> inbox" where
  "primary_dispatch (CertificatesRequest missing requestor) = ToHelper (CertRequest missing requestor)"
| "primary_dispatch (HeadersRequest missing requestor) = ToHelper (HeaderRequest missing requestor)"
| "primary_dispatch (FastSyncHeadersRequest missing requestor) = ToHelper (FastRequest missing requestor)"
| "primary_dispatch request = ToCore request"

datatype worker_inbox = ToProposer "digest \<times> worker_id \<times> batch_metadata" | ToPayloadReceiver "digest \<times> worker_id \<times> batch_metadata"

fun worker_dispatch :: "worker_primary_message \<Rightarrow> worker_inbox" where
  "worker_dispatch (OurBatch d w m) = ToProposer (d, w, m)"
| "worker_dispatch (OthersBatch d w m) = ToPayloadReceiver (d, w, m)"

section \<open>The answers of the helper\<close>

text \<open>A lane in a store, newest first: every header is stored under the parent digest of the one before.\<close>

fun stored_lane :: "'p codec_scheme \<Rightarrow> (key \<rightharpoonup> val) \<Rightarrow> header list \<Rightarrow> bool" where
  "stored_lane P db [] \<longleftrightarrow> True"
| "stored_lane P db [h] \<longleftrightarrow> True"
| "stored_lane P db (h # h' # hs) \<longleftrightarrow>
     Option.bind (db (digest_bytes (cert_header_digest (hd_parent_cert h)))) (c_de_header P) = Some h' \<and>
     hd_height h = hd_height h' + 1 \<and> hd_height h' < hd_height h \<and> stored_lane P db (h' # hs)"

definition header_copies :: "socket_addr \<Rightarrow> header list \<Rightarrow> (socket_addr \<times> primary_message) list" where
  "header_copies a hs = map (\<lambda>h. (a, HeaderMsg h True)) hs"

lemma stored_lane_heights:
  "stored_lane P db (h # hs) \<Longrightarrow> unat (hd_height (last (h # hs))) + length hs = unat (hd_height h)"
proof (induction hs arbitrary: h)
  case (Cons h' hs)
  have eq: "hd_height h = hd_height h' + 1" and lt: "hd_height h' < hd_height h" and tl: "stored_lane P db (h' # hs)"
    using Cons.prems unfolding stored_lane.simps by blast+
  have "unat (hd_height h) = Suc (unat (hd_height h'))" using unat_Suc_no_wrap [OF lt] eq by simp
  then show ?case using Cons.IH [OF tl] by simp
qed simp

lemma ancestors_down_lane:
  assumes "stored_lane P (he_store s) (h # hs)" and "hd_height (last (h # hs)) = lower_bound + 1"
    and "lower_bound \<noteq> - 1" and "length hs < n"
  shows "ancestors_down n P a lower_bound (hd_height h - 1) (cert_header_digest (hd_parent_cert h)) s =
    (s\<lparr>he_sent := he_sent s @ header_copies a hs\<rparr>, Done ())"
  using assms
proof (induction hs arbitrary: n s h)
  case Nil
  then show ?case by (cases n) (simp_all add: ret_def header_copies_def)
next
  case (Cons h' hs)
  obtain m where n: "n = Suc m" using Cons.prems(4) by (cases n) auto
  have eq: "hd_height h = hd_height h' + 1" and lt: "hd_height h' < hd_height h"
    and tl: "stored_lane P (he_store s) (h' # hs)"
    and read: "Option.bind (he_store s (digest_bytes (cert_header_digest (hd_parent_cert h)))) (c_de_header P) = Some h'"
    using Cons.prems(1) unfolding stored_lane.simps by blast+
  have last: "hd_height (last (h' # hs)) = lower_bound + 1" using Cons.prems(2) by simp
  have "unat (lower_bound + 1) = Suc (unat lower_bound)"
    using Cons.prems(3) by (intro unat_Suc_no_wrap [where b = "- 1"]) (simp add: word_order.not_eq_extremum)
  then have above: "lower_bound < hd_height h'"
    using stored_lane_heights [OF tl] last by (simp add: word_less_nat_alt)
  let ?u = "s\<lparr>he_sent := he_sent s @ [(a, HeaderMsg h' True)]\<rparr>"
  have "ancestors_down m P a lower_bound (hd_height h' - 1) (cert_header_digest (hd_parent_cert h')) ?u =
      (?u\<lparr>he_sent := he_sent ?u @ header_copies a hs\<rparr>, Done ())"
    using Cons.IH [of ?u h' m] tl last Cons.prems(3, 4) n by simp
  then show ?case
    using read above by (auto simp: n eq handler_simps answer_def header_copies_def split: bind_splits)
qed

text \<open>
  a fast synchronisation request for a header and a lower bound is answered with exactly the
  headers of its lane above the bound, newest first; the loop ends with fuel for the height of
  the header and touches nothing but the outbox. The lane has to be in the store, which is why
  the core only stores a header whose parent it has.
\<close>

theorem fast_sync_answers_chain:
  assumes "primary_of (he_committee s) origin = Done p"
    and "Option.bind (he_store s (digest_bytes d)) (c_de_header P) = Some h"
    and "stored_lane P (he_store s) (h # hs)" and "hd_height (last (h # hs)) = lower_bound + 1" and "lower_bound \<noteq> - 1"
    and "unat (hd_height h) < n"
  shows "helper_step n P de_cert (FastRequest [(d, lower_bound)] origin) s =
      (s\<lparr>he_sent := he_sent s @ header_copies (primary_to_primary p) (h # hs)\<rparr>, Done ()) \<and>
    length (h # hs) = unat (hd_height h) - unat lower_bound"
proof -
  let ?u = "s\<lparr>he_sent := he_sent s @ [(primary_to_primary p, HeaderMsg h True)]\<rparr>"
  have len: "unat (hd_height (last (h # hs))) + length hs = unat (hd_height h)"
    by (rule stored_lane_heights [OF assms(3)])
  have one: "unat (lower_bound + 1) = Suc (unat lower_bound)"
    using assms(5) by (intro unat_Suc_no_wrap [where b = "- 1"]) (simp add: word_order.not_eq_extremum)
  have "ancestors_down n P (primary_to_primary p) lower_bound (hd_height h - 1) (cert_header_digest (hd_parent_cert h)) ?u =
      (?u\<lparr>he_sent := he_sent ?u @ header_copies (primary_to_primary p) hs\<rparr>, Done ())"
    using ancestors_down_lane [of P ?u h hs lower_bound n] assms(3-6) len by simp
  then have "helper_step n P de_cert (FastRequest [(d, lower_bound)] origin) s =
      (s\<lparr>he_sent := he_sent s @ header_copies (primary_to_primary p) (h # hs)\<rparr>, Done ())"
    using assms(1, 2)
    by (auto simp: to_requestor_def answer_fast_def with_stored_def handler_simps answer_def header_copies_def
        split: bind_splits)
  then show ?thesis using len one assms(4) by simp
qed

definition sample_helper :: helper where
  "sample_helper = \<lparr>he_committee = sample_committee, he_store = [digest_bytes (Digest 1001) \<mapsto> [1], digest_bytes (Digest 1002) \<mapsto> [2]],
     he_sent = []\<rparr>"

lemma sample_helper_lane:
  "stored_lane sample_codec (he_store sample_helper) [lane_header 2, lane_header 1]"
  "Option.bind (he_store sample_helper (digest_bytes (Digest 1002))) (c_de_header sample_codec) = Some (lane_header 2)"
  "\<exists>p. primary_of (he_committee sample_helper) (PublicKey 3) = Done p"
  by (simp_all add: sample_helper_def sample_de lane_header_def primary_of_def lookup_authority_def sample_authorities bind_r_def)

theorem fast_sync_answers_chain_witness:
  "\<exists>t a. helper_step 9 sample_codec (\<lambda>_. None) (FastRequest [(Digest 1002, 0)] (PublicKey 3)) sample_helper = (t, Done ()) \<and>
     he_sent t = header_copies a [lane_header 2, lane_header 1]"
proof -
  obtain p where p: "primary_of (he_committee sample_helper) (PublicKey 3) = Done p" using sample_helper_lane(3) by blast
  have h: "hd_height (lane_header 2) = 2" "hd_height (last [lane_header 2, lane_header 1]) = 0 + 1" "he_sent sample_helper = []"
    by (simp_all add: lane_header_def sample_helper_def)
  have "unat (hd_height (lane_header 2)) < 9" by (simp add: h(1))
  from fast_sync_answers_chain [OF p sample_helper_lane(2, 1) h(2) _ this, of "\<lambda>_. None"] h(3)
  show ?thesis by auto
qed

text \<open>
  certificates and headers share one key space of digests. A request for the certificate of
  a digest under which a header is stored makes the helper deserialize the header as a
  certificate; when that fails its task panics, and with it all answers to later requests are
  lost. Any member can send such a request.
\<close>

theorem certificate_request_panics:
  assumes "primary_of (he_committee s) origin = Done p" and "he_store s (digest_bytes d) = Some bytes" and "de_cert bytes = None"
    and "primary_dispatch m = ToHelper (CertRequest (d # ds) origin)"
  shows "m = CertificatesRequest (d # ds) origin \<and> helper_step n P de_cert (CertRequest (d # ds) origin) s = (s, Panic)"
  using assms by (cases m) (simp_all add: to_requestor_def answer_cert_def with_stored_def handler_simps)

theorem certificate_request_panics_witness:
  "helper_step 0 sample_codec (\<lambda>_. None) (CertRequest [Digest 1002] (PublicKey 3)) sample_helper = (sample_helper, Panic)"
proof -
  obtain p where p: "primary_of (he_committee sample_helper) (PublicKey 3) = Done p" using sample_helper_lane(3) by blast
  have "he_store sample_helper (digest_bytes (Digest 1002)) = Some [2]" by (simp add: sample_helper_def)
  from certificate_request_panics [OF p this, of "\<lambda>_. None" "CertificatesRequest [Digest 1002] (PublicKey 3)" "[]" 0 sample_codec]
  show ?thesis by simp
qed

end
