(* ===== verification/Worker_Sync.thy ===== *)
theory Worker_Sync
  imports Batches Primary_Tasks
begin

text \<open>
  How a worker gets batches it misses: its synchronizer (\<open>worker/src/synchronizer.rs\<close>) asks the
  worker of the author, whose helper (\<open>worker/src/helper.rs\<close>) answers from its store. The last
  section follows a batch from one worker through the tasks of another node to the check of its
  primary.

  A suspended \<open>waiter\<close> is its digest in \<open>bs_waiting\<close>; it may complete once the store \<open>db\<close>, an
  argument of the turn, has the batch. Its cancel channel is never used: an entry of
  \<open>bs_pending\<close> is neither replaced nor, since cleanup is disabled, cancelled.
\<close>

section \<open>Synchronizer\<close>

record batch_sync =
  bs_name :: public_key
  bs_id :: worker_id
  bs_committee :: committee
  bs_sync_retry_delay :: u64
  bs_round :: u64
  bs_pending :: "(digest \<times> u64 \<times> nat) list"
  bs_waiting :: "digest list"
  bs_sent :: "(socket_addr \<times> worker_message) list"

type_synonym 'a batch_sync_handler = "(batch_sync, dag_error, 'a) handler"

definition batch_sync_new :: "public_key \<Rightarrow> worker_id \<Rightarrow> committee \<Rightarrow> u64 \<Rightarrow> batch_sync" where
  "batch_sync_new name i c delay = \<lparr>bs_name = name, bs_id = i, bs_committee = c, bs_sync_retry_delay = delay,
     bs_round = 0, bs_pending = [], bs_waiting = [], bs_sent = []\<rparr>"

definition await_batch :: "nat \<Rightarrow> (key \<rightharpoonup> val) \<Rightarrow> digest \<Rightarrow> digest list \<Rightarrow> digest list batch_sync_handler" where
  "await_batch now db d missing = with_state (\<lambda>s.
     if d \<in> fst ` set (bs_pending s) then ret missing
     else seq_h (modify (\<lambda>s. s\<lparr>bs_waiting := bs_waiting s @ [d], bs_pending := hm_insert d (bs_round s, now) (bs_pending s)\<rparr>))
       (ret (if db (digest_bytes d) = None then missing @ [d] else missing)))"

definition synchronize :: "nat \<Rightarrow> (key \<rightharpoonup> val) \<Rightarrow> digest list \<Rightarrow> public_key \<Rightarrow> unit batch_sync_handler" where
  "synchronize now db digests target = bind_h (fold_h (await_batch now db) digests []) (\<lambda>missing.
     with_state (\<lambda>s. case worker_of (bs_committee s) target (bs_id s) of
       Done w \<Rightarrow> modify (\<lambda>s. s\<lparr>bs_sent := bs_sent s @ [(worker_to_worker w, BatchRequest missing (bs_name s))]\<rparr>)
     | _ \<Rightarrow> ret ()))"

definition batch_arrived :: "(key \<rightharpoonup> val) \<Rightarrow> digest \<Rightarrow> unit batch_sync_handler" where
  "batch_arrived db d = modify (\<lambda>s.
     if d \<in> set (bs_waiting s) \<and> db (digest_bytes d) \<noteq> None
     then s\<lparr>bs_waiting := remove1 d (bs_waiting s), bs_pending := hm_remove d (bs_pending s)\<rparr> else s)"

text \<open>The requests the timer finds due; the code that would send them again is commented out.\<close>

definition due_requests :: "nat \<Rightarrow> batch_sync \<Rightarrow> digest list" where
  "due_requests now s = map fst (filter (\<lambda>(_, _, timestamp). timestamp + unat (bs_sync_retry_delay s) < now) (bs_pending s))"

definition retry_timer :: "nat \<Rightarrow> unit batch_sync_handler" where
  "retry_timer now = with_state (\<lambda>s. let retry = due_requests now s in ret ())"

datatype batch_sync_event = PrimarySays primary_worker_message | BatchArrived digest | SyncTimer

fun batch_sync_turn :: "nat \<times> (key \<rightharpoonup> val) \<times> batch_sync_event \<Rightarrow> unit batch_sync_handler" where
  "batch_sync_turn (now, db, PrimarySays (Synchronize digests target)) = synchronize now db digests target"
| "batch_sync_turn (now, db, PrimarySays (Cleanup _)) = ret ()"
| "batch_sync_turn (now, db, BatchArrived d) = batch_arrived db d"
| "batch_sync_turn (now, db, SyncTimer) = retry_timer now"

section \<open>Helper\<close>

definition serve_batches :: "worker_id \<Rightarrow> committee \<Rightarrow> (key \<rightharpoonup> val) \<Rightarrow> digest list \<Rightarrow> public_key \<Rightarrow> (socket_addr \<times> val) list" where
  "serve_batches i c db digests origin = (case worker_of c origin i of
     Done w \<Rightarrow> map (\<lambda>bytes. (worker_to_worker w, bytes)) (List.map_filter (\<lambda>d. db (digest_bytes d)) digests)
   | _ \<Rightarrow> [])"

section \<open>A batch is asked for once\<close>

lemma await_batch_run:
  "await_batch now db d missing s = (if d \<in> fst ` set (bs_pending s) then (s, Done missing)
     else (s\<lparr>bs_waiting := bs_waiting s @ [d], bs_pending := hm_insert d (bs_round s, now) (bs_pending s)\<rparr>,
           Done (if db (digest_bytes d) = None then missing @ [d] else missing)))"
  by (simp add: await_batch_def handler_simps)

text \<open>The loop over the digests: pending ones stay pending and are not asked for again.\<close>

lemma await_batches:
  "\<exists>t out. fold_h (await_batch now db) ds missing s = (t, Done (missing @ out)) \<and>
     set out \<subseteq> set ds - fst ` set (bs_pending s) \<and>
     fst ` set (bs_pending t) = fst ` set (bs_pending s) \<union> set ds \<and>
     bs_sent t = bs_sent s \<and> bs_committee t = bs_committee s \<and> bs_id t = bs_id s \<and> bs_name t = bs_name s"
proof (induction ds arbitrary: s missing)
  case Nil
  then show ?case by (intro exI [of _ s] exI [of _ "[]"]) (simp add: ret_def)
next
  case (Cons d ds)
  obtain u m where u: "await_batch now db d missing s = (u, Done (missing @ m))"
      "set m \<subseteq> {d} - fst ` set (bs_pending s)" "fst ` set (bs_pending u) = insert d (fst ` set (bs_pending s))"
      "bs_sent u = bs_sent s" "bs_committee u = bs_committee s" "bs_id u = bs_id s" "bs_name u = bs_name s"
  proof (cases "d \<in> fst ` set (bs_pending s)")
    case True
    then show ?thesis using that [of s "[]"] by (simp add: await_batch_run insert_absorb)
  next
    case False
    then show ?thesis
      using that [of "s\<lparr>bs_waiting := bs_waiting s @ [d], bs_pending := hm_insert d (bs_round s, now) (bs_pending s)\<rparr>"
          "if db (digest_bytes d) = None then [d] else []"]
      by (cases "db (digest_bytes d)") (simp_all add: await_batch_run)
  qed
  obtain t out where t: "fold_h (await_batch now db) ds (missing @ m) u = (t, Done ((missing @ m) @ out))"
      "set out \<subseteq> set ds - fst ` set (bs_pending u)" "fst ` set (bs_pending t) = fst ` set (bs_pending u) \<union> set ds"
      "bs_sent t = bs_sent u" "bs_committee t = bs_committee u" "bs_id t = bs_id u" "bs_name t = bs_name u"
    using Cons.IH by blast
  have "fold_h (await_batch now db) (d # ds) missing s = (t, Done (missing @ (m @ out)))"
    using u(1) t(1) by (simp add: bind_h_def)
  then show ?case
    using u(2-) t(2-) by (intro exI [of _ t] exI [of _ "m @ out"]) auto
qed

definition asks_for :: "digest \<Rightarrow> socket_addr \<times> worker_message \<Rightarrow> bool" where
  "asks_for d x = (case snd x of BatchRequest ds _ \<Rightarrow> d \<in> set ds | Batch _ \<Rightarrow> False)"

lemma turn_asks_once:
  assumes "d \<in> fst ` set (bs_pending s)" and "db (digest_bytes d) = None"
  shows "d \<in> fst ` set (bs_pending (fst (batch_sync_turn (now, db, ev) s))) \<and>
    filter (asks_for d) (bs_sent (fst (batch_sync_turn (now, db, ev) s))) = filter (asks_for d) (bs_sent s)"
proof (cases "(now, db, ev)" rule: batch_sync_turn.cases)
  case (1 _ _ ds target)
  obtain t out where t: "fold_h (await_batch now db) ds [] s = (t, Done ([] @ out))"
      "set out \<subseteq> set ds - fst ` set (bs_pending s)" "fst ` set (bs_pending t) = fst ` set (bs_pending s) \<union> set ds"
      "bs_sent t = bs_sent s"
    using await_batches by blast
  have "d \<notin> set out" using t(2) assms(1) by blast
  then show ?thesis
    using 1 assms(1) t
    by (auto simp: synchronize_def bind_h_def with_state_def modify_def ret_def asks_for_def split: outcome.split)
next
  case (3 _ _ d')
  then show ?thesis using assms by (auto simp: batch_arrived_def modify_def)
qed (use assms in \<open>simp_all add: ret_def retry_timer_def with_state_def Let_def\<close>)

definition batch_sync_run :: "(nat \<times> (key \<rightharpoonup> val) \<times> batch_sync_event) list \<Rightarrow> batch_sync \<Rightarrow> batch_sync" where
  "batch_sync_run evs s = fold (\<lambda>x s. fst (batch_sync_turn x s)) evs s"

text \<open>
  a batch is requested from one node only. Once a request for a digest is pending, no further
  request for it is ever sent, to nobody, as long as the batch has not arrived: neither when the
  primary asks again, nor naming another target, nor when the retry timer finds it overdue. The
  comments in the code promise a broadcast to other nodes in that case.
\<close>

theorem batch_requested_once:
  assumes "d \<in> fst ` set (bs_pending s)" and "\<forall>(now, db, ev) \<in> set evs. db (digest_bytes d) = None"
  shows "d \<in> fst ` set (bs_pending (batch_sync_run evs s)) \<and>
    filter (asks_for d) (bs_sent (batch_sync_run evs s)) = filter (asks_for d) (bs_sent s)"
  using assms
proof (induction evs arbitrary: s)
  case (Cons x evs)
  obtain now db ev where x: "x = (now, db, ev)" by (cases x)
  have "d \<in> fst ` set (bs_pending (fst (batch_sync_turn x s))) \<and>
      filter (asks_for d) (bs_sent (fst (batch_sync_turn x s))) = filter (asks_for d) (bs_sent s)"
    using turn_asks_once [OF Cons.prems(1), of db now ev] Cons.prems(2) by (simp add: x)
  then show ?case using Cons.IH [of "fst (batch_sync_turn x s)"] Cons.prems(2) by (simp add: batch_sync_run_def)
qed (simp add: batch_sync_run_def)

definition sample_batch_sync :: batch_sync where
  "sample_batch_sync = (batch_sync_new (PublicKey 1) 0 sample_committee 5000)\<lparr>bs_pending := [(Digest 5, 0, 0)],
     bs_sent := [(SocketAddr [1] 7, BatchRequest [Digest 5] (PublicKey 1))]\<rparr>"

theorem batch_requested_once_witness:
  "filter (asks_for (Digest 5)) (bs_sent (batch_sync_run
     [(9000, \<lambda>_. None, SyncTimer), (9500, \<lambda>_. None, PrimarySays (Synchronize [Digest 5] (PublicKey 3)))] sample_batch_sync)) =
   [(SocketAddr [1] 7, BatchRequest [Digest 5] (PublicKey 1))]"
proof -
  have "Digest 5 \<in> fst ` set (bs_pending sample_batch_sync)" "filter (asks_for (Digest 5)) (bs_sent sample_batch_sync) =
      [(SocketAddr [1] 7, BatchRequest [Digest 5] (PublicKey 1))]"
    by (simp_all add: sample_batch_sync_def batch_sync_new_def asks_for_def)
  then show ?thesis
    using batch_requested_once [of "Digest 5" sample_batch_sync
        "[(9000, \<lambda>_. None, SyncTimer), (9500, \<lambda>_. None, PrimarySays (Synchronize [Digest 5] (PublicKey 3)))]"]
    by simp
qed

section \<open>A missing batch reaches the primary that waits for it\<close>

text \<open>The tasks a batch passes, from the request to the marker in the store of the primary.\<close>

definition delivered_batch :: "'p wcodec_scheme \<Rightarrow> worker_id \<Rightarrow> public_key \<Rightarrow> val \<Rightarrow> (key \<rightharpoonup> val) \<Rightarrow> (key \<rightharpoonup> val)
    \<Rightarrow> ((key \<rightharpoonup> val) \<times> (key \<rightharpoonup> val)) option" where
  "delivered_batch P i me bytes worker_db primary_db = (case receive_worker P bytes of
     Some (ToProcessor batch) \<Rightarrow>
       (case processor_step P i me False batch worker_db of (worker_db', m) \<Rightarrow>
       (case worker_dispatch m of
          ToPayloadReceiver x \<Rightarrow> Some (worker_db', receive_payload x primary_db)
        | ToProposer _ \<Rightarrow> None))
   | _ \<Rightarrow> None)"

text \<open>
  C27: a batch that a node misses and the asked worker has does arrive. The synchronizer asks the
  worker of the target exactly once; that worker recognises the request, and its helper sends the
  batch back to the asking worker; its processor stores it under the requested digest, which
  ends the pending request; and its primary, told by it, no longer finds the digest missing in
  the payload of a header.
\<close>

theorem missing_batch_arrives:
  assumes "worker_of (bs_committee s) target (bs_id s) = Done wt" and "worker_of (bs_committee s) (bs_name s) (bs_id s) = Done wm"
    and "d \<notin> fst ` set (bs_pending s)" and "d \<notin> set (bs_waiting s)" and "worker_db (digest_bytes d) = None"
    and "target_db (digest_bytes d) = Some bytes" and "batch_digest P bytes = d"
    and "w_de P bytes = Some (Batch txs)"
    and "w_de P (w_ser P (BatchRequest [d] (bs_name s))) = Some (BatchRequest [d] (bs_name s))"
    and "\<forall>x \<in> set (hd_payload h). x = (d, bs_id s) \<or> primary_db (payload_key (fst x) (snd x)) \<noteq> None"
  shows "\<exists>s' worker_db' primary_db'.
    batch_sync_turn (now, worker_db, PrimarySays (Synchronize [d] target)) s = (s', Done ()) \<and>
    bs_sent s' = bs_sent s @ [(worker_to_worker wt, BatchRequest [d] (bs_name s))] \<and>
    receive_worker P (w_ser P (BatchRequest [d] (bs_name s))) = Some (ToWorkerHelper [d] (bs_name s)) \<and>
    serve_batches (bs_id s) (bs_committee s) target_db [d] (bs_name s) = [(worker_to_worker wm, bytes)] \<and>
    delivered_batch P (bs_id s) (bs_name s) bytes worker_db primary_db = Some (worker_db', primary_db') \<and>
    worker_db' (digest_bytes d) = Some bytes \<and>
    d \<notin> fst ` set (bs_pending (fst (batch_sync_turn (now', worker_db', BatchArrived d) s'))) \<and>
    missing_payload h force (sy\<lparr>sy_store := primary_db'\<rparr>) = (sy\<lparr>sy_store := primary_db'\<rparr>, Done False)"
proof -
  let ?s = "s\<lparr>bs_waiting := bs_waiting s @ [d], bs_pending := hm_insert d (bs_round s, now) (bs_pending s),
     bs_sent := bs_sent s @ [(worker_to_worker wt, BatchRequest [d] (bs_name s))]\<rparr>"
  let ?db = "worker_db(digest_bytes d \<mapsto> bytes)" and ?pdb = "primary_db(payload_key d (bs_id s) \<mapsto> [])"
  have "batch_sync_turn (now, worker_db, PrimarySays (Synchronize [d] target)) s = (?s, Done ())"
    using assms(1, 3, 5) by (simp add: synchronize_def await_batch_run bind_h_def ret_def with_state_def modify_def)
  moreover have "receive_worker P (w_ser P (BatchRequest [d] (bs_name s))) = Some (ToWorkerHelper [d] (bs_name s))"
    using assms(9) by (simp add: receive_worker_def)
  moreover have "serve_batches (bs_id s) (bs_committee s) target_db [d] (bs_name s) = [(worker_to_worker wm, bytes)]"
    using assms(2, 6) by (simp add: serve_batches_def List.map_filter_def)
  moreover have "delivered_batch P (bs_id s) (bs_name s) bytes worker_db primary_db = Some (?db, ?pdb)"
    using assms(7, 8) by (simp add: delivered_batch_def receive_worker_def processor_step_def receive_payload_def Let_def)
  moreover have "d \<notin> fst ` set (bs_pending (fst (batch_sync_turn (now', ?db, BatchArrived d) ?s)))"
    by (simp add: batch_arrived_def modify_def)
  moreover have "missing_payload h force (sy\<lparr>sy_store := ?pdb\<rparr>) = (sy\<lparr>sy_store := ?pdb\<rparr>, Done False)"
    using assms(10) by (intro missing_payload_none) auto
  ultimately show ?thesis by (intro exI [of _ ?s] exI [of _ ?db] exI [of _ ?pdb]) simp
qed

text \<open>Two authorities with one worker each.\<close>

definition sample_worker :: "u8 \<Rightarrow> worker_addresses" where
  "sample_worker k = \<lparr>transactions = SocketAddr [k] 1, worker_to_worker = SocketAddr [k] 2, primary_to_worker = SocketAddr [k] 3\<rparr>"

definition worker_committee :: committee where
  "worker_committee = \<lparr>authorities = map (\<lambda>k. (PublicKey (ucast k), (new_authority 1 sample_address)\<lparr>auth_workers := [(0, sample_worker k)]\<rparr>)) [1, 2],
     id_map = (\<lambda>_. None)\<rparr>"

definition fetch_wcodec :: wcodec where
  "fetch_wcodec = codec.extend sample_codec (wcodec.fields (\<lambda>m. case m of Batch _ \<Rightarrow> [9] | _ \<Rightarrow> [7, 7])
     (\<lambda>bs. if bs = [7, 7] then Some (BatchRequest [Digest 1] (PublicKey 1)) else Some (Batch [])))"

lemma fetch_wcodec_fields:
  "w_ser fetch_wcodec (BatchRequest ds k) = [7, 7]" "w_de fetch_wcodec [9] = Some (Batch [])"
  "w_de fetch_wcodec [7, 7] = Some (BatchRequest [Digest 1] (PublicKey 1))" "batch_digest fetch_wcodec [9] = Digest 1"
  by (simp_all add: fetch_wcodec_def codec.extend_def wcodec.fields_def batch_digest_def hash32_def sample_codec_def
      prims.extend_def codec.fields_def sample_prims_def)

theorem missing_batch_arrives_witness:
  "\<exists>s'. batch_sync_turn (0, \<lambda>_. None, PrimarySays (Synchronize [Digest 1] (PublicKey 2)))
       (batch_sync_new (PublicKey 1) 0 worker_committee 5000) = (s', Done ()) \<and>
     bs_sent s' = [(SocketAddr [2] 2, BatchRequest [Digest 1] (PublicKey 1))]"
proof -
  let ?s = "batch_sync_new (PublicKey 1) 0 worker_committee 5000"
  have w: "worker_of (bs_committee ?s) (PublicKey 2) (bs_id ?s) = Done (sample_worker 2)"
    "worker_of (bs_committee ?s) (bs_name ?s) (bs_id ?s) = Done (sample_worker 1)"
    by (simp_all add: batch_sync_new_def worker_of_def lookup_authority_def worker_committee_def bind_r_def)
  have s: "Digest 1 \<notin> fst ` set (bs_pending ?s)" "Digest 1 \<notin> set (bs_waiting ?s)" "bs_sent ?s = []" "bs_name ?s = PublicKey 1"
    by (simp_all add: batch_sync_new_def)
  have de: "w_de fetch_wcodec (w_ser fetch_wcodec (BatchRequest [Digest 1] (bs_name ?s))) = Some (BatchRequest [Digest 1] (bs_name ?s))"
    by (simp add: fetch_wcodec_fields s(4))
  have payload: "\<forall>x \<in> set (hd_payload (default_header\<lparr>hd_payload := [(Digest 1, 0)]\<rparr>)). x = (Digest 1, bs_id ?s) \<or> None \<noteq> None"
    by (simp add: batch_sync_new_def)
  let ?none = "\<lambda>_ :: key. None :: val option"
  have "\<exists>s'. batch_sync_turn (0, ?none, PrimarySays (Synchronize [Digest 1] (PublicKey 2))) ?s = (s', Done ()) \<and>
      bs_sent s' = bs_sent ?s @ [(worker_to_worker (sample_worker 2), BatchRequest [Digest 1] (bs_name ?s))]"
    using missing_batch_arrives [where worker_db = ?none and target_db = "\<lambda>_. Some [9]" and primary_db = ?none and now = 0,
        OF w s(1, 2) refl refl fetch_wcodec_fields(4, 2) de payload] by blast
  then show ?thesis by (simp add: s(3, 4) sample_worker_def)
qed

end
