(* ===== verification/Network.thy ===== *)
theory Network
  imports Config "HOL-Library.Sublist"
begin

text \<open>
  The network crate: the reliable sender (\<open>network/src/reliable_sender.rs\<close>) with its connection
  tasks, the best-effort sender (\<open>simple_sender.rs\<close>), the runner of the receiver (\<open>receiver.rs\<close>)
  and the errors (\<open>error.rs\<close>).

  A \<open>parcel\<close> is what the code keeps in a buffer: the data and the sending half of the oneshot
  channel that cancels it. The channel is a number; it is in \<open>lk_closed\<close> once the caller has
  dropped its \<open>CancelHandler\<close>, and \<open>lk_answers\<close> says what was sent into it. The states of a
  connection task are the points where it awaits: \<open>TcpStream::connect\<close>, the waiting loop after
  a failed attempt, the \<open>select!\<close> of \<open>keep_alive\<close>, and \<open>writer.send\<close>.

  A \<open>link\<close> composes the connection task with TCP and with the runners of the peer. A wire is one
  TCP connection: frames travel in order and are read by one runner, but a wire the sender has
  given up may still be read while the next one is in use. Frames carry the parcel for the sake
  of the proofs; only its data is transmitted.
\<close>

section \<open>Connection task of the reliable sender\<close>

type_synonym bytes = "u8 list"
type_synonym parcel = "bytes \<times> nat"

datatype network_error =
    FailedToConnect socket_addr "16 word"
  | FailedToListen
  | FailedToSendMessage socket_addr
  | FailedToReceiveMessage socket_addr
  | FailedToReceiveAck socket_addr
  | UnexpectedAck socket_addr

datatype phase = Connecting | Waiting | Selecting | Writing parcel

record connection =
  cn_address :: socket_addr
  cn_channel :: "parcel list"
  cn_buffer :: "parcel list"
  cn_pending :: "parcel list"
  cn_phase :: phase
  cn_delay :: u64
  cn_retry :: "16 word"
  cn_warned :: "network_error list"

definition retry_delay :: u64 where
  "retry_delay = 200"

definition channel_capacity :: nat where
  "channel_capacity = 1000"

definition spawn_connection :: "socket_addr \<Rightarrow> connection" where
  "spawn_connection a = \<lparr>cn_address = a, cn_channel = [], cn_buffer = [], cn_pending = [],
     cn_phase = Connecting, cn_delay = retry_delay, cn_retry = 0, cn_warned = []\<rparr>"

text \<open>The channel is bounded: \<open>None\<close> when it is full, and the sender has to wait.\<close>

definition enqueue :: "parcel \<Rightarrow> connection \<Rightarrow> connection option" where
  "enqueue x c = (if length (cn_channel c) < channel_capacity then Some (c\<lparr>cn_channel := cn_channel c @ [x]\<rparr>) else None)"

definition established :: "connection \<Rightarrow> connection" where
  "established c = c\<lparr>cn_phase := Selecting, cn_delay := retry_delay, cn_retry := 0, cn_pending := []\<rparr>"

definition connect_failed :: "connection \<Rightarrow> connection" where
  "connect_failed c = c\<lparr>cn_phase := Waiting, cn_warned := cn_warned c @ [FailedToConnect (cn_address c) (cn_retry c)]\<rparr>"

definition timer_expired :: "connection \<Rightarrow> connection" where
  "timer_expired c = c\<lparr>cn_phase := Connecting, cn_delay := min (2 * cn_delay c) 60000, cn_retry := cn_retry c + 1\<rparr>"

definition drain :: "nat set \<Rightarrow> connection \<Rightarrow> connection" where
  "drain cancelled c = (case cn_channel c of [] \<Rightarrow> c | x # xs \<Rightarrow>
     c\<lparr>cn_channel := xs, cn_buffer := filter (\<lambda>x. snd x \<notin> cancelled) (cn_buffer c @ [x])\<rparr>)"

text \<open>
  \<open>keep_alive\<close>: \<open>next_message\<close> is one turn of the inner \<open>while\<close> loop up to \<open>writer.send\<close>,
  \<open>written\<close> and \<open>broken\<close> are its results. The \<open>select!\<close> is reached with an empty buffer.
\<close>

definition next_message :: "nat set \<Rightarrow> connection \<Rightarrow> connection" where
  "next_message cancelled c = (case cn_buffer c of [] \<Rightarrow> c | x # xs \<Rightarrow>
     if snd x \<in> cancelled then c\<lparr>cn_buffer := xs\<rparr> else c\<lparr>cn_buffer := xs, cn_phase := Writing x\<rparr>)"

definition written :: "parcel \<Rightarrow> connection \<Rightarrow> connection" where
  "written x c = c\<lparr>cn_pending := cn_pending c @ [x], cn_phase := Selecting\<rparr>"

definition leave_keep_alive :: "network_error \<Rightarrow> connection \<Rightarrow> connection" where
  "leave_keep_alive e c = c\<lparr>cn_buffer := cn_pending c @ cn_buffer c, cn_pending := [],
     cn_phase := Connecting, cn_warned := cn_warned c @ [e]\<rparr>"

definition write_failed :: "parcel \<Rightarrow> connection \<Rightarrow> connection" where
  "write_failed x c = leave_keep_alive (FailedToSendMessage (cn_address c)) (c\<lparr>cn_buffer := x # cn_buffer c\<rparr>)"

definition take_message :: "connection \<Rightarrow> connection" where
  "take_message c = (case cn_channel c of [] \<Rightarrow> c | x # xs \<Rightarrow>
     c\<lparr>cn_channel := xs, cn_buffer := cn_buffer c @ [x]\<rparr>)"

text \<open>
  A response of the reader; \<open>None\<close> is a failed read or the end of the stream. The second result
  is what is sent to a cancel handler.
\<close>

definition response :: "bytes option \<Rightarrow> connection \<Rightarrow> connection \<times> (nat \<times> bytes) option" where
  "response r c = (case cn_pending c of
     [] \<Rightarrow> (leave_keep_alive (UnexpectedAck (cn_address c)) c, None)
   | x # xs \<Rightarrow> (case r of
       Some ack \<Rightarrow> (c\<lparr>cn_pending := xs\<rparr>, Some (snd x, ack))
     | None \<Rightarrow> (leave_keep_alive (FailedToReceiveAck (cn_address c)) (c\<lparr>cn_pending := x # xs\<rparr>), None)))"

section \<open>The reliable sender\<close>

record reliable_sender =
  rs_connections :: "socket_addr \<rightharpoonup> connection"
  rs_next :: nat

definition reliable_new :: reliable_sender where
  "reliable_new = \<lparr>rs_connections = (\<lambda>_. None), rs_next = 0\<rparr>"

text \<open>\<open>None\<close>: the call does not return before the connection task has made room.\<close>

definition reliable_send :: "socket_addr \<Rightarrow> bytes \<Rightarrow> reliable_sender \<Rightarrow> (reliable_sender \<times> nat) option" where
  "reliable_send a d s =
     (let c = (case rs_connections s a of None \<Rightarrow> spawn_connection a | Some c \<Rightarrow> c)
      in map_option (\<lambda>c'. (s\<lparr>rs_connections := (rs_connections s)(a \<mapsto> c'), rs_next := rs_next s + 1\<rparr>, rs_next s))
           (enqueue (d, rs_next s) c))"

primrec reliable_broadcast :: "socket_addr list \<Rightarrow> bytes \<Rightarrow> reliable_sender \<Rightarrow> (reliable_sender \<times> nat list) option" where
  "reliable_broadcast [] d s = Some (s, [])"
| "reliable_broadcast (a # as) d s = (case reliable_send a d s of None \<Rightarrow> None
     | Some (s', h) \<Rightarrow> map_option (map_prod id ((#) h)) (reliable_broadcast as d s'))"

text \<open>\<open>shuffle\<close> stands for the shuffling with the sender's random numbers.\<close>

definition reliable_lucky_broadcast ::
    "(socket_addr list \<Rightarrow> socket_addr list) \<Rightarrow> socket_addr list \<Rightarrow> bytes \<Rightarrow> nat \<Rightarrow> reliable_sender \<Rightarrow> (reliable_sender \<times> nat list) option" where
  "reliable_lucky_broadcast shuffle as d nodes s = reliable_broadcast (take nodes (shuffle as)) d s"

section \<open>The best-effort sender\<close>

text \<open>
  A connection task that has returned has dropped its receiver, and what was in the channel is
  lost. \<open>sc_written\<close> is what was handed to \<open>writer.send\<close> with success.
\<close>

record simple_connection =
  sc_address :: socket_addr
  sc_channel :: "bytes list"
  sc_connected :: bool
  sc_ended :: bool
  sc_written :: "bytes list"
  sc_warned :: "network_error list"

definition spawn_simple :: "socket_addr \<Rightarrow> simple_connection" where
  "spawn_simple a = \<lparr>sc_address = a, sc_channel = [], sc_connected = False, sc_ended = False, sc_written = [], sc_warned = []\<rparr>"

datatype simple_event = TcpConnect bool | TakeMessage bool | TcpReply "bytes option"

definition end_simple :: "network_error \<Rightarrow> simple_connection \<Rightarrow> simple_connection" where
  "end_simple e c = c\<lparr>sc_ended := True, sc_channel := [], sc_warned := sc_warned c @ [e]\<rparr>"

fun simple_connection_step :: "simple_event \<Rightarrow> simple_connection \<Rightarrow> simple_connection" where
  "simple_connection_step (TcpConnect ok) c =
     (if sc_ended c \<or> sc_connected c then c
      else if ok then c\<lparr>sc_connected := True\<rparr> else end_simple (FailedToConnect (sc_address c) 0) c)"
| "simple_connection_step (TakeMessage ok) c =
     (if sc_ended c \<or> \<not> sc_connected c then c
      else case sc_channel c of [] \<Rightarrow> c
      | d # ds \<Rightarrow> if ok then c\<lparr>sc_channel := ds, sc_written := sc_written c @ [d]\<rparr>
                  else end_simple (FailedToSendMessage (sc_address c)) c)"
| "simple_connection_step (TcpReply r) c =
     (if sc_ended c \<or> \<not> sc_connected c then c
      else case r of Some _ \<Rightarrow> c | None \<Rightarrow> end_simple (FailedToReceiveAck (sc_address c)) c)"

text \<open>\<open>send\<close>: a live connection is used again, otherwise a new one takes its place.\<close>

definition simple_send :: "socket_addr \<Rightarrow> bytes \<Rightarrow> (socket_addr \<rightharpoonup> simple_connection) \<Rightarrow> (socket_addr \<rightharpoonup> simple_connection) option" where
  "simple_send a d conns = (case conns a of
     Some c \<Rightarrow> if sc_ended c then Some (conns(a \<mapsto> (spawn_simple a)\<lparr>sc_channel := [d]\<rparr>))
               else if length (sc_channel c) < channel_capacity then Some (conns(a \<mapsto> c\<lparr>sc_channel := sc_channel c @ [d]\<rparr>))
               else None
   | None \<Rightarrow> Some (conns(a \<mapsto> (spawn_simple a)\<lparr>sc_channel := [d]\<rparr>)))"

primrec simple_broadcast :: "socket_addr list \<Rightarrow> bytes \<Rightarrow> (socket_addr \<rightharpoonup> simple_connection) \<Rightarrow> (socket_addr \<rightharpoonup> simple_connection) option" where
  "simple_broadcast [] d conns = Some conns"
| "simple_broadcast (a # as) d conns = Option.bind (simple_send a d conns) (simple_broadcast as d)"

definition simple_lucky_broadcast ::
    "(socket_addr list \<Rightarrow> socket_addr list) \<Rightarrow> socket_addr list \<Rightarrow> bytes \<Rightarrow> nat \<Rightarrow> (socket_addr \<rightharpoonup> simple_connection) \<Rightarrow> (socket_addr \<rightharpoonup> simple_connection) option" where
  "simple_lucky_broadcast shuffle as d nodes conns = simple_broadcast (take nodes (shuffle as)) d conns"

section \<open>Receiver and link\<close>

text \<open>
  \<open>dispatch\<close> of a message handler: the replies it writes and whether it returned \<open>Ok\<close>. A wire
  has its frames not yet read, the replies not yet read, whether its runner is alive and whether
  it can still be written to from the side of the peer.
\<close>

type_synonym dispatch = "bytes \<Rightarrow> bytes list \<times> bool"

record wire =
  wi_frames :: "parcel list"
  wi_replies :: "bytes list"
  wi_runner :: bool
  wi_writable :: bool

definition new_wire :: wire where
  "new_wire = \<lparr>wi_frames = [], wi_replies = [], wi_runner = True, wi_writable = True\<rparr>"

text \<open>One turn of the loop of \<open>spawn_runner\<close> on a frame, and on a frame that cannot be read.\<close>

definition runner_step :: "dispatch \<Rightarrow> wire \<Rightarrow> wire" where
  "runner_step disp w = (case wi_frames w of [] \<Rightarrow> w | x # xs \<Rightarrow>
     (case disp (fst x) of (rs, ok) \<Rightarrow>
       w\<lparr>wi_frames := xs, wi_replies := (if wi_writable w then wi_replies w @ rs else wi_replies w), wi_runner := ok\<rparr>))"

definition runner_stops :: "wire \<Rightarrow> wire" where
  "runner_stops w = w\<lparr>wi_runner := False\<rparr>"

record link =
  lk_conn :: connection
  lk_wire :: wire
  lk_old :: "wire list"
  lk_closed :: "nat set"
  lk_answers :: "(nat \<times> bytes) list"
  lk_sent :: "parcel list"
  lk_written :: "parcel list"
  lk_got :: "parcel list"

definition link_new :: "socket_addr \<Rightarrow> link" where
  "link_new a = \<lparr>lk_conn = spawn_connection a, lk_wire = new_wire, lk_old = [], lk_closed = {}, lk_answers = [],
     lk_sent = [], lk_written = [], lk_got = []\<rparr>"

inductive link_step :: "dispatch \<Rightarrow> link \<Rightarrow> link \<Rightarrow> bool" for disp where
  step_send: "enqueue (d, h) (lk_conn s) = Some c \<Longrightarrow> h \<notin> snd ` set (lk_sent s) \<Longrightarrow> h \<notin> lk_closed s \<Longrightarrow>
    link_step disp s (s\<lparr>lk_conn := c, lk_sent := lk_sent s @ [(d, h)]\<rparr>)"
| step_cancel: "h \<in> snd ` set (lk_sent s) \<Longrightarrow> link_step disp s (s\<lparr>lk_closed := insert h (lk_closed s)\<rparr>)"
| step_connected: "cn_phase (lk_conn s) = Connecting \<Longrightarrow>
    link_step disp s (s\<lparr>lk_conn := established (lk_conn s), lk_wire := new_wire, lk_old := lk_wire s # lk_old s\<rparr>)"
| step_connect_failed: "cn_phase (lk_conn s) = Connecting \<Longrightarrow>
    link_step disp s (s\<lparr>lk_conn := connect_failed (lk_conn s)\<rparr>)"
| step_timer: "cn_phase (lk_conn s) = Waiting \<Longrightarrow> link_step disp s (s\<lparr>lk_conn := timer_expired (lk_conn s)\<rparr>)"
| step_drain: "cn_phase (lk_conn s) = Waiting \<Longrightarrow> link_step disp s (s\<lparr>lk_conn := drain (lk_closed s) (lk_conn s)\<rparr>)"
| step_next: "cn_phase (lk_conn s) = Selecting \<Longrightarrow>
    link_step disp s (s\<lparr>lk_conn := next_message (lk_closed s) (lk_conn s)\<rparr>)"
| step_written: "cn_phase (lk_conn s) = Writing x \<Longrightarrow>
    link_step disp s (s\<lparr>lk_conn := written x (lk_conn s), lk_written := lk_written s @ [x],
      lk_wire := (lk_wire s)\<lparr>wi_frames := wi_frames (lk_wire s) @ [x]\<rparr>\<rparr>)"
| step_write_failed: "cn_phase (lk_conn s) = Writing x \<Longrightarrow> link_step disp s (s\<lparr>lk_conn := write_failed x (lk_conn s)\<rparr>)"
| step_take: "cn_phase (lk_conn s) = Selecting \<Longrightarrow> cn_buffer (lk_conn s) = [] \<Longrightarrow>
    link_step disp s (s\<lparr>lk_conn := take_message (lk_conn s)\<rparr>)"
| step_reply: "cn_phase (lk_conn s) = Selecting \<Longrightarrow> cn_buffer (lk_conn s) = [] \<Longrightarrow> wi_replies (lk_wire s) = r # rs \<Longrightarrow>
    response (Some r) (lk_conn s) = (c, out) \<Longrightarrow>
    link_step disp s (s\<lparr>lk_conn := c, lk_wire := (lk_wire s)\<lparr>wi_replies := rs\<rparr>,
      lk_answers := lk_answers s @ (case out of None \<Rightarrow> [] | Some x \<Rightarrow> [x])\<rparr>)"
| step_read_failed: "cn_phase (lk_conn s) = Selecting \<Longrightarrow> cn_buffer (lk_conn s) = [] \<Longrightarrow>
    response None (lk_conn s) = (c, out) \<Longrightarrow> link_step disp s (s\<lparr>lk_conn := c\<rparr>)"
| step_runner: "wi_frames (lk_wire s) = x # xs \<Longrightarrow> wi_runner (lk_wire s) \<Longrightarrow>
    link_step disp s (s\<lparr>lk_wire := runner_step disp (lk_wire s), lk_got := lk_got s @ [x]\<rparr>)"
| step_wire_fails: "link_step disp s (s\<lparr>lk_wire := (lk_wire s)\<lparr>wi_writable := False\<rparr>\<rparr>)"
| step_runner_stops: "link_step disp s (s\<lparr>lk_wire := runner_stops (lk_wire s)\<rparr>)"
| step_old_runner: "i < length (lk_old s) \<Longrightarrow> w = lk_old s ! i \<Longrightarrow> wi_frames w = x # xs \<Longrightarrow> wi_runner w \<Longrightarrow>
    link_step disp s (s\<lparr>lk_old := (lk_old s)[i := runner_step disp w], lk_got := lk_got s @ [x]\<rparr>)"
| step_old_stops: "i < length (lk_old s) \<Longrightarrow>
    link_step disp s (s\<lparr>lk_old := (lk_old s)[i := runner_stops (lk_old s ! i)]\<rparr>)"

inductive link_reachable :: "dispatch \<Rightarrow> socket_addr \<Rightarrow> link \<Rightarrow> bool" for disp a where
  link_start: "link_reachable disp a (link_new a)"
| link_next: "link_reachable disp a s \<Longrightarrow> link_step disp s t \<Longrightarrow> link_reachable disp a t"


section \<open>The messages of a connection and their order\<close>

definition in_writing :: "connection \<Rightarrow> parcel list" where
  "in_writing c = (case cn_phase c of Writing x \<Rightarrow> [x] | _ \<Rightarrow> [])"

text \<open>What a connection task still holds, oldest first.\<close>

definition queue :: "connection \<Rightarrow> parcel list" where
  "queue c = cn_pending c @ in_writing c @ cn_buffer c @ cn_channel c"

definition live :: "link \<Rightarrow> parcel \<Rightarrow> bool" where
  "live s x \<longleftrightarrow> snd x \<notin> lk_closed s \<and> snd x \<notin> fst ` set (lk_answers s)"

definition before :: "'a list \<Rightarrow> 'a \<Rightarrow> 'a \<Rightarrow> bool" where
  "before xs x y \<longleftrightarrow> (\<exists>us vs ws. xs = us @ x # vs @ y # ws)"

text \<open>
  \<open>gapless B ok ys\<close>: whatever comes before an element of \<open>ys\<close> in the order \<open>B\<close> is settled,
  or is earlier in \<open>ys\<close>.
\<close>

primrec gapless :: "('a \<Rightarrow> 'a \<Rightarrow> bool) \<Rightarrow> ('a \<Rightarrow> bool) \<Rightarrow> 'a list \<Rightarrow> bool" where
  "gapless B ok [] \<longleftrightarrow> True"
| "gapless B ok (y # ys) \<longleftrightarrow> (\<forall>x. B x y \<longrightarrow> ok x) \<and> gapless B (\<lambda>x. ok x \<or> x = y) ys"

lemma gapless_mono:
  "gapless B ok ys \<Longrightarrow> (\<And>x y. y \<in> set ys \<Longrightarrow> B' x y \<Longrightarrow> B x y) \<Longrightarrow> (\<And>x. ok x \<Longrightarrow> ok' x) \<Longrightarrow> gapless B' ok' ys"
proof (induction ys arbitrary: ok ok')
  case (Cons y ys)
  have "gapless B' (\<lambda>x. ok' x \<or> x = y) ys"
    by (rule Cons.IH [of "\<lambda>x. ok x \<or> x = y"]) (use Cons.prems in auto)
  moreover have "\<forall>x. B' x y \<longrightarrow> ok' x" using Cons.prems by auto
  ultimately show ?case by simp
qed simp

lemma gapless_append: "gapless B ok (xs @ ys) \<longleftrightarrow> gapless B ok xs \<and> gapless B (\<lambda>x. ok x \<or> x \<in> set xs) ys"
  by (induction xs arbitrary: ok) (auto simp: disj_assoc disj_comms)

lemma gapless_filter:
  "gapless B ok ys \<Longrightarrow> (\<And>x. \<not> Q x \<Longrightarrow> ok x) \<Longrightarrow> gapless B ok (filter Q ys)"
proof (induction ys arbitrary: ok)
  case (Cons y ys)
  show ?case
  proof (cases "Q y")
    case True
    then show ?thesis using Cons.prems Cons.IH [of "\<lambda>x. ok x \<or> x = y"] by auto
  next
    case False
    then have "gapless B ok ys" using Cons.prems by (auto intro: gapless_mono [of B "\<lambda>x. ok x \<or> x = y"])
    then show ?thesis using False Cons.IH Cons.prems(2) by simp
  qed
qed simp

lemma gapless_remove: "gapless B ok (us @ x # vs) \<Longrightarrow> ok x \<Longrightarrow> gapless B ok (us @ vs)"
  by (auto simp: gapless_append elim!: gapless_mono)

lemma before_snoc: "before (xs @ [z]) x y \<longleftrightarrow> before xs x y \<or> y = z \<and> x \<in> set xs"
proof
  assume "before (xs @ [z]) x y"
  then obtain us vs ws where e: "xs @ [z] = us @ x # vs @ y # ws" by (auto simp: before_def)
  show "before xs x y \<or> y = z \<and> x \<in> set xs"
  proof (cases ws rule: rev_cases)
    case Nil
    then have "xs @ [z] = (us @ x # vs) @ [y]" using e by simp
    then show ?thesis by (metis append1_eq_conv in_set_conv_decomp)
  next
    case (snoc ws' w)
    then have "xs @ [z] = (us @ x # vs @ y # ws') @ [w]" using e by simp
    then have "xs = us @ x # vs @ y # ws'" by (metis append1_eq_conv)
    then show ?thesis unfolding before_def by blast
  qed
next
  assume "before xs x y \<or> y = z \<and> x \<in> set xs"
  then show "before (xs @ [z]) x y"
  proof
    assume "before xs x y"
    then obtain us vs ws where "xs = us @ x # vs @ y # ws" by (auto simp: before_def)
    then have "xs @ [z] = us @ x # vs @ y # (ws @ [z])" by simp
    then show ?thesis unfolding before_def by blast
  next
    assume "y = z \<and> x \<in> set xs"
    then obtain us vs where "xs = us @ x # vs" "y = z" by (auto dest: split_list)
    then have "xs @ [z] = us @ x # vs @ y # []" by simp
    then show ?thesis unfolding before_def by blast
  qed
qed

lemma before_in: "before xs x y \<Longrightarrow> x \<in> set xs \<and> y \<in> set xs"
  by (auto simp: before_def)

text \<open>What each step of the connection task does to its messages.\<close>

lemmas connection_defs = established_def connect_failed_def timer_expired_def drain_def next_message_def
  written_def leave_keep_alive_def write_failed_def take_message_def response_def enqueue_def

lemma queue_enqueue: "enqueue x c = Some c' \<Longrightarrow> queue c' = queue c @ [x] \<and> cn_pending c' = cn_pending c \<and> cn_phase c' = cn_phase c"
  by (auto simp: enqueue_def queue_def in_writing_def split: if_splits)

lemma queue_connecting:
  assumes "cn_pending c = []"
  shows "cn_phase c = Connecting \<Longrightarrow> queue (established c) = queue c"
    and "cn_phase c = Connecting \<Longrightarrow> queue (connect_failed c) = queue c"
    and "cn_phase c = Waiting \<Longrightarrow> queue (timer_expired c) = queue c"
  using assms by (simp_all add: queue_def in_writing_def connection_defs)

lemma queue_connected:
  "cn_phase c = Writing x \<Longrightarrow> queue (written x c) = queue c"
  "cn_phase c = Writing x \<Longrightarrow> queue (write_failed x c) = queue c"
  "cn_phase c = Selecting \<Longrightarrow> cn_buffer c = [] \<Longrightarrow> queue (take_message c) = queue c"
  by (simp_all add: queue_def in_writing_def connection_defs split: list.split)

lemma queue_read_failed:
  "cn_phase c = Selecting \<Longrightarrow> response None c = (c', out) \<Longrightarrow>
     queue c' = queue c \<and> cn_pending c' = [] \<and> cn_phase c' = Connecting"
  by (auto simp: queue_def in_writing_def connection_defs split: list.splits)

text \<open>\<open>drops C ys zs\<close>: \<open>zs\<close> is \<open>ys\<close> without some elements of a segment, all of them cancelled.\<close>

definition drops :: "nat set \<Rightarrow> parcel list \<Rightarrow> parcel list \<Rightarrow> bool" where
  "drops cancelled ys zs \<longleftrightarrow> (\<exists>us vs ws Q. ys = us @ vs @ ws \<and> zs = us @ filter Q vs @ ws \<and>
     (\<forall>x. \<not> Q x \<longrightarrow> snd x \<in> cancelled))"

lemma dropsI: "ys = us @ vs @ ws \<Longrightarrow> zs = us @ filter Q vs @ ws \<Longrightarrow> (\<And>x. \<not> Q x \<Longrightarrow> snd x \<in> cancelled) \<Longrightarrow> drops cancelled ys zs"
  unfolding drops_def by (intro exI [of _ us] exI [of _ vs] exI [of _ ws] exI [of _ Q]) simp

lemma drops_refl: "drops cancelled ys ys"
  by (rule dropsI [where us = ys and vs = "[]" and ws = "[]" and Q = "\<lambda>_. True"]) simp_all

lemma queue_next:
  assumes "cn_phase c = Selecting"
  shows "drops cancelled (queue c) (queue (next_message cancelled c))"
proof (cases "cn_buffer c")
  case (Cons x xs)
  show ?thesis
  proof (cases "snd x \<in> cancelled")
    case True
    then show ?thesis
      using assms Cons by (intro dropsI [where us = "cn_pending c" and vs = "[x]" and ws = "xs @ cn_channel c" and
            Q = "\<lambda>x. snd x \<notin> cancelled"]) (simp_all add: queue_def in_writing_def next_message_def)
  next
    case False
    then have "queue (next_message cancelled c) = queue c"
      using assms Cons by (simp add: queue_def in_writing_def next_message_def)
    then show ?thesis by (simp add: drops_refl)
  qed
qed (simp add: next_message_def drops_refl)

lemma queue_drain:
  assumes "cn_phase c = Waiting" and "cn_pending c = []"
  shows "drops cancelled (queue c) (queue (drain cancelled c))"
proof (cases "cn_channel c")
  case (Cons x xs)
  then show ?thesis
    using assms by (intro dropsI [where us = "[]" and vs = "cn_buffer c @ [x]" and ws = xs and
          Q = "\<lambda>x. snd x \<notin> cancelled"]) (simp_all add: queue_def in_writing_def drain_def)
qed (simp add: drain_def drops_refl)

section \<open>No message is lost\<close>

text \<open>
  \<open>same_held\<close> and the lemmas after it are the four ways in which the messages held change:
  rearranged, one appended, cancelled ones dropped, the oldest one answered.
\<close>

definition conserved :: "link \<Rightarrow> bool" where
  "conserved s \<longleftrightarrow> distinct (map snd (lk_sent s)) \<and> lk_closed s \<subseteq> snd ` set (lk_sent s) \<and>
     fst ` set (lk_answers s) \<subseteq> snd ` set (lk_sent s) \<and>
     set (queue (lk_conn s)) \<subseteq> set (lk_sent s) \<and> distinct (map snd (queue (lk_conn s))) \<and>
     filter (live s) (lk_sent s) = filter (live s) (queue (lk_conn s))"

lemma conserved_same:
  assumes "conserved s" and "lk_sent t = lk_sent s" "lk_closed t = lk_closed s" "lk_answers t = lk_answers s"
    and "queue (lk_conn t) = queue (lk_conn s)"
  shows "conserved t"
proof -
  have "live t = live s" using assms by (simp add: live_def fun_eq_iff)
  then show ?thesis using assms by (simp add: conserved_def)
qed

lemma conserved_drops:
  assumes "conserved s" and "lk_sent t = lk_sent s" "lk_closed t = lk_closed s" "lk_answers t = lk_answers s"
    and "drops (lk_closed s) (queue (lk_conn s)) (queue (lk_conn t))"
  shows "conserved t"
proof -
  have live: "live t = live s" using assms by (simp add: live_def fun_eq_iff)
  obtain us vs ws Q where q: "queue (lk_conn s) = us @ vs @ ws" "queue (lk_conn t) = us @ filter Q vs @ ws"
    and Q: "\<And>x. \<not> Q x \<Longrightarrow> snd x \<in> lk_closed s"
    using assms(5) unfolding drops_def by blast
  have "(live s x \<and> Q x) = live s x" for x using Q [of x] by (simp add: live_def) blast
  then have "filter (live s) (filter Q vs) = filter (live s) vs" by (simp add: conj_commute)
  moreover have "distinct (map snd (queue (lk_conn t)))"
    using assms(1) q by (auto simp: conserved_def distinct_map_filter)
  ultimately show ?thesis using assms(1-4) q by (auto simp: conserved_def live)
qed

lemma conserved_sent:
  assumes "conserved s" and "t = s\<lparr>lk_conn := c, lk_sent := lk_sent s @ [x]\<rparr>"
    and "queue c = queue (lk_conn s) @ [x]" and "snd x \<notin> snd ` set (lk_sent s)"
  shows "conserved t"
proof -
  have "live t = live s" using assms by (simp add: live_def fun_eq_iff)
  moreover have "snd x \<notin> snd ` set (queue (lk_conn s))" using assms(1, 4) by (auto simp: conserved_def)
  ultimately show ?thesis using assms by (auto simp: conserved_def)
qed

lemma conserved_answered:
  assumes "conserved s" and "queue (lk_conn s) = x # queue c"
    and "t = s\<lparr>lk_conn := c, lk_wire := w, lk_answers := lk_answers s @ [(snd x, r)]\<rparr>"
  shows "conserved t"
proof -
  have live: "live t = (\<lambda>y. live s y \<and> snd y \<noteq> snd x)" using assms by (auto simp: live_def fun_eq_iff)
  have "filter (live t) (lk_sent t) = filter (\<lambda>y. snd y \<noteq> snd x) (filter (live s) (lk_sent s))"
    unfolding live using assms(3) by (simp add: conj_commute)
  also have "\<dots> = filter (\<lambda>y. snd y \<noteq> snd x) (filter (live s) (x # queue c))"
    using assms(1, 2) by (simp add: conserved_def)
  also have "\<dots> = filter (live t) (queue c)"
    unfolding live by (simp add: conj_commute)
  finally show ?thesis using assms by (auto simp: conserved_def)
qed

lemma conserved_cancel:
  assumes "conserved s" and "t = s\<lparr>lk_closed := insert h (lk_closed s)\<rparr>" and "h \<in> snd ` set (lk_sent s)"
  shows "conserved t"
proof -
  have live: "live t = (\<lambda>y. live s y \<and> snd y \<noteq> h)" using assms(2) by (auto simp: live_def fun_eq_iff)
  have "filter (live t) (lk_sent t) = filter (\<lambda>y. snd y \<noteq> h) (filter (live s) (lk_sent s))"
    unfolding live using assms(2) by (simp add: conj_commute)
  also have "\<dots> = filter (live t) (queue (lk_conn t))"
    unfolding live using assms(1, 2) by (simp add: conserved_def conj_commute)
  finally show ?thesis using assms by (auto simp: conserved_def)
qed

text \<open>
  While connected, the messages waiting for a reply are those the runner of the wire has
  dispatched and those still in flight, and there are no more replies than the former.
\<close>

definition is_connected :: "phase \<Rightarrow> bool" where
  "is_connected p \<longleftrightarrow> (case p of Selecting \<Rightarrow> True | Writing _ \<Rightarrow> True | _ \<Rightarrow> False)"

lemma is_connected_simps [simp]: "is_connected Selecting" "is_connected (Writing x)" "\<not> is_connected Connecting" "\<not> is_connected Waiting"
  by (simp_all add: is_connected_def)

definition aligned :: "link \<Rightarrow> bool" where
  "aligned s \<longleftrightarrow> (if is_connected (cn_phase (lk_conn s))
     then \<exists>seen. cn_pending (lk_conn s) = seen @ wi_frames (lk_wire s) \<and> set seen \<subseteq> set (lk_got s) \<and>
       length (wi_replies (lk_wire s)) \<le> length seen
     else cn_pending (lk_conn s) = [])"

lemma alignedI:
  "cn_pending (lk_conn s) = seen @ wi_frames (lk_wire s) \<Longrightarrow> set seen \<subseteq> set (lk_got s) \<Longrightarrow>
     length (wi_replies (lk_wire s)) \<le> length seen \<Longrightarrow> is_connected (cn_phase (lk_conn s)) \<Longrightarrow> aligned s"
  by (auto simp: aligned_def)

lemma alignedE:
  assumes "aligned s" and "is_connected (cn_phase (lk_conn s))"
  obtains seen where "cn_pending (lk_conn s) = seen @ wi_frames (lk_wire s)" and "set seen \<subseteq> set (lk_got s)"
    and "length (wi_replies (lk_wire s)) \<le> length seen"
  using assms by (auto simp: aligned_def)

lemma aligned_mono:
  assumes "aligned s" and "lk_conn t = lk_conn s" "lk_wire t = lk_wire s" "set (lk_got s) \<subseteq> set (lk_got t)"
  shows "aligned t"
proof (cases "is_connected (cn_phase (lk_conn s))")
  case True
  then obtain A where "cn_pending (lk_conn s) = A @ wi_frames (lk_wire s)" "set A \<subseteq> set (lk_got s)"
      "length (wi_replies (lk_wire s)) \<le> length A"
    by (rule alignedE [OF assms(1)])
  then show ?thesis using assms True by (intro alignedI [where seen = A]) auto
next
  case False
  then show ?thesis using assms by (simp add: aligned_def)
qed

lemma aligned_reply:
  assumes "aligned s" and "cn_phase (lk_conn s) = Selecting" and "wi_replies (lk_wire s) = r # rs"
  obtains x seen where "cn_pending (lk_conn s) = x # seen @ wi_frames (lk_wire s)" and "x \<in> set (lk_got s)"
    and "set seen \<subseteq> set (lk_got s)" and "length rs \<le> length seen"
    and "response (Some r) (lk_conn s) = ((lk_conn s)\<lparr>cn_pending := seen @ wi_frames (lk_wire s)\<rparr>, Some (snd x, r))"
proof -
  obtain A where A: "cn_pending (lk_conn s) = A @ wi_frames (lk_wire s)" "set A \<subseteq> set (lk_got s)"
      "length (wi_replies (lk_wire s)) \<le> length A"
    by (rule alignedE [OF assms(1)]) (simp_all add: assms(2))
  then obtain x seen where "A = x # seen" using assms(3) by (cases A) auto
  then show ?thesis using that [of x seen] A assms(3) by (simp add: response_def)
qed

lemma conserved_step:
  assumes "link_step disp s t" and "conserved s" and "aligned s"
  shows "conserved t"
  using assms(1)
proof cases
  case (step_send d h c)
  show ?thesis
    by (rule conserved_sent [OF assms(2) step_send(1)]) (use step_send queue_enqueue [OF step_send(2)] in simp_all)
next
  case (step_cancel h)
  show ?thesis by (rule conserved_cancel [OF assms(2) step_cancel])
next
  case step_drain
  then have "cn_pending (lk_conn s) = []" using assms(3) by (simp add: aligned_def)
  show ?thesis
    by (rule conserved_drops [OF assms(2)])
      (use step_drain queue_drain [OF step_drain(2) \<open>cn_pending (lk_conn s) = []\<close>] in simp_all)
next
  case step_next
  show ?thesis
    by (rule conserved_drops [OF assms(2)]) (use step_next queue_next [OF step_next(2)] in simp_all)
next
  case (step_reply r rs c out)
  obtain x seen where x: "cn_pending (lk_conn s) = x # seen @ wi_frames (lk_wire s)"
      "response (Some r) (lk_conn s) = ((lk_conn s)\<lparr>cn_pending := seen @ wi_frames (lk_wire s)\<rparr>, Some (snd x, r))"
    by (rule aligned_reply [OF assms(3) step_reply(2, 4)])
  have "out = Some (snd x, r)" using step_reply(5) x(2) by simp
  then have "t = s\<lparr>lk_conn := c, lk_wire := (lk_wire s)\<lparr>wi_replies := rs\<rparr>, lk_answers := lk_answers s @ [(snd x, r)]\<rparr>"
    using step_reply(1) by simp
  moreover have "queue (lk_conn s) = x # queue c"
    using step_reply x by (auto simp: queue_def in_writing_def)
  ultimately show ?thesis by (intro conserved_answered [OF assms(2)])
next
  case (step_read_failed c out)
  show ?thesis
    by (rule conserved_same [OF assms(2)]) (use step_read_failed queue_read_failed [OF step_read_failed(2, 4)] in simp_all)
qed (rule conserved_same [OF assms(2)]; use assms(3) in \<open>simp add: queue_connecting queue_connected aligned_def\<close>)+

lemma aligned_step:
  assumes "link_step disp s t" and "aligned s" and one: "\<And>m. length (fst (disp m)) \<le> 1"
  shows "aligned t"
  using assms(1)
proof cases
  case (step_send d h c)
  then show ?thesis using assms(2) queue_enqueue [OF step_send(2)] by (simp add: aligned_def)
next
  case step_drain
  then show ?thesis using assms(2) by (simp add: aligned_def drain_def split: list.split)
next
  case step_next
  then show ?thesis using assms(2) by (simp add: aligned_def next_message_def split: list.split)
next
  case (step_written x)
  obtain A where "cn_pending (lk_conn s) = A @ wi_frames (lk_wire s)" "set A \<subseteq> set (lk_got s)"
      "length (wi_replies (lk_wire s)) \<le> length A"
    by (rule alignedE [OF assms(2)]) (simp_all add: step_written(2))
  then show ?thesis by (intro alignedI [where seen = A]) (simp_all add: step_written(1) written_def)
next
  case step_take
  then show ?thesis using assms(2) by (simp add: aligned_def take_message_def split: list.split)
next
  case (step_reply r rs c out)
  obtain x seen where "cn_pending (lk_conn s) = x # seen @ wi_frames (lk_wire s)" "x \<in> set (lk_got s)"
      "set seen \<subseteq> set (lk_got s)" "length rs \<le> length seen"
      "response (Some r) (lk_conn s) = ((lk_conn s)\<lparr>cn_pending := seen @ wi_frames (lk_wire s)\<rparr>, Some (snd x, r))"
    by (rule aligned_reply [OF assms(2) step_reply(2, 4)])
  then show ?thesis using step_reply by (intro alignedI [where seen = seen]) auto
next
  case (step_read_failed c out)
  then show ?thesis using queue_read_failed [OF step_read_failed(2, 4)] by (simp add: aligned_def)
next
  case (step_runner x xs)
  obtain rs ok where d: "disp (fst x) = (rs, ok)" by fastforce
  then have "length rs \<le> 1" using one [of "fst x"] by simp
  show ?thesis
  proof (cases "is_connected (cn_phase (lk_conn s))")
    case True
    obtain A where "cn_pending (lk_conn s) = A @ wi_frames (lk_wire s)" "set A \<subseteq> set (lk_got s)"
        "length (wi_replies (lk_wire s)) \<le> length A"
      by (rule alignedE [OF assms(2) True])
    then show ?thesis using True step_runner d \<open>length rs \<le> 1\<close>
      by (intro alignedI [where seen = "A @ [x]"]) (auto simp: runner_step_def)
  next
    case False
    then show ?thesis using assms(2) step_runner by (simp add: aligned_def)
  qed
next
  case (step_old_runner i w x xs)
  then have "lk_conn t = lk_conn s" "lk_wire t = lk_wire s" "set (lk_got s) \<subseteq> set (lk_got t)" by auto
  then show ?thesis by (rule aligned_mono [OF assms(2)])
qed (use assms(2) in \<open>simp add: aligned_def connection_defs new_wire_def runner_stops_def\<close>)+

section \<open>Messages reach the peer in the order they were sent\<close>

definition settled :: "link \<Rightarrow> parcel \<Rightarrow> bool" where
  "settled s x \<longleftrightarrow> x \<in> set (lk_got s) \<or> snd x \<in> lk_closed s"

definition flowing :: "link \<Rightarrow> parcel list \<Rightarrow> bool" where
  "flowing s ys \<longleftrightarrow> set ys \<subseteq> set (lk_sent s) \<and> gapless (before (lk_sent s)) (settled s) ys"

definition ordered :: "link \<Rightarrow> bool" where
  "ordered s \<longleftrightarrow> flowing s (queue (lk_conn s)) \<and> (\<forall>w \<in> insert (lk_wire s) (set (lk_old s)). flowing s (wi_frames w)) \<and>
     (\<forall>y \<in> set (lk_got s). y \<in> set (lk_sent s) \<and> (\<forall>x. before (lk_sent s) x y \<longrightarrow> settled s x)) \<and>
     (\<forall>h \<in> fst ` set (lk_answers s). h \<in> snd ` set (lk_got s))"

text \<open>Sending appends a new message, and cancelling and delivering only add.\<close>

definition later :: "link \<Rightarrow> link \<Rightarrow> bool" where
  "later s t \<longleftrightarrow> (lk_sent t = lk_sent s \<or> (\<exists>x. lk_sent t = lk_sent s @ [x] \<and> x \<notin> set (lk_sent s))) \<and>
     lk_closed s \<subseteq> lk_closed t \<and> set (lk_got s) \<subseteq> set (lk_got t)"

lemma later_step: "link_step disp s t \<Longrightarrow> later s t"
  by (erule link_step.cases) (auto simp: later_def image_iff)

lemma laterD: "later s t \<Longrightarrow> set (lk_got s) \<subseteq> set (lk_got t)" "later s t \<Longrightarrow> set (lk_sent s) \<subseteq> set (lk_sent t)"
  by (auto simp: later_def)

lemma settled_later: "later s t \<Longrightarrow> settled s x \<Longrightarrow> settled t x"
  by (auto simp: later_def settled_def)

lemma before_later: "later s t \<Longrightarrow> y \<in> set (lk_sent s) \<Longrightarrow> before (lk_sent t) x y \<Longrightarrow> before (lk_sent s) x y"
  by (auto simp: later_def before_snoc)

lemma flowing_later:
  assumes "later s t" and "flowing s ys"
  shows "flowing t ys"
proof -
  have "gapless (before (lk_sent t)) (settled t) ys"
  proof (rule gapless_mono)
    show "gapless (before (lk_sent s)) (settled s) ys" using assms(2) by (simp add: flowing_def)
    fix x y assume "y \<in> set ys" "before (lk_sent t) x y"
    then show "before (lk_sent s) x y" using assms by (intro before_later [OF assms(1)]) (auto simp: flowing_def)
  qed (rule settled_later [OF assms(1)])
  moreover have "set ys \<subseteq> set (lk_sent t)" using assms by (auto simp: flowing_def later_def)
  ultimately show ?thesis by (simp add: flowing_def)
qed

lemma flowing_Nil [simp]: "flowing s []"
  by (simp add: flowing_def)

lemma flowing_drops:
  assumes "flowing s ys" and "drops (lk_closed s) ys zs"
  shows "flowing s zs"
proof -
  obtain us vs ws Q where q: "ys = us @ vs @ ws" "zs = us @ filter Q vs @ ws"
    and Q: "\<And>x. \<not> Q x \<Longrightarrow> settled s x"
    using assms(2) unfolding drops_def settled_def by blast
  let ?B = "before (lk_sent s)"
  have "gapless ?B (settled s) us" "gapless ?B (\<lambda>x. settled s x \<or> x \<in> set us) vs"
    "gapless ?B (\<lambda>x. (settled s x \<or> x \<in> set us) \<or> x \<in> set vs) ws"
    using assms(1) q(1) by (simp_all add: flowing_def gapless_append)
  moreover from this(2) have "gapless ?B (\<lambda>x. settled s x \<or> x \<in> set us) (filter Q vs)"
    by (rule gapless_filter) (use Q in blast)
  moreover from calculation(3) have "gapless ?B (\<lambda>x. (settled s x \<or> x \<in> set us) \<or> x \<in> set (filter Q vs)) ws"
    by (rule gapless_mono) (use Q in auto)
  ultimately show ?thesis using assms(1) q by (auto simp: flowing_def gapless_append)
qed

lemma flowing_sent:
  assumes "flowing s ys" and "\<forall>y \<in> set (lk_sent s). settled s y \<or> y \<in> set ys"
    and "later s t" and "lk_sent t = lk_sent s @ [x]" and "x \<notin> set (lk_sent s)"
  shows "flowing t (ys @ [x])"
proof -
  have "settled t y \<or> y \<in> set ys" if "before (lk_sent t) y x" for y
  proof -
    have "y \<in> set (lk_sent s)" using that before_in [of "lk_sent s" y x] assms(4, 5) by (auto simp: before_snoc)
    then show ?thesis using assms(2) settled_later [OF assms(3)] by blast
  qed
  then show ?thesis using flowing_later [OF assms(3, 1)] assms(4) by (simp add: flowing_def gapless_append)
qed

lemma flowing_head: "flowing s (y # ys) \<Longrightarrow> before (lk_sent s) x y \<Longrightarrow> settled s x"
  unfolding flowing_def gapless.simps by blast

lemma flowing_tail: "flowing s (y # ys) \<Longrightarrow> settled s y \<Longrightarrow> flowing s ys"
  by (auto simp: flowing_def elim!: gapless_mono)

lemma flowing_prefix: "flowing s (xs @ ys) \<Longrightarrow> flowing s xs"
  by (auto simp: flowing_def gapless_append)

lemma flowing_later_part: "flowing s (xs @ ys) \<Longrightarrow> set xs \<subseteq> set (lk_got s) \<Longrightarrow> flowing s ys"
  by (auto simp: flowing_def gapless_append settled_def elim!: gapless_mono)

lemma ordered_flows:
  assumes "ordered s"
  shows "flowing s (queue (lk_conn s))" and "flowing s (wi_frames (lk_wire s))"
    and "\<And>i. i < length (lk_old s) \<Longrightarrow> flowing s (wi_frames (lk_old s ! i))"
    and "\<And>w. w \<in> set (lk_old s) \<Longrightarrow> flowing s (wi_frames w)"
    and "\<And>y. y \<in> set (lk_got s) \<Longrightarrow> y \<in> set (lk_sent s) \<and> (\<forall>x. before (lk_sent s) x y \<longrightarrow> settled s x)"
    and "\<And>h. h \<in> fst ` set (lk_answers s) \<Longrightarrow> h \<in> snd ` set (lk_got s)"
  using assms unfolding ordered_def by (blast intro: nth_mem)+

lemma orderedI:
  assumes "flowing s (queue (lk_conn s))" and "flowing s (wi_frames (lk_wire s))"
    and "\<And>w. w \<in> set (lk_old s) \<Longrightarrow> flowing s (wi_frames w)"
    and "\<And>y. y \<in> set (lk_got s) \<Longrightarrow> y \<in> set (lk_sent s) \<and> (\<forall>x. before (lk_sent s) x y \<longrightarrow> settled s x)"
    and "\<And>h. h \<in> fst ` set (lk_answers s) \<Longrightarrow> h \<in> snd ` set (lk_got s)"
  shows "ordered s"
  using assms by (simp add: ordered_def)

lemma ordered_stepI:
  assumes "ordered s" and "later s t" and "flowing t (queue (lk_conn t))" and "flowing t (wi_frames (lk_wire t))"
    and "\<And>w. w \<in> set (lk_old t) \<Longrightarrow> w \<in> set (lk_old s) \<or> flowing t (wi_frames w)"
    and "\<And>y. y \<in> set (lk_got t) \<Longrightarrow> y \<in> set (lk_got s) \<or> flowing t [y]"
    and "\<And>h. h \<in> fst ` set (lk_answers t) \<Longrightarrow> h \<in> fst ` set (lk_answers s) \<or> h \<in> snd ` set (lk_got s)"
  shows "ordered t"
proof -
  have "y \<in> set (lk_sent t) \<and> (\<forall>x. before (lk_sent t) x y \<longrightarrow> settled t x)" if "y \<in> set (lk_got t)" for y
  proof (cases "flowing t [y]")
    case True
    then show ?thesis by (simp add: flowing_def)
  next
    case False
    then have "y \<in> set (lk_got s)" using assms(6) that by blast
    then have "y \<in> set (lk_sent s)" "\<forall>x. before (lk_sent s) x y \<longrightarrow> settled s x"
      using ordered_flows(5) [OF assms(1)] by simp_all
    moreover from this have "y \<in> set (lk_sent t)" using laterD(2) [OF assms(2)] by blast
    ultimately show ?thesis using before_later [OF assms(2)] settled_later [OF assms(2)] by blast
  qed
  moreover have "flowing t (wi_frames w)" if "w \<in> set (lk_old t)" for w
    using assms(5) [OF that] flowing_later [OF assms(2)] ordered_flows(4) [OF assms(1)] by blast
  moreover have "h \<in> snd ` set (lk_got t)" if "h \<in> fst ` set (lk_answers t)" for h
    using assms(7) [OF that] ordered_flows(6) [OF assms(1)] laterD(1) [OF assms(2)] by blast
  ultimately show ?thesis using assms(3, 4) by (intro orderedI)
qed

lemma ordered_same:
  assumes "ordered s" and "later s t" and "queue (lk_conn t) = queue (lk_conn s)"
    and "wi_frames (lk_wire t) = wi_frames (lk_wire s)" and "lk_old t = lk_old s" "lk_got t = lk_got s" "lk_answers t = lk_answers s"
  shows "ordered t"
  by (rule ordered_stepI [OF assms(1, 2)])
    (use assms flowing_later [OF assms(2)] ordered_flows(1, 2) [OF assms(1)] in auto)

lemma sent_settled_or_held:
  assumes "conserved s" and "ordered s" and "y \<in> set (lk_sent s)"
  shows "settled s y \<or> y \<in> set (queue (lk_conn s))"
proof (cases "live s y")
  case True
  have "filter (live s) (lk_sent s) = filter (live s) (queue (lk_conn s))" using assms(1) by (simp add: conserved_def)
  then have "{x \<in> set (lk_sent s). live s x} = {x \<in> set (queue (lk_conn s)). live s x}" by (metis set_filter)
  then show ?thesis using True assms(3) by blast
next
  case False
  then show ?thesis
  proof (cases "snd y \<in> lk_closed s")
    case False
    then have "snd y \<in> snd ` set (lk_got s)" using \<open>\<not> live s y\<close> ordered_flows(6) [OF assms(2)] by (simp add: live_def)
    then obtain z where "z \<in> set (lk_got s)" "snd z = snd y" by auto
    moreover from this have "z \<in> set (lk_sent s)" using ordered_flows(5) [OF assms(2)] by simp
    ultimately have "z = y" using assms(1, 3) by (auto simp: conserved_def distinct_map dest: inj_onD)
    then show ?thesis using \<open>z \<in> set (lk_got s)\<close> by (simp add: settled_def)
  qed (simp add: settled_def)
qed

lemma ordered_step:
  assumes "link_step disp s t" and "conserved s" and "aligned s" and "ordered s"
  shows "ordered t"
proof -
  have later: "later s t" by (rule later_step [OF assms(1)])
  note keep = flowing_later [OF later]
  note I = ordered_stepI [OF assms(4) later]
  have queue: "queue (lk_conn t) = queue (lk_conn s) \<Longrightarrow> flowing t (queue (lk_conn t))"
    using keep ordered_flows(1) [OF assms(4)] by simp
  have frames: "lk_wire t = lk_wire s \<Longrightarrow> flowing t (wi_frames (lk_wire t))"
    using keep ordered_flows(2) [OF assms(4)] by simp
  show ?thesis
    using assms(1)
  proof cases
    case (step_send d h c)
    have "(d, h) \<notin> set (lk_sent s)" using step_send(3) by force
    then have "flowing t (queue (lk_conn s) @ [(d, h)])"
      using step_send(1) sent_settled_or_held [OF assms(2, 4)]
      by (intro flowing_sent [OF ordered_flows(1) [OF assms(4)] _ later]) simp_all
    then show ?thesis using frames step_send queue_enqueue [OF step_send(2)] by (intro I) simp_all
  next
    case step_drain
    then have "drops (lk_closed s) (queue (lk_conn s)) (queue (lk_conn t))"
      using queue_drain assms(3) by (simp add: aligned_def)
    then show ?thesis using frames step_drain keep flowing_drops [OF ordered_flows(1) [OF assms(4)]] by (intro I) simp_all
  next
    case step_next
    then have "drops (lk_closed s) (queue (lk_conn s)) (queue (lk_conn t))" using queue_next by simp
    then show ?thesis using frames step_next keep flowing_drops [OF ordered_flows(1) [OF assms(4)]] by (intro I) simp_all
  next
    case (step_connected)
    then have "queue (lk_conn t) = queue (lk_conn s)" using assms(3) by (simp add: queue_connecting aligned_def)
    then show ?thesis using queue step_connected keep ordered_flows(2) [OF assms(4)] by (intro I) (auto simp: new_wire_def)
  next
    case (step_written x)
    obtain A where A: "cn_pending (lk_conn s) = A @ wi_frames (lk_wire s)" "set A \<subseteq> set (lk_got s)"
      by (rule alignedE [OF assms(3)]) (simp_all add: step_written(2))
    have "flowing s (A @ (wi_frames (lk_wire s) @ [x]) @ (cn_buffer (lk_conn s) @ cn_channel (lk_conn s)))"
      using ordered_flows(1) [OF assms(4)] A(1) step_written(2) by (simp add: queue_def in_writing_def)
    then have "flowing s (wi_frames (lk_wire s) @ [x])" using flowing_prefix flowing_later_part [OF _ A(2)] by blast
    then show ?thesis using queue keep step_written by (intro I) (simp_all add: queue_connected)
  next
    case (step_reply r rs c out)
    obtain x seen where x: "cn_pending (lk_conn s) = x # seen @ wi_frames (lk_wire s)" "x \<in> set (lk_got s)"
        "response (Some r) (lk_conn s) = ((lk_conn s)\<lparr>cn_pending := seen @ wi_frames (lk_wire s)\<rparr>, Some (snd x, r))"
      by (rule aligned_reply [OF assms(3) step_reply(2, 4)])
    have out: "out = Some (snd x, r)" and "queue (lk_conn s) = x # queue c"
      using step_reply x by (auto simp: queue_def in_writing_def)
    then have "flowing s (queue c)" using flowing_tail [of s x] ordered_flows(1) [OF assms(4)] x(2) by (simp add: settled_def)
    then show ?thesis using keep step_reply x(2) ordered_flows(2) [OF assms(4)] by (intro I) (auto simp: out)
  next
    case (step_read_failed c out)
    then show ?thesis using queue_read_failed [OF step_read_failed(2, 4)] queue frames by (intro I) simp_all
  next
    case (step_runner x xs)
    have f: "flowing s (x # xs)" using ordered_flows(2) [OF assms(4)] step_runner(2) by simp
    have "settled t x" using step_runner(1) by (simp add: settled_def)
    then have "flowing t xs" "flowing t [x]" using flowing_tail [OF keep [OF f]] flowing_prefix [of t "[x]" xs] keep [OF f] by simp_all
    then show ?thesis using step_runner queue by (intro I) (auto simp: runner_step_def split: prod.splits)
  next
    case (step_old_runner i w x xs)
    have f: "flowing s (x # xs)" using ordered_flows(3) [OF assms(4) step_old_runner(2)] step_old_runner(3, 4) by simp
    have "settled t x" using step_old_runner(1) by (simp add: settled_def)
    then have "flowing t xs" "flowing t [x]" using flowing_tail [OF keep [OF f]] flowing_prefix [of t "[x]" xs] keep [OF f] by simp_all
    moreover have "flowing t (wi_frames (runner_step disp w))"
      using \<open>flowing t xs\<close> step_old_runner(4) by (simp add: runner_step_def split: prod.split)
    ultimately show ?thesis using step_old_runner queue frames set_update_subset_insert [of "lk_old s" i "runner_step disp w"]
      by (intro I) auto
  next
    case (step_old_stops i)
    have "flowing t (wi_frames (runner_stops (lk_old s ! i)))"
      using keep ordered_flows(3) [OF assms(4) step_old_stops(2)] by (simp add: runner_stops_def)
    then show ?thesis using step_old_stops queue frames set_update_subset_insert [of "lk_old s" i "runner_stops (lk_old s ! i)"]
      by (intro I) auto
  qed (rule ordered_same [OF assms(4) later]; use assms(3) in
      \<open>simp add: queue_connecting queue_connected aligned_def runner_stops_def\<close>)+
qed

section \<open>The contract of a link\<close>

text \<open>A message handler that writes at most one reply to a message, or none, or exactly one.\<close>

locale replying =
  fixes disp :: dispatch
  assumes one_reply: "length (fst (disp m)) \<le> 1"
begin

lemma reachable_ok: "link_reachable disp a s \<Longrightarrow> conserved s \<and> aligned s \<and> ordered s"
proof (induction rule: link_reachable.induct)
  case link_start
  then show ?case
    by (simp add: conserved_def aligned_def ordered_def link_new_def spawn_connection_def queue_def in_writing_def new_wire_def)
next
  case (link_next s t)
  then show ?case using conserved_step aligned_step [of disp, OF _ _ one_reply] ordered_step by blast
qed

lemma uncancelled_kept:
  "link_reachable disp a s \<Longrightarrow> filter (live s) (lk_sent s) = filter (live s) (queue (lk_conn s))"
  using reachable_ok by (simp add: conserved_def)

lemma answered_arrived: "link_reachable disp a s \<Longrightarrow> fst ` set (lk_answers s) \<subseteq> snd ` set (lk_got s)"
  using reachable_ok ordered_flows(6) by blast

lemma arrives_in_order:
  "link_reachable disp a s \<Longrightarrow> before (lk_sent s) x y \<Longrightarrow> y \<in> set (lk_got s) \<Longrightarrow> x \<in> set (lk_got s) \<or> snd x \<in> lk_closed s"
  using reachable_ok ordered_flows(5) unfolding settled_def by blast

end

locale silent =
  fixes disp :: dispatch
  assumes no_reply: "fst (disp m) = []"

sublocale silent \<subseteq> replying disp
  by unfold_locales (simp add: no_reply)

context silent
begin

lemma never_answered: "link_reachable disp a s \<Longrightarrow> lk_answers s = [] \<and> wi_replies (lk_wire s) = []"
proof (induction rule: link_reachable.induct)
  case link_start
  then show ?case by (simp add: link_new_def new_wire_def)
next
  case (link_next s t)
  show ?case
    using link_next(2)
  proof cases
    case (step_runner x xs)
    then show ?thesis using link_next(3) no_reply [of "fst x"] by (auto simp: runner_step_def split: prod.split)
  qed (use link_next(3) in \<open>simp add: new_wire_def runner_stops_def\<close>)+
qed

lemma kept_for_ever:
  assumes "link_reachable disp a s" and "x \<in> set (lk_sent s)" and "snd x \<notin> lk_closed s"
  shows "x \<in> set (queue (lk_conn s))"
proof -
  have "live s x" using assms(3) never_answered [OF assms(1)] by (simp add: live_def)
  then have "x \<in> set (filter (live s) (lk_sent s))" using assms(2) by simp
  then show ?thesis unfolding uncancelled_kept [OF assms(1)] by simp
qed

end

locale acking =
  fixes disp :: dispatch and ack :: bytes
  assumes acks: "fst (disp m) = [ack]"

sublocale acking \<subseteq> replying disp
  by unfold_locales (simp add: acks)

section \<open>Retransmission succeeds\<close>

text \<open>
  \<open>fresh_link X\<close>: connected, every message in flight has been dispatched and answered, and what
  is still to be sent is in \<open>X\<close>. The lemmas take a link from any state to a new connection, then send the buffer, then take the
  replies, then the channel.
\<close>

definition fresh_link :: "parcel set \<Rightarrow> link \<Rightarrow> bool" where
  "fresh_link X s \<longleftrightarrow> set (cn_buffer (lk_conn s) @ cn_channel (lk_conn s)) \<subseteq> X \<and> cn_phase (lk_conn s) = Selecting \<and> wi_frames (lk_wire s) = [] \<and> wi_runner (lk_wire s) \<and>
     wi_writable (lk_wire s) \<and> length (wi_replies (lk_wire s)) = length (cn_pending (lk_conn s))"

text \<open>Steps in which the caller neither sends nor cancels.\<close>

definition works :: "dispatch \<Rightarrow> link \<Rightarrow> link \<Rightarrow> bool" where
  "works disp s t \<longleftrightarrow> link_step disp s t \<and> lk_closed t = lk_closed s \<and> lk_sent t = lk_sent s"

lemma worksI: "link_step disp s t \<Longrightarrow> lk_closed t = lk_closed s \<Longrightarrow> lk_sent t = lk_sent s \<Longrightarrow> works disp s t"
  by (simp add: works_def)

lemma works_run:
  "(works disp)\<^sup>*\<^sup>* s t \<Longrightarrow> lk_closed t = lk_closed s \<and> lk_sent t = lk_sent s \<and> (link_reachable disp a s \<longrightarrow> link_reachable disp a t)"
  by (induction rule: rtranclp_induct) (auto simp: works_def intro: link_next)

lemma reconnects:
  "\<exists>t. (works disp)\<^sup>*\<^sup>* s t \<and> cn_phase (lk_conn t) = Connecting"
proof (induction "length (cn_buffer (lk_conn s))" arbitrary: s rule: less_induct)
  case less
  show ?case
  proof (cases "cn_phase (lk_conn s)")
    case Connecting
    then show ?thesis by blast
  next
    case Waiting
    let ?t = "s\<lparr>lk_conn := timer_expired (lk_conn s)\<rparr>"
    have "works disp s ?t" by (rule worksI [OF step_timer [OF Waiting]]) simp_all
    moreover have "cn_phase (lk_conn ?t) = Connecting" by (simp add: timer_expired_def)
    ultimately show ?thesis by blast
  next
    case (Writing x)
    let ?t = "s\<lparr>lk_conn := write_failed x (lk_conn s)\<rparr>"
    have "works disp s ?t" by (rule worksI [OF step_write_failed [OF Writing]]) simp_all
    moreover have "cn_phase (lk_conn ?t) = Connecting" by (simp add: write_failed_def leave_keep_alive_def)
    ultimately show ?thesis by blast
  next
    case Selecting
    show ?thesis
    proof (cases "cn_buffer (lk_conn s)")
      case Nil
      obtain c out where c: "response None (lk_conn s) = (c, out)" by fastforce
      let ?t = "s\<lparr>lk_conn := c\<rparr>"
      have "works disp s ?t" by (rule worksI [OF step_read_failed [OF Selecting Nil c]]) simp_all
      moreover have "cn_phase (lk_conn ?t) = Connecting" using queue_read_failed [OF Selecting c] by simp
      ultimately show ?thesis by blast
    next
      case (Cons x xs)
      let ?t = "s\<lparr>lk_conn := next_message (lk_closed s) (lk_conn s)\<rparr>"
      have "works disp s ?t" by (rule worksI [OF step_next [OF Selecting]]) simp_all
      moreover have "length (cn_buffer (lk_conn ?t)) < length (cn_buffer (lk_conn s))" by (simp add: Cons next_message_def)
      ultimately show ?thesis using less [of ?t] by (meson converse_rtranclp_into_rtranclp)
    qed
  qed
qed

context acking
begin

lemma flushes:
  "fresh_link X s \<Longrightarrow> \<exists>t. (works disp)\<^sup>*\<^sup>* s t \<and> fresh_link X t \<and> cn_buffer (lk_conn t) = [] \<and>
     cn_channel (lk_conn t) = cn_channel (lk_conn s)"
  if ok: "\<And>x. x \<in> X \<Longrightarrow> snd (disp (fst x))"
proof (induction "length (cn_buffer (lk_conn s))" arbitrary: s rule: less_induct)
  case less
  show ?case
  proof (cases "cn_buffer (lk_conn s)")
    case Nil
    then show ?thesis using less(2) by blast
  next
    case (Cons x xs)
    let ?t = "s\<lparr>lk_conn := next_message (lk_closed s) (lk_conn s)\<rparr>"
    have sel: "cn_phase (lk_conn s) = Selecting" using less(2) by (simp add: fresh_link_def)
    have t: "works disp s ?t" by (rule worksI [OF step_next [OF sel]]) simp_all
    show ?thesis
    proof (cases "snd x \<in> lk_closed s")
      case True
      then have "fresh_link X ?t" "length (cn_buffer (lk_conn ?t)) < length (cn_buffer (lk_conn s))"
        "cn_channel (lk_conn ?t) = cn_channel (lk_conn s)"
        using less(2) Cons by (simp_all add: fresh_link_def next_message_def)
      then show ?thesis using less(1) [of ?t] t by (metis converse_rtranclp_into_rtranclp)
    next
      case False
      then have w: "cn_phase (lk_conn ?t) = Writing x" by (simp add: next_message_def Cons)
      let ?u = "?t\<lparr>lk_conn := written x (lk_conn ?t), lk_written := lk_written ?t @ [x],
        lk_wire := (lk_wire ?t)\<lparr>wi_frames := wi_frames (lk_wire ?t) @ [x]\<rparr>\<rparr>"
      have u: "works disp ?t ?u" by (rule worksI [OF step_written [OF w]]) simp_all
      let ?v = "?u\<lparr>lk_wire := runner_step disp (lk_wire ?u), lk_got := lk_got ?u @ [x]\<rparr>"
      have "wi_frames (lk_wire ?u) = x # []" "wi_runner (lk_wire ?u)" using less(2) by (simp_all add: fresh_link_def)
      then have v: "works disp ?u ?v" by (intro worksI [OF step_runner]) simp_all
      have "x \<in> X" using less(2) Cons by (simp add: fresh_link_def)
      then have "disp (fst x) = ([ack], True)" using acks [of "fst x"] ok [of x] by (metis prod.collapse)
      then have "fresh_link X ?v" "length (cn_buffer (lk_conn ?v)) < length (cn_buffer (lk_conn s))"
        "cn_channel (lk_conn ?v) = cn_channel (lk_conn s)"
        using less(2) Cons False
        by (simp_all add: fresh_link_def next_message_def written_def runner_step_def)
      then obtain z where "(works disp)\<^sup>*\<^sup>* ?v z" "fresh_link X z" "cn_buffer (lk_conn z) = []"
          "cn_channel (lk_conn z) = cn_channel (lk_conn s)"
        using less(1) [of ?v] by metis
      then show ?thesis using t u v by (meson converse_rtranclp_into_rtranclp)
    qed
  qed
qed

lemma collects_replies:
  "fresh_link X s \<Longrightarrow> cn_buffer (lk_conn s) = [] \<Longrightarrow> \<exists>t. (works disp)\<^sup>*\<^sup>* s t \<and> fresh_link X t \<and>
     cn_buffer (lk_conn t) = [] \<and> cn_pending (lk_conn t) = [] \<and> cn_channel (lk_conn t) = cn_channel (lk_conn s)"
proof (induction "cn_pending (lk_conn s)" arbitrary: s)
  case Nil
  then show ?case by (metis rtranclp.rtrancl_refl)
next
  case (Cons x xs)
  then obtain r rs where r: "wi_replies (lk_wire s) = r # rs"
    by (cases "wi_replies (lk_wire s)") (auto simp: fresh_link_def simp flip: Cons(2))
  have sel: "cn_phase (lk_conn s) = Selecting" using Cons(3) by (simp add: fresh_link_def)
  have resp: "response (Some r) (lk_conn s) = ((lk_conn s)\<lparr>cn_pending := xs\<rparr>, Some (snd x, r))"
    by (simp add: response_def flip: Cons(2))
  let ?t = "s\<lparr>lk_conn := (lk_conn s)\<lparr>cn_pending := xs\<rparr>, lk_wire := (lk_wire s)\<lparr>wi_replies := rs\<rparr>,
      lk_answers := lk_answers s @ (case Some (snd x, r) of None \<Rightarrow> [] | Some x \<Rightarrow> [x])\<rparr>"
  have t: "works disp s ?t" by (rule worksI [OF step_reply [OF sel Cons(4) r resp]]) simp_all
  have "fresh_link X ?t" using Cons(3) r by (simp add: fresh_link_def flip: Cons(2))
  moreover have "xs = cn_pending (lk_conn ?t)" "cn_buffer (lk_conn ?t) = []" "cn_channel (lk_conn ?t) = cn_channel (lk_conn s)"
    using Cons(4) by simp_all
  ultimately obtain z where "(works disp)\<^sup>*\<^sup>* ?t z" "fresh_link X z" "cn_buffer (lk_conn z) = []" "cn_pending (lk_conn z) = []"
      "cn_channel (lk_conn z) = cn_channel (lk_conn s)"
    using Cons(1) [of ?t] by metis
  then show ?case using t by (meson converse_rtranclp_into_rtranclp)
qed

lemma empties:
  assumes ok: "\<And>x. x \<in> X \<Longrightarrow> snd (disp (fst x))"
  shows "fresh_link X s \<Longrightarrow> \<exists>t. (works disp)\<^sup>*\<^sup>* s t \<and> queue (lk_conn t) = []"
proof (induction "cn_channel (lk_conn s)" arbitrary: s)
  case Nil
  obtain t where "(works disp)\<^sup>*\<^sup>* s t" "fresh_link X t" "cn_buffer (lk_conn t) = []" "cn_channel (lk_conn t) = []"
    using flushes [OF ok Nil(2)] Nil(1) by metis
  moreover from collects_replies [OF this(2, 3)] this(4)
  obtain u where "(works disp)\<^sup>*\<^sup>* t u" "fresh_link X u" "cn_buffer (lk_conn u) = []" "cn_pending (lk_conn u) = []"
      "cn_channel (lk_conn u) = []"
    by metis
  ultimately show ?case
    by (intro exI [of _ u]) (simp add: queue_def in_writing_def fresh_link_def rtranclp_trans)
next
  case (Cons x xs)
  obtain t where t: "(works disp)\<^sup>*\<^sup>* s t" "fresh_link X t" "cn_buffer (lk_conn t) = []" "cn_channel (lk_conn t) = x # xs"
    using flushes [OF ok Cons(3)] Cons(2) by metis
  have sel: "cn_phase (lk_conn t) = Selecting" using t(2) by (simp add: fresh_link_def)
  let ?u = "t\<lparr>lk_conn := take_message (lk_conn t)\<rparr>"
  have u: "works disp t ?u" by (rule worksI [OF step_take [OF sel t(3)]]) simp_all
  have "fresh_link X ?u" "xs = cn_channel (lk_conn ?u)" using t by (simp_all add: fresh_link_def take_message_def)
  then obtain z where "(works disp)\<^sup>*\<^sup>* ?u z" "queue (lk_conn z) = []" using Cons(1) [of ?u] by blast
  then show ?case using t(1) u by (meson converse_rtranclp_into_rtranclp rtranclp_trans)
qed

lemma can_deliver_all:
  assumes ok: "\<And>x. x \<in> set (lk_sent s) \<Longrightarrow> snd (disp (fst x))" and "link_reachable disp a s"
  shows "\<exists>t. (works disp)\<^sup>*\<^sup>* s t \<and> (\<forall>x \<in> set (lk_sent s). snd x \<in> lk_closed s \<or> snd x \<in> fst ` set (lk_answers t))"
proof -
  obtain t where t: "(works disp)\<^sup>*\<^sup>* s t" "cn_phase (lk_conn t) = Connecting" using reconnects by blast
  let ?u = "t\<lparr>lk_conn := established (lk_conn t), lk_wire := new_wire, lk_old := lk_wire t # lk_old t\<rparr>"
  have u: "works disp t ?u" by (rule worksI [OF step_connected [OF t(2)]]) simp_all
  have same: "lk_sent ?u = lk_sent s" "link_reachable disp a t" using works_run [OF t(1), of a] assms(2) by simp_all
  then have "link_reachable disp a ?u" using u link_next by (simp add: works_def)
  then have "set (queue (lk_conn ?u)) \<subseteq> set (lk_sent s)" using reachable_ok same(1) by (metis conserved_def)
  then have "fresh_link (set (lk_sent s)) ?u"
    by (auto simp: fresh_link_def established_def new_wire_def queue_def)
  then obtain z where z: "(works disp)\<^sup>*\<^sup>* ?u z" "queue (lk_conn z) = []" using empties [OF ok] by blast
  have run: "(works disp)\<^sup>*\<^sup>* s z" using t(1) u z(1) by (meson converse_rtranclp_into_rtranclp rtranclp_trans)
  then have "link_reachable disp a z" "lk_closed z = lk_closed s" "lk_sent z = lk_sent s"
    using works_run [OF run] assms(2) by simp_all
  then have "filter (live z) (lk_sent z) = []" using uncancelled_kept [OF \<open>link_reachable disp a z\<close>] z(2) by simp
  then show ?thesis using run \<open>lk_closed z = lk_closed s\<close> \<open>lk_sent z = lk_sent s\<close>
    by (auto simp: filter_empty_conv live_def)
qed

end

section \<open>The delay between attempts\<close>

definition failed_attempt :: "connection \<Rightarrow> connection" where
  "failed_attempt c = timer_expired (connect_failed c)"

lemma failed_attempt_fields:
  "cn_delay (failed_attempt c) = min (2 * cn_delay c) 60000" "cn_retry (failed_attempt c) = cn_retry c + 1"
  by (simp_all add: failed_attempt_def timer_expired_def connect_failed_def)

text \<open>
  after \<open>n\<close> failed attempts in a row to connect, the task waits \<open>200 * 2 ^ n\<close> milliseconds,
  at most a minute, and its counter of retries, 16 bits wide, holds \<open>n\<close> modulo \<open>2 ^ 16\<close>; one
  success resets both.
\<close>

theorem backoff:
  "unat (cn_delay ((failed_attempt ^^ n) (established c))) = min (200 * 2 ^ n) 60000 \<and>
   cn_retry ((failed_attempt ^^ n) (established c)) = of_nat n"
proof (induction n)
  case 0
  then show ?case by (simp add: established_def retry_delay_def)
next
  case (Suc n)
  let ?c = "(failed_attempt ^^ n) (established c)"
  have "unat (cn_delay ?c) \<le> 60000" using Suc by linarith
  then have double: "unat (2 * cn_delay ?c) = 2 * unat (cn_delay ?c)" by (simp add: unat_mult_no_wrap)
  have "unat (min (2 * cn_delay ?c) 60000) = min (2 * unat (cn_delay ?c)) 60000"
    using double by (simp add: min_def word_le_nat_alt)
  also have "\<dots> = min (200 * 2 ^ Suc n) 60000" using Suc by simp
  finally show ?case using Suc by (simp add: failed_attempt_fields)
qed

section \<open>A dropped handler cancels its message\<close>

definition withheld :: "nat \<Rightarrow> link \<Rightarrow> bool" where
  "withheld h s \<longleftrightarrow> h \<in> lk_closed s \<and> h \<notin> snd ` set (lk_written s) \<and> h \<notin> snd ` set (in_writing (lk_conn s))"

lemma withheld_step: "link_step disp s t \<Longrightarrow> withheld h s \<Longrightarrow> withheld h t"
proof (erule link_step.cases, goal_cases)
  case 7
  then show ?case by (auto simp: withheld_def next_message_def in_writing_def split: list.splits)
qed (auto simp: withheld_def connection_defs in_writing_def split: list.splits option.splits if_splits)

text \<open>
  a message whose cancel handler the caller drops before the connection task has begun to
  write it is never transmitted, whatever happens on the link.
\<close>

theorem dropped_handler_never_written:
  assumes "h \<in> lk_closed s" and "h \<notin> snd ` set (lk_written s)" and "\<forall>d. cn_phase (lk_conn s) \<noteq> Writing (d, h)"
    and "(link_step disp)\<^sup>*\<^sup>* s t"
  shows "h \<notin> snd ` set (lk_written t)"
proof -
  have "snd x \<noteq> h" if "cn_phase (lk_conn s) = Writing x" for x using assms(3) that by (metis prod.collapse)
  then have "withheld h s" using assms(1, 2) by (cases "cn_phase (lk_conn s)") (auto simp: withheld_def in_writing_def)
  with assms(4) have "withheld h t" by (induction rule: rtranclp_induct) (simp_all add: withheld_step)
  then show ?thesis by (simp add: withheld_def)
qed


text \<open>A message sent and its handler dropped at once, as a caller does that ignores the result.\<close>

definition dropped_link :: link where
  "dropped_link = (link_new sample_address)\<lparr>lk_conn := (spawn_connection sample_address)\<lparr>cn_channel := [([1], 0)]\<rparr>,
     lk_sent := [([1], 0)], lk_closed := {0}\<rparr>"

theorem dropped_handler_never_written_witness:
  "0 \<notin> snd ` set (lk_written (dropped_link\<lparr>lk_conn := established (lk_conn dropped_link), lk_wire := new_wire,
     lk_old := lk_wire dropped_link # lk_old dropped_link\<rparr>))"
proof (rule dropped_handler_never_written)
  show "(link_step (\<lambda>_. ([], True)))\<^sup>*\<^sup>* dropped_link (dropped_link\<lparr>lk_conn := established (lk_conn dropped_link), lk_wire := new_wire,
      lk_old := lk_wire dropped_link # lk_old dropped_link\<rparr>)"
    by (intro r_into_rtranclp step_connected) (simp add: dropped_link_def spawn_connection_def)
qed (simp_all add: dropped_link_def link_new_def spawn_connection_def)

section \<open>A peer that stops reading\<close>

lemma stalled_step:
  assumes "link_step disp s t" and "cn_phase (lk_conn s) = Writing x" and "cn_phase (lk_conn t) = Writing x"
  shows "\<exists>xs. cn_channel (lk_conn t) = cn_channel (lk_conn s) @ xs"
  using assms(1)
proof cases
  case (step_send d h c)
  then show ?thesis by (auto simp: enqueue_def split: if_splits)
qed (use assms(2, 3) in \<open>auto simp: written_def write_failed_def leave_keep_alive_def\<close>)

lemma stalled_run:
  assumes "(\<lambda>s t. link_step disp s t \<and> cn_phase (lk_conn t) = Writing x)\<^sup>*\<^sup>* s t" and "cn_phase (lk_conn s) = Writing x"
  shows "cn_phase (lk_conn t) = Writing x \<and> length (cn_channel (lk_conn s)) \<le> length (cn_channel (lk_conn t))"
  using assms
proof (induction rule: rtranclp_induct)
  case (step t u)
  then show ?case using stalled_step [of disp t u x] by auto
qed simp

lemma full_broadcast:
  assumes "rs_connections r a = Some c" and "channel_capacity \<le> length (cn_channel c)" and "a \<in> set as"
  shows "reliable_broadcast as d r = None"
  using assms
proof (induction as arbitrary: r)
  case (Cons b as)
  show ?case
  proof (cases "b = a")
    case True
    then show ?thesis using Cons.prems by (simp add: reliable_send_def enqueue_def)
  next
    case False
    show ?thesis
    proof (cases "reliable_send b d r")
      case (Some x)
      then have "rs_connections (fst x) a = Some c" using False Cons.prems(1) by (auto simp: reliable_send_def Let_def)
      then have "reliable_broadcast as d (fst x) = None" using Cons.IH Cons.prems False by simp
      then show ?thesis using Some by (cases x) simp
    qed simp
  qed
qed simp

text \<open>
  one peer can stop a node. While a write to it does not complete, the task of its connection
  takes nothing from its channel, however long that lasts; so once 1000 messages wait there, every
  broadcast that includes this peer waits for it too, and the messages after it in the list of
  addresses are not sent either. The task drains the channel into its buffer only while it is
  not connected.
\<close>

theorem stalled_peer_blocks_broadcast:
  assumes "cn_phase (lk_conn s) = Writing x" and "length (cn_channel (lk_conn s)) = channel_capacity"
    and "(\<lambda>s t. link_step disp s t \<and> cn_phase (lk_conn t) = Writing x)\<^sup>*\<^sup>* s t"
    and "rs_connections r a = Some (lk_conn t)" and "a \<in> set as"
  shows "reliable_broadcast as d r = None"
  using full_broadcast [OF assms(4) _ assms(5)] stalled_run [OF assms(3, 1)] assms(2) by simp

definition stalled_link :: link where
  "stalled_link = (link_new sample_address)\<lparr>lk_conn := (spawn_connection sample_address)\<lparr>cn_phase := Writing ([1], 0),
     cn_channel := replicate 1000 ([2], 1)\<rparr>\<rparr>"

theorem stalled_peer_blocks_broadcast_witness:
  "reliable_broadcast [sample_address, SocketAddr [9] 1] [3]
     \<lparr>rs_connections = [sample_address \<mapsto> lk_conn (stalled_link\<lparr>lk_wire := runner_stops (lk_wire stalled_link)\<rparr>)], rs_next = 2\<rparr> = None"
proof (rule stalled_peer_blocks_broadcast [where s = stalled_link and x = "([1], 0)" and disp = "\<lambda>_. ([], True)" and a = sample_address])
  let ?t = "stalled_link\<lparr>lk_wire := runner_stops (lk_wire stalled_link)\<rparr>"
  have "link_step (\<lambda>_. ([], True)) stalled_link ?t" by (rule step_runner_stops)
  then show "(\<lambda>s t. link_step (\<lambda>_. ([], True)) s t \<and> cn_phase (lk_conn t) = Writing ([1], 0))\<^sup>*\<^sup>* stalled_link ?t"
    by (intro r_into_rtranclp) (simp add: stalled_link_def)
qed (simp_all add: stalled_link_def channel_capacity_def)

section \<open>The best-effort sender sends at most once\<close>

text \<open>A node that sends to one address, while the connection tasks for it run; \<open>out\<close> is what they wrote.\<close>

fun simple_act :: "socket_addr \<Rightarrow> bytes + simple_event \<Rightarrow> (socket_addr \<rightharpoonup> simple_connection) \<times> bytes list
    \<Rightarrow> (socket_addr \<rightharpoonup> simple_connection) \<times> bytes list" where
  "simple_act a (Inl d) (conns, out) = (case simple_send a d conns of None \<Rightarrow> (conns, out) | Some conns' \<Rightarrow> (conns', out))"
| "simple_act a (Inr ev) (conns, out) = (case conns a of None \<Rightarrow> (conns, out)
     | Some c \<Rightarrow> (let c' = simple_connection_step ev c in
         (conns(a \<mapsto> c'), out @ drop (length (sc_written c)) (sc_written c'))))"

definition waiting_at :: "socket_addr \<Rightarrow> (socket_addr \<rightharpoonup> simple_connection) \<Rightarrow> bytes list" where
  "waiting_at a conns = (case conns a of None \<Rightarrow> [] | Some c \<Rightarrow> if sc_ended c then [] else sc_channel c)"

fun sends :: "(bytes + simple_event) list \<Rightarrow> bytes list" where
  "sends [] = []"
| "sends (Inl d # evs) = d # sends evs"
| "sends (Inr ev # evs) = sends evs"

lemma sends_append [simp]: "sends (xs @ ys) = sends xs @ sends ys"
  by (induction xs rule: sends.induct) simp_all

lemma simple_step_subseq:
  "subseq (drop (length (sc_written c)) (sc_written (simple_connection_step ev c)) @
     (if sc_ended (simple_connection_step ev c) then [] else sc_channel (simple_connection_step ev c)))
     (if sc_ended c then [] else sc_channel c)"
  by (cases "(ev, c)" rule: simple_connection_step.cases)
    (auto simp: end_simple_def split: list.split option.split)

lemma simple_act_subseq:
  assumes "subseq (out @ waiting_at a conns) sent" and "simple_act a x (conns, out) = (conns', out')"
  shows "subseq (out' @ waiting_at a conns') (sent @ sends [x])"
proof (cases x)
  case (Inl d)
  let ?w = "waiting_at a conns"
  have all: "subseq (out @ ?w @ [d]) (sent @ [d])" using list_emb_append_mono [OF assms(1), of "[d]" "[d]"] by simp
  have "subseq out sent" using assms(1) list_emb_prefix [OF subseq_order.refl, of out ?w] by (rule subseq_order.trans [rotated])
  then have fresh: "subseq (out @ [d]) (sent @ [d])" using list_emb_append_mono [of _ out sent "[d]" "[d]"] by simp
  have full: "subseq (out @ ?w) (sent @ [d])" by (rule list_emb_prefix [OF assms(1)])
  show ?thesis
  proof (cases "conns a")
    case None
    then show ?thesis using assms(2) Inl fresh by (auto simp: simple_send_def waiting_at_def spawn_simple_def)
  next
    case (Some c)
    then show ?thesis using assms(2) Inl fresh all full
      by (cases "sc_ended c"; cases "length (sc_channel c) < channel_capacity")
        (auto simp: simple_send_def waiting_at_def spawn_simple_def)
  qed
next
  case (Inr ev)
  show ?thesis
  proof (cases "conns a")
    case None
    then show ?thesis using assms Inr by simp
  next
    case (Some c)
    then have "out' = out @ drop (length (sc_written c)) (sc_written (simple_connection_step ev c))"
      "conns' = conns(a \<mapsto> simple_connection_step ev c)"
      using assms(2) Inr by (simp_all add: Let_def)
    then have "subseq (out' @ waiting_at a conns') (out @ waiting_at a conns)"
      using list_emb_append_mono [OF subseq_order.refl simple_step_subseq [of c ev], of out] Some
      by (simp only: waiting_at_def fun_upd_same option.case append_assoc)
    then show ?thesis using assms(1) Inr subseq_order.trans by simp
  qed
qed

text \<open>
  the best-effort sender writes every message to the peer at most once and in the order of
  the calls, also across connections that fail and are replaced: what was written is a
  subsequence of what was sent.
\<close>

theorem best_effort_at_most_once:
  "subseq (snd (fold (simple_act a) evs (\<lambda>_. None, []))) (sends evs)"
proof -
  have "subseq (snd st @ waiting_at a (fst st)) (sends evs)" if "st = fold (simple_act a) evs (\<lambda>_. None, [])" for st
    using that
  proof (induction evs arbitrary: st rule: rev_induct)
    case Nil
    then show ?case by (simp add: waiting_at_def)
  next
    case (snoc x evs)
    obtain conns out where s: "fold (simple_act a) evs (\<lambda>_. None, []) = (conns, out)" by fastforce
    then have "subseq (out @ waiting_at a conns) (sends evs)" using snoc.IH by simp
    moreover have "simple_act a x (conns, out) = (fst st, snd st)" using snoc.prems s by simp
    ultimately show ?case using simple_act_subseq by simp
  qed
  then show ?thesis using list_emb_prefix [OF subseq_order.refl] subseq_order.trans by blast
qed

end
