(* ===== verification/Handlers.thy ===== *)
theory Handlers
  imports Worker_Sync Network
begin

text \<open>
  The five message handlers with which primaries and workers receive from the network
  (\<open>primary/src/primary.rs\<close>, \<open>worker/src/worker.rs\<close>), each with the replies it writes, what it
  hands on to a task, and whether it returns \<open>Ok\<close>. \<open>de\<close> stands for \<open>bincode::deserialize\<close>.
  The contracts of \<open>Network\<close> are interpreted here: primaries among each other and workers among
  each other acknowledge every message; what a primary and its own workers send to each other is
  never acknowledged, although the primary uses the reliable sender.
\<close>

definition ack_bytes :: bytes where
  "ack_bytes = [65, 99, 107]"

text \<open>What the runner of a connection sees of a handler.\<close>

definition seen_by_runner :: "(bytes \<Rightarrow> bytes list \<times> 'a option \<times> bool) \<Rightarrow> dispatch" where
  "seen_by_runner handler m = (case handler m of (replies, _, ok) \<Rightarrow> (replies, ok))"

definition primary_receiver :: "(bytes \<Rightarrow> primary_message option) \<Rightarrow> bytes \<Rightarrow> bytes list \<times> inbox option \<times> bool" where
  "primary_receiver de serialized = (case de serialized of
     None \<Rightarrow> ([ack_bytes], None, False)
   | Some m \<Rightarrow> ([ack_bytes], Some (primary_dispatch m), True))"

definition primary_worker_receiver :: "(bytes \<Rightarrow> worker_primary_message option) \<Rightarrow> bytes \<Rightarrow> bytes list \<times> worker_inbox option \<times> bool" where
  "primary_worker_receiver de serialized = (case de serialized of
     None \<Rightarrow> ([], None, False)
   | Some m \<Rightarrow> ([], Some (worker_dispatch m), True))"

definition tx_receiver :: "128 word \<Rightarrow> bytes \<Rightarrow> bytes list \<times> transaction option \<times> bool" where
  "tx_receiver now m = ([], Some (transaction_of now m), True)"

definition worker_receiver :: "'p wcodec_scheme \<Rightarrow> bytes \<Rightarrow> bytes list \<times> worker_task option \<times> bool" where
  "worker_receiver P serialized = ([ack_bytes], receive_worker P serialized, True)"

definition worker_primary_receiver :: "(bytes \<Rightarrow> primary_worker_message option) \<Rightarrow> bytes \<Rightarrow> bytes list \<times> primary_worker_message option \<times> bool" where
  "worker_primary_receiver de serialized = ([], de serialized, True)"

interpretation primary_link: acking "seen_by_runner (primary_receiver de)" ack_bytes for de
  by unfold_locales (simp add: seen_by_runner_def primary_receiver_def split: option.split)

interpretation worker_link: acking "seen_by_runner (worker_receiver P)" ack_bytes for P
  by unfold_locales (simp add: seen_by_runner_def worker_receiver_def)

interpretation command_link: silent "seen_by_runner (worker_primary_receiver de)" for de
  by unfold_locales (simp add: seen_by_runner_def worker_primary_receiver_def)

interpretation digest_link: silent "seen_by_runner (primary_worker_receiver de)" for de
  by unfold_locales (simp add: seen_by_runner_def primary_worker_receiver_def split: option.split)

interpretation client_link: silent "seen_by_runner (tx_receiver now)" for now
  by unfold_locales (simp add: seen_by_runner_def tx_receiver_def)

section \<open>Between primaries\<close>

text \<open>
  C31: the reliable sender between two primaries loses nothing and reports no false success. In
  every reachable state of a link, whatever connections failed and however late abandoned ones
  were still read, the messages that are neither acknowledged nor cancelled are exactly those
  the connection task still holds, in the order they were sent, and a cancel handler has only
  been told of success for a message that the handler of the peer has received.
\<close>

theorem reliable_no_loss:
  assumes "link_reachable (seen_by_runner (primary_receiver de)) a s"
  shows "filter (live s) (lk_sent s) = filter (live s) (queue (lk_conn s)) \<and>
    fst ` set (lk_answers s) \<subseteq> snd ` set (lk_got s)"
  using primary_link.uncancelled_kept [OF assms] primary_link.answered_arrived [OF assms] by simp

text \<open>One message is sent, and the connection is established.\<close>

definition one_sent :: link where
  "one_sent = (link_new sample_address)\<lparr>lk_conn := established ((spawn_connection sample_address)\<lparr>cn_channel := [([7], 0)]\<rparr>),
     lk_old := [new_wire], lk_sent := [([7], 0)]\<rparr>"

lemma one_sent_reachable: "link_reachable disp sample_address one_sent"
proof -
  let ?s = "(link_new sample_address)\<lparr>lk_conn := (spawn_connection sample_address)\<lparr>cn_channel := [([7], 0)]\<rparr>, lk_sent := [([7], 0)]\<rparr>"
  have "link_step disp (link_new sample_address) ((link_new sample_address)
      \<lparr>lk_conn := (spawn_connection sample_address)\<lparr>cn_channel := [([7], 0)]\<rparr>, lk_sent := lk_sent (link_new sample_address) @ [([7], 0)]\<rparr>)"
    by (rule step_send) (simp_all add: link_new_def enqueue_def channel_capacity_def spawn_connection_def)
  then have "link_step disp (link_new sample_address) ?s" by (simp add: link_new_def)
  moreover have "link_step disp ?s one_sent"
    using step_connected [of ?s disp] by (simp add: one_sent_def link_new_def spawn_connection_def)
  ultimately show ?thesis by (blast intro: link_start link_next)
qed

theorem reliable_no_loss_witness:
  "filter (live one_sent) [([7], 0)] = filter (live one_sent) (queue (lk_conn one_sent))"
  using reliable_no_loss [where de = "\<lambda>_. None", OF one_sent_reachable] by (simp add: one_sent_def)

text \<open>
  C32: messages between two primaries arrive in the order they were sent: when a message has
  reached the handler of the peer, so has every message sent before it to that peer, unless it
  was cancelled. Retransmissions can repeat messages but never overtake.
\<close>

theorem reliable_in_order:
  assumes "link_reachable (seen_by_runner (primary_receiver de)) a s"
    and "before (lk_sent s) x y" and "y \<in> set (lk_got s)"
  shows "x \<in> set (lk_got s) \<or> snd x \<in> lk_closed s"
  using primary_link.arrives_in_order [OF assms] .

definition two_sent :: link where
  "two_sent = one_sent\<lparr>lk_conn := (lk_conn one_sent)\<lparr>cn_channel := [([7], 0), ([8], 1)]\<rparr>, lk_sent := [([7], 0), ([8], 1)]\<rparr>"

lemma two_sent_reachable: "link_reachable disp sample_address two_sent"
proof -
  have "link_step disp one_sent (one_sent\<lparr>lk_conn := (lk_conn one_sent)\<lparr>cn_channel := [([7], 0), ([8], 1)]\<rparr>,
      lk_sent := lk_sent one_sent @ [([8], 1)]\<rparr>)"
    by (rule step_send)
      (simp_all add: one_sent_def link_new_def enqueue_def channel_capacity_def spawn_connection_def established_def)
  then have "link_step disp one_sent two_sent" by (simp add: two_sent_def one_sent_def)
  then show ?thesis by (rule link_next [OF one_sent_reachable])
qed

theorem reliable_in_order_witness:
  "\<exists>s :: link. ([8], 1) \<in> set (lk_got s) \<and> ([7], 0) \<in> set (lk_got s)"
proof -
  let ?de = "\<lambda>_. Some (HeadersRequest [] (PublicKey 1))"
  have "snd (seen_by_runner (primary_receiver ?de) (fst x))" for x :: parcel
    by (simp add: seen_by_runner_def primary_receiver_def)
  then obtain t where t: "(works (seen_by_runner (primary_receiver ?de)))\<^sup>*\<^sup>* two_sent t"
      "\<forall>x \<in> set (lk_sent two_sent). snd x \<in> lk_closed two_sent \<or> snd x \<in> fst ` set (lk_answers t)"
    using primary_link.can_deliver_all [of two_sent ?de sample_address, OF _ two_sent_reachable] by blast
  have reach: "link_reachable (seen_by_runner (primary_receiver ?de)) sample_address t"
    and sent: "lk_sent t = [([7], 0), ([8], 1)]" "lk_closed t = {}"
    using works_run [OF t(1), of sample_address] two_sent_reachable by (simp_all add: two_sent_def one_sent_def link_new_def)
  have "(1 :: nat) \<in> fst ` set (lk_answers t)" using t(2) by (simp add: two_sent_def one_sent_def link_new_def)
  then have "1 \<in> snd ` set (lk_got t)" using primary_link.answered_arrived [OF reach] by blast
  then obtain y where y: "y \<in> set (lk_got t)" "snd y = 1" by auto
  then have "y \<in> set (lk_sent t)" using primary_link.reachable_ok [OF reach] ordered_flows(5) by blast
  then have got: "([8], 1) \<in> set (lk_got t)" using y sent by auto
  have "before (lk_sent t) ([7], 0) ([8], 1)"
    unfolding before_def sent by (intro exI [of _ "[]"]) simp
  then have "([7], 0) \<in> set (lk_got t)" using reliable_in_order [OF reach _ got] sent(2) by simp
  with got show ?thesis by blast
qed



section \<open>From a primary to its workers\<close>

text \<open>
  the messages a primary sends to its workers are never acknowledged, because the handler of
  the worker writes no reply. So in every reachable state no cancel handler has been told of
  anything, and the connection task still holds every message ever sent that was not
  cancelled; after each lost connection it transmits all of them again.
\<close>

theorem worker_commands_pile_up:
  assumes "link_reachable (seen_by_runner (worker_primary_receiver de)) a s"
  shows "lk_answers s = [] \<and> {x \<in> set (lk_sent s). snd x \<notin> lk_closed s} \<subseteq> set (queue (lk_conn s))"
  using command_link.never_answered [OF assms] command_link.kept_for_ever [OF assms] by auto

theorem worker_commands_pile_up_witness:
  "([7], 0) \<in> set (queue (lk_conn one_sent)) \<and> lk_answers one_sent = []"
  using worker_commands_pile_up [where de = "\<lambda>_. None", OF one_sent_reachable] by (auto simp: one_sent_def link_new_def)

end
