(* ===== verification/Global_State.thy ===== *)
theory Global_State
  imports Core_Reports
begin

text \<open>
  The global state a node writes for an epoch once its aggregate report is certified
  (\<open>primary/src/core.rs\<close>, \<open>extract_and_write_global_state\<close> with \<open>extract_reward\<close>,
  \<open>extract_fast_path_ratio\<close> and \<open>median\<close>), and the experiment that falsifies a node's own
  report (\<open>pollute_state_json\<close>).

  A finite \<open>f64\<close> is the rational it denotes; \<open>rnd\<close> is IEEE rounding of an exact result, \<open>None\<close>
  when that is not finite. Numbers in a parsed JSON text are always finite. A \<open>BTreeMap\<close> from
  lane names is an association list, without the order of its keys. Random draws are arguments.
  The value of \<open>global_state_of\<close> is what the code serializes into the file.
\<close>

section \<open>Numbers\<close>

type_synonym rounding = "rat \<Rightarrow> rat option"

fun as_f64 :: "rounding \<Rightarrow> json \<Rightarrow> rat option" where
  "as_f64 rnd (JU64 n) = rnd (of_nat (unat n))"
| "as_f64 rnd (JNegative i) = rnd (of_int i)"
| "as_f64 rnd (JFloat q) = Some q"
| "as_f64 rnd _ = None"

definition get_f64 :: "rounding \<Rightarrow> string \<Rightarrow> json \<Rightarrow> rat option" where
  "get_f64 rnd k j = Option.bind (json_get k j) (as_f64 rnd)"

text \<open>\<open>json!\<close> of a number that is not finite is \<open>null\<close>.\<close>

definition json_f64 :: "rat option \<Rightarrow> json" where
  "json_f64 x = (case x of None \<Rightarrow> JNull | Some q \<Rightarrow> JFloat q)"

definition sum_f64 :: "rounding \<Rightarrow> rat list \<Rightarrow> rat option" where
  "sum_f64 rnd xs = foldl (\<lambda>acc x. Option.bind acc (\<lambda>a. rnd (a + x))) (Some 0) xs"

definition mean_f64 :: "rounding \<Rightarrow> rat list \<Rightarrow> rat option" where
  "mean_f64 rnd xs = Option.bind (sum_f64 rnd xs) (\<lambda>t. rnd (t / of_nat (length xs)))"

section \<open>Reading a report\<close>

text \<open>The outer option of a reward: there is none; the inner one: it is not finite.\<close>

definition latency_of :: "rounding \<Rightarrow> json \<Rightarrow> rat option" where
  "latency_of rnd j = Option.bind (json_get ''end_to_end_metrics'' j) (get_f64 rnd ''end_to_end_latency_ms'')"

definition extract_reward :: "rounding \<Rightarrow> json \<Rightarrow> rat option option" where
  "extract_reward rnd j = (case get_f64 rnd ''reward'' j of
     Some v \<Rightarrow> Some (Some v)
   | None \<Rightarrow> map_option (\<lambda>latency. if latency = 0 then Some 0
       else Option.bind (rnd (latency + 1)) (\<lambda>d. if d = 0 then None else rnd (1000 / d))) (latency_of rnd j))"

definition extract_fast_path_ratio :: "rounding \<Rightarrow> json \<Rightarrow> rat option" where
  "extract_fast_path_ratio rnd j = get_f64 rnd ''state_5_fast_path_ratio'' j"

definition growth_rates :: "rounding \<Rightarrow> json \<Rightarrow> (string \<times> rat) list" where
  "growth_rates rnd j = (case Option.bind (json_get ''state_4_lane_vector'' j) (json_get ''growth_rates'') of
     Some (JObject kvs) \<Rightarrow> List.map_filter (\<lambda>(lane, v). map_option (Pair lane) (as_f64 rnd v)) kvs
   | _ \<Rightarrow> [])"

definition median :: "rat list \<Rightarrow> rat option" where
  "median values = (if values = [] then None
     else let ys = sort values; mid = length ys div 2
          in Some (if even (length ys) then ys ! (mid - 1) else ys ! mid))"

text \<open>Two further estimators, which no caller uses yet.\<close>

definition median_fast_path_ratio :: "(u8 list \<Rightarrow> json option) \<Rightarrow> rounding \<Rightarrow> state_report list \<Rightarrow> rat option" where
  "median_fast_path_ratio parse rnd reports =
     median (List.map_filter (extract_fast_path_ratio rnd) (List.map_filter (\<lambda>r. parse (sr_state r)) reports))"

definition f_trimmed_mean :: "rounding \<Rightarrow> rat list \<Rightarrow> nat \<Rightarrow> rat option option" where
  "f_trimmed_mean rnd samples f = (if samples = [] then None
     else let ys = sort samples; cut = (if length ys > 2 * f then f else 0); trimmed = take (length ys - 2 * cut) (drop cut ys)
          in if trimmed = [] then None else Some (mean_f64 rnd trimmed))"

section \<open>Combining reports\<close>

record lane_stats =
  ls_max :: "(string \<times> rat) list"
  ls_sum :: "(string \<times> rat option) list"
  ls_count :: "(string \<times> nat) list"

definition add_rate :: "rounding \<Rightarrow> string \<times> rat \<Rightarrow> lane_stats \<Rightarrow> lane_stats" where
  "add_rate rnd x st = (case x of (lane, rate) \<Rightarrow> \<lparr>
     ls_max = (case map_of (ls_max st) lane of
         None \<Rightarrow> hm_insert lane rate (ls_max st)
       | Some old \<Rightarrow> if rate > old then hm_insert lane rate (ls_max st) else ls_max st),
     ls_sum = hm_insert lane
       (Option.bind (case map_of (ls_sum st) lane of None \<Rightarrow> Some 0 | Some acc \<Rightarrow> acc) (\<lambda>acc. rnd (acc + rate))) (ls_sum st),
     ls_count = hm_insert lane (Suc (case map_of (ls_count st) lane of None \<Rightarrow> 0 | Some n \<Rightarrow> n)) (ls_count st)\<rparr>)"

record global_state =
  gs_epoch :: u64
  gs_digest :: digest
  gs_reports :: nat
  gs_f :: nat
  gs_reward_samples :: "rat list"
  gs_reward :: "rat option"
  gs_fast_path_ratio :: "rat option option"
  gs_lanes :: "(string \<times> rat option) list"

definition parsed_states :: "'p env_scheme \<Rightarrow> aggregate_report \<Rightarrow> json list" where
  "parsed_states E report = List.map_filter (\<lambda>r. e_parse_json E (sr_state r)) (ar_reports report)"

definition reward_samples :: "rounding \<Rightarrow> json list \<Rightarrow> rat list" where
  "reward_samples rnd js = List.map_filter (\<lambda>j. Option.bind (extract_reward rnd j) id) js"

definition global_state_of :: "'p env_scheme \<Rightarrow> rounding \<Rightarrow> u64 \<Rightarrow> aggregate_report \<Rightarrow> nat \<Rightarrow> aggregation_strategy \<Rightarrow> global_state" where
  "global_state_of E rnd epoch report n_members strategy =
     (let js = parsed_states E report;
          rewards = reward_samples rnd js;
          ratios = List.map_filter (extract_fast_path_ratio rnd) js;
          lanes = fold (add_rate rnd) (concat (map (growth_rates rnd) js)) \<lparr>ls_max = [], ls_sum = [], ls_count = []\<rparr>
      in \<lparr>gs_epoch = epoch, gs_digest = aggregate_digest E report, gs_reports = length (ar_reports report),
          gs_f = (n_members - 1) div 3,
          gs_reward_samples = (case strategy of Mean \<Rightarrow> rewards | Normal \<Rightarrow> sort rewards),
          gs_reward = (case strategy of
              Mean \<Rightarrow> if rewards = [] then Some 0 else mean_f64 rnd rewards
            | Normal \<Rightarrow> Some (case median rewards of None \<Rightarrow> 0 | Some m \<Rightarrow> m)),
          gs_fast_path_ratio = (case strategy of
              Mean \<Rightarrow> if ratios = [] then None else Some (mean_f64 rnd ratios)
            | Normal \<Rightarrow> map_option Some (median ratios)),
          gs_lanes = (case strategy of
              Mean \<Rightarrow> map (\<lambda>(lane, acc). (lane, Option.bind acc (\<lambda>t.
                  rnd (t / of_nat (max (case map_of (ls_count lanes) lane of None \<Rightarrow> 1 | Some n \<Rightarrow> n) 1))))) (ls_sum lanes)
            | Normal \<Rightarrow> map (map_prod id Some) (ls_max lanes))\<rparr>)"

section \<open>Falsified reports\<close>

text \<open>
  Assignment through \<open>root[k]\<close>: \<open>null\<close> becomes an object, anything else but an object panics.
  \<open>alter\<close> is \<open>get_mut\<close> followed by an assignment, which leaves a missing entry alone.
\<close>

fun json_put :: "string \<Rightarrow> json \<Rightarrow> json \<Rightarrow> json option" where
  "json_put k v (JObject kvs) = Some (JObject (hm_insert k v kvs))"
| "json_put k v JNull = Some (JObject [(k, v)])"
| "json_put k v _ = None"

definition alter :: "string \<Rightarrow> (json \<Rightarrow> json) \<Rightarrow> json \<Rightarrow> json" where
  "alter k f j = (case j of JObject kvs \<Rightarrow> (case map_of kvs k of None \<Rightarrow> j | Some v \<Rightarrow> JObject (hm_insert k (f v) kvs)) | _ \<Rightarrow> j)"

fun scale_rates :: "rounding \<Rightarrow> (nat \<Rightarrow> rat) \<Rightarrow> nat \<Rightarrow> (string \<times> json) list \<Rightarrow> (string \<times> json) list" where
  "scale_rates rnd factor n [] = []"
| "scale_rates rnd factor n ((lane, v) # kvs) = (case as_f64 rnd v of
     None \<Rightarrow> (lane, v) # scale_rates rnd factor n kvs
   | Some rate \<Rightarrow> (lane, json_f64 (rnd (rate * factor n))) # scale_rates rnd factor (Suc n) kvs)"

definition pollute_rates :: "rounding \<Rightarrow> (nat \<Rightarrow> rat) \<Rightarrow> json \<Rightarrow> json" where
  "pollute_rates rnd factor = alter ''state_4_lane_vector'' (alter ''growth_rates''
     (\<lambda>v. case v of JObject kvs \<Rightarrow> JObject (scale_rates rnd factor 0 kvs) | _ \<Rightarrow> v))"

definition pollute_ratio :: "rounding \<Rightarrow> rat \<Rightarrow> json \<Rightarrow> json" where
  "pollute_ratio rnd ratio j = (if extract_fast_path_ratio rnd j = None then j
     else alter ''state_5_fast_path_ratio'' (\<lambda>_. JFloat ratio) j)"

definition set_latency :: "json \<Rightarrow> json \<Rightarrow> json" where
  "set_latency v = alter ''end_to_end_metrics'' (alter ''end_to_end_latency_ms'' (\<lambda>_. v))"

definition pollute_random_scale :: "rounding \<Rightarrow> (nat \<Rightarrow> rat) \<Rightarrow> rat \<Rightarrow> rat \<Rightarrow> json \<Rightarrow> json" where
  "pollute_random_scale rnd factor ratio latency_factor jv =
     (let jv = pollute_ratio rnd ratio (pollute_rates rnd factor jv)
      in case latency_of rnd jv of None \<Rightarrow> jv
       | Some latency \<Rightarrow> set_latency (json_f64 (rnd (latency * latency_factor))) jv)"

definition mean_equalizing_reward :: "rounding \<Rightarrow> rat \<Rightarrow> json \<Rightarrow> rat option" where
  "mean_equalizing_reward rnd target jv =
     (let observed = (case Option.bind (extract_reward rnd jv) id of None \<Rightarrow> 0 | Some r \<Rightarrow> r)
      in Option.bind (rnd (max target 0 * 4)) (\<lambda>a. case rnd (observed * 3) of
           None \<Rightarrow> if observed > 0 then Some 0 else None
         | Some b \<Rightarrow> (case rnd (a - b) of None \<Rightarrow> if a < b then Some 0 else None | Some d \<Rightarrow> Some (max d 0))))"

definition pollute_mean_equalize :: "rounding \<Rightarrow> rat \<Rightarrow> (nat \<Rightarrow> rat) \<Rightarrow> rat \<Rightarrow> json \<Rightarrow> json option" where
  "pollute_mean_equalize rnd target factor ratio jv =
     (let reward = mean_equalizing_reward rnd target jv;
          jv = pollute_ratio rnd ratio (pollute_rates rnd factor jv)
      in map_option (\<lambda>jv.
           if latency_of rnd jv = None then jv
           else set_latency (json_f64 (case reward of None \<Rightarrow> Some 0
               | Some r \<Rightarrow> if r = 0 then None
                   else Option.bind (rnd (1000 / r)) (\<lambda>x. map_option (\<lambda>y. max y 0) (rnd (x - 1))))) jv)
         (json_put ''reward'' (json_f64 reward) jv))"

definition pollute_state_json :: "(u8 list \<Rightarrow> json option) \<Rightarrow> (json \<Rightarrow> u8 list) \<Rightarrow> (json \<Rightarrow> json option) \<Rightarrow> u8 list \<Rightarrow> u8 list option" where
  "pollute_state_json parse print pollute state = (case parse state of
     None \<Rightarrow> Some state | Some jv \<Rightarrow> map_option print (pollute jv))"

section \<open>The median is robust\<close>

lemma length_map_filter_le: "length (List.map_filter f xs) \<le> length xs"
  by (induction xs) (auto simp: map_filter_simps split: option.split)

text \<open>In a sorted list, the elements from a position on, or up to it, are too many to be all bad.\<close>

lemma some_good:
  assumes "length (filter (\<lambda>x. \<not> good x) xs) < length ys" and "mset ys \<subseteq># mset xs"
  shows "\<exists>x \<in> set ys. good x"
proof (rule ccontr)
  assume "\<not> ?thesis"
  then have "filter (\<lambda>x. \<not> good x) ys = ys" by (simp add: filter_id_conv)
  then have "mset ys = filter_mset (\<lambda>x. \<not> good x) (mset ys)" by (metis mset_filter)
  also have "\<dots> \<subseteq># filter_mset (\<lambda>x. \<not> good x) (mset xs)" using assms(2) by (rule multiset_filter_mono)
  also have "\<dots> = mset (filter (\<lambda>x. \<not> good x) xs)" by simp
  finally have "length ys \<le> length (filter (\<lambda>x. \<not> good x) xs)" by (metis size_mset size_mset_mono)
  then show False using assms(1) by simp
qed

lemma position_between:
  fixes xs :: "rat list"
  assumes "i < length xs" and "length (filter (\<lambda>x. \<not> good x) xs) \<le> i" and "length (filter (\<lambda>x. \<not> good x) xs) < length xs - i"
  shows "\<exists>a \<in> set xs. \<exists>b \<in> set xs. good a \<and> good b \<and> a \<le> sort xs ! i \<and> sort xs ! i \<le> b"
proof -
  let ?ys = "sort xs"
  have part: "mset (take (Suc i) ?ys) \<subseteq># mset xs" "mset (drop i ?ys) \<subseteq># mset xs"
    by (metis append_take_drop_id mset_append mset_sort mset_subset_eq_add_left mset_subset_eq_add_right)+
  have "length (take (Suc i) ?ys) = Suc i" "length (drop i ?ys) = length xs - i" using assms(1) by simp_all
  then obtain a b where a: "a \<in> set (take (Suc i) ?ys)" "good a" and b: "b \<in> set (drop i ?ys)" "good b"
    using some_good [OF _ part(1)] some_good [OF _ part(2)] assms(2, 3) by (metis le_imp_less_Suc)
  obtain j where "j \<le> i" "a = ?ys ! j" using a(1) assms(1) by (auto simp: in_set_conv_nth less_Suc_eq_le)
  then have "a \<le> ?ys ! i" using assms(1) by (simp add: sorted_nth_mono)
  obtain k where "k < length xs - i" "b = ?ys ! (i + k)" using b(1) by (auto simp: in_set_conv_nth)
  then have "?ys ! i \<le> b" by (simp add: sorted_nth_mono)
  moreover have "a \<in> set xs" using in_set_takeD [OF a(1)] by simp
  moreover have "b \<in> set xs" using in_set_dropD [OF b(1)] by simp
  ultimately show ?thesis using \<open>a \<le> ?ys ! i\<close> a(2) b(2) by blast
qed

lemma median_between:
  fixes xs :: "rat list"
  assumes "2 * length (filter (\<lambda>x. \<not> good x) xs) < length xs"
  obtains m a b where "median xs = Some m" and "a \<in> set xs" "b \<in> set xs" "good a" "good b" "a \<le> m" "m \<le> b"
proof -
  let ?mid = "length xs div 2"
  let ?i = "if even (length xs) then ?mid - 1 else ?mid"
  let ?bad = "length (filter (\<lambda>x. \<not> good x) xs)"
  have "?i < length xs" "?bad \<le> ?i" "?bad < length xs - ?i" using assms by (auto elim!: evenE oddE)
  from position_between [OF this] obtain a b where ab: "a \<in> set xs" "b \<in> set xs" "good a" "good b"
      "a \<le> sort xs ! ?i" "sort xs ! ?i \<le> b" by blast
  have "median xs = Some (sort xs ! ?i)" using assms by (auto simp: median_def Let_def)
  from that [OF this ab] show ?thesis .
qed

text \<open>The reward a report contributes.\<close>

definition sample_of :: "'p env_scheme \<Rightarrow> rounding \<Rightarrow> state_report \<Rightarrow> rat option" where
  "sample_of E rnd r = Option.bind (e_parse_json E (sr_state r)) (\<lambda>j. Option.bind (extract_reward rnd j) id)"

lemma map_filter_bind: "List.map_filter g (List.map_filter f xs) = List.map_filter (\<lambda>x. Option.bind (f x) g) xs"
  by (induction xs) (auto simp: map_filter_simps split: option.split)

lemma rewards_of_reports: "reward_samples rnd (parsed_states E report) = List.map_filter (sample_of E rnd) (ar_reports report)"
  by (simp add: reward_samples_def parsed_states_def map_filter_bind sample_of_def [abs_def])

lemma samples_by_honesty:
  assumes "\<forall>r \<in> set rs. honest r \<longrightarrow> (\<exists>x. f r = Some x \<and> good x)"
  shows "length (filter (\<lambda>x. \<not> good x) (List.map_filter f rs)) \<le> length (filter (\<lambda>r. \<not> honest r) rs) \<and>
    length (filter honest rs) \<le> length (filter good (List.map_filter f rs))"
  using assms
proof (induction rs)
  case (Cons r rs)
  then show ?case by (cases "honest r"; cases "f r") (auto simp: map_filter_simps)
qed (simp add: map_filter_simps)

text \<open>
  C40: with the default strategy faulty nodes cannot push the global reward of an epoch out of the
  range of what honest nodes report. If every honest report carries a finite reward and the
  faulty reports are fewer than the honest ones, then the written reward lies between the
  rewards of two honest reports, whatever the faulty ones contain.
\<close>

theorem global_reward_robust:
  assumes "\<forall>r \<in> set (ar_reports report). honest (sr_author r) \<longrightarrow> (\<exists>x. sample_of E rnd r = Some x)"
    and "length (filter (\<lambda>r. \<not> honest (sr_author r)) (ar_reports report)) < length (filter (\<lambda>r. honest (sr_author r)) (ar_reports report))"
  shows "\<exists>m r1 r2 a b. gs_reward (global_state_of E rnd epoch report n Normal) = Some m \<and>
    {r1, r2} \<subseteq> set (ar_reports report) \<and> honest (sr_author r1) \<and> honest (sr_author r2) \<and>
    sample_of E rnd r1 = Some a \<and> sample_of E rnd r2 = Some b \<and> a \<le> m \<and> m \<le> b"
proof -
  define good where "good x \<longleftrightarrow> (\<exists>r \<in> set (ar_reports report). honest (sr_author r) \<and> sample_of E rnd r = Some x)" for x
  let ?xs = "List.map_filter (sample_of E rnd) (ar_reports report)"
  have "\<forall>r \<in> set (ar_reports report). honest (sr_author r) \<longrightarrow> (\<exists>x. sample_of E rnd r = Some x \<and> good x)"
    using assms(1) unfolding good_def by blast
  from samples_by_honesty [where honest = "\<lambda>r. honest (sr_author r)", OF this] assms(2)
  have "length (filter (\<lambda>x. \<not> good x) ?xs) < length (filter good ?xs)" by linarith
  moreover have "length ?xs = length (filter good ?xs) + length (filter (\<lambda>x. \<not> good x) ?xs)"
    by (simp add: sum_length_filter_compl)
  ultimately have "2 * length (filter (\<lambda>x. \<not> good x) ?xs) < length ?xs" by linarith
  then obtain m a b where m: "median ?xs = Some m" "good a" "good b" "a \<le> m" "m \<le> b" by (rule median_between)
  obtain r1 r2 where "r1 \<in> set (ar_reports report)" "honest (sr_author r1)" "sample_of E rnd r1 = Some a"
      "r2 \<in> set (ar_reports report)" "honest (sr_author r2)" "sample_of E rnd r2 = Some b"
    using m(2, 3) unfolding good_def by blast
  moreover have "gs_reward (global_state_of E rnd epoch report n Normal) = Some m"
    using m(1) by (simp add: global_state_of_def Let_def rewards_of_reports)
  ultimately show ?thesis using m(4, 5) by auto
qed

definition length_env :: env where
  "length_env = sample_env\<lparr>e_parse_json := \<lambda>bs. Some (JObject [(''reward'', JFloat (of_nat (length bs)))])\<rparr>"

definition sample_reports :: aggregate_report where
  "sample_reports = \<lparr>ar_epoch = 3, ar_reports =
     [\<lparr>sr_epoch = 3, sr_state = [0], sr_author = PublicKey 1, sr_signature = default_signature\<rparr>,
      \<lparr>sr_epoch = 3, sr_state = [0, 0], sr_author = PublicKey 2, sr_signature = default_signature\<rparr>,
      \<lparr>sr_epoch = 3, sr_state = replicate 9 0, sr_author = PublicKey 3, sr_signature = default_signature\<rparr>]\<rparr>"

theorem global_reward_robust_witness:
  "\<exists>m. gs_reward (global_state_of length_env Some 3 sample_reports 4 Normal) = Some m \<and> 1 \<le> m \<and> m \<le> 2"
proof -
  have s: "sample_of length_env Some r = Some (of_nat (length (sr_state r)))" for r
    by (simp add: sample_of_def length_env_def extract_reward_def get_f64_def)
  have "length (filter (\<lambda>r. \<not> sr_author r \<noteq> PublicKey 3) (ar_reports sample_reports)) <
      length (filter (\<lambda>r. sr_author r \<noteq> PublicKey 3) (ar_reports sample_reports))"
    by (simp add: sample_reports_def)
  from global_reward_robust [where honest = "\<lambda>a. a \<noteq> PublicKey 3" and report = sample_reports and E = length_env and rnd = Some, OF _ this, of 3 4]
  obtain m r1 r2 where m: "gs_reward (global_state_of length_env Some 3 sample_reports 4 Normal) = Some m"
      "{r1, r2} \<subseteq> set (ar_reports sample_reports)" "sr_author r1 \<noteq> PublicKey 3" "sr_author r2 \<noteq> PublicKey 3"
      "of_nat (length (sr_state r1)) \<le> m" "m \<le> of_nat (length (sr_state r2))"
    by (auto simp: s)
  have "1 \<le> length (sr_state r1)" "length (sr_state r2) \<le> 2"
    using m(2-4) by (auto simp: sample_reports_def)
  then have "(1 :: rat) \<le> of_nat (length (sr_state r1))" "(of_nat (length (sr_state r2)) :: rat) \<le> 2"
    by (metis of_nat_1 of_nat_le_iff) (metis of_nat_le_iff of_nat_numeral \<open>length (sr_state r2) \<le> 2\<close>)
  then show ?thesis using m(1, 5, 6) by (intro exI [of _ m]) linarith
qed

section \<open>The lanes are not\<close>

lemma add_rate_max:
  "map_of (ls_max (add_rate rnd (lane, rate) st)) = (map_of (ls_max st))(lane \<mapsto>
     (case map_of (ls_max st) lane of None \<Rightarrow> rate | Some old \<Rightarrow> max rate old))"
  by (auto simp: add_rate_def max_def fun_eq_iff split: option.split)

lemma lanes_max:
  "map_of (ls_max (fold (add_rate rnd) xs st)) lane =
     (let rs = [r. (l, r) \<leftarrow> xs, l = lane] in
      case map_of (ls_max st) lane of
        None \<Rightarrow> if rs = [] then None else Some (Max (set rs))
      | Some old \<Rightarrow> Some (Max (insert old (set rs))))"
proof (induction xs arbitrary: st)
  case Nil
  then show ?case by (simp split: option.split)
next
  case (Cons x xs)
  obtain l r where x: "x = (l, r)" by (cases x)
  show ?case
  proof (cases "l = lane")
    case True
    let ?rs = "[r. (l, r) \<leftarrow> xs, l = lane]"
    have fin: "finite (set ?rs)" by (rule finite_set)
    show ?thesis
    proof (cases "map_of (ls_max st) lane")
      case None
      then show ?thesis using True x Cons.IH [of "add_rate rnd x st"] by (simp add: add_rate_max Let_def)
    next
      case (Some old)
      have "Max (insert (max r old) (set ?rs)) = Max (insert old (insert r (set ?rs)))"
      proof (cases "set ?rs = {}")
        case False
        then show ?thesis using fin by (simp only: Max_insert finite_insert insert_not_empty not_False_eq_True max.assoc max.left_commute)
      qed (simp add: max.commute)
      then show ?thesis using True x Some Cons.IH [of "add_rate rnd x st"] by (simp add: add_rate_max Let_def insert_commute)
    qed
  next
    case False
    then show ?thesis using x Cons.IH [of "add_rate rnd x st"] by (simp add: add_rate_max)
  qed
qed

lemma lanes_max_start:
  "map_of (ls_max (fold (add_rate rnd) xs \<lparr>ls_max = [], ls_sum = [], ls_count = []\<rparr>)) lane =
     (if lane \<in> fst ` set xs then Some (Max {r. (lane, r) \<in> set xs}) else None)"
proof -
  have "set [r. (l, r) \<leftarrow> xs, l = lane] = {r. (lane, r) \<in> set xs}" by auto
  moreover have "[r. (l, r) \<leftarrow> xs, l = lane] = [] \<longleftrightarrow> lane \<notin> fst ` set xs" by (induction xs) auto
  ultimately show ?thesis by (simp add: lanes_max Let_def)
qed

text \<open>The growth rates of a lane in all reports, the false ones included.\<close>

definition reported_rates :: "'p env_scheme \<Rightarrow> rounding \<Rightarrow> aggregate_report \<Rightarrow> string \<Rightarrow> rat set" where
  "reported_rates E rnd report lane = {x. \<exists>r \<in> set (ar_reports report). \<exists>j. e_parse_json E (sr_state r) = Some j \<and> (lane, x) \<in> set (growth_rates rnd j)}"

lemma map_of_map_prod_Some: "map_of (map (map_prod id Some) m) k = map_option Some (map_of m k)"
  by (induction m) auto

text \<open>
  the growth rate of a lane is the largest any report claims. One faulty report is enough to
  raise the global value of a lane to any number it likes, or to add lanes that do not exist,
  although the state is called robust.
\<close>

theorem lane_rate_is_maximum:
  "map_of (gs_lanes (global_state_of E rnd epoch report n Normal)) lane =
     (if reported_rates E rnd report lane = {} then None else Some (Some (Max (reported_rates E rnd report lane))))"
proof -
  let ?xs = "concat (map (growth_rates rnd) (parsed_states E report))"
  have "(lane, x) \<in> set ?xs \<longleftrightarrow> x \<in> reported_rates E rnd report lane" for x
    by (auto simp: reported_rates_def parsed_states_def List.map_filter_def)
      (metis domI imageI mem_Collect_eq option.sel)+
  then have "{x. (lane, x) \<in> set ?xs} = reported_rates E rnd report lane" and
    "lane \<in> fst ` set ?xs \<longleftrightarrow> reported_rates E rnd report lane \<noteq> {}" by force+
  then show ?thesis
    by (simp add: global_state_of_def Let_def map_of_map_prod_Some lanes_max_start)
qed

section \<open>A falsified report decides the mean\<close>

lemma json_get_put: "json_put k v j = Some j' \<Longrightarrow> json_get k j' = Some v"
  by (cases j) auto

lemma json_get_alter_other: "k \<noteq> k' \<Longrightarrow> json_get k (alter k' f j) = json_get k j"
  by (cases j) (auto simp: alter_def split: option.split)

lemma equalized_reward:
  assumes "pollute_mean_equalize rnd target factor ratio jv = Some j'" and "mean_equalizing_reward rnd target jv = Some r"
  shows "extract_reward rnd j' = Some (Some r)"
proof -
  obtain j1 where j1: "json_put ''reward'' (JFloat r) (pollute_ratio rnd ratio (pollute_rates rnd factor jv)) = Some j1"
      and j': "j' = j1 \<or> (\<exists>v. j' = set_latency v j1)"
    using assms by (auto simp: pollute_mean_equalize_def Let_def json_f64_def split: if_splits)
  have "json_get ''reward'' j' = json_get ''reward'' j1"
    using j' by (auto simp: set_latency_def json_get_alter_other)
  then show ?thesis using json_get_put [OF j1] by (simp add: extract_reward_def get_f64_def)
qed

text \<open>
  how the mean strategy is defeated. With exact arithmetic, when three nodes report the reward
  a polluter observes, its falsified report makes the global reward exactly the target the
  polluter has drawn, if that can be reached without a negative reward.
\<close>

theorem mean_equalizes:
  assumes "extract_reward Some jv = Some (Some obs)" and "0 \<le> target" and "3 * obs \<le> 4 * target"
    and "pollute_mean_equalize Some target factor ratio jv = Some j'"
    and "parsed_states E report = [h1, h2, h3, j']" and "\<forall>h \<in> {h1, h2, h3}. extract_reward Some h = Some (Some obs)"
  shows "gs_reward (global_state_of E Some epoch report n Mean) = Some target"
proof -
  have "mean_equalizing_reward Some target jv = Some (4 * target - 3 * obs)"
    using assms(1-3) by (simp add: mean_equalizing_reward_def Let_def)
  from equalized_reward [OF assms(4) this] have "extract_reward Some j' = Some (Some (4 * target - 3 * obs))" .
  then have "reward_samples Some (parsed_states E report) = [obs, obs, obs, 4 * target - 3 * obs]"
    using assms(5, 6) by (simp add: reward_samples_def map_filter_simps)
  then show ?thesis
    by (simp add: global_state_of_def Let_def mean_f64_def sum_f64_def)
qed

definition two_reward :: json where
  "two_reward = JObject [(''reward'', JFloat 2)]"

definition mean_env :: env where
  "mean_env = sample_env\<lparr>e_parse_json := \<lambda>bs. if bs = [9] then Some (JObject [(''reward'', JFloat 6)]) else Some two_reward\<rparr>"

definition polluted_reports :: aggregate_report where
  "polluted_reports = \<lparr>ar_epoch = 3, ar_reports =
     map (\<lambda>(a, st). \<lparr>sr_epoch = 3, sr_state = st, sr_author = PublicKey a, sr_signature = default_signature\<rparr>)
       [(1, []), (2, []), (3, []), (4, [9])]\<rparr>"

theorem mean_equalizes_witness:
  "gs_reward (global_state_of mean_env Some 3 polluted_reports 4 Mean) = Some 3"
proof (rule mean_equalizes [of two_reward 2 3 "\<lambda>_. 1" 0 "JObject [(''reward'', JFloat 6)]" mean_env polluted_reports two_reward two_reward two_reward])
  show "pollute_mean_equalize Some 3 (\<lambda>_. 1) 0 two_reward = Some (JObject [(''reward'', JFloat 6)])"
    by (simp add: pollute_mean_equalize_def two_reward_def mean_equalizing_reward_def extract_reward_def get_f64_def
        pollute_ratio_def pollute_rates_def extract_fast_path_ratio_def alter_def latency_of_def json_f64_def)
  show "parsed_states mean_env polluted_reports = [two_reward, two_reward, two_reward, JObject [(''reward'', JFloat 6)]]"
    by (simp add: parsed_states_def polluted_reports_def mean_env_def map_filter_simps)
qed (simp_all add: two_reward_def extract_reward_def get_f64_def)

end
