(* ===== verification/Boot.thy ===== *)
theory Boot
  imports Core_Loop Committer Proposer Handlers
begin

text \<open>
  How a node starts (\<open>primary/src/primary.rs\<close>, \<open>Primary::spawn\<close>, \<open>worker/src/worker.rs\<close>,
  \<open>Worker::spawn\<close>, and the beginnings of the \<open>spawn\<close> functions of the tasks), the two ways in
  which the node index is read from the path of the store, the watcher of the parameter file and
  the connector of a worker to its primary.

  The result of a \<open>spawn\<close> is the record of the initial states of all tasks; \<open>Panic\<close> is a failed
  \<open>expect\<close> in the calling task. The index is parsed once more inside the task of the core: when
  that fails the core panics alone, and \<open>pt_core\<close> is \<open>None\<close>. Receivers are represented by the
  address they listen on. Binding sockets and logging are left out.
\<close>

definition expect_r :: "('e, 'a) outcome \<Rightarrow> ('f, 'a) outcome" where
  "expect_r r = (case r of Done a \<Rightarrow> Done a | Fail _ \<Rightarrow> Panic | Panic \<Rightarrow> Panic | Diverge \<Rightarrow> Diverge)"

section \<open>The node index\<close>

definition is_digit :: "u8 \<Rightarrow> bool" where
  "is_digit b \<longleftrightarrow> 48 \<le> b \<and> b \<le> 57"

definition digits_value :: "u8 list \<Rightarrow> nat" where
  "digits_value ds = foldl (\<lambda>acc d. 10 * acc + (unat d - 48)) 0 ds"

text \<open>\<open>str::parse\<close> to a 64-bit number: an optional plus sign, at least one digit, no overflow.\<close>

definition parse_u64 :: "u8 list \<Rightarrow> u64 option" where
  "parse_u64 bs = (let ds = (case bs of [] \<Rightarrow> [] | b # r \<Rightarrow> if b = 43 then r else bs)
     in if ds = [] \<or> \<not> list_all is_digit ds \<or> digits_value ds \<ge> 2 ^ 64 then None else Some (of_nat (digits_value ds)))"

fun after_first :: "u8 list \<Rightarrow> u8 list \<Rightarrow> u8 list option" where
  "after_first marker [] = (if marker = [] then Some [] else None)"
| "after_first marker (b # bs) =
     (if take (length marker) (b # bs) = marker then Some (drop (length marker) (b # bs)) else after_first marker bs)"

definition db_marker :: "u8 list" where
  "db_marker = utf8 ''.db-''"

definition extract_node_index :: "u8 list \<Rightarrow> u64 option" where
  "extract_node_index path = Option.bind (after_first db_marker path) (\<lambda>rest. parse_u64 (takeWhile is_digit rest))"

definition core_node_index :: "u8 list \<Rightarrow> u64 option" where
  "core_node_index path = parse_u64 (rev (takeWhile (\<lambda>b. b \<noteq> 45) (rev path)))"

section \<open>Primary\<close>

record primary_tasks =
  pt_primary_address :: socket_addr
  pt_worker_address :: socket_addr
  pt_core :: "core option"
  pt_committer :: committer
  pt_collector :: collector
  pt_payload_index :: u64
  pt_waiter :: header_waiter
  pt_proposer :: proposer
  pt_helper :: helper

definition collector_spawn :: "public_key \<Rightarrow> committee \<Rightarrow> (key \<rightharpoonup> val) \<Rightarrow> ('e, collector) outcome" where
  "collector_spawn name c db = bind_r (expect_r (our_workers c name)) (\<lambda>ws.
     Done \<lparr>gc_store = db, gc_consensus_round = 0, gc_last_committed = 0, gc_loopback = [],
       gc_addresses = map primary_to_worker ws, gc_sent = []\<rparr>)"

definition primary_spawn :: "'p env_scheme \<Rightarrow> public_key \<Rightarrow> committee \<Rightarrow> parameters \<Rightarrow> (key \<rightharpoonup> val) \<Rightarrow> u8 list
    \<Rightarrow> nat \<Rightarrow> json option \<Rightarrow> (dag_error, primary_tasks) outcome" where
  "primary_spawn E name c p db path now params_file =
     bind_r (expect_r (primary_of c name)) (\<lambda>addresses.
     bind_r (collector_spawn name c db) (\<lambda>gc.
     bind_r (proposer_new E name c (header_size p) (max_header_delay p)) (\<lambda>pr.
     let sync = sync_new name c db (use_fast_sync p)
     in Done \<lparr>pt_primary_address = primary_to_primary addresses, pt_worker_address = worker_to_primary addresses,
          pt_core = map_option (\<lambda>i. core_new name c i sync p now params_file) (core_node_index path),
          pt_committer = committer_new E (certificate_genesis E c) sync,
          pt_collector = gc,
          pt_payload_index = (case extract_node_index path of None \<Rightarrow> 0 | Some i \<Rightarrow> i),
          pt_waiter = waiter_new name c (gc_depth p) (sync_retry_delay p) (sync_retry_nodes p) (use_fast_sync p) (use_optimistic_tips p),
          pt_proposer = pr,
          pt_helper = \<lparr>he_committee = c, he_store = db, he_sent = []\<rparr>\<rparr>)))"

section \<open>Worker\<close>

record worker_tasks =
  wk_command_address :: socket_addr
  wk_client_address :: socket_addr
  wk_worker_address :: socket_addr
  wk_primary_address :: socket_addr
  wk_synchronizer :: batch_sync
  wk_maker :: batch_maker

definition worker_spawn :: "public_key \<Rightarrow> worker_id \<Rightarrow> committee \<Rightarrow> parameters \<Rightarrow> (key \<rightharpoonup> val) \<Rightarrow> ('e, worker_tasks) outcome" where
  "worker_spawn name i c p db =
     bind_r (expect_r (worker_of c name i)) (\<lambda>w.
     bind_r (expect_r (primary_of c name)) (\<lambda>pr.
     Done \<lparr>wk_command_address = primary_to_worker w, wk_client_address = transactions w,
       wk_worker_address = worker_to_worker w, wk_primary_address = worker_to_primary pr,
       wk_synchronizer = batch_sync_new name i c (sync_retry_delay p),
       wk_maker = maker_new (batch_size p) (max_batch_delay p)
         (map (\<lambda>(n, a). (n, worker_to_worker a)) (others_workers c name i)) db p (map fst (authorities c)) name\<rparr>))"

text \<open>The connector forwards each digest with the best-effort sender.\<close>

definition connector_step :: "socket_addr \<Rightarrow> bytes \<Rightarrow> (socket_addr \<rightharpoonup> simple_connection) \<Rightarrow> (socket_addr \<rightharpoonup> simple_connection) option" where
  "connector_step primary_address digest conns = simple_send primary_address digest conns"

section \<open>Watching the parameter file\<close>

text \<open>
  One round of the loop, every 50 ms. \<open>meta\<close> is the metadata of the signal file, \<open>None\<close> when it
  cannot be read, otherwise its modification time, if the system knows one; \<open>content\<close> is the
  content of the parameter file, \<open>None\<close> when no file is configured or it cannot be read.
\<close>

definition watch_parameters :: "(u8 list \<Rightarrow> json option) \<Rightarrow> nat option option \<Rightarrow> u8 list option \<Rightarrow> nat option
    \<Rightarrow> nat option \<times> (u64 \<times> u64) list" where
  "watch_parameters parse meta content last_signal = (case meta of
     None \<Rightarrow> (last_signal, [])
   | Some mtime \<Rightarrow>
       if mtime = last_signal then (last_signal, [])
       else (mtime, case Option.bind (Option.bind content parse) batch_params_of of None \<Rightarrow> [] | Some x \<Rightarrow> [x]))"

section \<open>Both readings of the index agree\<close>

declare decimal.simps [simp del]

lemma digits_value_snoc: "digits_value (ds @ [d]) = 10 * digits_value ds + (unat d - 48)"
  by (simp add: digits_value_def)

lemma unat_digit: "k < 10 \<Longrightarrow> unat (word_of_nat (48 + k) :: u8) = 48 + k"
  by (simp add: unsigned_of_nat take_bit_nat_eq_self del: of_nat_add)

lemma digit_ok: "k < 10 \<Longrightarrow> is_digit (word_of_nat (48 + k))"
  using unat_digit [of k] by (simp add: is_digit_def word_le_nat_alt del: of_nat_add)

lemma decimal_digits: "digits_value (decimal n) = n \<and> list_all is_digit (decimal n) \<and> decimal n \<noteq> []"
proof (induction n rule: decimal.induct)
  case (1 n)
  show ?case
  proof (cases "n < 10")
    case True
    then have "decimal n = [of_nat (48 + n)]" by (subst decimal.simps) (simp del: of_nat_add)
    then show ?thesis using True digit_ok [of n] unat_digit [of n] by (simp add: digits_value_def del: of_nat_add)
  next
    case False
    then have e: "decimal n = decimal (n div 10) @ [of_nat (48 + n mod 10)]" by (subst decimal.simps) (simp del: of_nat_add)
    have "n mod 10 < 10" by simp
    then show ?thesis
      unfolding e using 1 False digit_ok [of "n mod 10"] unat_digit [of "n mod 10"] by (simp add: digits_value_snoc del: of_nat_add)
  qed
qed

lemma parse_decimal: "parse_u64 (decimal (unat w)) = Some w"
proof -
  have d: "digits_value (decimal (unat w)) = unat w" "list_all is_digit (decimal (unat w))" "decimal (unat w) \<noteq> []"
    using decimal_digits by blast+
  then obtain b r where r: "decimal (unat w) = b # r" by (cases "decimal (unat w)") auto
  then have "b \<noteq> 43" using d(2) by (auto simp: is_digit_def)
  moreover have "unat w < 2 ^ 64" using unsigned_less [of w] by simp
  ultimately show ?thesis using d r by (simp add: parse_u64_def)
qed

lemma after_first_here: "marker \<noteq> [] \<Longrightarrow> after_first marker (marker @ rest) = Some rest"
  by (cases marker) simp_all

lemma after_first_prefix:
  assumes "marker \<noteq> []" and "\<forall>k < length dir. take (length marker) (drop k (dir @ marker @ rest)) \<noteq> marker"
  shows "after_first marker (dir @ marker @ rest) = Some rest"
  using assms(2)
proof (induction dir)
  case Nil
  then show ?case using assms(1) by (simp add: after_first_here)
next
  case (Cons b dir)
  have "take (length marker) ((b # dir) @ marker @ rest) \<noteq> marker" using Cons.prems by force
  moreover have "after_first marker (dir @ marker @ rest) = Some rest" using Cons by force
  ultimately show ?case by simp
qed

lemma takeWhile_digits: "list_all is_digit ds \<Longrightarrow> takeWhile is_digit ds = ds"
  by (induction ds) simp_all

text \<open>
  the node index written into the path of the store is read back by the primary and by its
  core, which parse it in different ways: for a path that ends in the marker and a decimal
  number, and has no earlier marker, both find this number.
\<close>

theorem node_index_roundtrip:
  assumes "path = dir @ db_marker @ decimal (unat n)"
    and "\<forall>k < length dir. take (length db_marker) (drop k path) \<noteq> db_marker"
  shows "extract_node_index path = Some n \<and> core_node_index path = Some n"
proof
  have d: "list_all is_digit (decimal (unat n))" using decimal_digits by blast
  have "db_marker \<noteq> []" by (simp add: db_marker_def utf8_def)
  from after_first_prefix [OF this, of dir "decimal (unat n)"] assms
  show "extract_node_index path = Some n"
    by (simp add: extract_node_index_def takeWhile_digits [OF d] parse_decimal)
  have "\<forall>b \<in> set (decimal (unat n)). b \<noteq> 45" using d by (auto simp: list_all_iff is_digit_def)
  moreover have "rev path = rev (decimal (unat n)) @ 45 # rev (dir @ butlast db_marker)"
    using assms(1) by (simp add: db_marker_def utf8_def)
  ultimately have "takeWhile (\<lambda>b. b \<noteq> 45) (rev path) = rev (decimal (unat n))"
    by (simp add: takeWhile_tail takeWhile_append2)
  then show "core_node_index path = Some n" by (simp add: core_node_index_def parse_decimal)
qed

theorem node_index_roundtrip_witness:
  "core_node_index (utf8 ''a/.db-37'') = Some 37"
proof -
  have "decimal 37 = utf8 ''37''" by (simp add: utf8_def decimal.simps [of 37] decimal.simps [of 3])
  then have p: "utf8 ''a/.db-37'' = utf8 ''a/'' @ db_marker @ decimal (unat (37 :: u64))" by (simp add: utf8_def db_marker_def)
  have "\<forall>k < length (utf8 ''a/''). take (length db_marker) (drop k (utf8 ''a/.db-37'')) \<noteq> db_marker"
  proof (intro allI impI)
    fix k assume "k < length (utf8 ''a/'')"
    then have "k = 0 \<or> k = 1" by (auto simp: utf8_def)
    then show "take (length db_marker) (drop k (utf8 ''a/.db-37'')) \<noteq> db_marker" by (auto simp: utf8_def db_marker_def)
  qed
  from node_index_roundtrip [OF p this] show ?thesis by simp
qed

text \<open>
  a node starts exactly when it is a member of the committee; then every task exists but,
  possibly, the core, which needs a path of the store that ends in a number, and the core starts
  from the configuration of the node.
\<close>

theorem primary_starts_iff:
  "primary_spawn E name c p db path now params_file \<in> range Done \<longleftrightarrow> name \<in> members c"
proof (cases "map_of (authorities c) name")
  case None
  then have "name \<notin> members c" by (simp add: members_def map_of_eq_None_iff)
  then show ?thesis using None
    by (auto simp: primary_spawn_def primary_of_def lookup_authority_def expect_r_def bind_r_def)
next
  case (Some a)
  then have "name \<in> members c" by (metis members_def domI dom_map_of_conv_image_fst list.set_map)
  moreover have "authorities c \<noteq> []" using Some by auto
  ultimately show ?thesis using Some
    by (auto simp: primary_spawn_def primary_of_def lookup_authority_def expect_r_def bind_r_def collector_spawn_def
        our_workers_def proposer_new_def genesis_cert_def header_genesis_def Let_def split: list.split)
qed

end
