(* ===== verification/Snapshot.thy ===== *)
theory Snapshot
  imports Global_State
begin

text \<open>
  The snapshot of the lanes that the synchronizer takes from the proposals of a slot
  (\<open>collect_dag_snapshot_from_proposals\<close> in \<open>primary/src/synchronizer.rs\<close>). The base64 encoder is
  a parameter; digests and keys are shown by the first 16 characters of their encoding. Floating
  point is as in \<open>Global_State\<close>: rationals and a rounding function. A map is iterated in the
  order of insertion.
\<close>

type_synonym base64 = "u8 list \<Rightarrow> string"

record dag_node =
  dn_digest :: string
  dn_author :: string
  dn_height :: height
  dn_parents :: "string list"

record dag_snapshot =
  sn_committed_slot :: slot
  sn_view :: view
  sn_num_nodes :: nat
  sn_avg_indegree :: "rat option"
  sn_avg_outdegree :: "rat option"
  sn_fork_count :: nat
  sn_last_cut_tips :: "(string \<times> height) list"
  sn_nodes :: "dag_node list"

record dag_count =
  dc_seen :: "(string \<times> dag_node) list"
  dc_indegree :: "(string \<times> nat) list"
  dc_outdegree :: "(string \<times> nat) list"

definition digest_text :: "base64 \<Rightarrow> digest \<Rightarrow> string" where
  "digest_text b64 d = take 16 (b64 (digest_bytes d))"

definition key_text :: "base64 \<Rightarrow> public_key \<Rightarrow> string" where
  "key_text b64 k = take 16 (b64 (key_bytes k))"

definition count_edge :: "string \<Rightarrow> (string \<times> nat) list \<Rightarrow> (string \<times> nat) list" where
  "count_edge p m = hm_insert p (case map_of m p of None \<Rightarrow> 1 | Some n \<Rightarrow> n + 1) m"

definition note_node :: "dag_node \<Rightarrow> dag_count \<Rightarrow> dag_count" where
  "note_node x k = \<lparr>dc_seen = hm_insert (dn_digest x) x (dc_seen k),
     dc_indegree = hm_insert (dn_digest x) (length (dn_parents x)) (dc_indegree k),
     dc_outdegree = fold count_edge (dn_parents x) (dc_outdegree k)\<rparr>"

definition snapshot_header :: "base64 \<Rightarrow> 'p codec_scheme \<Rightarrow> header \<Rightarrow> dag_count \<Rightarrow> dag_count sync_handler" where
  "snapshot_header b64 P h k =
     (let d = digest_text b64 (header_digest P h) in
      if map_of (dc_seen k) d \<noteq> None then ret k
      else bind_h (expect_h (get_parent_header P h)) (\<lambda>parent.
        ret (note_node \<lparr>dn_digest = d, dn_author = key_text b64 (hd_author h), dn_height = hd_height h,
          dn_parents = (case parent of None \<Rightarrow> [] | Some p \<Rightarrow> [digest_text b64 (header_digest P p)])\<rparr> k)))"

definition snapshot_proposal :: "nat \<Rightarrow> base64 \<Rightarrow> 'p codec_scheme \<Rightarrow> proposal \<Rightarrow> dag_count \<Rightarrow> dag_count sync_handler" where
  "snapshot_proposal n b64 P p k = bind_h (expect_h (get_header P (prop_digest p))) (\<lambda>r. case r of
     None \<Rightarrow> ret k
   | Some h \<Rightarrow> bind_h (expect_h (get_all_headers_for_proposal n P p 0)) (\<lambda>hs.
       fold_h (snapshot_header b64 P) hs k))"

definition fork_count :: "dag_node list \<Rightarrow> nat" where
  "fork_count xs = card {x \<in> (\<lambda>x. (dn_author x, dn_height x)) ` set xs.
     1 < card (dn_digest ` {y \<in> set xs. (dn_author y, dn_height y) = x})}"

definition avg_f64 :: "rounding \<Rightarrow> nat \<Rightarrow> nat \<Rightarrow> rat option" where
  "avg_f64 rnd a b = (if b > 0
     then Option.bind (rnd (of_nat a)) (\<lambda>x. Option.bind (rnd (of_nat b)) (\<lambda>y. rnd (x / y))) else Some 0)"

definition snapshot_of :: "rounding \<Rightarrow> base64 \<Rightarrow> slot \<Rightarrow> view \<Rightarrow> (public_key \<times> height) list \<Rightarrow> dag_count \<Rightarrow> dag_snapshot" where
  "snapshot_of rnd b64 sl v last_stop_heights k =
     (let nodes = map snd (dc_seen k); total_nodes = length nodes;
          total_in = sum_list (map snd (dc_indegree k)); total_out = sum_list (map snd (dc_outdegree k))
      in \<lparr>sn_committed_slot = sl, sn_view = v, sn_num_nodes = total_nodes,
          sn_avg_indegree = avg_f64 rnd total_in total_nodes,
          sn_avg_outdegree = avg_f64 rnd total_out total_nodes,
          sn_fork_count = fork_count nodes,
          sn_last_cut_tips = map (\<lambda>(pk, h). (b64 (key_bytes pk), h)) last_stop_heights, sn_nodes = nodes\<rparr>)"

definition collect_dag_snapshot :: "rounding \<Rightarrow> nat \<Rightarrow> base64 \<Rightarrow> 'p codec_scheme \<Rightarrow> slot \<Rightarrow> view \<Rightarrow> proposal list \<Rightarrow> (public_key \<times> height) list
    \<Rightarrow> dag_snapshot sync_handler" where
  "collect_dag_snapshot rnd n b64 P sl v proposals last_stop_heights =
     bind_h (fold_h (snapshot_proposal n b64 P) proposals \<lparr>dc_seen = [], dc_indegree = [], dc_outdegree = []\<rparr>)
       (\<lambda>k. ret (snapshot_of rnd b64 sl v last_stop_heights k))"

section \<open>Degrees\<close>

lemma sum_hm_insert: "sum_list (map snd (hm_insert x n m)) + (case map_of m x of None \<Rightarrow> 0 | Some i \<Rightarrow> i) = sum_list (map snd m) + (n :: nat)"
  by (induction x n m rule: hm_insert.induct) auto

lemma sum_count_edge: "sum_list (map snd (count_edge p m)) = sum_list (map snd m) + 1"
  using sum_hm_insert [of p "case map_of m p of None \<Rightarrow> 1 | Some n \<Rightarrow> n + 1" m] by (auto simp: count_edge_def split: option.splits)

lemma sum_count_edges: "sum_list (map snd (fold count_edge ps m)) = sum_list (map snd m) + length ps"
  by (induction ps arbitrary: m) (simp_all add: sum_count_edge)

lemma length_hm_insert_new: "map_of m x = None \<Longrightarrow> length (hm_insert x n m) = Suc (length m)"
  by (induction x n m rule: hm_insert.induct) (auto split: if_splits)

definition counts_ok :: "dag_count \<Rightarrow> bool" where
  "counts_ok k \<longleftrightarrow> sum_list (map snd (dc_indegree k)) = sum_list (map snd (dc_outdegree k)) \<and>
     sum_list (map snd (dc_indegree k)) \<le> length (dc_seen k) \<and> fst ` set (dc_indegree k) = fst ` set (dc_seen k)"

lemma counts_ok_note:
  assumes "counts_ok k" and "map_of (dc_seen k) (dn_digest x) = None" and "length (dn_parents x) \<le> 1"
  shows "counts_ok (note_node x k)"
proof -
  have "map_of (dc_indegree k) (dn_digest x) = None"
    using assms(1, 2) by (simp add: counts_ok_def map_of_eq_None_iff)
  then show ?thesis
    using assms sum_hm_insert [of "dn_digest x" "length (dn_parents x)" "dc_indegree k"]
    by (simp add: counts_ok_def note_node_def sum_count_edges length_hm_insert_new)
qed

lemma fold_h_result:
  assumes "\<And>x k s t k'. x \<in> set xs \<Longrightarrow> I k \<Longrightarrow> f x k s = (t, Done k') \<Longrightarrow> I k'" and "I k" and "fold_h f xs k s = (t, Done k')"
  shows "I k'"
  using assms
proof (induction xs arbitrary: k s)
  case (Cons x xs)
  obtain u r where f: "f x k s = (u, r)" by fastforce
  then obtain k1 where "r = Done k1" "fold_h f xs k1 u = (t, Done k')"
    using Cons.prems(3) by (cases r) (auto simp: handler_simps)
  then show ?case using Cons.IH [of k1 u] Cons.prems(1, 2) f by (meson list.set_intros)
qed (simp add: handler_simps)

text \<open>
  both averages of a snapshot are the same, as each edge is counted once at either end: they
  are the rounded quotient of one number of edges, which is at most the number of headers, since
  a header has at most one parent.
\<close>

theorem snapshot_degrees:
  assumes "collect_dag_snapshot rnd n b64 P sl v ps hs s = (t, Done x)"
  shows "\<exists>edges \<le> length (sn_nodes x). sn_avg_indegree x = avg_f64 rnd edges (length (sn_nodes x)) \<and>
    sn_avg_outdegree x = sn_avg_indegree x \<and> sn_num_nodes x = length (sn_nodes x)"
proof -
  let ?k = "\<lparr>dc_seen = [], dc_indegree = [], dc_outdegree = []\<rparr> :: dag_count"
  obtain k u where k: "fold_h (snapshot_proposal n b64 P) ps ?k s = (u, Done k)" "x = snapshot_of rnd b64 sl v hs k"
    using assms by (auto simp: collect_dag_snapshot_def handler_simps split: prod.splits outcome.splits)
  have header: "counts_ok k'" if "counts_ok k" "snapshot_header b64 P h k s = (t, Done k')" for h k s t k'
    using that by (auto simp: snapshot_header_def handler_simps Let_def intro!: counts_ok_note
        split: if_splits prod.splits outcome.splits option.splits)
  have proposal: "counts_ok k'" if "counts_ok k" "snapshot_proposal n b64 P p k s = (t, Done k')" for p k s t k'
  proof -
    have "k' = k \<or> (\<exists>hs s' t'. fold_h (snapshot_header b64 P) hs k s' = (t', Done k'))"
      using that(2) by (auto simp: snapshot_proposal_def handler_simps split: prod.splits outcome.splits option.splits)
    then show ?thesis using that(1) fold_h_result [where I = counts_ok and f = "snapshot_header b64 P"] header by metis
  qed
  have "counts_ok ?k" by (simp add: counts_ok_def)
  then have "counts_ok k" using fold_h_result [where I = counts_ok and f = "snapshot_proposal n b64 P", OF _ _ k(1)] proposal by blast
  then show ?thesis by (auto simp: k(2) snapshot_of_def Let_def counts_ok_def)
qed

end
