(* ===== verification/Client.thy ===== *)
theory Client
  imports Batches Global_State
begin

text \<open>
  The load generator (\<open>node/src/benchmark_client.rs\<close>): the configuration of hotspots, the rate of
  a node at a time, and the transactions of a run. A command-line argument is a string of ASCII
  characters, \<open>usize\<close> has 64 bits. An \<open>f64\<close> is the rational it denotes, and \<open>rnd\<close> rounds the exact
  result of an operation; \<open>read_f64\<close> is the parser of \<open>f64\<close>. Rates that are not finite or become
  so are left out.
\<close>

section \<open>The arguments\<close>

datatype hotspot_error =
    InvalidWindowFormat
  | InvalidStartTime
  | InvalidEndTime
  | InvalidNodeId
  | NodeIdsPerWindow
  | InvalidNodeRate
  | NodeRatesPerWindow
  | NodeRatesPerId
  | NodeRatesRequired
  | IdsAndRatesRequired

primrec split_on :: "char \<Rightarrow> string \<Rightarrow> string list" where
  "split_on c [] = [[]]"
| "split_on c (x # xs) = (if x = c then [] # split_on c xs
     else case split_on c xs of [] \<Rightarrow> [[x]] | p # ps \<Rightarrow> (x # p) # ps)"

definition is_space :: "char \<Rightarrow> bool" where
  "is_space c \<longleftrightarrow> of_char c = (32 :: nat) \<or> (9 \<le> (of_char c :: nat) \<and> of_char c \<le> (13 :: nat))"

definition trim :: "string \<Rightarrow> string" where
  "trim s = rev (dropWhile is_space (rev (dropWhile is_space s)))"

definition is_digit :: "char \<Rightarrow> bool" where
  "is_digit c \<longleftrightarrow> 48 \<le> (of_char c :: nat) \<and> of_char c \<le> (57 :: nat)"

text \<open>\<open>parse::<u64>\<close>: an optional plus sign, at least one digit, no overflow.\<close>

definition parse_u64 :: "string \<Rightarrow> u64 option" where
  "parse_u64 s = (let ds = (case s of [] \<Rightarrow> [] | c # cs \<Rightarrow> if c = CHR ''+'' then cs else s);
       n = foldl (\<lambda>n c. 10 * n + (of_char c - 48)) (0 :: nat) ds
     in if ds \<noteq> [] \<and> list_all is_digit ds \<and> n < 2 ^ 64 then Some (of_nat n) else None)"

primrec collect_r :: "('x \<Rightarrow> ('e, 'a) outcome) \<Rightarrow> 'x list \<Rightarrow> ('e, 'a list) outcome" where
  "collect_r f [] = Done []"
| "collect_r f (x # xs) = bind_r (f x) (\<lambda>y. bind_r (collect_r f xs) (\<lambda>ys. Done (y # ys)))"

definition or_fail :: "'e \<Rightarrow> 'a option \<Rightarrow> ('e, 'a) outcome" where
  "or_fail e x = (case x of None \<Rightarrow> Fail e | Some a \<Rightarrow> Done a)"

record hotspot_config =
  hotspot_windows :: "(u64 \<times> u64) list"
  hotspot_node_ids :: "u64 list list option"
  hotspot_node_rates :: "rat list list option"

definition parse_window :: "string \<Rightarrow> (hotspot_error, u64 \<times> u64) outcome" where
  "parse_window w = (case split_on (CHR '':'') w of
     [a, b] \<Rightarrow> bind_r (or_fail InvalidStartTime (parse_u64 a)) (\<lambda>s.
       bind_r (or_fail InvalidEndTime (parse_u64 b)) (\<lambda>t. Done (s, t)))
   | _ \<Rightarrow> Fail InvalidWindowFormat)"

definition parse_lists :: "'e \<Rightarrow> (string \<Rightarrow> 'a option) \<Rightarrow> string \<Rightarrow> ('e, 'a list list) outcome" where
  "parse_lists e p s = collect_r (\<lambda>part. collect_r (\<lambda>n. or_fail e (p (trim n))) (split_on (CHR '','') part)) (split_on (CHR ''|'') s)"

definition parse_hotspot_config :: "(string \<Rightarrow> rat option) \<Rightarrow> string list option \<Rightarrow> string option \<Rightarrow> string option
    \<Rightarrow> (hotspot_error, hotspot_config option) outcome" where
  "parse_hotspot_config read_f64 windows node_ids_str node_rates_str = (case windows of None \<Rightarrow> Done None
   | Some ws \<Rightarrow> bind_r (collect_r parse_window ws) (\<lambda>windows. case node_ids_str of
       None \<Rightarrow> Fail IdsAndRatesRequired
     | Some ids_str \<Rightarrow> bind_r (parse_lists InvalidNodeId parse_u64 ids_str) (\<lambda>per_window.
         then_r (ensure_r (length per_window = length windows) NodeIdsPerWindow)
         (case node_rates_str of
           None \<Rightarrow> Fail NodeRatesRequired
         | Some rates_str \<Rightarrow> bind_r (parse_lists InvalidNodeRate read_f64 rates_str) (\<lambda>parsed.
             then_r (ensure_r (length parsed = length windows) NodeRatesPerWindow)
             (then_r (each_r (\<lambda>(rates, ids). ensure_r (length rates = length ids) NodeRatesPerId) (zip parsed per_window))
               (Done (Some \<lparr>hotspot_windows = windows, hotspot_node_ids = Some per_window,
                  hotspot_node_rates = Some parsed\<rparr>))))))))"

section \<open>The rate of a node\<close>

definition get_at :: "'a list \<Rightarrow> nat \<Rightarrow> 'a option" where
  "get_at xs i = (if i < length xs then Some (xs ! i) else None)"

fun position :: "'a \<Rightarrow> 'a list \<Rightarrow> nat option" where
  "position a [] = None"
| "position a (x # xs) = (if x = a then Some 0 else map_option Suc (position a xs))"

definition calculate_redistributed_rate :: "(rat \<Rightarrow> rat) \<Rightarrow> rat \<Rightarrow> nat \<Rightarrow> nat \<Rightarrow> bool \<Rightarrow> rat \<Rightarrow> rat" where
  "calculate_redistributed_rate rnd base_rate total_nodes num_hotspot is_hotspot rate_increase =
     (if num_hotspot \<ge> total_nodes then base_rate
      else if \<not> is_hotspot then base_rate
      else rnd (base_rate * rnd (1 - rate_increase)))"

definition get_arrival_rate :: "(rat \<Rightarrow> rat) \<Rightarrow> hotspot_config \<Rightarrow> u64 \<Rightarrow> rat \<Rightarrow> u64 \<Rightarrow> nat \<Rightarrow> ('e, rat) outcome" where
  "get_arrival_rate rnd c elapsed_secs base_rate node_idx total_nodes =
     (case find (\<lambda>w. case hotspot_windows c ! w of (a, b) \<Rightarrow> a \<le> elapsed_secs \<and> elapsed_secs \<le> b)
         [0..<length (hotspot_windows c)] of
       None \<Rightarrow> Done (calculate_redistributed_rate rnd base_rate total_nodes 0 False 0)
     | Some w \<Rightarrow> (case hotspot_node_ids c of
         None \<Rightarrow> Done (calculate_redistributed_rate rnd base_rate total_nodes 0 False 0)
       | Some ids \<Rightarrow> (case get_at ids w of
           None \<Rightarrow> Panic
         | Some window_ids \<Rightarrow> Done (case position node_idx window_ids of
             None \<Rightarrow> calculate_redistributed_rate rnd base_rate total_nodes (length window_ids) False 0
           | Some pos \<Rightarrow> calculate_redistributed_rate rnd base_rate total_nodes (length window_ids) True
               (case Option.bind (hotspot_node_rates c) (\<lambda>rates. Option.bind (get_at rates w) (\<lambda>rs. get_at rs pos)) of
                 None \<Rightarrow> 0 | Some rate \<Rightarrow> rate)))))"

section \<open>Sending\<close>

text \<open>\<open>f64::round\<close> rounds half-way cases away from zero, \<open>as u64\<close> saturates.\<close>

definition round_away :: "rat \<Rightarrow> int" where
  "round_away x = (if 0 \<le> x then \<lfloor>x + 1 / 2\<rfloor> else \<lceil>x - 1 / 2\<rceil>)"

definition as_u64 :: "int \<Rightarrow> u64" where
  "as_u64 i = (if i < 0 then 0 else if i < 2 ^ 64 then of_int i else - 1)"

record load_client =
  lc_size :: nat
  lc_rate :: u64
  lc_nodes :: "socket_addr list"
  lc_node_id :: u64
  lc_hotspot_config :: "hotspot_config option"
  lc_counter :: u64
  lc_r :: u64
  lc_connected :: bool
  lc_sent :: "u8 list list"

datatype client_error = TransactionTooSmall | FailedToConnect

definition client_new :: "nat \<Rightarrow> u64 \<Rightarrow> socket_addr list \<Rightarrow> u64 \<Rightarrow> hotspot_config option \<Rightarrow> u64 \<Rightarrow> load_client" where
  "client_new sz rate nodes node_id config r = \<lparr>lc_size = sz, lc_rate = rate, lc_nodes = nodes, lc_node_id = node_id,
     lc_hotspot_config = config, lc_counter = 0, lc_r = r, lc_connected = True, lc_sent = []\<rparr>"

text \<open>\<open>tx.resize\<close>, and a transaction: a flag, a number, zeros.\<close>

definition resize :: "nat \<Rightarrow> u8 list \<Rightarrow> u8 list" where
  "resize n bs = take n bs @ replicate (n - length bs) 0"

definition flagged :: "nat \<Rightarrow> u8 \<Rightarrow> u64 \<Rightarrow> u8 list" where
  "flagged n f k = resize n (f # be_bytes 8 k)"

text \<open>
  The body of the inner loop, for every number of the burst in turn: \<open>sends x\<close> says whether
  \<open>transport.send\<close> succeeds; if it does not, both loops end.
\<close>

fun send_burst :: "(nat \<Rightarrow> bool) \<Rightarrow> nat list \<Rightarrow> load_client \<Rightarrow> load_client" where
  "send_burst sends [] s = s"
| "send_burst sends (x # xs) s = (let
       standard = x mod 10000 \<noteq> 0;
       u = (if standard then s\<lparr>lc_r := lc_r s + 1\<rparr> else s);
       tx = (if standard then flagged (lc_size s) 1 (lc_r u) else flagged (lc_size s) 0 (lc_counter s))
     in if sends x then send_burst sends xs (u\<lparr>lc_sent := lc_sent s @ [tx], lc_counter := lc_counter s + 1\<rparr>)
        else u\<lparr>lc_connected := False\<rparr>)"

definition current_rate :: "(rat \<Rightarrow> rat) \<Rightarrow> u64 \<Rightarrow> load_client \<Rightarrow> (client_error, rat) outcome" where
  "current_rate rnd elapsed_secs s = (let rate = rnd (of_nat (unat (lc_rate s))) in case lc_hotspot_config s of
     None \<Rightarrow> Done rate
   | Some config \<Rightarrow> get_arrival_rate rnd config elapsed_secs rate (lc_node_id s) (length (lc_nodes s)))"

definition burst_of :: "(rat \<Rightarrow> rat) \<Rightarrow> rat \<Rightarrow> u64" where
  "burst_of rnd rate = as_u64 (round_away (rnd (rate / 20)))"

definition client_tick :: "(rat \<Rightarrow> rat) \<Rightarrow> u64 \<times> (nat \<Rightarrow> bool) \<Rightarrow> (load_client, client_error, unit) handler" where
  "client_tick rnd = (\<lambda>(elapsed_secs, sends). with_state (\<lambda>s. when_h (lc_connected s)
     (bind_h (of_result (current_rate rnd elapsed_secs s)) (\<lambda>rate.
       modify (send_burst sends [0..<unat (burst_of rnd rate)])))))"

definition client_send :: "(rat \<Rightarrow> rat) \<Rightarrow> bool \<Rightarrow> (u64 \<times> (nat \<Rightarrow> bool)) list \<Rightarrow> (load_client, client_error, unit) handler" where
  "client_send rnd connects ticks = with_state (\<lambda>s. seq_h (ensure (17 \<le> lc_size s) TransactionTooSmall)
     (seq_h (ensure connects FailedToConnect) (each (client_tick rnd) ticks)))"

section \<open>The hotspot configuration\<close>

lemma collect_r_Done: "collect_r f xs = Done ys \<Longrightarrow> list_all2 (\<lambda>x y. f x = Done y) xs ys"
  by (induction xs arbitrary: ys) auto

lemma parsed_config:
  assumes "parse_hotspot_config F ws i r = Done (Some c)"
  shows "\<exists>ids rates. hotspot_node_ids c = Some ids \<and> hotspot_node_rates c = Some rates \<and>
    length ids = length (hotspot_windows c) \<and> length rates = length ids \<and>
    (\<forall>w < length ids. length (rates ! w) = length (ids ! w))"
  using assms by (fastforce simp: parse_hotspot_config_def set_zip split: option.splits prod.splits)

lemma position_Some: "position a xs = Some i \<Longrightarrow> i < length xs \<and> xs ! i = a"
  by (induction a xs arbitrary: i rule: position.induct) (auto split: if_splits)

lemma position_nth: "distinct xs \<Longrightarrow> i < length xs \<Longrightarrow> position (xs ! i) xs = Some i"
proof (induction xs arbitrary: i)
  case (Cons x xs)
  then show ?case by (cases i) (auto simp: nth_mem)
qed simp

lemma position_None [simp]: "position a xs = None \<longleftrightarrow> a \<notin> set xs"
  by (induction a xs rule: position.induct) auto

lemma find_upt: "find P [0..<n] = Some w \<longleftrightarrow> w < n \<and> P w \<and> (\<forall>v < w. \<not> P v)"
  by (auto simp: find_Some_iff)

definition active :: "hotspot_config \<Rightarrow> u64 \<Rightarrow> nat \<Rightarrow> bool" where
  "active c t w \<longleftrightarrow> w < length (hotspot_windows c) \<and>
     (case hotspot_windows c ! w of (a, b) \<Rightarrow> a \<le> t \<and> t \<le> b)"

text \<open>
  with a configuration that was accepted the rate never panics; a node that the first window
  around the time lists loses the share given for it, any other keeps its rate, and all keep it
  when the window lists as many nodes as there are.
\<close>

theorem parsed_config_rates:
  assumes "parse_hotspot_config F ws i r = Done (Some c)" and "active c t w" and "\<forall>v < w. \<not> active c t v"
  shows "\<exists>ids rates. hotspot_node_ids c = Some ids \<and> hotspot_node_rates c = Some rates \<and>
    get_arrival_rate rnd c t base k n = (Done (case position k (ids ! w) of
      Some p \<Rightarrow> if length (ids ! w) < n then rnd (base * rnd (1 - rates ! w ! p)) else base | None \<Rightarrow> base) :: ('e, rat) outcome)"
proof -
  obtain ids rates where c: "hotspot_node_ids c = Some ids" "hotspot_node_rates c = Some rates"
    "length ids = length (hotspot_windows c)" "length rates = length ids" "\<forall>w < length ids. length (rates ! w) = length (ids ! w)"
    using parsed_config [OF assms(1)] by blast
  have w: "w < length (hotspot_windows c)" using assms(2) by (simp add: active_def)
  have f: "find (\<lambda>w. case hotspot_windows c ! w of (a, b) \<Rightarrow> a \<le> t \<and> t \<le> b) [0..<length (hotspot_windows c)] = Some w"
    using assms(2, 3) by (auto simp: find_upt active_def)
  then show ?thesis
    using c w by (auto simp: get_arrival_rate_def get_at_def calculate_redistributed_rate_def
        split: option.splits dest: position_Some)
qed

text \<open>The total over all nodes is not kept: what the listed nodes lose, no node gains.\<close>

definition total_rate :: "hotspot_config \<Rightarrow> u64 \<Rightarrow> rat \<Rightarrow> nat \<Rightarrow> rat" where
  "total_rate c t base n = (\<Sum>k < n. case (get_arrival_rate id c t base (of_nat k) n :: (unit, rat) outcome) of Done x \<Rightarrow> x | _ \<Rightarrow> 0)"

definition two_nodes :: hotspot_config where
  "two_nodes = \<lparr>hotspot_windows = [(10, 20)], hotspot_node_ids = Some [[1]], hotspot_node_rates = Some [[1 / 2]]\<rparr>"

lemma total_not_kept: "total_rate two_nodes 9 100 2 = 200" "total_rate two_nodes 10 100 2 = 150"
proof -
  have "{..<2 :: nat} = {0, 1}" by auto
  then show "total_rate two_nodes 9 100 2 = 200" "total_rate two_nodes 10 100 2 = 150"
    by (simp_all add: total_rate_def two_nodes_def get_arrival_rate_def get_at_def calculate_redistributed_rate_def)
qed

section \<open>Transactions\<close>

definition standards :: "u8 list list \<Rightarrow> nat" where
  "standards txs = length (filter (\<lambda>t. hd t = 1) txs)"

text \<open>What was sent: at place \<open>i\<close> a sample with that number, or a standard transaction, numbered on from \<open>r\<close>.\<close>

definition numbered :: "nat \<Rightarrow> u64 \<Rightarrow> u8 list list \<Rightarrow> bool" where
  "numbered n r txs \<longleftrightarrow> (\<forall>i < length txs. txs ! i = flagged n 0 (of_nat i) \<or>
     txs ! i = flagged n 1 (r + of_nat (standards (take (Suc i) txs))))"

definition client_inv :: "nat \<Rightarrow> u64 \<Rightarrow> load_client \<Rightarrow> bool" where
  "client_inv n r s \<longleftrightarrow> lc_size s = n \<and> numbered n r (lc_sent s) \<and> lc_counter s = of_nat (length (lc_sent s)) \<and>
     (lc_connected s \<longrightarrow> lc_r s = r + of_nat (standards (lc_sent s)))"

lemma hd_flagged [simp]: "17 \<le> n \<Longrightarrow> hd (flagged n f k) = f"
  by (cases n) (simp_all add: flagged_def resize_def)

lemma flagged_inject [simp]: "17 \<le> n \<Longrightarrow> flagged n f j = flagged n g k \<longleftrightarrow> f = g \<and> j = k"
  by (cases n) (auto simp: flagged_def resize_def be_bytes_inject)

lemma length_flagged [simp]: "length (flagged n f k) = n"
  by (simp add: flagged_def resize_def)

lemma standards_append: "standards (xs @ [t]) = standards xs + (if hd t = 1 then 1 else 0)"
  by (simp add: standards_def)

lemma numbered_append:
  assumes "numbered n r txs" and "17 \<le> n"
    and "t = flagged n 0 (of_nat (length txs)) \<or> t = flagged n 1 (r + of_nat (standards txs) + 1)"
  shows "numbered n r (txs @ [t])"
  unfolding numbered_def
proof (intro allI impI)
  fix i assume "i < length (txs @ [t])"
  then consider "i < length txs" | "i = length txs" by fastforce
  then show "(txs @ [t]) ! i = flagged n 0 (of_nat i) \<or>
      (txs @ [t]) ! i = flagged n 1 (r + of_nat (standards (take (Suc i) (txs @ [t]))))"
  proof cases
    case 1
    then show ?thesis using assms(1) by (simp add: numbered_def nth_append)
  next
    case 2
    then show ?thesis using assms(2, 3) by (auto simp: standards_append add.assoc add.commute)
  qed
qed

lemma send_burst_inv: "client_inv n r s \<Longrightarrow> lc_connected s \<Longrightarrow> 17 \<le> n \<Longrightarrow> client_inv n r (send_burst sends xs s)"
proof (induction sends xs s rule: send_burst.induct)
  case (2 sends x xs s)
  then show ?case by (auto simp: Let_def client_inv_def numbered_append standards_append add.assoc add.commute)
qed simp

lemma client_tick_inv: "17 \<le> n \<Longrightarrow> moves (keeps (client_inv n r)) (client_tick rnd tick)"
  by (auto simp: client_tick_def moves_def keeps_def handler_simps send_burst_inv split: prod.splits outcome.splits)

lemma client_send_inv:
  assumes "client_send rnd b ticks (client_new n rate nodes k config r) = (s, e)" and "17 \<le> n"
  shows "client_inv n r s"
proof -
  have "moves (keeps (client_inv n r)) (each (client_tick rnd) ticks)"
    by (rule keeping.each) (rule client_tick_inv [OF assms(2)])
  moreover have "client_inv n r (client_new n rate nodes k config r)"
    by (simp add: client_inv_def client_new_def numbered_def standards_def)
  ultimately show ?thesis using assms(1)
    by (auto simp: client_send_def handler_simps moves_def keeps_def split: prod.splits outcome.splits if_splits)
qed

lemma standards_take: "i \<le> j \<Longrightarrow> standards (take i txs) \<le> standards (take j txs)"
proof -
  assume "i \<le> j"
  then have "take j txs = take i txs @ take (j - i) (drop i txs)"
    by (metis le_add_diff_inverse take_add)
  then show ?thesis by (simp add: standards_def)
qed

lemma numbered_cases:
  assumes "numbered n r txs" and "17 \<le> n" and "i < length txs"
  shows "hd (txs ! i) = 0 \<and> txs ! i = flagged n 0 (of_nat i) \<or>
    hd (txs ! i) = 1 \<and> txs ! i = flagged n 1 (r + of_nat (standards (take (Suc i) txs)))"
  using assms(1, 3) hd_flagged [OF assms(2)] by (metis numbered_def)

lemma numbered_distinct:
  assumes "numbered n r txs" and "17 \<le> n" and "length txs < 2 ^ 64"
  shows "distinct txs"
proof -
  have "txs ! i \<noteq> txs ! j" if ij: "i < j" "j < length txs" for i j
  proof
    assume same: "txs ! i = txs ! j"
    have small: "(of_nat a :: u64) = of_nat b \<longleftrightarrow> a = b" if "a \<le> length txs" "b \<le> length txs" for a b
      using that assms(3) by (simp add: word_unat_eq_iff unat_of_nat take_bit_nat_eq_self)
    have "hd (txs ! i) = 0 \<and> txs ! i = flagged n 0 (of_nat i) \<or> hd (txs ! i) = 1 \<and>
        txs ! i = flagged n 1 (r + of_nat (standards (take (Suc i) txs)))" if "i < length txs" for i
      using numbered_cases [OF assms(1, 2) that] .
    from this [of i] this [of j] consider "txs ! j = flagged n 0 (of_nat j)" "txs ! i = flagged n 0 (of_nat i)"
      | "txs ! j = flagged n 1 (r + of_nat (standards (take (Suc j) txs)))" "txs ! i = flagged n 1 (r + of_nat (standards (take (Suc i) txs)))"
      using same ij by fastforce
    then show False
    proof cases
      case 1
      then show False using same small [of i j] assms(2) that by simp
    next
      case 2
      have "hd (txs ! j) = 1" by (subst 2(1)) (simp add: assms(2))
      then have "standards (take (Suc j) txs) = Suc (standards (take j txs))"
        using ij(2) by (simp add: take_Suc_conv_app_nth standards_append)
      moreover have "standards (take (Suc i) txs) \<le> standards (take j txs)" using that by (intro standards_take) simp
      moreover have "standards (take (Suc j) txs) \<le> length txs"
        by (metis standards_def length_filter_le le_trans length_take min.cobounded1)
      moreover have "(of_nat (standards (take (Suc j) txs)) :: u64) = of_nat (standards (take (Suc i) txs))"
        using 2(1) [symmetric] unfolding same [symmetric] 2(2) by (simp add: assms(2))
      ultimately show False using small [of "standards (take (Suc j) txs)" "standards (take (Suc i) txs)"] by simp
    qed
  qed
  then show ?thesis by (metis distinct_conv_nth linorder_neqE_nat)
qed

text \<open>
  the transactions of a run, all of the size asked for, differ from each other as long as
  there are fewer than \<open>2 ^ 64\<close>; a worker takes one for a sample exactly when its first byte is
  0, and the number it then reads is the place of the transaction in the run.
\<close>

theorem client_transactions:
  assumes "client_send rnd b ticks (client_new n rate nodes k config r) = (s, e)" and "17 \<le> n" and "length (lc_sent s) < 2 ^ 64"
  shows "distinct (lc_sent s) \<and> (\<forall>i < length (lc_sent s). length (lc_sent s ! i) = n \<and>
    (let tx = transaction_of now (lc_sent s ! i) in (is_sample tx \<longleftrightarrow> hd (lc_sent s ! i) = 0) \<and>
      (is_sample tx \<longrightarrow> unat (sample_id tx) = i)))"
proof -
  have num: "numbered n r (lc_sent s)" using client_send_inv [OF assms(1, 2)] by (simp add: client_inv_def)
  have "unat (of_nat i :: u64) = i" if "i < length (lc_sent s)" for i
    using that assms(3) by (simp add: unat_of_nat take_bit_nat_eq_self)
  moreover have "sample_id (transaction_of now (flagged n 0 k)) = k" for k
    using assms(2) by (cases n) (simp_all add: sample_id_def transaction_of_def flagged_def resize_def u64_of_be_bytes take_bit_word_eq_self)
  ultimately show ?thesis
    using num assms(2) numbered_distinct [OF num assms(2, 3)]
    by (fastforce simp: numbered_def is_sample_def transaction_of_def Let_def)
qed

text \<open>with transactions of fewer than 17 bytes nothing is sent.\<close>

theorem small_transactions_refused:
  "n < 17 \<Longrightarrow> client_send rnd b ticks (client_new n rate nodes k config r) =
    (client_new n rate nodes k config r, Fail TransactionTooSmall)"
  by (simp add: client_send_def client_new_def handler_simps)

end
