(* ===== verification/Waiting_Tasks.thy ===== *)
theory Waiting_Tasks
  imports Store Messages "HOL-Library.Multiset"
begin

text \<open>
  The timers (\<open>primary/src/timer.rs\<close>) and the certificate waiter
  (\<open>primary/src/certificate_waiter.rs\<close>), which no task sends to any more. Time is in
  milliseconds. The four timers of the source differ only in what they hand out when they fire:
  a slot and view, a vote, a consensus vote or a header, the parameter of \<open>timer\<close>.
\<close>

section \<open>Timers\<close>

record 'a timer =
  tmr_output :: 'a
  tmr_duration :: u64
  tmr_deadline :: nat

definition timer_new :: "nat \<Rightarrow> 'a \<Rightarrow> u64 \<Rightarrow> 'a timer" where
  "timer_new now a d = \<lparr>tmr_output = a, tmr_duration = d, tmr_deadline = now + unat d\<rparr>"

definition timer_reset :: "nat \<Rightarrow> 'a timer \<Rightarrow> 'a timer" where
  "timer_reset now t = t\<lparr>tmr_deadline := now + unat (tmr_duration t)\<rparr>"

definition timer_poll :: "nat \<Rightarrow> 'a timer \<Rightarrow> 'a option" where
  "timer_poll now t = (if tmr_deadline t \<le> now then Some (tmr_output t) else None)"

text \<open>
  a timer that is reset at any moments, in order, and polled later hands out its value exactly
  when its duration has passed since the last reset, or since the start.
\<close>

theorem timer_fires:
  "timer_poll now (fold timer_reset resets (timer_new start a d)) =
    (if last (start # resets) + unat d \<le> now then Some a else None)"
proof -
  have "fold timer_reset resets (timer_new start a d) = timer_new (last (start # resets)) a d"
    by (induction resets arbitrary: start) (simp_all add: timer_new_def timer_reset_def)
  then show ?thesis by (simp add: timer_poll_def timer_new_def)
qed

section \<open>The certificate waiter\<close>

record certificate_waiter =
  cw_waiting :: "(key list \<times> certificate) list"
  cw_core :: "certificate list"

text \<open>
  A turn: a certificate arrives, or the waiter at a place of the pool has all it waits for. The
  second cannot happen before the keys are in the store, whose state is part of the event.
\<close>

datatype certificate_event = CwReceive certificate | CwNext nat "key \<rightharpoonup> val"

definition cw_wait_for :: "certificate \<Rightarrow> key list" where
  "cw_wait_for c = [digest_bytes (cert_header_digest c)]"

definition cw_ready :: "(key \<rightharpoonup> val) \<Rightarrow> key list \<times> certificate \<Rightarrow> bool" where
  "cw_ready db w \<longleftrightarrow> list_all (\<lambda>k. db k \<noteq> None) (fst w)"

fun certificate_turn :: "certificate_event \<Rightarrow> certificate_waiter \<Rightarrow> certificate_waiter" where
  "certificate_turn (CwReceive c) s = s\<lparr>cw_waiting := cw_waiting s @ [(cw_wait_for c, c)]\<rparr>"
| "certificate_turn (CwNext i db) s = (if i < length (cw_waiting s) \<and> cw_ready db (cw_waiting s ! i)
     then s\<lparr>cw_waiting := take i (cw_waiting s) @ drop (Suc i) (cw_waiting s),
       cw_core := cw_core s @ [snd (cw_waiting s ! i)]\<rparr>
     else s)"

definition certificate_run :: "certificate_event list \<Rightarrow> certificate_waiter" where
  "certificate_run es = fold certificate_turn es \<lparr>cw_waiting = [], cw_core = []\<rparr>"

fun cw_input :: "certificate_event \<Rightarrow> certificate list" where
  "cw_input (CwReceive c) = [c]"
| "cw_input _ = []"

definition cw_all :: "certificate_waiter \<Rightarrow> certificate multiset" where
  "cw_all s = mset (cw_core s) + image_mset snd (mset (cw_waiting s))"

lemma cw_all_turn: "cw_all (certificate_turn e s) = cw_all s + mset (cw_input e)"
proof (cases e)
  case (CwNext i db)
  have "mset (cw_waiting s) = mset (take i (cw_waiting s)) + {#cw_waiting s ! i#} + mset (drop (Suc i) (cw_waiting s))"
    if "i < length (cw_waiting s)"
    using arg_cong [OF id_take_nth_drop [OF that], of mset] by simp
  then show ?thesis by (auto simp: CwNext cw_all_def)
qed (simp add: cw_all_def)

text \<open>
  no certificate is lost or duplicated: those handed to the core and those in the pool are
  those received, however the waiters become ready.
\<close>

theorem certificates_kept: "cw_all (certificate_run es) = mset (concat (map cw_input es))"
proof -
  have "cw_all (fold certificate_turn es s) = cw_all s + mset (concat (map cw_input es))" for s
    by (induction es arbitrary: s) (simp_all add: cw_all_turn)
  then show ?thesis by (simp add: certificate_run_def) (simp add: cw_all_def)
qed

definition cw_ok :: "certificate_waiter \<Rightarrow> bool" where
  "cw_ok s \<longleftrightarrow> (\<forall>w \<in> set (cw_waiting s). fst w = cw_wait_for (snd w))"

lemma cw_ok_turn: "cw_ok s \<Longrightarrow> cw_ok (certificate_turn e s)"
  by (cases e) (auto simp: cw_ok_def dest: in_set_takeD in_set_dropD)

lemma cw_ok_run: "cw_ok (certificate_run es)"
proof -
  have "cw_ok s \<Longrightarrow> cw_ok (fold certificate_turn es s)" for s
    by (induction es arbitrary: s) (simp_all add: cw_ok_turn)
  moreover have "cw_ok \<lparr>cw_waiting = [], cw_core = []\<rparr>" by (simp add: cw_ok_def)
  ultimately show ?thesis unfolding certificate_run_def .
qed

lemma cw_waiting_keys: "(ks, c) \<in> set (cw_waiting (certificate_run es)) \<Longrightarrow> ks = cw_wait_for c"
  using cw_ok_run [of es] by (fastforce simp: cw_ok_def)

text \<open>as soon as the header of a waiting certificate is in the store, the next turn can hand it to the core.\<close>

theorem certificate_can_go:
  assumes "c \<in># cw_all (certificate_run es)" and "c \<notin> set (cw_core (certificate_run es))"
    and "db (digest_bytes (cert_header_digest c)) \<noteq> None"
  shows "\<exists>i. c \<in> set (cw_core (certificate_run (es @ [CwNext i db])))"
proof -
  obtain ks where w: "(ks, c) \<in> set (cw_waiting (certificate_run es))" using assms(1, 2) by (auto simp: cw_all_def)
  then obtain i where "i < length (cw_waiting (certificate_run es))" "cw_waiting (certificate_run es) ! i = (cw_wait_for c, c)"
    using w unfolding cw_waiting_keys [OF w] in_set_conv_nth by blast
  then show ?thesis using assms(3)
    by (intro exI [of _ i]) (simp add: certificate_run_def cw_ready_def cw_wait_for_def)
qed

end
