(* ===== verification/HotStuff_Messages.thy ===== *)
theory HotStuff_Messages
  imports Aggregators Leader
begin

text \<open>
  The messages of the HotStuff crate (\<open>hotstuff/src/messages.rs\<close>, \<open>error.rs\<close>,
  \<open>mempool.rs\<close>), its vote aggregator (\<open>aggregator.rs\<close>) and its leaders (\<open>leader.rs\<close>).

  The crate was written for an earlier certificate type of the primary, with a header inside and
  a round; the present one has neither. So certificates are a type variable \<open>'c\<close>, and what the
  crate uses of them (\<open>header.id\<close>, \<open>round()\<close>, \<open>verify\<close>) and the encoding of blocks by
  \<open>bincode\<close> are fields of \<open>hs_env\<close>, which extends the cryptographic parameters.

  Both makers of the aggregator are interpretations of the locale \<open>weighted_collector\<close>, which
  was proved for those of the primary: each hands out one certificate, with the weight of a
  quorum.
\<close>

type_synonym hs_round = u64

datatype hs_error =
    HsNetworkError
  | HsSerializationError
  | HsStoreError
  | HsNotInCommittee public_key
  | HsInvalidSignature crypto_error
  | HsAuthorityReuse public_key
  | HsUnknownAuthority public_key
  | HsQCRequiresQuorum
  | HsTCRequiresQuorum
  | HsMalformedBlock digest
  | HsWrongLeader digest public_key hs_round
  | HsInvalidPayload
  | HsTooOld digest hs_round
  | HsDagError dag_error

record hs_qc =
  hsq_hash :: digest
  hsq_round :: hs_round
  hsq_votes :: "(public_key \<times> signature) list"

record hs_tc =
  hst_round :: hs_round
  hst_votes :: "(public_key \<times> signature \<times> hs_round) list"

record 'c hs_block =
  hsb_qc :: hs_qc
  hsb_tc :: "hs_tc option"
  hsb_author :: public_key
  hsb_round :: hs_round
  hsb_payload :: "'c list"
  hsb_signature :: signature

record hs_vote =
  hsv_hash :: digest
  hsv_round :: hs_round
  hsv_author :: public_key
  hsv_signature :: signature

record hs_timeout =
  hso_high_qc :: hs_qc
  hso_round :: hs_round
  hso_author :: public_key
  hso_signature :: signature

record 'c hs_env = prims +
  hse_header_id :: "'c \<Rightarrow> digest"
  hse_cert_round :: "'c \<Rightarrow> u64"
  hse_cert_verify :: "committee \<Rightarrow> 'c \<Rightarrow> (dag_error, unit) outcome"
  hse_encode :: "'c hs_block \<Rightarrow> u8 list"
  hse_decode :: "u8 list \<Rightarrow> 'c hs_block option"

section \<open>Digests\<close>

definition hs_vote_input :: "digest \<Rightarrow> hs_round \<Rightarrow> u8 list" where
  "hs_vote_input d r = digest_bytes d @ le_bytes 8 r"

definition hs_timeout_input :: "hs_round \<Rightarrow> hs_round \<Rightarrow> u8 list" where
  "hs_timeout_input r high_qc_round = le_bytes 8 r @ le_bytes 8 high_qc_round"

definition hs_block_input :: "('c, 'p) hs_env_scheme \<Rightarrow> 'c hs_block \<Rightarrow> u8 list" where
  "hs_block_input E b = key_bytes (hsb_author b) @ le_bytes 8 (hsb_round b) @
     concat (map (digest_bytes \<circ> hse_header_id E) (hsb_payload b)) @ digest_bytes (hsq_hash (hsb_qc b))"

definition hs_vote_digest :: "'p prims_scheme \<Rightarrow> digest \<Rightarrow> hs_round \<Rightarrow> digest" where
  "hs_vote_digest P d r = hash32 P (hs_vote_input d r)"

definition hs_timeout_digest :: "'p prims_scheme \<Rightarrow> hs_round \<Rightarrow> hs_round \<Rightarrow> digest" where
  "hs_timeout_digest P r high_qc_round = hash32 P (hs_timeout_input r high_qc_round)"

definition hs_block_digest :: "('c, 'p) hs_env_scheme \<Rightarrow> 'c hs_block \<Rightarrow> digest" where
  "hs_block_digest E b = hash32 E (hs_block_input E b)"

section \<open>Constructors\<close>

definition hs_qc_genesis :: hs_qc where
  "hs_qc_genesis = \<lparr>hsq_hash = default_digest, hsq_round = 0, hsq_votes = []\<rparr>"

definition hs_qc_eq :: "hs_qc \<Rightarrow> hs_qc \<Rightarrow> bool" where
  "hs_qc_eq q q' \<longleftrightarrow> hsq_hash q = hsq_hash q' \<and> hsq_round q = hsq_round q'"

definition hs_qc_timeout :: "hs_qc \<Rightarrow> bool" where
  "hs_qc_timeout q \<longleftrightarrow> hsq_hash q = default_digest \<and> hsq_round q \<noteq> 0"

definition hs_block_genesis :: "'c hs_block" where
  "hs_block_genesis = \<lparr>hsb_qc = hs_qc_genesis, hsb_tc = None, hsb_author = default_key, hsb_round = 0,
     hsb_payload = [], hsb_signature = default_signature\<rparr>"

definition hs_block_new :: "('c, 'p) hs_env_scheme \<Rightarrow> (digest \<Rightarrow> signature) \<Rightarrow> hs_qc \<Rightarrow> hs_tc option \<Rightarrow> public_key \<Rightarrow> hs_round
    \<Rightarrow> 'c list \<Rightarrow> 'c hs_block" where
  "hs_block_new E sign q t author r payload =
     (let b = \<lparr>hsb_qc = q, hsb_tc = t, hsb_author = author, hsb_round = r, hsb_payload = payload,
        hsb_signature = default_signature\<rparr>
      in b\<lparr>hsb_signature := sign (hs_block_digest E b)\<rparr>)"

definition hs_vote_new :: "('c, 'p) hs_env_scheme \<Rightarrow> (digest \<Rightarrow> signature) \<Rightarrow> 'c hs_block \<Rightarrow> public_key \<Rightarrow> hs_vote" where
  "hs_vote_new E sign b author = \<lparr>hsv_hash = hs_block_digest E b, hsv_round = hsb_round b, hsv_author = author,
     hsv_signature = sign (hs_vote_digest E (hs_block_digest E b) (hsb_round b))\<rparr>"

definition hs_timeout_new :: "'p prims_scheme \<Rightarrow> (digest \<Rightarrow> signature) \<Rightarrow> hs_qc \<Rightarrow> hs_round \<Rightarrow> public_key \<Rightarrow> hs_timeout" where
  "hs_timeout_new P sign q r author = \<lparr>hso_high_qc = q, hso_round = r, hso_author = author,
     hso_signature = sign (hs_timeout_digest P r (hsq_round q))\<rparr>"

section \<open>Verification\<close>

definition hs_member_signed :: "'p prims_scheme \<Rightarrow> committee \<Rightarrow> public_key \<Rightarrow> digest \<Rightarrow> signature \<Rightarrow> (hs_error, unit) outcome" where
  "hs_member_signed P c author d s =
     then_r (ensure_r (stake_of c author > 0) (HsUnknownAuthority author))
       (map_err HsInvalidSignature (sig_verify P s d author))"

definition hs_qc_verify :: "'p prims_scheme \<Rightarrow> committee \<Rightarrow> hs_qc \<Rightarrow> (hs_error, unit) outcome" where
  "hs_qc_verify P c q =
     bind_r (tally HsAuthorityReuse HsUnknownAuthority c (map fst (hsq_votes q)) {} 0) (\<lambda>weight.
     then_r (ensure_r (weight \<ge> quorum_threshold c) HsQCRequiresQuorum)
       (map_err HsInvalidSignature (verify_batch P (hs_vote_digest P (hsq_hash q) (hsq_round q)) (hsq_votes q))))"

definition hs_tc_verify :: "'p prims_scheme \<Rightarrow> committee \<Rightarrow> hs_tc \<Rightarrow> (hs_error, unit) outcome" where
  "hs_tc_verify P c t =
     bind_r (tally HsAuthorityReuse HsUnknownAuthority c (map fst (hst_votes t)) {} 0) (\<lambda>weight.
     then_r (ensure_r (weight \<ge> quorum_threshold c) HsTCRequiresQuorum)
       (each_r (\<lambda>(author, s, high_qc_round).
          map_err HsInvalidSignature (sig_verify P s (hs_timeout_digest P (hst_round t) high_qc_round) author)) (hst_votes t)))"

definition hs_qc_check :: "'p prims_scheme \<Rightarrow> committee \<Rightarrow> hs_qc \<Rightarrow> (hs_error, unit) outcome" where
  "hs_qc_check P c q = (if hs_qc_eq q hs_qc_genesis then Done () else hs_qc_verify P c q)"

definition hs_block_verify :: "('c, 'p) hs_env_scheme \<Rightarrow> committee \<Rightarrow> 'c hs_block \<Rightarrow> (hs_error, unit) outcome" where
  "hs_block_verify E c b =
     then_r (hs_member_signed E c (hsb_author b) (hs_block_digest E b) (hsb_signature b))
     (then_r (hs_qc_check E c (hsb_qc b))
       (case hsb_tc b of None \<Rightarrow> Done () | Some t \<Rightarrow> hs_tc_verify E c t))"

definition hs_vote_verify :: "'p prims_scheme \<Rightarrow> committee \<Rightarrow> hs_vote \<Rightarrow> (hs_error, unit) outcome" where
  "hs_vote_verify P c v = hs_member_signed P c (hsv_author v) (hs_vote_digest P (hsv_hash v) (hsv_round v)) (hsv_signature v)"

definition hs_timeout_verify :: "'p prims_scheme \<Rightarrow> committee \<Rightarrow> hs_timeout \<Rightarrow> (hs_error, unit) outcome" where
  "hs_timeout_verify P c t =
     then_r (hs_member_signed P c (hso_author t) (hs_timeout_digest P (hso_round t) (hsq_round (hso_high_qc t))) (hso_signature t))
       (hs_qc_check P c (hso_high_qc t))"

definition high_qc_rounds :: "hs_tc \<Rightarrow> hs_round list" where
  "high_qc_rounds t = map (snd \<circ> snd) (hst_votes t)"

text \<open>\<open>MempoolDriver::verify\<close>: the certificates of the payload.\<close>

definition hs_payload_verify :: "('c, 'p) hs_env_scheme \<Rightarrow> committee \<Rightarrow> 'c hs_block \<Rightarrow> (hs_error, unit) outcome" where
  "hs_payload_verify E c b = each_r (\<lambda>x. map_err HsDagError (hse_cert_verify E c x)) (hsb_payload b)"

text \<open>The leader of a round; \<open>None\<close> is the panic of the code on an empty committee.\<close>

definition hs_leader :: "committee \<Rightarrow> hs_round \<Rightarrow> public_key option" where
  "hs_leader c r = (if committee_size c = 0 then None else Some (leader_keys c ! (unat r mod committee_size c)))"

section \<open>Aggregator\<close>

record hs_qc_maker =
  hqm_weight :: stake
  hqm_votes :: "(public_key \<times> signature) list"
  hqm_used :: "public_key set"

record hs_tc_maker =
  htm_weight :: stake
  htm_votes :: "(public_key \<times> signature \<times> hs_round) list"
  htm_used :: "public_key set"

definition hs_qc_maker_new :: hs_qc_maker where
  "hs_qc_maker_new = \<lparr>hqm_weight = 0, hqm_votes = [], hqm_used = {}\<rparr>"

definition hs_tc_maker_new :: hs_tc_maker where
  "hs_tc_maker_new = \<lparr>htm_weight = 0, htm_votes = [], htm_used = {}\<rparr>"

definition hs_qc_append :: "committee \<Rightarrow> hs_vote \<Rightarrow> (hs_qc_maker, hs_error, hs_qc option) handler" where
  "hs_qc_append c v m =
     (if hsv_author v \<in> hqm_used m then (m, Fail (HsAuthorityReuse (hsv_author v)))
      else let m' = m\<lparr>hqm_used := insert (hsv_author v) (hqm_used m), hqm_votes := hqm_votes m @ [(hsv_author v, hsv_signature v)],
                      hqm_weight := hqm_weight m + stake_of c (hsv_author v)\<rparr> in
           if hqm_weight m' \<ge> quorum_threshold c
           then (m'\<lparr>hqm_weight := 0\<rparr>,
                 Done (Some \<lparr>hsq_hash = hsv_hash v, hsq_round = hsv_round v, hsq_votes = hqm_votes m'\<rparr>))
           else (m', Done None))"

definition hs_tc_append :: "committee \<Rightarrow> hs_timeout \<Rightarrow> (hs_tc_maker, hs_error, hs_tc option) handler" where
  "hs_tc_append c t m =
     (if hso_author t \<in> htm_used m then (m, Fail (HsAuthorityReuse (hso_author t)))
      else let m' = m\<lparr>htm_used := insert (hso_author t) (htm_used m),
                      htm_votes := htm_votes m @ [(hso_author t, hso_signature t, hsq_round (hso_high_qc t))],
                      htm_weight := htm_weight m + stake_of c (hso_author t)\<rparr> in
           if htm_weight m' \<ge> quorum_threshold c
           then (m'\<lparr>htm_weight := 0\<rparr>, Done (Some \<lparr>hst_round = hso_round t, hst_votes = htm_votes m'\<rparr>))
           else (m', Done None))"

record hs_aggregator =
  hag_votes :: "hs_round \<rightharpoonup> (digest \<rightharpoonup> hs_qc_maker)"
  hag_timeouts :: "hs_round \<rightharpoonup> hs_tc_maker"

definition hs_aggregator_new :: hs_aggregator where
  "hs_aggregator_new = \<lparr>hag_votes = (\<lambda>_. None), hag_timeouts = (\<lambda>_. None)\<rparr>"

definition hs_qc_maker_at :: "hs_round \<Rightarrow> digest \<Rightarrow> hs_aggregator \<Rightarrow> hs_qc_maker" where
  "hs_qc_maker_at r d a = (case hag_votes a r of None \<Rightarrow> hs_qc_maker_new
     | Some ms \<Rightarrow> (case ms d of None \<Rightarrow> hs_qc_maker_new | Some m \<Rightarrow> m))"

definition hs_tc_maker_at :: "hs_round \<Rightarrow> hs_aggregator \<Rightarrow> hs_tc_maker" where
  "hs_tc_maker_at r a = (case hag_timeouts a r of None \<Rightarrow> hs_tc_maker_new | Some m \<Rightarrow> m)"

definition hs_add_vote :: "'p prims_scheme \<Rightarrow> committee \<Rightarrow> hs_vote \<Rightarrow> (hs_aggregator, hs_error, hs_qc option) handler" where
  "hs_add_vote P c v a =
     (let r = hsv_round v; d = hs_vote_digest P (hsv_hash v) r;
          (m, res) = hs_qc_append c v (hs_qc_maker_at r d a);
          ms = (case hag_votes a r of None \<Rightarrow> (\<lambda>_. None) | Some ms \<Rightarrow> ms)
      in (a\<lparr>hag_votes := (hag_votes a)(r \<mapsto> ms(d \<mapsto> m))\<rparr>, res))"

definition hs_add_timeout :: "committee \<Rightarrow> hs_timeout \<Rightarrow> (hs_aggregator, hs_error, hs_tc option) handler" where
  "hs_add_timeout c t a =
     (let (m, res) = hs_tc_append c t (hs_tc_maker_at (hso_round t) a)
      in (a\<lparr>hag_timeouts := (hag_timeouts a)(hso_round t \<mapsto> m)\<rparr>, res))"

definition hs_aggregator_cleanup :: "hs_round \<Rightarrow> hs_aggregator \<Rightarrow> hs_aggregator" where
  "hs_aggregator_cleanup r a = a\<lparr>hag_votes := retain (\<lambda>k _. k \<ge> r) (hag_votes a),
     hag_timeouts := retain (\<lambda>k _. k \<ge> r) (hag_timeouts a)\<rparr>"

section \<open>The makers are weighted collectors\<close>

fun hs_emits :: "(hs_error, 'q option) outcome \<Rightarrow> bool" where
  "hs_emits (Done (Some _)) = True"
| "hs_emits _ = False"

interpretation hqm: weighted_collector hs_qc_append hsv_author hqm_used "map fst \<circ> hqm_votes" HsAuthorityReuse
    hqm_weight "\<lambda>c _. quorum_threshold c" hs_emits
  by unfold_locales (auto simp: hs_qc_append_def Let_def total_lt_twice)

interpretation htm: weighted_collector hs_tc_append hso_author htm_used "map fst \<circ> htm_votes" HsAuthorityReuse
    htm_weight "\<lambda>c _. quorum_threshold c" hs_emits
  by unfold_locales (auto simp: hs_tc_append_def Let_def total_lt_twice)

lemma hs_emits_iff: "hs_emits r \<longleftrightarrow> (\<exists>q. r = Done (Some q))"
  by (cases r rule: hs_emits.cases) auto

lemma hs_new_waiting:
  assumes "committee_ok c"
  shows "hqm.waiting c hs_qc_maker_new" "htm.waiting c hs_tc_maker_new"
  using thresholds [OF assms] assms
  by (auto simp: hqm.waiting_def hqm.good_def hqm.heard_def hs_qc_maker_new_def
      htm.waiting_def htm.good_def htm.heard_def hs_tc_maker_new_def committee_ok_def)

text \<open>
  a HotStuff aggregator hands out at most one QC per block and at most one TC per round,
  whatever votes and timeouts arrive, repeated ones included.
\<close>

theorem hs_certificates_once:
  assumes "committee_ok c"
  shows "length (filter hs_emits (snd (feed (hs_qc_append c) votes hs_qc_maker_new))) \<le> 1 \<and>
    length (filter hs_emits (snd (feed (hs_tc_append c) timeouts hs_tc_maker_new))) \<le> 1"
  using hqm.emits_once [OF assms hs_new_waiting(1) [OF assms]] htm.emits_once [OF assms hs_new_waiting(2) [OF assms]]
  by blast

definition hs_sample_timeout :: "256 word \<Rightarrow> hs_timeout" where
  "hs_sample_timeout k = \<lparr>hso_high_qc = hs_qc_genesis, hso_round = 1, hso_author = PublicKey k, hso_signature = default_signature\<rparr>"

theorem hs_certificates_once_witness:
  "length (filter hs_emits (snd (feed (hs_tc_append sample_committee)
     (map hs_sample_timeout [1, 2, 2, 3, 4]) hs_tc_maker_new))) \<le> 1"
  using hs_certificates_once [OF sample_ok, of "[]" "map hs_sample_timeout [1, 2, 2, 3, 4]"] by blast

end
