(* ===== verification/HotStuff_Core.thy ===== *)
theory HotStuff_Core
  imports HotStuff_Messages Store
begin

text \<open>
  The protocol core of the HotStuff crate (\<open>hotstuff/src/core.rs\<close>) with the synchronous part
  of its synchronizer (\<open>synchronizer.rs\<close>).

  Channels and the network are lists to which is appended; the store is the list of the writes of
  the core, latest first. \<open>hsc_signed\<close> is the log of the requests to the signature service, each
  with the vote or timeout it is for. \<open>hsc_overflow\<close> is set when \<open>round + 1\<close> overflows in
  \<open>advance_round\<close>: a debug build stops there, a release build goes on with round 0.
\<close>

datatype 'c hs_message =
    HsPropose "'c hs_block"
  | HsVote hs_vote
  | HsTimeout hs_timeout
  | HsTC hs_tc
  | HsSyncRequest digest public_key

datatype 'c hs_entry =
    VoteFor "'c hs_block"
  | TimeoutAt hs_round hs_round

record 'c hs_core =
  hsc_name :: public_key
  hsc_committee :: committee
  hsc_sign :: "digest \<Rightarrow> signature"
  hsc_store :: "(key \<times> val) list"
  hsc_round :: hs_round
  hsc_last_voted :: hs_round
  hsc_last_committed :: hs_round
  hsc_high_qc :: hs_qc
  hsc_timer_resets :: nat
  hsc_aggregator :: hs_aggregator
  hsc_sync_requests :: "'c hs_block list"
  hsc_to_proposer :: "(hs_round \<times> hs_qc \<times> hs_tc option) list"
  hsc_committed :: "'c list"
  hsc_output :: "'c hs_block list"
  hsc_mempool :: "'c list"
  hsc_sent :: "(socket_addr \<times> 'c hs_message) list"
  hsc_signed :: "'c hs_entry list"
  hsc_overflow :: bool

type_synonym ('c, 'a) hs_handler = "('c hs_core, hs_error, 'a) handler"

definition hs_core_new :: "public_key \<Rightarrow> committee \<Rightarrow> (digest \<Rightarrow> signature) \<Rightarrow> 'c hs_core" where
  "hs_core_new name c sign = \<lparr>hsc_name = name, hsc_committee = c, hsc_sign = sign, hsc_store = [], hsc_round = 1,
     hsc_last_voted = 0, hsc_last_committed = 0, hsc_high_qc = hs_qc_genesis, hsc_timer_resets = 0,
     hsc_aggregator = hs_aggregator_new, hsc_sync_requests = [], hsc_to_proposer = [], hsc_committed = [],
     hsc_output = [], hsc_mempool = [], hsc_sent = [], hsc_signed = [], hsc_overflow = False\<rparr>"

section \<open>Store and ancestors\<close>

definition hs_store_block :: "('c, 'p) hs_env_scheme \<Rightarrow> 'c hs_block \<Rightarrow> ('c, unit) hs_handler" where
  "hs_store_block E b = modify (\<lambda>s. s\<lparr>hsc_store := (digest_bytes (hs_block_digest E b), hse_encode E b) # hsc_store s\<rparr>)"

definition hs_get_parent :: "('c, 'p) hs_env_scheme \<Rightarrow> 'c hs_block \<Rightarrow> ('c, 'c hs_block option) hs_handler" where
  "hs_get_parent E b =
     (if hs_qc_eq (hsb_qc b) hs_qc_genesis then ret (Some hs_block_genesis)
      else with_state (\<lambda>s. case map_of (hsc_store s) (digest_bytes (hsq_hash (hsb_qc b))) of
          Some bytes \<Rightarrow> (case hse_decode E bytes of None \<Rightarrow> fail HsSerializationError | Some x \<Rightarrow> ret (Some x))
        | None \<Rightarrow> seq_h (modify (\<lambda>s. s\<lparr>hsc_sync_requests := hsc_sync_requests s @ [b]\<rparr>)) (ret None)))"

definition hs_get_ancestors :: "('c, 'p) hs_env_scheme \<Rightarrow> 'c hs_block \<Rightarrow> ('c, ('c hs_block \<times> 'c hs_block) option) hs_handler" where
  "hs_get_ancestors E b = bind_h (hs_get_parent E b) (\<lambda>r. case r of
     None \<Rightarrow> ret None
   | Some b1 \<Rightarrow> bind_h (hs_get_parent E b1) (\<lambda>r0. bind_h (unwrap r0) (\<lambda>b0. ret (Some (b0, b1)))))"

section \<open>Voting\<close>

definition hs_rule_2 :: "'c hs_block \<Rightarrow> ('c, bool) hs_handler" where
  "hs_rule_2 b = (let direct = (hsq_round (hsb_qc b) + 1 = hsb_round b) in
     case hsb_tc b of
       None \<Rightarrow> ret direct
     | Some t \<Rightarrow> if high_qc_rounds t = [] then panic
         else ret (direct \<or> hst_round t + 1 = hsb_round b \<and> hsq_round (hsb_qc b) \<ge> Max (set (high_qc_rounds t))))"

definition hs_record_vote :: "'c hs_block \<Rightarrow> 'c hs_core \<Rightarrow> 'c hs_core" where
  "hs_record_vote b s = s\<lparr>hsc_last_voted := max (hsc_last_voted s) (hsb_round b), hsc_signed := hsc_signed s @ [VoteFor b]\<rparr>"

definition hs_make_vote :: "('c, 'p) hs_env_scheme \<Rightarrow> 'c hs_block \<Rightarrow> ('c, hs_vote option) hs_handler" where
  "hs_make_vote E b = with_state (\<lambda>s. bind_h (hs_rule_2 b) (\<lambda>rule_2.
     if \<not> (hsb_round b > hsc_last_voted s \<and> rule_2) then ret None
     else seq_h (modify (hs_record_vote b)) (ret (Some (hs_vote_new E (hsc_sign s) b (hsc_name s))))))"

section \<open>Committing\<close>

fun hs_collect :: "nat \<Rightarrow> ('c, 'p) hs_env_scheme \<Rightarrow> 'c hs_block \<Rightarrow> 'c hs_block list \<Rightarrow> ('c, 'c hs_block list) hs_handler" where
  "hs_collect 0 E parent to_commit = diverge"
| "hs_collect (Suc n) E parent to_commit = with_state (\<lambda>s.
     if hsc_last_committed s + 1 < hsb_round parent
     then bind_h (hs_get_parent E parent) (\<lambda>r. bind_h (unwrap r) (\<lambda>ancestor.
          hs_collect n E ancestor (to_commit @ [ancestor])))
     else ret to_commit)"

definition hs_deliver :: "'c hs_block \<Rightarrow> ('c, unit) hs_handler" where
  "hs_deliver b = modify (\<lambda>s. s\<lparr>hsc_output := hsc_output s @ [b], hsc_committed := hsc_committed s @ hsb_payload b,
     hsc_mempool := hsc_mempool s @ hsb_payload b\<rparr>)"

definition hs_commit :: "nat \<Rightarrow> ('c, 'p) hs_env_scheme \<Rightarrow> 'c hs_block \<Rightarrow> ('c, unit) hs_handler" where
  "hs_commit n E b = with_state (\<lambda>s.
     if hsc_last_committed s \<ge> hsb_round b then ret ()
     else bind_h (hs_collect n E b [b]) (\<lambda>to_commit.
          seq_h (modify (\<lambda>s. s\<lparr>hsc_last_committed := hsb_round b\<rparr>)) (each hs_deliver (rev to_commit))))"

section \<open>Rounds\<close>

definition hs_update_high_qc :: "hs_qc \<Rightarrow> 'c hs_core \<Rightarrow> 'c hs_core" where
  "hs_update_high_qc q s = (if hsq_round q > hsq_round (hsc_high_qc s) then s\<lparr>hsc_high_qc := q\<rparr> else s)"

definition hs_advance_round :: "hs_round \<Rightarrow> ('c, unit) hs_handler" where
  "hs_advance_round r = with_state (\<lambda>s. if r < hsc_round s then ret ()
     else modify (\<lambda>s. s\<lparr>hsc_timer_resets := hsc_timer_resets s + 1, hsc_round := r + 1,
       hsc_aggregator := hs_aggregator_cleanup (r + 1) (hsc_aggregator s),
       hsc_overflow := hsc_overflow s \<or> r = - 1\<rparr>))"

definition hs_process_qc :: "hs_qc \<Rightarrow> ('c, unit) hs_handler" where
  "hs_process_qc q = seq_h (hs_advance_round (hsq_round q)) (modify (hs_update_high_qc q))"

definition hs_generate_proposal :: "hs_tc option \<Rightarrow> ('c, unit) hs_handler" where
  "hs_generate_proposal t = modify (\<lambda>s. s\<lparr>hsc_to_proposer := hsc_to_proposer s @ [(hsc_round s, hsc_high_qc s, t)]\<rparr>)"

definition hs_propose_as_leader :: "hs_tc option \<Rightarrow> ('c, unit) hs_handler" where
  "hs_propose_as_leader t = with_state (\<lambda>s. bind_h (unwrap (hs_leader (hsc_committee s) (hsc_round s))) (\<lambda>l.
     when_h (hsc_name s = l) (hs_generate_proposal t)))"

definition hs_broadcast :: "'c hs_message \<Rightarrow> 'c hs_core \<Rightarrow> 'c hs_core" where
  "hs_broadcast m s = s\<lparr>hsc_sent := hsc_sent s @
     map (\<lambda>(_, a). (consensus_to_consensus a, m)) (others_consensus (hsc_committee s) (hsc_name s))\<rparr>"

section \<open>Handlers\<close>

definition hs_on_aggregator :: "(hs_aggregator, hs_error, 'a) handler \<Rightarrow> ('c, 'a) hs_handler" where
  "hs_on_aggregator h = zoom hsc_aggregator (\<lambda>t s. s\<lparr>hsc_aggregator := t\<rparr>) h"

definition hs_handle_vote :: "('c, 'p) hs_env_scheme \<Rightarrow> hs_vote \<Rightarrow> ('c, unit) hs_handler" where
  "hs_handle_vote E v = with_state (\<lambda>s. if hsv_round v < hsc_round s then ret ()
     else seq_h (of_result (hs_vote_verify E (hsc_committee s) v))
       (bind_h (hs_on_aggregator (hs_add_vote E (hsc_committee s) v)) (\<lambda>r. case r of
          None \<Rightarrow> ret ()
        | Some q \<Rightarrow> seq_h (hs_process_qc q) (hs_propose_as_leader None))))"

definition hs_handle_timeout :: "('c, 'p) hs_env_scheme \<Rightarrow> hs_timeout \<Rightarrow> ('c, unit) hs_handler" where
  "hs_handle_timeout E t = with_state (\<lambda>s. if hso_round t < hsc_round s then ret ()
     else seq_h (of_result (hs_timeout_verify E (hsc_committee s) t))
       (seq_h (hs_process_qc (hso_high_qc t))
       (bind_h (hs_on_aggregator (hs_add_timeout (hsc_committee s) t)) (\<lambda>r. case r of
          None \<Rightarrow> ret ()
        | Some tc \<Rightarrow> seq_h (hs_advance_round (hst_round tc))
            (seq_h (modify (hs_broadcast (HsTC tc))) (hs_propose_as_leader (Some tc)))))))"

definition hs_record_timeout :: "'c hs_core \<Rightarrow> 'c hs_core" where
  "hs_record_timeout s = s\<lparr>hsc_last_voted := max (hsc_last_voted s) (hsc_round s),
     hsc_signed := hsc_signed s @ [TimeoutAt (hsc_round s) (hsq_round (hsc_high_qc s))],
     hsc_timer_resets := hsc_timer_resets s + 1\<rparr>"

definition hs_local_timeout :: "('c, 'p) hs_env_scheme \<Rightarrow> ('c, unit) hs_handler" where
  "hs_local_timeout E = with_state (\<lambda>s.
     let t = hs_timeout_new E (hsc_sign s) (hsc_high_qc s) (hsc_round s) (hsc_name s)
     in seq_h (modify (hs_broadcast (HsTimeout t) \<circ> hs_record_timeout)) (hs_handle_timeout E t))"

definition hs_send_vote :: "('c, 'p) hs_env_scheme \<Rightarrow> hs_vote \<Rightarrow> ('c, unit) hs_handler" where
  "hs_send_vote E v = with_state (\<lambda>s. bind_h (unwrap (hs_leader (hsc_committee s) (hsc_round s + 1))) (\<lambda>next_leader.
     if next_leader = hsc_name s then hs_handle_vote E v
     else (case consensus_of (hsc_committee s) next_leader of
         Done a \<Rightarrow> modify (\<lambda>s. s\<lparr>hsc_sent := hsc_sent s @ [(consensus_to_consensus a, HsVote v)]\<rparr>)
       | _ \<Rightarrow> panic)))"

definition hs_process_block :: "nat \<Rightarrow> ('c, 'p) hs_env_scheme \<Rightarrow> 'c hs_block \<Rightarrow> ('c, unit) hs_handler" where
  "hs_process_block n E b = bind_h (hs_get_ancestors E b) (\<lambda>r. case r of
     None \<Rightarrow> ret ()
   | Some (b0, b1) \<Rightarrow>
       seq_h (hs_store_block E b)
       (seq_h (when_h (hsb_round b0 + 1 = hsb_round b1) (hs_commit n E b0))
       (with_state (\<lambda>s. if hsb_round b \<noteq> hsc_round s then ret ()
          else bind_h (hs_make_vote E b) (\<lambda>v. case v of None \<Rightarrow> ret () | Some v \<Rightarrow> hs_send_vote E v)))))"

definition hs_handle_proposal :: "nat \<Rightarrow> ('c, 'p) hs_env_scheme \<Rightarrow> 'c hs_block \<Rightarrow> ('c, unit) hs_handler" where
  "hs_handle_proposal n E b = with_state (\<lambda>s. bind_h (unwrap (hs_leader (hsc_committee s) (hsb_round b))) (\<lambda>l.
     seq_h (ensure (hsb_author b = l) (HsWrongLeader (hs_block_digest E b) (hsb_author b) (hsb_round b)))
     (seq_h (of_result (hs_block_verify E (hsc_committee s) b))
     (seq_h (hs_process_qc (hsb_qc b))
     (seq_h (case hsb_tc b of None \<Rightarrow> ret () | Some t \<Rightarrow> hs_advance_round (hst_round t))
     (seq_h (of_result (hs_payload_verify E (hsc_committee s) b))
       (hs_process_block n E b)))))))"

definition hs_handle_tc :: "hs_tc \<Rightarrow> ('c, unit) hs_handler" where
  "hs_handle_tc t = seq_h (hs_advance_round (hst_round t)) (hs_propose_as_leader (Some t))"

text \<open>
  The start of \<open>run\<close> and one turn of its loop. A message of the synchronizer is a panic; errors
  are logged by the loop, which goes on.
\<close>

definition hs_core_start :: "('c, unit) hs_handler" where
  "hs_core_start = seq_h (modify (\<lambda>s. s\<lparr>hsc_timer_resets := hsc_timer_resets s + 1\<rparr>)) (hs_propose_as_leader None)"

datatype 'c hs_core_event =
    HsReceived "'c hs_message"
  | HsLoopback "'c hs_block"
  | HsTimerExpired

fun hs_core_turn :: "nat \<Rightarrow> ('c, 'p) hs_env_scheme \<Rightarrow> 'c hs_core_event \<Rightarrow> ('c, unit) hs_handler" where
  "hs_core_turn n E (HsReceived (HsPropose b)) = hs_handle_proposal n E b"
| "hs_core_turn n E (HsReceived (HsVote v)) = hs_handle_vote E v"
| "hs_core_turn n E (HsReceived (HsTimeout t)) = hs_handle_timeout E t"
| "hs_core_turn n E (HsReceived (HsTC t)) = hs_handle_tc t"
| "hs_core_turn n E (HsReceived (HsSyncRequest d a)) = panic"
| "hs_core_turn n E (HsLoopback b) = hs_process_block n E b"
| "hs_core_turn n E HsTimerExpired = hs_local_timeout E"

end
