(* ===== verification/HotStuff_Node.thy ===== *)
theory HotStuff_Node
  imports HotStuff_Core
begin

text \<open>
  The other tasks of a HotStuff node: the synchronizer that fetches missing parents
  (\<open>hotstuff/src/synchronizer.rs\<close>), the proposer (\<open>proposer.rs\<close>), the helper (\<open>helper.rs\<close>) and
  the dispatch of network messages (\<open>consensus.rs\<close>), and the node that composes them with the
  core through their channels.

  A future of the synchronizer is a block in \<open>hsy_waiting\<close>; it can complete once the parent is
  in the store. \<open>hs_node_turn\<close> is one step of any task; which task moves is the choice of the
  scheduler, so a run of a node is a list of such events.
\<close>

section \<open>Synchronizer\<close>

record 'c hs_sync =
  hsy_pending :: "digest set"
  hsy_waiting :: "'c hs_block list"
  hsy_requests :: "(digest \<times> nat) list"
  hsy_sent :: "(socket_addr \<times> 'c hs_message) list"

definition hs_sync_new :: "'c hs_sync" where
  "hs_sync_new = \<lparr>hsy_pending = {}, hsy_waiting = [], hsy_requests = [], hsy_sent = []\<rparr>"

definition hs_sync_request :: "('c, 'p) hs_env_scheme \<Rightarrow> committee \<Rightarrow> public_key \<Rightarrow> nat \<Rightarrow> 'c hs_block
    \<Rightarrow> ('c hs_sync, hs_error, unit) handler" where
  "hs_sync_request E c name now b = with_state (\<lambda>y.
     if hs_block_digest E b \<in> hsy_pending y then ret ()
     else let parent = hsq_hash (hsb_qc b) in
       seq_h (modify (\<lambda>y. y\<lparr>hsy_pending := insert (hs_block_digest E b) (hsy_pending y), hsy_waiting := hsy_waiting y @ [b]\<rparr>))
         (if parent \<in> fst ` set (hsy_requests y) then ret ()
          else seq_h (modify (\<lambda>y. y\<lparr>hsy_requests := hm_insert parent now (hsy_requests y)\<rparr>))
            (case consensus_of c (hsb_author b) of
               Done a \<Rightarrow> modify (\<lambda>y. y\<lparr>hsy_sent := hsy_sent y @ [(consensus_to_consensus a, HsSyncRequest parent name)]\<rparr>)
             | _ \<Rightarrow> panic)))"

definition hs_sync_resume :: "('c, 'p) hs_env_scheme \<Rightarrow> 'c hs_block \<Rightarrow> 'c hs_sync \<Rightarrow> 'c hs_sync" where
  "hs_sync_resume E b y = y\<lparr>hsy_waiting := remove1 b (hsy_waiting y),
     hsy_pending := hsy_pending y - {hs_block_digest E b},
     hsy_requests := hm_remove (hsq_hash (hsb_qc b)) (hsy_requests y)\<rparr>"

definition hs_sync_retry :: "committee \<Rightarrow> public_key \<Rightarrow> nat \<Rightarrow> nat \<Rightarrow> 'c hs_sync \<Rightarrow> 'c hs_sync" where
  "hs_sync_retry c name retry_delay now y = y\<lparr>hsy_sent := hsy_sent y @
     concat (map (\<lambda>(d, timestamp). if timestamp + retry_delay < now
         then map (\<lambda>(_, a). (consensus_to_consensus a, HsSyncRequest d name)) (others_consensus c name) else [])
       (hsy_requests y))\<rparr>"

section \<open>Proposer\<close>

record 'c hs_proposer =
  hsp_buffer :: "'c list"
  hsp_leader :: "(hs_round \<times> hs_qc \<times> hs_tc option) option"
  hsp_elapsed :: bool
  hsp_to_committer :: "'c list"
  hsp_created :: "'c hs_block list"
  hsp_sent :: "(socket_addr \<times> 'c hs_message) list"

definition hs_proposer_new :: "'c hs_proposer" where
  "hs_proposer_new = \<lparr>hsp_buffer = [], hsp_leader = None, hsp_elapsed = False, hsp_to_committer = [], hsp_created = [], hsp_sent = []\<rparr>"

text \<open>\<open>make_block\<close>; the log of created blocks is also the log of the blocks the node signs.\<close>

definition hs_make_block :: "('c, 'p) hs_env_scheme \<Rightarrow> (digest \<Rightarrow> signature) \<Rightarrow> public_key \<Rightarrow> committee
    \<Rightarrow> hs_round \<times> hs_qc \<times> hs_tc option \<Rightarrow> 'c hs_proposer \<Rightarrow> 'c hs_block \<times> 'c hs_proposer" where
  "hs_make_block E sign name c x p = (case x of (r, q, t) \<Rightarrow>
     let b = hs_block_new E sign q t name r (hsp_buffer p)
     in (b, p\<lparr>hsp_buffer := [], hsp_created := hsp_created p @ [b],
           hsp_sent := hsp_sent p @ map (\<lambda>(_, a). (consensus_to_consensus a, HsPropose b)) (others_consensus c name)\<rparr>))"

text \<open>The wait for acknowledgements: \<open>acks\<close> are the stakes in the order in which they come in.\<close>

fun hs_wait_for_quorum :: "committee \<Rightarrow> stake \<Rightarrow> stake list \<Rightarrow> stake" where
  "hs_wait_for_quorum c acc [] = acc"
| "hs_wait_for_quorum c acc (s # acks) =
     (if acc + s \<ge> quorum_threshold c then acc + s else hs_wait_for_quorum c (acc + s) acks)"

definition hs_propose :: "('c, 'p) hs_env_scheme \<Rightarrow> (digest \<Rightarrow> signature) \<Rightarrow> public_key \<Rightarrow> committee
    \<Rightarrow> 'c hs_proposer \<Rightarrow> 'c hs_block list \<times> 'c hs_proposer" where
  "hs_propose E sign name c p =
     (if hsp_elapsed p \<or> hsp_buffer p \<noteq> []
      then (case hsp_leader p of None \<Rightarrow> ([], p)
            | Some x \<Rightarrow> let (b, p') = hs_make_block E sign name c x (p\<lparr>hsp_leader := None\<rparr>)
                in ([b], p'\<lparr>hsp_elapsed := False\<rparr>))
      else ([], p))"

datatype 'c hs_proposer_event =
    HsCertificate 'c
  | HsLead hs_round hs_qc "hs_tc option"
  | HsDelayOver

fun hs_proposer_receive :: "('c, 'p) hs_env_scheme \<Rightarrow> 'c hs_proposer_event \<Rightarrow> 'c hs_proposer \<Rightarrow> 'c hs_proposer" where
  "hs_proposer_receive E (HsCertificate x) p = p\<lparr>hsp_to_committer := hsp_to_committer p @ [x],
     hsp_buffer := (case hsp_buffer p of
         [] \<Rightarrow> [x]
       | y # ys \<Rightarrow> if hse_cert_round E y < hse_cert_round E x then x # ys else y # ys)\<rparr>"
| "hs_proposer_receive E (HsLead r q t) p = p\<lparr>hsp_leader := Some (r, q, t)\<rparr>"
| "hs_proposer_receive E HsDelayOver p = p\<lparr>hsp_elapsed := True\<rparr>"

section \<open>Helper and dispatch\<close>

text \<open>One request to the helper; \<open>None\<close> is the panic on a value that is no block.\<close>

definition hs_help :: "('c, 'p) hs_env_scheme \<Rightarrow> committee \<Rightarrow> (key \<times> val) list \<Rightarrow> digest \<Rightarrow> public_key
    \<Rightarrow> (socket_addr \<times> 'c hs_message) list option" where
  "hs_help E c db d origin = (case consensus_of c origin of
     Done a \<Rightarrow> (case map_of db (digest_bytes d) of
         None \<Rightarrow> Some []
       | Some bytes \<Rightarrow> map_option (\<lambda>b. [(consensus_to_consensus a, HsPropose b)]) (hse_decode E bytes))
   | _ \<Rightarrow> Some [])"

datatype 'c hs_inbox = ToCore "'c hs_message" | ToHelper digest public_key

text \<open>The dispatch of a message: where it goes, and whether it is acknowledged.\<close>

fun hs_dispatch :: "'c hs_message \<Rightarrow> 'c hs_inbox \<times> bool" where
  "hs_dispatch (HsSyncRequest missing origin) = (ToHelper missing origin, False)"
| "hs_dispatch (HsPropose b) = (ToCore (HsPropose b), True)"
| "hs_dispatch m = (ToCore m, False)"

section \<open>Node\<close>

record 'c hs_node =
  hsn_core :: "'c hs_core"
  hsn_sync :: "'c hs_sync"
  hsn_proposer :: "'c hs_proposer"
  hsn_loopback :: "'c hs_block list"
  hsn_alive :: bool

definition hs_node_new :: "public_key \<Rightarrow> committee \<Rightarrow> (digest \<Rightarrow> signature) \<Rightarrow> 'c hs_node" where
  "hs_node_new name c sign = \<lparr>hsn_core = fst (hs_core_start (hs_core_new name c sign)), hsn_sync = hs_sync_new,
     hsn_proposer = hs_proposer_new, hsn_loopback = [], hsn_alive = (committee_size c \<noteq> 0)\<rparr>"

datatype 'c hs_event =
    HnMessage "'c hs_message"
  | HnLoopback
  | HnTimer
  | HnCertificate 'c
  | HnLead
  | HnDelayOver
  | HnSync nat
  | HnResume nat
  | HnRetry nat nat

definition hs_core_moves :: "nat \<Rightarrow> ('c, 'p) hs_env_scheme \<Rightarrow> 'c hs_core_event \<Rightarrow> 'c hs_node \<Rightarrow> 'c hs_node" where
  "hs_core_moves n E ev x = (if \<not> hsn_alive x then x
     else case hs_core_turn n E ev (hsn_core x) of
       (s, r) \<Rightarrow> x\<lparr>hsn_core := s, hsn_alive := (r \<noteq> Panic \<and> r \<noteq> Diverge)\<rparr>)"

definition hs_proposer_moves :: "('c, 'p) hs_env_scheme \<Rightarrow> 'c hs_proposer_event \<Rightarrow> 'c hs_node \<Rightarrow> 'c hs_node" where
  "hs_proposer_moves E ev x =
     (let s = hsn_core x;
          (bs, p) = hs_propose E (hsc_sign s) (hsc_name s) (hsc_committee s) (hs_proposer_receive E ev (hsn_proposer x))
      in x\<lparr>hsn_proposer := p, hsn_loopback := hsn_loopback x @ bs\<rparr>)"

fun hs_node_turn :: "nat \<Rightarrow> ('c, 'p) hs_env_scheme \<Rightarrow> 'c hs_event \<Rightarrow> 'c hs_node \<Rightarrow> 'c hs_node" where
  "hs_node_turn n E (HnMessage m) x = (case fst (hs_dispatch m) of
     ToCore m \<Rightarrow> hs_core_moves n E (HsReceived m) x
   | ToHelper d a \<Rightarrow> x)"
| "hs_node_turn n E HnLoopback x = (case hsn_loopback x of
     [] \<Rightarrow> x | b # bs \<Rightarrow> hs_core_moves n E (HsLoopback b) (x\<lparr>hsn_loopback := bs\<rparr>))"
| "hs_node_turn n E HnTimer x = hs_core_moves n E HsTimerExpired x"
| "hs_node_turn n E (HnCertificate c) x = hs_proposer_moves E (HsCertificate c) x"
| "hs_node_turn n E HnLead x = (case hsc_to_proposer (hsn_core x) of
     [] \<Rightarrow> x
   | (r, q, t) # ms \<Rightarrow> hs_proposer_moves E (HsLead r q t) (x\<lparr>hsn_core := (hsn_core x)\<lparr>hsc_to_proposer := ms\<rparr>\<rparr>))"
| "hs_node_turn n E HnDelayOver x = hs_proposer_moves E HsDelayOver x"
| "hs_node_turn n E (HnSync now) x = (case hsc_sync_requests (hsn_core x) of
     [] \<Rightarrow> x
   | b # bs \<Rightarrow> x\<lparr>hsn_core := (hsn_core x)\<lparr>hsc_sync_requests := bs\<rparr>,
       hsn_sync := fst (hs_sync_request E (hsc_committee (hsn_core x)) (hsc_name (hsn_core x)) now b (hsn_sync x))\<rparr>)"
| "hs_node_turn n E (HnResume i) x =
     (if i < length (hsy_waiting (hsn_sync x)) then
        let b = hsy_waiting (hsn_sync x) ! i in
        (case map_of (hsc_store (hsn_core x)) (digest_bytes (hsq_hash (hsb_qc b))) of
           None \<Rightarrow> x
         | Some _ \<Rightarrow> x\<lparr>hsn_sync := hs_sync_resume E b (hsn_sync x), hsn_loopback := hsn_loopback x @ [b]\<rparr>)
      else x)"
| "hs_node_turn n E (HnRetry delay now) x =
     x\<lparr>hsn_sync := hs_sync_retry (hsc_committee (hsn_core x)) (hsc_name (hsn_core x)) delay now (hsn_sync x)\<rparr>"

definition hs_run :: "nat \<Rightarrow> ('c, 'p) hs_env_scheme \<Rightarrow> 'c hs_event list \<Rightarrow> 'c hs_node \<Rightarrow> 'c hs_node" where
  "hs_run n E es x = fold (hs_node_turn n E) es x"

end
