(* ===== verification/HotStuff_Invariant.thy ===== *)
theory HotStuff_Invariant
  imports HotStuff_Node
begin

text \<open>
  The invariant of a HotStuff node, proved for every operation of the core and every step of the
  node. \<open>hs_backed\<close> says that valid signatures of a quorum on the vote for a block exist,
  \<open>hs_justified\<close> the same for the timeouts of a TC. The invariant says that every QC the node holds
  is backed; that its votes and timeouts are in an order (\<open>hs_before\<close>) in which no round is voted
  in twice, nor after a timeout, and in which a timeout reports at least the QC of every block
  voted for; and that what is output lies on a chain below two certified blocks of consecutive
  rounds.

  \<open>step_logic\<close> is the contract between an invariant, an order the state climbs and the handler
  combinators; it is interpreted once, on this invariant.
\<close>

section \<open>A logic for handlers\<close>

locale step_logic = step_order R for R :: "'s \<Rightarrow> 's \<Rightarrow> bool" +
  fixes I :: "'s \<Rightarrow> bool"
begin

definition upholds :: "('s \<Rightarrow> bool) \<Rightarrow> ('s, 'e, 'a) handler \<Rightarrow> ('a \<Rightarrow> 's \<Rightarrow> bool) \<Rightarrow> bool" where
  "upholds A h Q \<longleftrightarrow> (\<forall>s. I s \<longrightarrow> A s \<longrightarrow>
     I (fst (h s)) \<and> R s (fst (h s)) \<and> (\<forall>a. snd (h s) = Done a \<longrightarrow> Q a (fst (h s))))"

lemma upholdsI:
  "(\<And>s. I s \<Longrightarrow> A s \<Longrightarrow> I (fst (h s)) \<and> R s (fst (h s)) \<and> (\<forall>a. snd (h s) = Done a \<longrightarrow> Q a (fst (h s)))) \<Longrightarrow> upholds A h Q"
  by (simp add: upholds_def)

lemma upholdsD:
  assumes "upholds A h Q" and "I s" and "A s" and "h s = (t, r)"
  shows "I t" and "R s t" and "r = Done a \<Longrightarrow> Q a t"
  using assms by (auto simp: upholds_def dest: spec [of _ s])

lemma u_ret: "(\<And>s. A s \<Longrightarrow> Q a s) \<Longrightarrow> upholds A (Prelude.ret a) Q"
  by (simp add: upholds_def ret_def refl)

lemma u_stop: "upholds A (Prelude.fail e) Q" "upholds A Prelude.panic Q" "upholds A Prelude.diverge Q"
  by (simp_all add: upholds_def fail_def panic_def diverge_def refl)

lemma u_modify: "(\<And>s. I s \<Longrightarrow> A s \<Longrightarrow> I (f s) \<and> R s (f s) \<and> Q () (f s)) \<Longrightarrow> upholds A (Prelude.modify f) Q"
  by (simp add: upholds_def modify_def)

lemma u_bind:
  assumes "upholds A h B" and "\<And>a. upholds (B a) (k a) Q"
  shows "upholds A (bind_h h k) Q"
proof (rule upholdsI)
  fix s assume s: "I s" "A s"
  obtain t r where t: "h s = (t, r)" by fastforce
  note h = upholdsD [OF assms(1) s t]
  show "I (fst (bind_h h k s)) \<and> R s (fst (bind_h h k s)) \<and>
    (\<forall>a. snd (bind_h h k s) = Done a \<longrightarrow> Q a (fst (bind_h h k s)))"
  proof (cases r)
    case (Done a)
    obtain u r' where u: "k a t = (u, r')" by fastforce
    note k = upholdsD [OF assms(2) h(1) h(3) [OF Done] u]
    show ?thesis using t u k Done trans [OF h(2) k(2)] by (simp add: bind_h_def)
  qed (use t h in \<open>simp_all add: bind_h_def\<close>)
qed

lemma u_seq: "upholds A h (\<lambda>_. B) \<Longrightarrow> upholds B k Q \<Longrightarrow> upholds A (seq_h h k) Q"
  unfolding seq_h_def by (rule u_bind)

lemma u_with_state: "(\<And>s. upholds (\<lambda>t. t = s \<and> A t) (f s) Q) \<Longrightarrow> upholds A (Prelude.with_state f) Q"
  by (simp add: upholds_def with_state_def)

lemma u_of_result: "(\<And>s a. A s \<Longrightarrow> r = Done a \<Longrightarrow> Q a s) \<Longrightarrow> upholds A (Prelude.of_result r) Q"
  by (simp add: upholds_def of_result_def refl)

lemma u_ensure: "(\<And>s. b \<Longrightarrow> A s \<Longrightarrow> Q () s) \<Longrightarrow> upholds A (Prelude.ensure b e) Q"
  by (simp add: ensure_def u_ret u_stop)

lemma u_unwrap: "(\<And>s a. x = Some a \<Longrightarrow> A s \<Longrightarrow> Q a s) \<Longrightarrow> upholds A (Prelude.unwrap x) Q"
  by (simp add: unwrap_def u_ret u_stop split: option.split)

lemma u_when: "(b \<Longrightarrow> upholds A h Q) \<Longrightarrow> (\<And>s. \<not> b \<Longrightarrow> A s \<Longrightarrow> Q () s) \<Longrightarrow> upholds A (when_h b h) Q"
  by (simp add: when_h_def u_ret)

lemma u_pre: "upholds B h Q \<Longrightarrow> (\<And>s. I s \<Longrightarrow> A s \<Longrightarrow> B s) \<Longrightarrow> upholds A h Q"
  by (simp add: upholds_def)

lemma u_post: "upholds A h B \<Longrightarrow> (\<And>a s. I s \<Longrightarrow> B a s \<Longrightarrow> Q a s) \<Longrightarrow> upholds A h Q"
  by (simp add: upholds_def)

text \<open>What is stable in the order survives every handler.\<close>

lemma u_frame:
  assumes "upholds A h Q" and "\<And>s t. R s t \<Longrightarrow> F s \<Longrightarrow> F t"
  shows "upholds (\<lambda>s. A s \<and> F s) h (\<lambda>a s. Q a s \<and> F s)"
  using assms by (simp add: upholds_def) blast

lemma u_each: "(\<And>x. x \<in> set xs \<Longrightarrow> upholds A (f x) (\<lambda>_. A)) \<Longrightarrow> upholds A (Prelude.each f xs) (\<lambda>_. A)"
  by (induction xs) (auto simp: u_ret intro: u_seq)

end

section \<open>Evidence\<close>

definition hs_backed :: "'p prims_scheme \<Rightarrow> committee \<Rightarrow> digest \<Rightarrow> hs_round \<Rightarrow> bool" where
  "hs_backed P c d r \<longleftrightarrow> (\<exists>A. quorum_of c A \<and> (\<forall>a \<in> A. \<exists>s. sig_verify P s (hs_vote_digest P d r) a = Done ()))"

definition hs_good_qc :: "'p prims_scheme \<Rightarrow> committee \<Rightarrow> hs_qc \<Rightarrow> bool" where
  "hs_good_qc P c q \<longleftrightarrow> hs_qc_eq q hs_qc_genesis \<or> hs_backed P c (hsq_hash q) (hsq_round q)"

definition hs_justified :: "'p prims_scheme \<Rightarrow> committee \<Rightarrow> hs_tc \<Rightarrow> bool" where
  "hs_justified P c t \<longleftrightarrow> (\<exists>A. quorum_of c A \<and> (\<forall>a \<in> A. \<exists>s h. h \<in> set (high_qc_rounds t) \<and>
     sig_verify P s (hs_timeout_digest P (hst_round t) h) a = Done ()))"

text \<open>Documented behaviour of the libraries: batch verification checks every signature, and \<open>bincode\<close> round trips.\<close>

definition hs_batch_sound :: "'p prims_scheme \<Rightarrow> bool" where
  "hs_batch_sound P \<longleftrightarrow> (\<forall>ms ss ks i. p_verify_batch P ms ss ks \<longrightarrow> i < length ks \<longrightarrow> i < length ss \<longrightarrow> i < length ms \<longrightarrow>
     p_verify_strict P (ks ! i) (ms ! i) (ss ! i))"

definition hs_codec_ok :: "('c, 'p) hs_env_scheme \<Rightarrow> bool" where
  "hs_codec_ok E \<longleftrightarrow> (\<forall>b. hse_decode E (hse_encode E b) = Some b)"

lemma hs_batch_each:
  assumes "hs_batch_sound P" and "verify_batch P d votes = Done ()" and "(a, s) \<in> set votes"
  shows "sig_verify P s d a = Done ()"
proof -
  obtain i where i: "i < length votes" "votes ! i = (a, s)" using assms(3) by (auto simp: in_set_conv_nth)
  have b: "p_verify_batch P (replicate (length votes) (digest_word d)) (map (flatten \<circ> snd) votes) (map (key_word \<circ> fst) votes)"
    and wf: "vote_wf P (a, s)" using assms(2, 3) by (auto simp: verify_batch_Done)
  have "p_verify_strict P (map (key_word \<circ> fst) votes ! i) (replicate (length votes) (digest_word d) ! i) (map (flatten \<circ> snd) votes ! i)"
    using assms(1) b i(1) unfolding hs_batch_sound_def by (metis length_map length_replicate)
  then show ?thesis using wf i by (simp add: sig_verify_Done)
qed

lemma quorum_of_voters:
  assumes "committee_ok c" and "voters_ok c names" and "quorum_threshold c \<le> sum_list (map (stake_of c) names)"
  shows "quorum_of c (set names)"
  using assms(3) voters_members [OF assms(2)] voters_quorum [OF assms(1, 2)] by (simp add: quorum_of_def)

lemma hs_qc_verify_backed:
  assumes "committee_ok c" and "hs_batch_sound P" and "hs_qc_verify P c q = Done ()"
  shows "hs_backed P c (hsq_hash q) (hsq_round q)"
proof -
  have v: "voters_ok c (map fst (hsq_votes q))" "quorum_threshold c \<le> sum_list (map (stake_of c) (map fst (hsq_votes q)))"
    "verify_batch P (hs_vote_digest P (hsq_hash q) (hsq_round q)) (hsq_votes q) = Done ()"
    using assms(3) by (simp_all add: hs_qc_verify_def tally_Done)
  have "quorum_of c (set (map fst (hsq_votes q)))"
    using assms(1) v(1, 2) by (rule quorum_of_voters)
  moreover have "\<exists>s. sig_verify P s (hs_vote_digest P (hsq_hash q) (hsq_round q)) a = Done ()" if a: "a \<in> set (map fst (hsq_votes q))" for a
  proof -
    obtain s where "(a, s) \<in> set (hsq_votes q)" using a by auto
    from hs_batch_each [OF assms(2) v(3) this] show ?thesis by blast
  qed
  ultimately show ?thesis unfolding hs_backed_def by blast
qed

lemma hs_qc_check_good:
  "committee_ok c \<Longrightarrow> hs_batch_sound P \<Longrightarrow> hs_qc_check P c q = Done () \<Longrightarrow> hs_good_qc P c q"
  by (auto simp: hs_qc_check_def hs_good_qc_def hs_qc_verify_backed split: if_splits)

lemma hs_tc_verify_justified:
  assumes "committee_ok c" and "hs_tc_verify P c t = Done ()"
  shows "hs_justified P c t"
proof -
  have v: "voters_ok c (map fst (hst_votes t))" "quorum_threshold c \<le> sum_list (map (stake_of c) (map fst (hst_votes t)))"
    and s: "\<forall>(a, s, h) \<in> set (hst_votes t). sig_verify P s (hs_timeout_digest P (hst_round t) h) a = Done ()"
    using assms(2) by (auto simp: hs_tc_verify_def tally_Done)
  have "quorum_of c (set (map fst (hst_votes t)))"
    using assms(1) v(1, 2) by (rule quorum_of_voters)
  moreover have "\<exists>s h. h \<in> set (high_qc_rounds t) \<and> sig_verify P s (hs_timeout_digest P (hst_round t) h) a = Done ()"
    if "a \<in> set (map fst (hst_votes t))" for a
    using that s by (force simp: high_qc_rounds_def)
  ultimately show ?thesis unfolding hs_justified_def by blast
qed


section \<open>The invariant of the core\<close>

abbreviation qround :: "'c hs_block \<Rightarrow> hs_round" where
  "qround b \<equiv> hsq_round (hsb_qc b)"

definition hs_stored :: "('c, 'p) hs_env_scheme \<Rightarrow> 'c hs_core \<Rightarrow> 'c hs_block \<Rightarrow> bool" where
  "hs_stored E s b \<longleftrightarrow> (digest_bytes (hs_block_digest E b), hse_encode E b) \<in> set (hsc_store s)"

definition hs_parent_of :: "('c, 'p) hs_env_scheme \<Rightarrow> 'c hs_core \<Rightarrow> 'c hs_block \<Rightarrow> 'c hs_block \<Rightarrow> bool" where
  "hs_parent_of E s b a \<longleftrightarrow> (if hs_qc_eq (hsb_qc b) hs_qc_genesis then a = hs_block_genesis
     else hsq_hash (hsb_qc b) = hs_block_digest E a \<and> hs_stored E s a)"

text \<open>A block on the chain below two certified blocks of consecutive rounds.\<close>

definition hs_final :: "('c, 'p) hs_env_scheme \<Rightarrow> 'c hs_core \<Rightarrow> 'c hs_block \<Rightarrow> bool" where
  "hs_final E s b \<longleftrightarrow> (\<exists>b0 b1 b2. hs_stored E s b2 \<and> hs_parent_of E s b2 b1 \<and> hs_parent_of E s b1 b0 \<and>
     hsb_round b0 + 1 = hsb_round b1 \<and> 0 < hsb_round b0 \<and> (hs_parent_of E s)\<^sup>*\<^sup>* b0 b)"

definition hs_rule :: "'c hs_block \<Rightarrow> bool" where
  "hs_rule b \<longleftrightarrow> qround b + 1 = hsb_round b \<or>
     (\<exists>t. hsb_tc b = Some t \<and> hst_round t + 1 = hsb_round b \<and> (\<forall>h \<in> set (high_qc_rounds t). h \<le> qround b))"

fun hs_before :: "'c hs_entry \<Rightarrow> 'c hs_entry \<Rightarrow> bool" where
  "hs_before (VoteFor b) (VoteFor b') \<longleftrightarrow> hsb_round b < hsb_round b'"
| "hs_before (VoteFor b) (TimeoutAt r h) \<longleftrightarrow> qround b \<le> h"
| "hs_before (TimeoutAt r h) (VoteFor b) \<longleftrightarrow> r < hsb_round b"
| "hs_before (TimeoutAt r h) (TimeoutAt r' h') \<longleftrightarrow> True"

definition hs_ready :: "('c, 'p) hs_env_scheme \<Rightarrow> 'c hs_core \<Rightarrow> 'c hs_block \<Rightarrow> bool" where
  "hs_ready E s b \<longleftrightarrow> hs_good_qc E (hsc_committee s) (hsb_qc b) \<and>
     (hsb_author b \<noteq> hsc_name s \<longrightarrow> (\<forall>t. hsb_tc b = Some t \<longrightarrow> hs_justified E (hsc_committee s) t)) \<and>
     qround b \<le> hsq_round (hsc_high_qc s) \<and> (hsc_overflow s \<or> qround b < hsc_round s)"

fun hs_entry_ok :: "('c, 'p) hs_env_scheme \<Rightarrow> 'c hs_core \<Rightarrow> 'c hs_entry \<Rightarrow> bool" where
  "hs_entry_ok E s (VoteFor b) \<longleftrightarrow> hsb_round b \<le> hsc_last_voted s \<and> 0 < hsb_round b \<and> hs_stored E s b \<and> hs_rule b \<and>
     qround b \<le> hsq_round (hsc_high_qc s) \<and> (hsc_overflow s \<or> qround b < hsb_round b)"
| "hs_entry_ok E s (TimeoutAt r h) \<longleftrightarrow> r \<le> hsc_last_voted s"

definition hs_lead_ok :: "('c, 'p) hs_env_scheme \<Rightarrow> 'c hs_core \<Rightarrow> hs_round \<times> hs_qc \<times> hs_tc option \<Rightarrow> bool" where
  "hs_lead_ok E s x \<longleftrightarrow> (case x of (r, q, t) \<Rightarrow> hs_good_qc E (hsc_committee s) q \<and>
     hsq_round q \<le> hsq_round (hsc_high_qc s) \<and> (hsc_overflow s \<or> hsq_round q < hsc_round s))"

definition hs_votes_ok :: "'p prims_scheme \<Rightarrow> committee \<Rightarrow> digest \<Rightarrow> hs_qc_maker \<Rightarrow> bool" where
  "hs_votes_ok P c d m \<longleftrightarrow> hqm.collecting c m \<and> (\<forall>(a, s) \<in> set (hqm_votes m). 0 < stake_of c a \<and> sig_verify P s d a = Done ())"

definition hs_timeouts_ok :: "'p prims_scheme \<Rightarrow> committee \<Rightarrow> hs_round \<Rightarrow> hs_tc_maker \<Rightarrow> bool" where
  "hs_timeouts_ok P c r m \<longleftrightarrow> htm.collecting c m \<and>
     (\<forall>(a, s, h) \<in> set (htm_votes m). 0 < stake_of c a \<and> sig_verify P s (hs_timeout_digest P r h) a = Done ())"

definition hs_aggregator_ok :: "'p prims_scheme \<Rightarrow> committee \<Rightarrow> hs_aggregator \<Rightarrow> bool" where
  "hs_aggregator_ok P c a \<longleftrightarrow> (\<forall>r d. hs_votes_ok P c d (hs_qc_maker_at r d a)) \<and> (\<forall>r. hs_timeouts_ok P c r (hs_tc_maker_at r a))"

definition hs_inv :: "('c, 'p) hs_env_scheme \<Rightarrow> 'c hs_core \<Rightarrow> bool" where
  "hs_inv E s \<longleftrightarrow> committee_ok (hsc_committee s) \<and> hs_good_qc E (hsc_committee s) (hsc_high_qc s) \<and>
     (hsc_overflow s \<or> hsq_round (hsc_high_qc s) < hsc_round s) \<and> hs_aggregator_ok E (hsc_committee s) (hsc_aggregator s) \<and>
     (\<forall>x \<in> set (hsc_store s). \<exists>b. x = (digest_bytes (hs_block_digest E b), hse_encode E b) \<and> hs_ready E s b) \<and>
     (\<forall>b \<in> set (hsc_sync_requests s). hs_ready E s b) \<and> (\<forall>x \<in> set (hsc_to_proposer s). hs_lead_ok E s x) \<and>
     sorted_wrt hs_before (hsc_signed s) \<and> (\<forall>e \<in> set (hsc_signed s). hs_entry_ok E s e) \<and>
     (\<forall>b \<in> set (hsc_output s). hs_final E s b)"

definition hs_le :: "'c hs_core \<Rightarrow> 'c hs_core \<Rightarrow> bool" where
  "hs_le s t \<longleftrightarrow> hsc_committee t = hsc_committee s \<and> hsc_name t = hsc_name s \<and> hsc_sign t = hsc_sign s \<and>
     hsq_round (hsc_high_qc s) \<le> hsq_round (hsc_high_qc t) \<and> (hsc_overflow s \<longrightarrow> hsc_overflow t) \<and>
     (hsc_overflow t \<or> hsc_round s \<le> hsc_round t) \<and> hsc_last_voted s \<le> hsc_last_voted t \<and>
     set (hsc_store s) \<subseteq> set (hsc_store t) \<and> (\<exists>es. hsc_signed t = hsc_signed s @ es) \<and> (\<exists>bs. hsc_output t = hsc_output s @ bs)"

interpretation lg: step_logic hs_le "hs_inv E" for E :: "('c, 'p) hs_env_scheme"
proof
  show "hs_le s s" for s :: "'c hs_core" by (simp add: hs_le_def)
  show "hs_le s u" if "hs_le s t" "hs_le t u" for s t u :: "'c hs_core"
    using that by (auto simp: hs_le_def)
qed

abbreviation hs_upholds :: "('c, 'p) hs_env_scheme \<Rightarrow> ('c hs_core \<Rightarrow> bool) \<Rightarrow> ('c, 'a) hs_handler \<Rightarrow> ('a \<Rightarrow> 'c hs_core \<Rightarrow> bool) \<Rightarrow> bool" where
  "hs_upholds E \<equiv> step_logic.upholds hs_le (hs_inv E)"

lemma hs_stored_mono: "hs_le s t \<Longrightarrow> hs_stored E s b \<Longrightarrow> hs_stored E t b"
  by (auto simp: hs_le_def hs_stored_def)

lemma hs_ready_mono: "hs_le s t \<Longrightarrow> hs_ready E s b \<Longrightarrow> hs_ready E t b"
  by (auto simp: hs_le_def hs_ready_def)

lemma hs_lead_ok_mono: "hs_le s t \<Longrightarrow> hs_lead_ok E s x \<Longrightarrow> hs_lead_ok E t x"
  by (auto simp: hs_le_def hs_lead_ok_def split: prod.splits)

lemma hs_entry_ok_mono: "hs_le s t \<Longrightarrow> hs_entry_ok E s e \<Longrightarrow> hs_entry_ok E t e"
  by (cases e) (auto simp: hs_le_def hs_stored_def)

lemma hs_parent_of_mono: "hs_le s t \<Longrightarrow> hs_parent_of E s b a \<Longrightarrow> hs_parent_of E t b a"
  using hs_stored_mono [of s t E a] by (auto simp: hs_parent_of_def split: if_splits)

lemma hs_chain_mono: "hs_le s t \<Longrightarrow> (hs_parent_of E s)\<^sup>*\<^sup>* b a \<Longrightarrow> (hs_parent_of E t)\<^sup>*\<^sup>* b a"
  by (erule rtranclp_mono [THEN predicate2D, rotated]) (auto intro: hs_parent_of_mono)

lemma hs_final_mono:
  assumes "hs_le s t" and "hs_final E s b"
  shows "hs_final E t b"
  using assms(2) hs_stored_mono [OF assms(1)] hs_parent_of_mono [OF assms(1)] hs_chain_mono [OF assms(1)]
  unfolding hs_final_def by meson

text \<open>What a step has to establish: only the parts it adds.\<close>

lemma hs_inv_climb:
  assumes "hs_inv E s" and "hs_le s t" and "hs_good_qc E (hsc_committee t) (hsc_high_qc t)"
    and "hsc_overflow t \<or> hsq_round (hsc_high_qc t) < hsc_round t"
    and "hs_aggregator_ok E (hsc_committee t) (hsc_aggregator t)"
    and "\<forall>x \<in> set (hsc_store t) - set (hsc_store s). \<exists>b. x = (digest_bytes (hs_block_digest E b), hse_encode E b) \<and> hs_ready E t b"
    and "\<forall>b \<in> set (hsc_sync_requests t) - set (hsc_sync_requests s). hs_ready E t b"
    and "\<forall>x \<in> set (hsc_to_proposer t) - set (hsc_to_proposer s). hs_lead_ok E t x"
    and "sorted_wrt hs_before (hsc_signed t)" and "\<forall>e \<in> set (hsc_signed t) - set (hsc_signed s). hs_entry_ok E t e"
    and "\<forall>b \<in> set (hsc_output t) - set (hsc_output s). hs_final E t b"
  shows "hs_inv E t"
  unfolding hs_inv_def
proof (intro conjI)
  note s = assms(1) [unfolded hs_inv_def]
  show "committee_ok (hsc_committee t)" using s assms(2) by (simp add: hs_le_def)
  show "\<forall>x \<in> set (hsc_store t). \<exists>b. x = (digest_bytes (hs_block_digest E b), hse_encode E b) \<and> hs_ready E t b"
    using s assms(6) hs_ready_mono [OF assms(2)] by blast
  show "\<forall>b \<in> set (hsc_sync_requests t). hs_ready E t b" using s assms(7) hs_ready_mono [OF assms(2)] by blast
  show "\<forall>x \<in> set (hsc_to_proposer t). hs_lead_ok E t x" using s assms(8) hs_lead_ok_mono [OF assms(2)] by blast
  show "\<forall>e \<in> set (hsc_signed t). hs_entry_ok E t e" using s assms(10) hs_entry_ok_mono [OF assms(2)] by blast
  show "\<forall>b \<in> set (hsc_output t). hs_final E t b" using s assms(11) hs_final_mono [OF assms(2)] by blast
qed (use assms in auto)


section \<open>Every operation keeps it\<close>

lemma less_next: "r = - 1 \<or> r < r + 1" for r :: "'a::len word"
proof (cases "r = - 1")
  case False
  then have "r < - 1" by (simp add: order_less_le)
  from unat_Suc_no_wrap [OF this] show ?thesis by (simp add: word_less_nat_alt)
qed simp

lemma hs_aggregator_cleanup_ok:
  assumes "committee_ok c" and "hs_aggregator_ok P c a"
  shows "hs_aggregator_ok P c (hs_aggregator_cleanup r a)"
proof -
  have "hs_votes_ok P c d hs_qc_maker_new" "hs_timeouts_ok P c k hs_tc_maker_new" for d k
    using hs_new_waiting [OF assms(1)] by (simp_all add: hqm.collecting_def htm.collecting_def hs_votes_ok_def hs_timeouts_ok_def hs_qc_maker_new_def hs_tc_maker_new_def)
  moreover have "hs_qc_maker_at k d (hs_aggregator_cleanup r a) \<in> {hs_qc_maker_at k d a, hs_qc_maker_new}"
    "hs_tc_maker_at k (hs_aggregator_cleanup r a) \<in> {hs_tc_maker_at k a, hs_tc_maker_new}" for k d
    by (auto simp: hs_qc_maker_at_def hs_tc_maker_at_def hs_aggregator_cleanup_def retain_def split: option.split)
  ultimately show ?thesis using assms(2) unfolding hs_aggregator_ok_def by (metis insertE singletonD)
qed

lemma advance_upholds: "hs_upholds E (\<lambda>_. True) (hs_advance_round r) (\<lambda>_ s. hsc_overflow s \<or> r < hsc_round s)"
  unfolding hs_advance_round_def
proof (intro lg.u_with_state, goal_cases)
  case (1 s)
  show ?case
  proof (cases "r < hsc_round s")
    case True
    then show ?thesis by (auto intro: lg.u_ret)
  next
    case False
    let ?f = "\<lambda>s :: 'c hs_core. s\<lparr>hsc_timer_resets := hsc_timer_resets s + 1, hsc_round := r + 1,
       hsc_aggregator := hs_aggregator_cleanup (r + 1) (hsc_aggregator s), hsc_overflow := hsc_overflow s \<or> r = - 1\<rparr>"
    have up: "r = - 1 \<or> r < r + 1" by (rule less_next)
    then have le: "hs_le s (?f s)" using False by (auto simp: hs_le_def)
    have "hs_inv E (?f s)" if "hs_inv E s"
      by (rule hs_inv_climb [OF that le]) (use that False up hs_aggregator_cleanup_ok in \<open>auto simp: hs_inv_def\<close>)
    then show ?thesis using False le up by (auto intro!: lg.u_modify)
  qed
qed


lemma process_qc_upholds:
  "hs_upholds E (\<lambda>s. hs_good_qc E (hsc_committee s) q) (hs_process_qc q)
     (\<lambda>_ s. hsq_round q \<le> hsq_round (hsc_high_qc s) \<and> (hsc_overflow s \<or> hsq_round q < hsc_round s))"
  unfolding hs_process_qc_def
proof (rule lg.u_seq)
  show "hs_upholds E (\<lambda>s. hs_good_qc E (hsc_committee s) q) (hs_advance_round (hsq_round q))
      (\<lambda>_ s. (hsc_overflow s \<or> hsq_round q < hsc_round s) \<and> hs_good_qc E (hsc_committee s) q)"
    by (rule lg.u_pre [OF lg.u_frame [OF advance_upholds]]) (auto simp: hs_le_def)
  show "hs_upholds E (\<lambda>s. (hsc_overflow s \<or> hsq_round q < hsc_round s) \<and> hs_good_qc E (hsc_committee s) q)
      (modify (hs_update_high_qc q))
      (\<lambda>_ s. hsq_round q \<le> hsq_round (hsc_high_qc s) \<and> (hsc_overflow s \<or> hsq_round q < hsc_round s))"
  proof (rule lg.u_modify)
    fix s assume s: "hs_inv E s" "(hsc_overflow s \<or> hsq_round q < hsc_round s) \<and> hs_good_qc E (hsc_committee s) q"
    have le: "hs_le s (hs_update_high_qc q s)" by (auto simp: hs_le_def hs_update_high_qc_def)
    have "hs_inv E (hs_update_high_qc q s)"
      by (rule hs_inv_climb [OF s(1) le]) (use s in \<open>auto simp: hs_inv_def hs_update_high_qc_def\<close>)
    then show "hs_inv E (hs_update_high_qc q s) \<and> hs_le s (hs_update_high_qc q s) \<and>
      hsq_round q \<le> hsq_round (hsc_high_qc (hs_update_high_qc q s)) \<and>
      (hsc_overflow (hs_update_high_qc q s) \<or> hsq_round q < hsc_round (hs_update_high_qc q s))"
      using le s(2) by (auto simp: hs_update_high_qc_def)
  qed
qed

lemma generate_upholds: "hs_upholds E (\<lambda>_. True) (hs_generate_proposal t) (\<lambda>_ _. True)"
  unfolding hs_generate_proposal_def
proof (rule lg.u_modify)
  fix s :: "'a hs_core"
  let ?t = "s\<lparr>hsc_to_proposer := hsc_to_proposer s @ [(hsc_round s, hsc_high_qc s, t)]\<rparr>"
  assume s: "hs_inv E s"
  have le: "hs_le s ?t" by (simp add: hs_le_def)
  have "hs_inv E ?t" by (rule hs_inv_climb [OF s le]) (use s in \<open>auto simp: hs_inv_def hs_lead_ok_def\<close>)
  then show "hs_inv E ?t \<and> hs_le s ?t \<and> True" using le by simp
qed

lemma propose_upholds: "hs_upholds E (\<lambda>_. True) (hs_propose_as_leader t) (\<lambda>_ _. True)"
  unfolding hs_propose_as_leader_def
  by (intro lg.u_with_state lg.u_bind [OF lg.u_unwrap] lg.u_when lg.u_pre [OF generate_upholds]) auto

text \<open>Messages, and counters that no clause reads.\<close>

lemma hs_inv_quiet:
  assumes "hs_inv E s" and "hsc_committee t = hsc_committee s" "hsc_name t = hsc_name s" "hsc_sign t = hsc_sign s"
    "hsc_store t = hsc_store s" "hsc_round t = hsc_round s" "hsc_last_voted t = hsc_last_voted s" "hsc_high_qc t = hsc_high_qc s"
    "hsc_aggregator t = hsc_aggregator s" "hsc_sync_requests t = hsc_sync_requests s" "hsc_to_proposer t = hsc_to_proposer s"
    "hsc_output t = hsc_output s" "hsc_signed t = hsc_signed s" "hsc_overflow t = hsc_overflow s"
  shows "hs_inv E t \<and> hs_le s t"
proof
  show le: "hs_le s t" using assms by (simp add: hs_le_def)
  show "hs_inv E t" by (rule hs_inv_climb [OF assms(1) le]) (use assms in \<open>auto simp: hs_inv_def\<close>)
qed

lemma hs_maker_at_add:
  "hs_qc_maker_at r d (a\<lparr>hag_votes := (hag_votes a)(r' \<mapsto> (case hag_votes a r' of None \<Rightarrow> (\<lambda>_. None) | Some ms \<Rightarrow> ms)(d' \<mapsto> m))\<rparr>)
     = (if r = r' \<and> d = d' then m else hs_qc_maker_at r d a)"
  "hs_tc_maker_at r (a\<lparr>hag_timeouts := (hag_timeouts a)(r' \<mapsto> k)\<rparr>) = (if r = r' then k else hs_tc_maker_at r a)"
  "hs_tc_maker_at r (a\<lparr>hag_votes := x\<rparr>) = hs_tc_maker_at r a"
  "hs_qc_maker_at r d (a\<lparr>hag_timeouts := y\<rparr>) = hs_qc_maker_at r d a"
  by (auto simp: hs_qc_maker_at_def hs_tc_maker_at_def split: option.split)

lemma set_aggregator:
  assumes "hs_inv E s" and "hs_aggregator_ok E (hsc_committee s) a"
  shows "hs_inv E (s\<lparr>hsc_aggregator := a\<rparr>) \<and> hs_le s (s\<lparr>hsc_aggregator := a\<rparr>)"
proof
  show le: "hs_le s (s\<lparr>hsc_aggregator := a\<rparr>)" by (simp add: hs_le_def)
  show "hs_inv E (s\<lparr>hsc_aggregator := a\<rparr>)" by (rule hs_inv_climb [OF assms(1) le]) (use assms in \<open>auto simp: hs_inv_def\<close>)
qed


lemma hs_qc_append_ok:
  assumes "committee_ok c" and "hs_votes_ok P c d m" and "0 < stake_of c (hsv_author v)"
    and "sig_verify P (hsv_signature v) d (hsv_author v) = Done ()" and "d = hs_vote_digest P (hsv_hash v) (hsv_round v)"
    and app: "hs_qc_append c v m = (m', r)"
  shows "hs_votes_ok P c d m'" and "r = Done (Some q) \<Longrightarrow> hs_good_qc P c q"
proof -
  have m': "m' = fst (hs_qc_append c v m)" "r = snd (hs_qc_append c v m)" using app by simp_all
  have col: "hqm.collecting c m" using assms(2) by (simp add: hs_votes_ok_def)
  show ok: "hs_votes_ok P c d m'"
    unfolding hs_votes_ok_def
  proof
    show "hqm.collecting c m'" unfolding m' by (rule hqm.collecting_add [OF assms(1) col])
    show "\<forall>(a, s) \<in> set (hqm_votes m'). 0 < stake_of c a \<and> sig_verify P s d a = Done ()"
      using assms(2-4) by (auto simp: m' hs_votes_ok_def hs_qc_append_def Let_def)
  qed
  assume r: "r = Done (Some q)"
  then have q: "hsq_hash q = hsv_hash v" "hsq_round q = hsv_round v"
    using app by (auto simp: hs_qc_append_def Let_def split: if_splits)
  have "hs_emits (snd (hs_qc_append c v m))" using r m'(2) by simp
  from hqm.emitted_weight [OF assms(1) col this]
  have "unat (quorum_threshold c) \<le> sum (voting_weight c) (fst ` set (hqm_votes m'))"
    by (simp add: m'(1) hqm.heard_def)
  moreover have "fst ` set (hqm_votes m') \<subseteq> members c"
    using ok stake_of_member_pos by (fastforce simp: hs_votes_ok_def)
  ultimately have "quorum_of c (fst ` set (hqm_votes m'))" by (simp add: quorum_of_def)
  moreover have "\<exists>s. sig_verify P s (hs_vote_digest P (hsv_hash v) (hsv_round v)) a = Done ()" if "a \<in> fst ` set (hqm_votes m')" for a
    using that ok assms(5) by (fastforce simp: hs_votes_ok_def)
  ultimately show "hs_good_qc P c q" unfolding hs_good_qc_def hs_backed_def q by blast
qed

lemma hs_tc_append_ok:
  assumes "committee_ok c" and "hs_timeouts_ok P c (hso_round t) m" and "0 < stake_of c (hso_author t)"
    and "sig_verify P (hso_signature t) (hs_timeout_digest P (hso_round t) (hsq_round (hso_high_qc t))) (hso_author t) = Done ()"
    and app: "hs_tc_append c t m = (m', r)"
  shows "hs_timeouts_ok P c (hso_round t) m'"
  unfolding hs_timeouts_ok_def
proof
  have m': "m' = fst (hs_tc_append c t m)" using app by simp
  show "htm.collecting c m'"
    unfolding m' using assms(2) by (intro htm.collecting_add assms(1)) (simp add: hs_timeouts_ok_def)
  show "\<forall>(a, s, h) \<in> set (htm_votes m'). 0 < stake_of c a \<and> sig_verify P s (hs_timeout_digest P (hso_round t) h) a = Done ()"
    using assms(2-4) by (auto simp: m' hs_timeouts_ok_def hs_tc_append_def Let_def)
qed

lemma add_vote_upholds:
  "hs_upholds E (\<lambda>s. hsc_committee s = c \<and> hs_vote_verify E c v = Done ()) (hs_on_aggregator (hs_add_vote E c v))
     (\<lambda>r s. \<forall>q. r = Some q \<longrightarrow> hs_good_qc E (hsc_committee s) q)"
proof (rule lg.upholdsI)
  fix s assume s: "hs_inv E s" "hsc_committee s = c \<and> hs_vote_verify E c v = Done ()"
  let ?a = "hsc_aggregator s" and ?d = "hs_vote_digest E (hsv_hash v) (hsv_round v)"
  obtain m r where app: "hs_qc_append c v (hs_qc_maker_at (hsv_round v) ?d ?a) = (m, r)" by fastforce
  have ok: "committee_ok c" "hs_votes_ok E c ?d (hs_qc_maker_at (hsv_round v) ?d ?a)" "0 < stake_of c (hsv_author v)"
    "sig_verify E (hsv_signature v) ?d (hsv_author v) = Done ()"
    using s by (auto simp: hs_inv_def hs_aggregator_ok_def hs_vote_verify_def hs_member_signed_def)
  note new = hs_qc_append_ok [OF ok refl app]
  obtain a where a: "hs_add_vote E c v ?a = (a, r)" "hs_aggregator_ok E c a"
    using new(1) s app by (auto simp: hs_add_vote_def Let_def hs_aggregator_ok_def hs_maker_at_add hs_inv_def)
  have h: "hs_on_aggregator (hs_add_vote E c v) s = (s\<lparr>hsc_aggregator := a\<rparr>, r)" by (simp add: hs_on_aggregator_def zoom_def a(1))
  show "hs_inv E (fst (hs_on_aggregator (hs_add_vote E c v) s)) \<and> hs_le s (fst (hs_on_aggregator (hs_add_vote E c v) s)) \<and>
    (\<forall>x. snd (hs_on_aggregator (hs_add_vote E c v) s) = Done x \<longrightarrow>
      (\<forall>q. x = Some q \<longrightarrow> hs_good_qc E (hsc_committee (fst (hs_on_aggregator (hs_add_vote E c v) s))) q))"
    unfolding h using set_aggregator [OF s(1), of a] a(2) new(2) s(2) by auto
qed

lemma add_timeout_upholds:
  "hs_upholds E (\<lambda>s. hsc_committee s = c \<and> hs_timeout_verify E c t = Done ()) (hs_on_aggregator (hs_add_timeout c t)) (\<lambda>_ _. True)"
proof (rule lg.upholdsI)
  fix s assume s: "hs_inv E s" "hsc_committee s = c \<and> hs_timeout_verify E c t = Done ()"
  let ?a = "hsc_aggregator s"
  obtain m r where app: "hs_tc_append c t (hs_tc_maker_at (hso_round t) ?a) = (m, r)" by fastforce
  have ok: "committee_ok c" "hs_timeouts_ok E c (hso_round t) (hs_tc_maker_at (hso_round t) ?a)" "0 < stake_of c (hso_author t)"
    "sig_verify E (hso_signature t) (hs_timeout_digest E (hso_round t) (hsq_round (hso_high_qc t))) (hso_author t) = Done ()"
    using s by (auto simp: hs_inv_def hs_aggregator_ok_def hs_timeout_verify_def hs_member_signed_def)
  obtain a where a: "hs_add_timeout c t ?a = (a, r)" "hs_aggregator_ok E c a"
    using hs_tc_append_ok [OF ok app] s app by (auto simp: hs_add_timeout_def Let_def hs_aggregator_ok_def hs_maker_at_add hs_inv_def)
  have h: "hs_on_aggregator (hs_add_timeout c t) s = (s\<lparr>hsc_aggregator := a\<rparr>, r)" by (simp add: hs_on_aggregator_def zoom_def a(1))
  show "hs_inv E (fst (hs_on_aggregator (hs_add_timeout c t) s)) \<and> hs_le s (fst (hs_on_aggregator (hs_add_timeout c t) s)) \<and>
    (\<forall>x. snd (hs_on_aggregator (hs_add_timeout c t) s) = Done x \<longrightarrow> True)"
    unfolding h using set_aggregator [OF s(1), of a] a(2) s(2) by auto
qed


lemma handle_vote_upholds: "hs_upholds E (\<lambda>_. True) (hs_handle_vote E v) (\<lambda>_ _. True)"
  unfolding hs_handle_vote_def
proof (intro lg.u_with_state, goal_cases)
  case (1 s)
  let ?add = "hs_on_aggregator (hs_add_vote E (hsc_committee s) v)"
  have "hs_upholds E (\<lambda>t. t = s \<and> True) (seq_h (of_result (hs_vote_verify E (hsc_committee s) v)) (bind_h ?add
      (\<lambda>r. case r of None \<Rightarrow> ret () | Some q \<Rightarrow> seq_h (hs_process_qc q) (hs_propose_as_leader None)))) (\<lambda>_ _. True)"
  proof (rule lg.u_seq [OF lg.u_of_result lg.u_bind [OF add_vote_upholds]])
    fix r
    show "hs_upholds E (\<lambda>s. \<forall>q. r = Some q \<longrightarrow> hs_good_qc E (hsc_committee s) q)
        (case r of None \<Rightarrow> ret () | Some q \<Rightarrow> seq_h (hs_process_qc q) (hs_propose_as_leader None)) (\<lambda>_ _. True)"
      by (cases r) (auto intro!: lg.u_ret lg.u_seq [OF process_qc_upholds] lg.u_pre [OF propose_upholds])
  qed simp
  then show ?case by (simp add: lg.u_ret)
qed

lemma broadcast_quiet: "hs_inv E s \<Longrightarrow> hs_inv E (hs_broadcast m s) \<and> hs_le s (hs_broadcast m s)"
  by (rule hs_inv_quiet) (simp_all add: hs_broadcast_def)

lemma handle_timeout_upholds:
  assumes "hs_batch_sound E"
  shows "hs_upholds E (\<lambda>_. True) (hs_handle_timeout E t) (\<lambda>_ _. True)"
  unfolding hs_handle_timeout_def
proof (intro lg.u_with_state, goal_cases)
  case (1 s)
  let ?c = "hsc_committee s" and ?V = "hs_timeout_verify E (hsc_committee s) t = Done ()"
  let ?rest = "\<lambda>tc. seq_h (hs_advance_round (hst_round tc)) (seq_h (modify (hs_broadcast (HsTC tc))) (hs_propose_as_leader (Some tc)))"
  have qc: "hs_upholds E (\<lambda>u. hsc_committee u = ?c \<and> ?V) (hs_process_qc (hso_high_qc t)) (\<lambda>_ u. hsc_committee u = ?c \<and> ?V)"
  proof (rule lg.u_post [OF lg.u_pre [OF lg.u_frame [OF process_qc_upholds, of "\<lambda>u. hsc_committee u = ?c \<and> ?V"]]])
    fix u assume "hs_inv E u" "hsc_committee u = ?c \<and> ?V"
    then show "hs_good_qc E (hsc_committee u) (hso_high_qc t) \<and> hsc_committee u = ?c \<and> ?V"
      using assms by (auto simp: hs_timeout_verify_def hs_inv_def intro: hs_qc_check_good)
  qed (auto simp: hs_le_def)
  have "hs_upholds E (\<lambda>u. u = s \<and> True) (seq_h (of_result (hs_timeout_verify E ?c t)) (seq_h (hs_process_qc (hso_high_qc t))
      (bind_h (hs_on_aggregator (hs_add_timeout ?c t)) (\<lambda>r. case r of None \<Rightarrow> ret () | Some tc \<Rightarrow> ?rest tc)))) (\<lambda>_ _. True)"
  proof (rule lg.u_seq [OF lg.u_of_result lg.u_seq [OF qc lg.u_bind [OF add_timeout_upholds]]])
    fix r
    show "hs_upholds E (\<lambda>_. True) (case r of None \<Rightarrow> ret () | Some tc \<Rightarrow> ?rest tc) (\<lambda>_ _. True)"
      by (cases r) (auto simp: broadcast_quiet intro!: lg.u_ret lg.u_seq [OF lg.u_post [OF advance_upholds]]
          lg.u_seq [OF lg.u_modify] lg.u_pre [OF propose_upholds])
  qed simp
  then show ?case by (simp add: lg.u_ret)
qed

lemma record_timeout_inv:
  assumes "hs_inv E s"
  shows "hs_inv E (hs_record_timeout s) \<and> hs_le s (hs_record_timeout s)"
proof
  show le: "hs_le s (hs_record_timeout s)" by (simp add: hs_le_def hs_record_timeout_def)
  have "\<forall>e \<in> set (hsc_signed s). hs_before e (TimeoutAt (hsc_round s) (hsq_round (hsc_high_qc s)))"
  proof
    fix e assume "e \<in> set (hsc_signed s)"
    then have "hs_entry_ok E s e" using assms by (simp add: hs_inv_def)
    then show "hs_before e (TimeoutAt (hsc_round s) (hsq_round (hsc_high_qc s)))" by (cases e) simp_all
  qed
  then show "hs_inv E (hs_record_timeout s)"
    by (intro hs_inv_climb [OF assms le]) (use assms in \<open>auto simp: hs_inv_def hs_record_timeout_def sorted_wrt_append\<close>)
qed

lemma timeout_sent:
  assumes "hs_inv E s"
  shows "hs_inv E (hs_broadcast x (hs_record_timeout s)) \<and> hs_le s (hs_broadcast x (hs_record_timeout s))"
  using record_timeout_inv [OF assms] broadcast_quiet lg.trans by blast

lemma local_timeout_upholds:
  assumes "hs_batch_sound E"
  shows "hs_upholds E (\<lambda>_. True) (hs_local_timeout E) (\<lambda>_ _. True)"
  unfolding hs_local_timeout_def Let_def
  by (intro lg.u_with_state lg.u_seq [OF lg.u_modify handle_timeout_upholds [OF assms]]) (simp add: timeout_sent)


text \<open>Reading and storing blocks.\<close>

definition hs_known :: "('c, 'p) hs_env_scheme \<Rightarrow> 'c hs_core \<Rightarrow> 'c hs_block \<Rightarrow> bool" where
  "hs_known E s b \<longleftrightarrow> b = hs_block_genesis \<or> hs_ready E s b"

lemma hs_known_mono: "hs_le s t \<Longrightarrow> hs_known E s b \<Longrightarrow> hs_known E t b"
  using hs_ready_mono by (auto simp: hs_known_def)

lemma genesis_block_qc [simp]: "hs_qc_eq (hsb_qc hs_block_genesis) hs_qc_genesis" "hsb_round hs_block_genesis = 0"
  by (simp_all add: hs_block_genesis_def hs_qc_eq_def)

lemma get_parent_upholds:
  assumes "hs_codec_ok E"
  shows "hs_upholds E (\<lambda>s. hs_known E s b) (hs_get_parent E b)
     (\<lambda>r s. \<forall>a. r = Some a \<longrightarrow> hs_parent_of E s b a \<and> hs_known E s a)"
proof (cases "hs_qc_eq (hsb_qc b) hs_qc_genesis")
  case True
  then show ?thesis by (auto simp: hs_get_parent_def hs_parent_of_def hs_known_def intro: lg.u_ret)
next
  case False
  show ?thesis
    unfolding hs_get_parent_def if_not_P [OF False]
  proof (intro lg.u_with_state, goal_cases)
    case (1 s)
    show ?case
    proof (cases "map_of (hsc_store s) (digest_bytes (hsq_hash (hsb_qc b)))")
      case None
      let ?f = "\<lambda>s. s\<lparr>hsc_sync_requests := hsc_sync_requests s @ [b]\<rparr>"
      have "hs_inv E (?f t) \<and> hs_le t (?f t)" if t: "hs_inv E t" "t = s \<and> hs_known E t b" for t
      proof
        show le: "hs_le t (?f t)" by (simp add: hs_le_def)
        have "hs_ready E t b" using t False by (auto simp: hs_known_def)
        then show "hs_inv E (?f t)"
          by (intro hs_inv_climb [OF t(1) le]) (use t in \<open>auto simp: hs_inv_def hs_ready_def\<close>)
      qed
      then show ?thesis using None by (auto intro!: lg.u_seq [OF lg.u_modify, where B = "\<lambda>_. True"] lg.u_ret)
    next
      case (Some bytes)
      have "\<exists>a. bytes = hse_encode E a \<and> hsq_hash (hsb_qc b) = hs_block_digest E a \<and> hs_stored E s a \<and> hs_ready E s a" if "hs_inv E s"
      proof -
        have "(digest_bytes (hsq_hash (hsb_qc b)), bytes) \<in> set (hsc_store s)" using Some by (rule map_of_SomeD)
        then show ?thesis using that by (fastforce simp: hs_inv_def hs_stored_def)
      qed
      then have "hs_inv E s \<longrightarrow> (\<exists>a. hse_decode E bytes = Some a \<and> hs_parent_of E s b a \<and> hs_known E s a)"
        using assms False by (auto simp: hs_codec_ok_def hs_parent_of_def hs_known_def)
      then show ?thesis using Some
        by (auto simp: lg.upholds_def ret_def fail_def lg.refl split: option.split)
    qed
  qed
qed

lemma get_ancestors_upholds:
  assumes "hs_codec_ok E"
  shows "hs_upholds E (\<lambda>s. hs_known E s b) (hs_get_ancestors E b)
     (\<lambda>r s. \<forall>b0 b1. r = Some (b0, b1) \<longrightarrow> hs_parent_of E s b b1 \<and> hs_parent_of E s b1 b0 \<and> hs_known E s b0)"
  unfolding hs_get_ancestors_def
proof (rule lg.u_bind [OF get_parent_upholds [OF assms]])
  fix r
  show "hs_upholds E (\<lambda>s. \<forall>a. r = Some a \<longrightarrow> hs_parent_of E s b a \<and> hs_known E s a)
     (case r of None \<Rightarrow> ret None | Some b1 \<Rightarrow> bind_h (hs_get_parent E b1) (\<lambda>r0. bind_h (unwrap r0) (\<lambda>b0. ret (Some (b0, b1)))))
     (\<lambda>r s. \<forall>b0 b1. r = Some (b0, b1) \<longrightarrow> hs_parent_of E s b b1 \<and> hs_parent_of E s b1 b0 \<and> hs_known E s b0)"
  proof (cases r)
    case (Some b1)
    have "hs_upholds E (\<lambda>s. hs_known E s b1 \<and> hs_parent_of E s b b1) (hs_get_parent E b1)
       (\<lambda>r s. (\<forall>a. r = Some a \<longrightarrow> hs_parent_of E s b1 a \<and> hs_known E s a) \<and> hs_parent_of E s b b1)"
      by (rule lg.u_frame [OF get_parent_upholds [OF assms]]) (rule hs_parent_of_mono)
    then have "hs_upholds E (\<lambda>s. hs_known E s b1 \<and> hs_parent_of E s b b1)
        (bind_h (hs_get_parent E b1) (\<lambda>r0. bind_h (unwrap r0) (\<lambda>b0. ret (Some (b0, b1)))))
       (\<lambda>r s. \<forall>b0 b1. r = Some (b0, b1) \<longrightarrow> hs_parent_of E s b b1 \<and> hs_parent_of E s b1 b0 \<and> hs_known E s b0)"
      by (rule lg.u_bind)
        (rule lg.u_bind [OF lg.u_unwrap, where B = "\<lambda>b0 s. hs_parent_of E s b b1 \<and> hs_parent_of E s b1 b0 \<and> hs_known E s b0"],
         auto intro: lg.u_ret)
    then show ?thesis unfolding Some option.case by (rule lg.u_pre) auto
  qed (auto intro: lg.u_ret)
qed

lemma store_upholds: "hs_upholds E (\<lambda>s. hs_ready E s b) (hs_store_block E b) (\<lambda>_ s. hs_stored E s b)"
  unfolding hs_store_block_def
proof (rule lg.u_modify, goal_cases)
  case (1 s)
  let ?t = "s\<lparr>hsc_store := (digest_bytes (hs_block_digest E b), hse_encode E b) # hsc_store s\<rparr>"
  have le: "hs_le s ?t" by (auto simp: hs_le_def)
  have "hs_inv E ?t"
    by (rule hs_inv_climb [OF 1(1) le]) (use 1 hs_ready_mono [OF le 1(2)] in \<open>auto simp: hs_inv_def\<close>)
  then show ?case using le by (simp add: hs_stored_def)
qed


text \<open>Committing: all that is collected lies below the committed block.\<close>

lemma collect_upholds:
  assumes "hs_codec_ok E"
  shows "hs_upholds E (\<lambda>s. hs_known E s parent \<and> (hs_parent_of E s)\<^sup>*\<^sup>* b0 parent \<and> (\<forall>x \<in> set acc. (hs_parent_of E s)\<^sup>*\<^sup>* b0 x))
     (hs_collect n E parent acc) (\<lambda>r s. \<forall>x \<in> set r. (hs_parent_of E s)\<^sup>*\<^sup>* b0 x)"
proof (induction n arbitrary: parent acc)
  case (Suc n)
  let ?F = "\<lambda>s. (hs_parent_of E s)\<^sup>*\<^sup>* b0 parent \<and> (\<forall>x \<in> set acc. (hs_parent_of E s)\<^sup>*\<^sup>* b0 x)"
  have f: "hs_upholds E (\<lambda>s. hs_known E s parent \<and> ?F s) (hs_get_parent E parent)
      (\<lambda>r s. (\<forall>a. r = Some a \<longrightarrow> hs_parent_of E s parent a \<and> hs_known E s a) \<and> ?F s)"
    by (rule lg.u_frame [OF get_parent_upholds [OF assms]]) (use hs_chain_mono in blast)
  have "hs_upholds E (\<lambda>s. hs_known E s parent \<and> ?F s)
      (bind_h (hs_get_parent E parent) (\<lambda>r. bind_h (unwrap r) (\<lambda>a. hs_collect n E a (acc @ [a]))))
      (\<lambda>r s. \<forall>x \<in> set r. (hs_parent_of E s)\<^sup>*\<^sup>* b0 x)"
    by (rule lg.u_bind [OF f lg.u_bind [OF lg.u_unwrap Suc]]) (auto intro: rtranclp.rtrancl_into_rtrancl)
  then show ?case
    unfolding hs_collect.simps by (intro lg.u_with_state) (auto intro: lg.u_ret lg.u_pre)
qed (auto intro: lg.u_stop)

lemma deliver_upholds: "hs_upholds E (\<lambda>s. \<forall>x \<in> A. hs_final E s x) (each hs_deliver xs) (\<lambda>_ s. \<forall>x \<in> A. hs_final E s x)"
  if "set xs \<subseteq> A"
proof (rule lg.u_each)
  fix x assume "x \<in> set xs"
  then have "x \<in> A" using that by blast
  show "hs_upholds E (\<lambda>s. \<forall>x \<in> A. hs_final E s x) (hs_deliver x) (\<lambda>_ s. \<forall>x \<in> A. hs_final E s x)"
    unfolding hs_deliver_def
  proof (rule lg.u_modify, goal_cases)
    case (1 s)
    let ?t = "s\<lparr>hsc_output := hsc_output s @ [x], hsc_committed := hsc_committed s @ hsb_payload x,
       hsc_mempool := hsc_mempool s @ hsb_payload x\<rparr>"
    have le: "hs_le s ?t" by (simp add: hs_le_def)
    have f: "\<forall>x \<in> A. hs_final E ?t x" using 1(2) hs_final_mono [OF le] by blast
    have "hs_inv E ?t" by (rule hs_inv_climb [OF 1(1) le]) (use 1 f \<open>x \<in> A\<close> in \<open>auto simp: hs_inv_def\<close>)
    then show ?case using le f by simp
  qed
qed

definition hs_two_chain :: "('c, 'p) hs_env_scheme \<Rightarrow> 'c hs_core \<Rightarrow> 'c hs_block \<Rightarrow> bool" where
  "hs_two_chain E s b0 \<longleftrightarrow> (\<exists>b1 b2. hs_stored E s b2 \<and> hs_parent_of E s b2 b1 \<and> hs_parent_of E s b1 b0 \<and>
     hsb_round b0 + 1 = hsb_round b1)"

lemma hs_two_chain_mono: "hs_le s t \<Longrightarrow> hs_two_chain E s b \<Longrightarrow> hs_two_chain E t b"
  unfolding hs_two_chain_def using hs_stored_mono hs_parent_of_mono by meson

lemma hs_two_chain_final: "hs_two_chain E s b0 \<Longrightarrow> 0 < hsb_round b0 \<Longrightarrow> (hs_parent_of E s)\<^sup>*\<^sup>* b0 b \<Longrightarrow> hs_final E s b"
  unfolding hs_two_chain_def hs_final_def by blast

lemma commit_upholds:
  assumes "hs_codec_ok E"
  shows "hs_upholds E (\<lambda>s. hs_two_chain E s b \<and> hs_known E s b) (hs_commit n E b) (\<lambda>_ _. True)"
  unfolding hs_commit_def
proof (intro lg.u_with_state, goal_cases)
  case (1 s0)
  show ?case
  proof (cases "hsc_last_committed s0 \<ge> hsb_round b")
    case True
    then show ?thesis by (auto intro: lg.u_ret)
  next
    case False
    then have pos: "0 < hsb_round b" using word_gt_0 by fastforce
    have col: "hs_upholds E (\<lambda>s. (hs_known E s b \<and> (hs_parent_of E s)\<^sup>*\<^sup>* b b \<and> (\<forall>x \<in> set [b]. (hs_parent_of E s)\<^sup>*\<^sup>* b x)) \<and> hs_two_chain E s b)
        (hs_collect n E b [b]) (\<lambda>r s. (\<forall>x \<in> set r. (hs_parent_of E s)\<^sup>*\<^sup>* b x) \<and> hs_two_chain E s b)"
      by (rule lg.u_frame [OF collect_upholds [OF assms] hs_two_chain_mono])
    have mark: "hs_upholds E (\<lambda>s. (\<forall>x \<in> set r. (hs_parent_of E s)\<^sup>*\<^sup>* b x) \<and> hs_two_chain E s b)
        (modify (\<lambda>s. s\<lparr>hsc_last_committed := hsb_round b\<rparr>)) (\<lambda>_ s. \<forall>x \<in> set r. hs_final E s x)" for r
    proof (rule lg.u_modify, goal_cases)
      case (1 s)
      let ?t = "s\<lparr>hsc_last_committed := hsb_round b\<rparr>"
      have q: "hs_inv E ?t \<and> hs_le s ?t" by (rule hs_inv_quiet [OF 1(1)]) simp_all
      have "hs_final E s x" if "x \<in> set r" for x using 1(2) pos that by (blast intro: hs_two_chain_final)
      then show ?case using q hs_final_mono by blast
    qed
    have "hs_upholds E (\<lambda>s. (hs_known E s b \<and> (hs_parent_of E s)\<^sup>*\<^sup>* b b \<and> (\<forall>x \<in> set [b]. (hs_parent_of E s)\<^sup>*\<^sup>* b x)) \<and> hs_two_chain E s b)
        (bind_h (hs_collect n E b [b]) (\<lambda>r. seq_h (modify (\<lambda>s. s\<lparr>hsc_last_committed := hsb_round b\<rparr>)) (each hs_deliver (rev r)))) (\<lambda>_ _. True)"
      by (rule lg.u_bind [OF col lg.u_seq [OF mark lg.u_post [OF deliver_upholds]]]) auto
    then show ?thesis using False by (auto intro: lg.u_pre)
  qed
qed

text \<open>Voting.\<close>

lemma record_vote_inv:
  assumes "hs_inv E s" and "hs_ready E s b" and "hs_stored E s b" and "hs_rule b" and "hsb_round b = hsc_round s"
    and "hsc_last_voted s < hsb_round b"
  shows "hs_inv E (hs_record_vote b s) \<and> hs_le s (hs_record_vote b s)"
proof
  show le: "hs_le s (hs_record_vote b s)" by (simp add: hs_le_def hs_record_vote_def)
  have "\<forall>e \<in> set (hsc_signed s). hs_before e (VoteFor b)"
  proof
    fix e assume "e \<in> set (hsc_signed s)"
    then have "hs_entry_ok E s e" using assms(1) by (simp add: hs_inv_def)
    then show "hs_before e (VoteFor b)" using assms(6) by (cases e) auto
  qed
  moreover have "0 < hsb_round b" using assms(6) word_gt_0 by fastforce
  moreover have "hs_entry_ok E (hs_record_vote b s) (VoteFor b)"
    using assms(2-6) \<open>0 < hsb_round b\<close> by (auto simp: hs_ready_def hs_record_vote_def hs_stored_def)
  ultimately show "hs_inv E (hs_record_vote b s)"
    by (intro hs_inv_climb [OF assms(1) le]) (use assms(1) in \<open>auto simp: hs_inv_def hs_record_vote_def sorted_wrt_append\<close>)
qed

lemma rule_2_upholds: "hs_upholds E A (hs_rule_2 b) (\<lambda>r s. A s \<and> (r \<longrightarrow> hs_rule b))"
  by (auto simp: lg.upholds_def hs_rule_2_def hs_rule_def Let_def ret_def panic_def lg.refl split: option.split)

lemma make_vote_upholds:
  "hs_upholds E (\<lambda>s. hs_ready E s b \<and> hs_stored E s b \<and> hsb_round b = hsc_round s) (hs_make_vote E b) (\<lambda>_ _. True)"
  unfolding hs_make_vote_def
proof (intro lg.u_with_state lg.u_bind [OF rule_2_upholds], goal_cases)
  case (1 s rule_2)
  then show ?case
    by (cases "hsb_round b > hsc_last_voted s \<and> rule_2") (auto simp: record_vote_inv intro!: lg.u_ret lg.u_seq [OF lg.u_modify])
qed


lemma send_vote_upholds: "hs_upholds E (\<lambda>_. True) (hs_send_vote E v) (\<lambda>_ _. True)"
  unfolding hs_send_vote_def
proof (intro lg.u_with_state, rule lg.u_bind [OF lg.u_unwrap, where B = "\<lambda>_ _. True"], goal_cases)
  case (2 s l)
  have sent: "hs_inv E (s\<lparr>hsc_sent := x\<rparr>) \<and> hs_le s (s\<lparr>hsc_sent := x\<rparr>)" if "hs_inv E s" for s and x :: "(socket_addr \<times> 'a hs_message) list"
    by (rule hs_inv_quiet [OF that]) simp_all
  show ?case
    by (cases "l = hsc_name s") (auto simp: sent intro: lg.u_pre [OF handle_vote_upholds] lg.u_modify lg.u_stop split: outcome.split)
qed simp

lemma process_block_upholds:
  assumes "hs_codec_ok E"
  shows "hs_upholds E (\<lambda>s. hs_ready E s b) (hs_process_block n E b) (\<lambda>_ _. True)"
  unfolding hs_process_block_def
proof (rule lg.u_bind)
  let ?B = "\<lambda>r s. (\<forall>b0 b1. r = Some (b0, b1) \<longrightarrow> hs_parent_of E s b b1 \<and> hs_parent_of E s b1 b0 \<and> hs_known E s b0) \<and> hs_ready E s b"
  show "hs_upholds E (\<lambda>s. hs_ready E s b) (hs_get_ancestors E b) ?B"
    by (rule lg.u_pre [OF lg.u_frame [OF get_ancestors_upholds [OF assms] hs_ready_mono]]) (auto simp: hs_known_def)
  fix r :: "('a hs_block \<times> 'a hs_block) option"
  show "hs_upholds E (?B r) (case r of None \<Rightarrow> ret () | Some (b0, b1) \<Rightarrow> seq_h (hs_store_block E b)
      (seq_h (when_h (hsb_round b0 + 1 = hsb_round b1) (hs_commit n E b0))
       (with_state (\<lambda>s. if hsb_round b \<noteq> hsc_round s then ret ()
          else bind_h (hs_make_vote E b) (\<lambda>v. case v of None \<Rightarrow> ret () | Some v \<Rightarrow> hs_send_vote E v))))) (\<lambda>_ _. True)"
  proof (cases r)
    case (Some x)
    obtain b0 b1 where x: "x = (b0, b1)" by fastforce
    let ?P = "\<lambda>s. hs_parent_of E s b b1 \<and> hs_parent_of E s b1 b0 \<and> hs_known E s b0 \<and> hs_ready E s b"
    let ?S = "\<lambda>s. hs_ready E s b \<and> hs_stored E s b"
    have store: "hs_upholds E (\<lambda>s. hs_ready E s b \<and> ?P s) (hs_store_block E b) (\<lambda>_ s. hs_stored E s b \<and> ?P s)"
      by (rule lg.u_frame [OF store_upholds]) (use hs_parent_of_mono hs_known_mono hs_ready_mono in blast)
    have com: "hs_upholds E (\<lambda>s. hs_stored E s b \<and> ?P s) (when_h (hsb_round b0 + 1 = hsb_round b1) (hs_commit n E b0)) (\<lambda>_. ?S)"
    proof (rule lg.u_when)
      assume "hsb_round b0 + 1 = hsb_round b1"
      moreover have "hs_upholds E (\<lambda>s. (hs_two_chain E s b0 \<and> hs_known E s b0) \<and> ?S s) (hs_commit n E b0) (\<lambda>_ s. True \<and> ?S s)"
        by (rule lg.u_frame [OF commit_upholds [OF assms]]) (use hs_stored_mono hs_ready_mono in blast)
      ultimately show "hs_upholds E (\<lambda>s. hs_stored E s b \<and> ?P s) (hs_commit n E b0) (\<lambda>_. ?S)"
        by (auto simp: hs_two_chain_def elim!: lg.u_pre)
    qed simp
    have vote: "hs_upholds E ?S (with_state (\<lambda>s. if hsb_round b \<noteq> hsc_round s then ret ()
          else bind_h (hs_make_vote E b) (\<lambda>v. case v of None \<Rightarrow> ret () | Some v \<Rightarrow> hs_send_vote E v))) (\<lambda>_ _. True)"
    proof (intro lg.u_with_state, goal_cases)
      case (1 s)
      show ?case
      proof (cases "hsb_round b = hsc_round s")
        case True
        have "hs_upholds E (\<lambda>_. True) (case v of None \<Rightarrow> ret () | Some v \<Rightarrow> hs_send_vote E v) (\<lambda>_ _. True)" for v
          by (cases v) (auto intro: lg.u_ret send_vote_upholds)
        then show ?thesis using True by (auto intro!: lg.u_bind [OF lg.u_pre [OF make_vote_upholds]])
      qed (auto intro: lg.u_ret)
    qed
    show ?thesis unfolding Some x option.case prod.case
      by (rule lg.u_pre [OF lg.u_seq [OF store lg.u_seq [OF com vote]]]) (auto simp: Some x)
  qed (auto intro: lg.u_ret)
qed

lemma verified_ready:
  assumes "hs_inv E s" and "hs_batch_sound E" and "hs_block_verify E (hsc_committee s) b = Done ()"
    and "qround b \<le> hsq_round (hsc_high_qc s)" and "hsc_overflow s \<or> qround b < hsc_round s"
  shows "hs_ready E s b"
  using assms hs_qc_check_good [OF _ assms(2)] hs_tc_verify_justified
  by (auto simp: hs_ready_def hs_block_verify_def hs_inv_def split: option.splits)

lemma handle_proposal_upholds:
  assumes "hs_codec_ok E" and "hs_batch_sound E"
  shows "hs_upholds E (\<lambda>_. True) (hs_handle_proposal n E b) (\<lambda>_ _. True)"
  unfolding hs_handle_proposal_def
proof (intro lg.u_with_state, goal_cases)
  case (1 s)
  let ?C = "\<lambda>t. hsc_committee t = hsc_committee s"
  let ?V = "\<lambda>t. ?C t \<and> hs_block_verify E (hsc_committee s) b = Done ()"
  have qc: "hs_upholds E ?V (hs_process_qc (hsb_qc b)) (\<lambda>_ t. hs_ready E t b)"
  proof (rule lg.u_post [OF lg.u_pre [OF lg.u_frame [OF process_qc_upholds, of ?V]]])
    fix t assume "hs_inv E t" "?V t"
    then show "hs_good_qc E (hsc_committee t) (hsb_qc b) \<and> ?V t"
      using assms(2) by (auto simp: hs_block_verify_def hs_inv_def intro: hs_qc_check_good)
  qed (auto simp: hs_le_def intro: verified_ready [OF _ assms(2)])
  have tc: "hs_upholds E (\<lambda>t. hs_ready E t b) (case hsb_tc b of None \<Rightarrow> ret () | Some t \<Rightarrow> hs_advance_round (hst_round t)) (\<lambda>_ t. hs_ready E t b)"
  proof (cases "hsb_tc b")
    case (Some t)
    have "hs_upholds E (\<lambda>u. True \<and> hs_ready E u b) (hs_advance_round (hst_round t)) (\<lambda>_ u. (hsc_overflow u \<or> hst_round t < hsc_round u) \<and> hs_ready E u b)"
      by (rule lg.u_frame [OF advance_upholds hs_ready_mono])
    then show ?thesis unfolding Some option.case by (rule lg.u_post [OF lg.u_pre]) auto
  qed (auto intro: lg.u_ret)
  show ?case
    by (rule lg.u_bind [OF lg.u_unwrap, where B = "\<lambda>_. ?C"],
        simp, rule lg.u_seq [OF lg.u_ensure lg.u_seq [OF lg.u_of_result lg.u_seq [OF qc lg.u_seq [OF tc
          lg.u_seq [OF lg.u_of_result process_block_upholds [OF assms(1)]]]]]]) auto
qed

lemma handle_tc_upholds: "hs_upholds E (\<lambda>_. True) (hs_handle_tc t) (\<lambda>_ _. True)"
  unfolding hs_handle_tc_def by (rule lg.u_seq [OF lg.u_post [OF advance_upholds] propose_upholds]) simp

fun hs_event_ready :: "('c, 'p) hs_env_scheme \<Rightarrow> 'c hs_core_event \<Rightarrow> 'c hs_core \<Rightarrow> bool" where
  "hs_event_ready E (HsLoopback b) s \<longleftrightarrow> hs_ready E s b"
| "hs_event_ready E _ s \<longleftrightarrow> True"

lemma core_turn_upholds:
  assumes "hs_codec_ok E" and "hs_batch_sound E"
  shows "hs_upholds E (hs_event_ready E ev) (hs_core_turn n E ev) (\<lambda>_ _. True)"
proof (cases ev)
  case (HsReceived m)
  then show ?thesis
    by (cases m) (auto intro: lg.u_stop lg.u_pre [OF handle_proposal_upholds [OF assms]] lg.u_pre [OF handle_vote_upholds]
        lg.u_pre [OF handle_timeout_upholds [OF assms(2)]] lg.u_pre [OF handle_tc_upholds])
qed (auto intro: lg.u_pre [OF process_block_upholds [OF assms(1)]] lg.u_pre [OF local_timeout_upholds [OF assms(2)]])

section \<open>The invariant of the node\<close>

definition hs_node_inv :: "('c, 'p) hs_env_scheme \<Rightarrow> 'c hs_node \<Rightarrow> bool" where
  "hs_node_inv E x \<longleftrightarrow> hs_inv E (hsn_core x) \<and> (\<forall>b \<in> set (hsn_loopback x). hs_ready E (hsn_core x) b) \<and>
     (\<forall>b \<in> set (hsy_waiting (hsn_sync x)). hs_ready E (hsn_core x) b) \<and>
     (\<forall>l. hsp_leader (hsn_proposer x) = Some l \<longrightarrow> hs_lead_ok E (hsn_core x) l)"

definition hs_node_le :: "'c hs_node \<Rightarrow> 'c hs_node \<Rightarrow> bool" where
  "hs_node_le x y \<longleftrightarrow> hs_le (hsn_core x) (hsn_core y) \<and> (\<exists>bs. hsp_created (hsn_proposer y) = hsp_created (hsn_proposer x) @ bs)"

lemma node_core_change:
  assumes "hs_node_inv E x" and "hs_le (hsn_core x) s" and "hs_inv E s"
  shows "hs_node_inv E (x\<lparr>hsn_core := s\<rparr>)"
  unfolding hs_node_inv_def
proof (intro conjI ballI allI impI)
  note x = assms(1) [unfolded hs_node_inv_def]
  show "hs_inv E (hsn_core (x\<lparr>hsn_core := s\<rparr>))" using assms(3) by simp
  show "hs_ready E (hsn_core (x\<lparr>hsn_core := s\<rparr>)) b" if "b \<in> set (hsn_loopback (x\<lparr>hsn_core := s\<rparr>))" for b
    using x that hs_ready_mono [OF assms(2), of E] by simp
  show "hs_ready E (hsn_core (x\<lparr>hsn_core := s\<rparr>)) b" if "b \<in> set (hsy_waiting (hsn_sync (x\<lparr>hsn_core := s\<rparr>)))" for b
    using x that hs_ready_mono [OF assms(2), of E] by simp
  show "hs_lead_ok E (hsn_core (x\<lparr>hsn_core := s\<rparr>)) l" if "hsp_leader (hsn_proposer (x\<lparr>hsn_core := s\<rparr>)) = Some l" for l
    using x that hs_lead_ok_mono [OF assms(2), of E] by (cases l) auto
qed

lemma core_moves_inv:
  assumes "hs_codec_ok E" and "hs_batch_sound E" and "hs_node_inv E x" and "hs_event_ready E ev (hsn_core x)"
  shows "hs_node_inv E (hs_core_moves n E ev x) \<and> hs_node_le x (hs_core_moves n E ev x)"
proof (cases "hsn_alive x")
  case True
  obtain s r where t: "hs_core_turn n E ev (hsn_core x) = (s, r)" by fastforce
  have "hs_inv E (hsn_core x)" using assms(3) by (simp add: hs_node_inv_def)
  note u = lg.upholdsD [OF core_turn_upholds [OF assms(1, 2)] this assms(4) t]
  then show ?thesis using True t assms(3)
    by (auto simp: hs_core_moves_def hs_node_inv_def hs_node_le_def hs_ready_mono hs_lead_ok_mono)
qed (use assms(3) in \<open>simp add: hs_core_moves_def hs_node_le_def lg.refl\<close>)


lemma made_block: "hs_make_block E sign name c (r, q, t) p = (b, p') \<Longrightarrow>
   hsb_qc b = q \<and> hsb_author b = name \<and> hsp_leader p' = hsp_leader p \<and> hsp_created p' = hsp_created p @ [b]"
  by (auto simp: hs_make_block_def hs_block_new_def Let_def)

lemma propose_ready:
  assumes "hs_propose E (hsc_sign s) (hsc_name s) (hsc_committee s) p = (bs, p')"
    and "\<forall>l. hsp_leader p = Some l \<longrightarrow> hs_lead_ok E s l"
  shows "(\<forall>b \<in> set bs. hs_ready E s b) \<and> (\<forall>l. hsp_leader p' = Some l \<longrightarrow> hs_lead_ok E s l) \<and> hsp_created p' = hsp_created p @ bs"
proof (cases "(hsp_elapsed p \<or> hsp_buffer p \<noteq> []) \<and> hsp_leader p \<noteq> None")
  case True
  then obtain r q t where l: "hsp_leader p = Some (r, q, t)" by (metis option.exhaust prod_cases3)
  obtain b p'' where m: "hs_make_block E (hsc_sign s) (hsc_name s) (hsc_committee s) (r, q, t) (p\<lparr>hsp_leader := None\<rparr>) = (b, p'')"
    by fastforce
  have "bs = [b]" "p' = p''\<lparr>hsp_elapsed := False\<rparr>" using assms(1) True l m by (auto simp: hs_propose_def)
  moreover have "hs_lead_ok E s (r, q, t)" using assms(2) l by simp
  ultimately show ?thesis using made_block [OF m] by (simp add: hs_ready_def hs_lead_ok_def)
next
  case False
  then have "bs = [] \<and> p' = p" using assms(1) by (auto simp: hs_propose_def split: if_splits option.splits)
  then show ?thesis using assms(2) by simp
qed

lemma proposer_moves_inv:
  assumes "hs_node_inv E x" and "\<forall>r q t. ev = HsLead r q t \<longrightarrow> hs_lead_ok E (hsn_core x) (r, q, t)"
  shows "hs_node_inv E (hs_proposer_moves E ev x) \<and> hs_node_le x (hs_proposer_moves E ev x)"
proof -
  let ?s = "hsn_core x" and ?p = "hs_proposer_receive E ev (hsn_proposer x)"
  obtain bs p' where pr: "hs_propose E (hsc_sign ?s) (hsc_name ?s) (hsc_committee ?s) ?p = (bs, p')" by fastforce
  have "\<forall>l. hsp_leader ?p = Some l \<longrightarrow> hs_lead_ok E ?s l" and created: "hsp_created ?p = hsp_created (hsn_proposer x)"
    using assms by (cases ev; auto simp: hs_node_inv_def)+
  from propose_ready [OF pr this(1)] show ?thesis
    using assms(1) pr created by (auto simp: hs_proposer_moves_def hs_node_inv_def hs_node_le_def Let_def lg.refl)
qed

lemma sync_waiting: "set (hsy_waiting (fst (hs_sync_request E c name now b y))) \<subseteq> insert b (set (hsy_waiting y))"
  by (auto simp: hs_sync_request_def with_state_def ret_def seq_h_def bind_h_def modify_def panic_def Let_def split: outcome.splits)

lemma node_turn_inv:
  assumes "hs_codec_ok E" and "hs_batch_sound E" and x: "hs_node_inv E x"
  shows "hs_node_inv E (hs_node_turn n E ev x) \<and> hs_node_le x (hs_node_turn n E ev x)"
proof (cases ev)
  case (HnMessage m)
  then show ?thesis
    using x core_moves_inv [OF assms, of "HsReceived m"] by (cases m) (auto simp: hs_node_le_def lg.refl)
next
  case HnLoopback
  show ?thesis
  proof (cases "hsn_loopback x")
    case (Cons b bs)
    let ?y = "x\<lparr>hsn_loopback := bs\<rparr>"
    have "hs_node_inv E ?y" "hs_ready E (hsn_core ?y) b" using x Cons by (auto simp: hs_node_inv_def)
    then have "hs_node_inv E (hs_core_moves n E (HsLoopback b) ?y) \<and> hs_node_le ?y (hs_core_moves n E (HsLoopback b) ?y)"
      by (intro core_moves_inv [OF assms(1, 2)]) simp_all
    then show ?thesis using HnLoopback Cons by (simp add: hs_node_le_def)
  qed (use x HnLoopback in \<open>simp add: hs_node_le_def lg.refl\<close>)
next
  case HnTimer
  then show ?thesis using core_moves_inv [OF assms, of HsTimerExpired] by simp
next
  case (HnCertificate c)
  then show ?thesis using proposer_moves_inv [OF x, of "HsCertificate c"] by simp
next
  case HnLead
  show ?thesis
  proof (cases "hsc_to_proposer (hsn_core x)")
    case (Cons l ms)
    obtain r q t where l: "l = (r, q, t)" by (metis prod_cases3)
    let ?s = "(hsn_core x)\<lparr>hsc_to_proposer := ms\<rparr>"
    let ?y = "x\<lparr>hsn_core := ?s\<rparr>"
    have le: "hs_le (hsn_core x) ?s" by (simp add: hs_le_def)
    have "hs_inv E (hsn_core x)" "hs_lead_ok E (hsn_core x) l" using x Cons by (auto simp: hs_node_inv_def hs_inv_def)
    then have "hs_inv E ?s" by (intro hs_inv_climb [OF _ le]) (use Cons in \<open>auto simp: hs_inv_def\<close>)
    then have "hs_node_inv E ?y" by (rule node_core_change [OF x le])
    moreover have "hs_lead_ok E ?s l" using \<open>hs_lead_ok E (hsn_core x) l\<close> by (rule hs_lead_ok_mono [OF le])
    ultimately have "hs_node_inv E (hs_proposer_moves E (HsLead r q t) ?y) \<and> hs_node_le ?y (hs_proposer_moves E (HsLead r q t) ?y)"
      by (intro proposer_moves_inv) (simp_all add: l)
    then show ?thesis using HnLead Cons l le lg.trans by (auto simp: hs_node_le_def)
  qed (use x HnLead in \<open>simp add: hs_node_le_def lg.refl\<close>)
next
  case HnDelayOver
  then show ?thesis using proposer_moves_inv [OF x, of HsDelayOver] by simp
next
  case (HnSync now)
  show ?thesis
  proof (cases "hsc_sync_requests (hsn_core x)")
    case (Cons b bs)
    let ?s = "(hsn_core x)\<lparr>hsc_sync_requests := bs\<rparr>"
    have le: "hs_le (hsn_core x) ?s" by (simp add: hs_le_def)
    have s: "hs_inv E (hsn_core x)" "hs_ready E (hsn_core x) b" using x Cons by (auto simp: hs_node_inv_def hs_inv_def)
    have "hs_inv E ?s" by (rule hs_inv_climb [OF s(1) le]) (use s Cons in \<open>auto simp: hs_inv_def\<close>)
    moreover have "\<forall>b' \<in> set (hsy_waiting (fst (hs_sync_request E (hsc_committee (hsn_core x)) (hsc_name (hsn_core x)) now b (hsn_sync x)))).
        hs_ready E ?s b'"
    proof
      fix b' assume "b' \<in> set (hsy_waiting (fst (hs_sync_request E (hsc_committee (hsn_core x)) (hsc_name (hsn_core x)) now b (hsn_sync x))))"
      then have "b' \<in> insert b (set (hsy_waiting (hsn_sync x)))" using sync_waiting by fast
      then show "hs_ready E ?s b'" using s(2) x hs_ready_mono [OF le, of E] by (auto simp: hs_node_inv_def)
    qed
    ultimately show ?thesis using HnSync Cons le node_core_change [OF x le] by (simp add: hs_node_inv_def hs_node_le_def)
  qed (use x HnSync in \<open>simp add: hs_node_le_def lg.refl\<close>)
next
  case (HnResume i)
  have "set (remove1 b bs) \<subseteq> set bs" for b :: "'a hs_block" and bs by (rule set_remove1_subset)
  then show ?thesis using HnResume x
    by (auto simp: hs_node_inv_def hs_node_le_def lg.refl hs_sync_resume_def Let_def split: option.split)
next
  case (HnRetry d now)
  then show ?thesis using x by (simp add: hs_node_inv_def hs_node_le_def lg.refl hs_sync_retry_def)
qed

lemma core_new_inv: "committee_ok c \<Longrightarrow> hs_inv E (hs_core_new name c sign)"
  using hs_new_waiting [of c]
  by (simp add: hs_inv_def hs_core_new_def hs_good_qc_def hs_qc_eq_def hs_qc_genesis_def hs_aggregator_ok_def
      hs_aggregator_new_def hs_qc_maker_at_def hs_tc_maker_at_def hs_votes_ok_def hs_timeouts_ok_def
      hqm.collecting_def htm.collecting_def hs_qc_maker_new_def hs_tc_maker_new_def)

lemma core_start_upholds: "hs_upholds E (\<lambda>_. True) hs_core_start (\<lambda>_ _. True)"
  unfolding hs_core_start_def
proof (rule lg.u_seq [OF lg.u_modify propose_upholds], goal_cases)
  case (1 s)
  have "hs_inv E (s\<lparr>hsc_timer_resets := hsc_timer_resets s + 1\<rparr>) \<and> hs_le s (s\<lparr>hsc_timer_resets := hsc_timer_resets s + 1\<rparr>)"
    by (rule hs_inv_quiet [OF 1(1)]) simp_all
  then show ?case by simp
qed

lemma node_new_inv:
  fixes E :: "('c, 'p) hs_env_scheme"
  assumes "committee_ok c"
  shows "hs_node_inv E (hs_node_new name c sign)" and "hs_le (hs_core_new name c sign) (hsn_core (hs_node_new name c sign :: 'c hs_node))"
proof -
  obtain s :: "'c hs_core" and r where t: "hs_core_start (hs_core_new name c sign) = (s, r)" by fastforce
  note u = lg.upholdsD [OF core_start_upholds core_new_inv [OF assms] TrueI t]
  then show "hs_node_inv E (hs_node_new name c sign)" "hs_le (hs_core_new name c sign) (hsn_core (hs_node_new name c sign :: 'c hs_node))"
    using t by (auto simp: hs_node_inv_def hs_node_new_def hs_sync_new_def hs_proposer_new_def)
qed

lemma run_inv:
  assumes "hs_codec_ok E" and "hs_batch_sound E" and "hs_node_inv E x"
  shows "hs_node_inv E (hs_run n E es x) \<and> hs_node_le x (hs_run n E es x)"
  using assms(3)
proof (induction es arbitrary: x)
  case Nil
  then show ?case by (simp add: hs_run_def hs_node_le_def lg.refl)
next
  case (Cons ev es)
  note t = node_turn_inv [OF assms(1, 2) Cons.prems, of n ev]
  from Cons.IH [OF t [THEN conjunct1]] t show ?case
    by (auto simp: hs_run_def hs_node_le_def intro: lg.trans)
qed

end
