(* ===== verification/HotStuff_Safety.thy ===== *)
theory HotStuff_Safety
  imports HotStuff_Invariant
begin

text \<open>
  Agreement of HotStuff. The argument of the protocol is the locale \<open>two_chain\<close>, over
  certificates and links between blocks; it is interpreted on the nodes of the code, whose
  invariant discharges its laws.

  A world is a set of honest authorities with a run of a node each. Nothing is assumed about the
  order in which the nodes move or what they receive. Assumed are: faulty stake below the
  validity threshold (and below the quorum with any one authority added); that a signature of an
  honest authority verifies only on what its node has signed; that the hash has no collision on
  the finitely many inputs the honest nodes have hashed; and that no round counter overflows.
\<close>

section \<open>The protocol\<close>

locale two_chain =
  fixes ok :: "'w \<Rightarrow> bool"
    and cert :: "'w \<Rightarrow> 'd \<Rightarrow> nat \<Rightarrow> bool"
    and link :: "'w \<Rightarrow> 'd \<Rightarrow> 'd \<Rightarrow> nat \<Rightarrow> bool"
  assumes unique: "ok w \<Longrightarrow> cert w d r \<Longrightarrow> cert w d' r \<Longrightarrow> d = d'"
    and one_round: "ok w \<Longrightarrow> cert w d r \<Longrightarrow> cert w d r' \<Longrightarrow> r = r'"
    and functional: "ok w \<Longrightarrow> link w d a r \<Longrightarrow> link w d a' r' \<Longrightarrow> a = a' \<and> r = r'"
    and certified: "ok w \<Longrightarrow> link w d a r \<Longrightarrow> cert w a r"
    and down: "ok w \<Longrightarrow> cert w d r \<Longrightarrow> link w d a r' \<Longrightarrow> r' < r"
    and lock: "ok w \<Longrightarrow> cert w d1 (Suc r1) \<Longrightarrow> link w d1 d0 r1 \<Longrightarrow> cert w d r \<Longrightarrow> Suc r1 < r
      \<Longrightarrow> \<exists>a r'. link w d a r' \<and> r1 \<le> r'"
begin

definition parent :: "'w \<Rightarrow> 'd \<Rightarrow> 'd \<Rightarrow> bool" where
  "parent w d a \<longleftrightarrow> (\<exists>r. link w d a r)"

definition decided :: "'w \<Rightarrow> 'd \<Rightarrow> nat \<Rightarrow> bool" where
  "decided w d r \<longleftrightarrow> (\<exists>d1. cert w d1 (Suc r) \<and> link w d1 d r)"

lemma extends:
  assumes "ok w" and "decided w d0 r0"
  shows "cert w d r \<Longrightarrow> r0 \<le> r \<Longrightarrow> (parent w)\<^sup>*\<^sup>* d d0"
proof (induction r arbitrary: d rule: less_induct)
  case (less r)
  obtain d1 where d1: "cert w d1 (Suc r0)" "link w d1 d0 r0" using assms(2) by (auto simp: decided_def)
  consider "r = r0" | "r = Suc r0" | "Suc r0 < r" using less.prems(2) by linarith
  then show ?case
  proof cases
    case 1
    then show ?thesis using unique [OF assms(1) less.prems(1)] certified [OF assms(1) d1(2)] by blast
  next
    case 2
    then have "d = d1" using unique [OF assms(1) less.prems(1)] d1(1) by blast
    then show ?thesis using d1(2) by (auto simp: parent_def)
  next
    case 3
    then obtain a r' where a: "link w d a r'" "r0 \<le> r'" using lock [OF assms(1) d1 less.prems(1)] by blast
    have "(parent w)\<^sup>*\<^sup>* a d0"
      using less.IH [OF down [OF assms(1) less.prems(1) a(1)] certified [OF assms(1) a(1)] a(2)] .
    moreover have "parent w d a" using a(1) by (auto simp: parent_def)
    ultimately show ?thesis by (rule converse_rtranclp_into_rtranclp [rotated])
  qed
qed

lemma lower:
  assumes "ok w" and "(parent w)\<^sup>*\<^sup>* d a" and "cert w d r"
  shows "a = d \<or> (\<exists>r' < r. cert w a r')"
  using assms(2)
proof (induction rule: rtranclp_induct)
  case (step a a')
  then obtain r' where r': "link w a a' r'" by (auto simp: parent_def)
  then show ?case using step.IH assms(3) down [OF assms(1)] certified [OF assms(1) r'] by (meson less_trans)
qed simp

lemma linear:
  assumes "ok w" and "(parent w)\<^sup>*\<^sup>* d a" and "(parent w)\<^sup>*\<^sup>* d b"
  shows "(parent w)\<^sup>*\<^sup>* a b \<or> (parent w)\<^sup>*\<^sup>* b a"
  using assms(2)
proof (induction rule: rtranclp_induct)
  case base
  then show ?case using assms(3) by blast
next
  case (step a a')
  then consider "(parent w)\<^sup>*\<^sup>* b a" | "a = b" | a'' where "parent w a a''" "(parent w)\<^sup>*\<^sup>* a'' b"
    by (meson converse_rtranclpE)
  then show ?case
  proof cases
    case 3
    then have "a'' = a'" using step.hyps(2) functional [OF assms(1)] by (auto simp: parent_def)
    then show ?thesis using 3 by blast
  qed (use step.hyps in \<open>auto intro: rtranclp.rtrancl_into_rtrancl\<close>)
qed

text \<open>Two blocks below decided ones lie on one chain, so in one round there is only one.\<close>

lemma one_chain:
  assumes "ok w" and "decided w d0 r0" and "decided w d0' r0'"
    and "(parent w)\<^sup>*\<^sup>* d0 b" and "(parent w)\<^sup>*\<^sup>* d0' b'"
  shows "(parent w)\<^sup>*\<^sup>* b b' \<or> (parent w)\<^sup>*\<^sup>* b' b"
proof -
  have cert: "cert w d0 r0" "cert w d0' r0'" using assms(1-3) certified by (auto simp: decided_def)
  show ?thesis
  proof (cases "r0 \<le> r0'")
    case True
    have "(parent w)\<^sup>*\<^sup>* d0' d0" by (rule extends [OF assms(1, 2) cert(2) True])
    then show ?thesis using linear [OF assms(1)] assms(4, 5) by (meson rtranclp_trans)
  next
    case False
    then have "(parent w)\<^sup>*\<^sup>* d0 d0'" by (intro extends [OF assms(1, 3) cert(1)]) simp
    then show ?thesis using linear [OF assms(1)] assms(4, 5) by (meson rtranclp_trans)
  qed
qed

lemma one_block:
  assumes "ok w" and "decided w d0 r0" and "decided w d0' r0'"
    and "(parent w)\<^sup>*\<^sup>* d0 b" and "(parent w)\<^sup>*\<^sup>* d0' b'" and "cert w b r" and "cert w b' r"
  shows "b = b'"
  using unique [OF assms(1, 6, 7)] .

end

section \<open>Worlds of honest nodes\<close>

record 'c hs_world =
  hw_env :: "'c hs_env"
  hw_committee :: committee
  hw_honest :: "public_key set"
  hw_node :: "public_key \<Rightarrow> 'c hs_node"

fun hs_entry_input :: "'c hs_env \<Rightarrow> 'c hs_entry \<Rightarrow> u8 list" where
  "hs_entry_input E (VoteFor b) = hs_vote_input (hs_block_digest E b) (hsb_round b)"
| "hs_entry_input E (TimeoutAt r h) = hs_timeout_input r h"

text \<open>What a node has had signed, and what it has hashed for signing or verifying.\<close>

definition hs_signed_inputs :: "'c hs_env \<Rightarrow> 'c hs_node \<Rightarrow> u8 list set" where
  "hs_signed_inputs E x = hs_entry_input E ` set (hsc_signed (hsn_core x)) \<union>
     hs_block_input E ` set (hsp_created (hsn_proposer x))"

definition hs_block_inputs :: "'c hs_env \<Rightarrow> 'c hs_block \<Rightarrow> u8 list set" where
  "hs_block_inputs E b = {hs_block_input E b, hs_vote_input (hsq_hash (hsb_qc b)) (qround b)} \<union>
     (case hsb_tc b of None \<Rightarrow> {} | Some t \<Rightarrow> hs_timeout_input (hst_round t) ` set (high_qc_rounds t))"

definition hs_hashed :: "'c hs_env \<Rightarrow> 'c hs_node \<Rightarrow> u8 list set" where
  "hs_hashed E x = hs_signed_inputs E x \<union> \<Union> (hs_block_inputs E ` {b. hs_stored E (hsn_core x) b})"

definition hs_honest_run :: "'c hs_world \<Rightarrow> public_key \<Rightarrow> bool" where
  "hs_honest_run w p \<longleftrightarrow> (\<exists>n es sign. hw_node w p = hs_run n (hw_env w) es (hs_node_new p (hw_committee w) sign)) \<and>
     \<not> hsc_overflow (hsn_core (hw_node w p))"

definition hs_unforgeable :: "'c hs_world \<Rightarrow> bool" where
  "hs_unforgeable w \<longleftrightarrow> (\<forall>p \<in> hw_honest w. \<forall>s d. sig_verify (hw_env w) s d p = Done () \<longrightarrow>
     d \<in> hash32 (hw_env w) ` hs_signed_inputs (hw_env w) (hw_node w p))"

definition hs_no_collision :: "'c hs_world \<Rightarrow> bool" where
  "hs_no_collision w \<longleftrightarrow> inj_on (hash32 (hw_env w)) (\<Union>p \<in> hw_honest w. hs_hashed (hw_env w) (hw_node w p)) \<and>
     default_digest \<notin> hash32 (hw_env w) ` (\<Union>p \<in> hw_honest w. hs_hashed (hw_env w) (hw_node w p))"

definition hs_few_faulty :: "'c hs_world \<Rightarrow> bool" where
  "hs_few_faulty w \<longleftrightarrow> (let f = sum (voting_weight (hw_committee w)) (members (hw_committee w) - hw_honest w) in
     f < unat (validity_threshold (hw_committee w)) \<and>
     (\<forall>a \<in> members (hw_committee w). f + voting_weight (hw_committee w) a < unat (quorum_threshold (hw_committee w))))"

definition hs_world_ok :: "'c hs_world \<Rightarrow> bool" where
  "hs_world_ok w \<longleftrightarrow> committee_ok (hw_committee w) \<and> hs_codec_ok (hw_env w) \<and> hs_batch_sound (hw_env w) \<and>
     (\<forall>p \<in> hw_honest w. hs_honest_run w p) \<and> hs_few_faulty w \<and> hs_unforgeable w \<and> hs_no_collision w"

text \<open>The core of an honest node, and what its invariant says of it.\<close>

abbreviation hw_core :: "'c hs_world \<Rightarrow> public_key \<Rightarrow> 'c hs_core" where
  "hw_core w p \<equiv> hsn_core (hw_node w p)"

abbreviation hw_log :: "'c hs_world \<Rightarrow> public_key \<Rightarrow> 'c hs_entry set" where
  "hw_log w p \<equiv> set (hsc_signed (hw_core w p))"

lemma honest_core:
  assumes "hs_world_ok w" and "p \<in> hw_honest w"
  shows "hs_inv (hw_env w) (hw_core w p)" and "hsc_committee (hw_core w p) = hw_committee w"
    and "hsc_name (hw_core w p) = p" and "\<not> hsc_overflow (hw_core w p)"
proof -
  obtain n es sign where run: "hw_node w p = hs_run n (hw_env w) es (hs_node_new p (hw_committee w) sign)"
    and ov: "\<not> hsc_overflow (hw_core w p)"
    using assms by (auto simp: hs_world_ok_def hs_honest_run_def)
  have c: "committee_ok (hw_committee w)" "hs_codec_ok (hw_env w)" "hs_batch_sound (hw_env w)"
    using assms(1) by (simp_all add: hs_world_ok_def)
  note new = node_new_inv [OF c(1)]
  note r = run_inv [OF c(2, 3) new(1), of n es p sign, folded run]
  show "hs_inv (hw_env w) (hw_core w p)" using r by (simp add: hs_node_inv_def)
  have "hs_le (hs_core_new p (hw_committee w) sign) (hw_core w p)"
    using r new(2) lg.trans unfolding hs_node_le_def by blast
  then show "hsc_committee (hw_core w p) = hw_committee w" "hsc_name (hw_core w p) = p"
    by (simp_all add: hs_le_def hs_core_new_def)
  show "\<not> hsc_overflow (hw_core w p)" by (rule ov)
qed


section \<open>What signatures prove\<close>

lemma length_hs_inputs [simp]:
  "length (hs_vote_input d r) = 40" "length (hs_timeout_input r h) = 16"
  by (simp_all add: hs_vote_input_def hs_timeout_input_def)

lemma length_hs_block_input: "72 \<le> length (hs_block_input E b)"
  by (simp add: hs_block_input_def)

lemma hs_input_not_block [simp]: "hs_vote_input d r \<noteq> hs_block_input E b" "hs_timeout_input r h \<noteq> hs_block_input E b"
proof -
  have "length (hs_vote_input d r) \<noteq> length (hs_block_input E b)" "length (hs_timeout_input r h) \<noteq> length (hs_block_input E b)"
    using length_hs_block_input [of E b] by simp_all
  then show "hs_vote_input d r \<noteq> hs_block_input E b" "hs_timeout_input r h \<noteq> hs_block_input E b" by metis+
qed

lemma hs_vote_not_timeout [simp]: "hs_vote_input d r \<noteq> hs_timeout_input r' h" "hs_timeout_input r' h \<noteq> hs_vote_input d r"
proof -
  have "length (hs_vote_input d r) \<noteq> length (hs_timeout_input r' h)" by simp
  then show "hs_vote_input d r \<noteq> hs_timeout_input r' h" "hs_timeout_input r' h \<noteq> hs_vote_input d r" by metis+
qed

lemma hs_vote_input_inject: "hs_vote_input d r = hs_vote_input d' r' \<longleftrightarrow> d = d' \<and> r = r'"
  by (simp add: hs_vote_input_def)

lemma hs_timeout_input_inject: "hs_timeout_input r h = hs_timeout_input r' h' \<longleftrightarrow> r = r' \<and> h = h'"
  by (simp add: hs_timeout_input_def)

lemma hs_block_input_binds:
  assumes "hs_block_input E b = hs_block_input E b'"
  shows "hsb_author b = hsb_author b' \<and> hsb_round b = hsb_round b' \<and> hsq_hash (hsb_qc b) = hsq_hash (hsb_qc b')"
proof -
  have "drop (length (hs_block_input E x) - 32) (hs_block_input E x) = digest_bytes (hsq_hash (hsb_qc x))" for x
    by (simp add: hs_block_input_def)
  then have "digest_bytes (hsq_hash (hsb_qc b)) = digest_bytes (hsq_hash (hsb_qc b'))" using assms by metis
  then show ?thesis using assms by (simp add: hs_block_input_def)
qed

definition hw_hashed :: "'c hs_world \<Rightarrow> u8 list set" where
  "hw_hashed w = (\<Union>p \<in> hw_honest w. hs_hashed (hw_env w) (hw_node w p))"

lemma signed_is_hashed: "p \<in> hw_honest w \<Longrightarrow> hs_signed_inputs (hw_env w) (hw_node w p) \<subseteq> hw_hashed w"
  by (auto simp: hw_hashed_def hs_hashed_def)

lemma signed_by_honest:
  assumes "hs_world_ok w" and "p \<in> hw_honest w" and "x \<in> hw_hashed w"
    and "sig_verify (hw_env w) s (hash32 (hw_env w) x) p = Done ()"
  shows "x \<in> hs_signed_inputs (hw_env w) (hw_node w p)"
proof -
  have inj: "inj_on (hash32 (hw_env w)) (hw_hashed w)"
    using assms(1) by (simp add: hs_world_ok_def hs_no_collision_def hw_hashed_def)
  have "hash32 (hw_env w) x \<in> hash32 (hw_env w) ` hs_signed_inputs (hw_env w) (hw_node w p)"
    using assms unfolding hs_world_ok_def hs_unforgeable_def by blast
  then obtain y where "y \<in> hs_signed_inputs (hw_env w) (hw_node w p)" "hash32 (hw_env w) x = hash32 (hw_env w) y" by blast
  then show ?thesis using inj assms(3) signed_is_hashed [OF assms(2)] by (metis inj_onD subsetD)
qed

lemma vote_signed:
  assumes "hs_world_ok w" and "p \<in> hw_honest w" and "hs_vote_input d r \<in> hw_hashed w"
    and "sig_verify (hw_env w) s (hs_vote_digest (hw_env w) d r) p = Done ()"
  shows "\<exists>b. VoteFor b \<in> hw_log w p \<and> hs_block_digest (hw_env w) b = d \<and> hsb_round b = r"
proof -
  have "hs_vote_input d r \<in> hs_signed_inputs (hw_env w) (hw_node w p)"
    using signed_by_honest [OF assms(1-3)] assms(4) by (simp add: hs_vote_digest_def)
  then obtain e where e: "e \<in> hw_log w p" "hs_vote_input d r = hs_entry_input (hw_env w) e"
    by (auto simp: hs_signed_inputs_def)
  show ?thesis
  proof (cases e)
    case (VoteFor b)
    then show ?thesis using e by (auto simp: hs_vote_input_inject)
  qed (use e(2) in simp)
qed

lemma timeout_signed:
  assumes "hs_world_ok w" and "p \<in> hw_honest w" and "hs_timeout_input r h \<in> hw_hashed w"
    and "sig_verify (hw_env w) s (hs_timeout_digest (hw_env w) r h) p = Done ()"
  shows "TimeoutAt r h \<in> hw_log w p"
proof -
  have "hs_timeout_input r h \<in> hs_signed_inputs (hw_env w) (hw_node w p)"
    using signed_by_honest [OF assms(1-3)] assms(4) by (simp add: hs_timeout_digest_def)
  then obtain e where e: "e \<in> hw_log w p" "hs_timeout_input r h = hs_entry_input (hw_env w) e"
    by (auto simp: hs_signed_inputs_def)
  show ?thesis
  proof (cases e)
    case (TimeoutAt r' h')
    then show ?thesis using e by (auto simp: hs_timeout_input_inject)
  qed (use e(2) in simp)
qed

section \<open>Certificates and links\<close>

definition hw_cert :: "'c hs_world \<Rightarrow> digest \<Rightarrow> nat \<Rightarrow> bool" where
  "hw_cert w d r \<longleftrightarrow> (\<exists>A. quorum_of (hw_committee w) A \<and> (\<forall>p \<in> A \<inter> hw_honest w. \<exists>b. VoteFor b \<in> hw_log w p \<and>
     hs_block_digest (hw_env w) b = d \<and> unat (hsb_round b) = r))"

definition hw_stored :: "'c hs_world \<Rightarrow> 'c hs_block \<Rightarrow> bool" where
  "hw_stored w b \<longleftrightarrow> (\<exists>p \<in> hw_honest w. hs_stored (hw_env w) (hw_core w p) b)"

definition hw_link :: "'c hs_world \<Rightarrow> digest \<Rightarrow> digest \<Rightarrow> nat \<Rightarrow> bool" where
  "hw_link w d a r \<longleftrightarrow> (\<exists>b. hw_stored w b \<and> hs_block_digest (hw_env w) b = d \<and> \<not> hs_qc_eq (hsb_qc b) hs_qc_genesis \<and>
     hsq_hash (hsb_qc b) = a \<and> unat (qround b) = r)"

lemma stored_hashed: "hw_stored w b \<Longrightarrow> x \<in> hs_block_inputs (hw_env w) b \<Longrightarrow> x \<in> hw_hashed w"
  by (auto simp: hw_stored_def hw_hashed_def hs_hashed_def)

lemma stored_same:
  assumes "hs_world_ok w" and "hw_stored w b" and "hw_stored w b'"
    and "hs_block_digest (hw_env w) b = hs_block_digest (hw_env w) b'"
  shows "hsb_author b = hsb_author b' \<and> hsb_round b = hsb_round b' \<and> hsq_hash (hsb_qc b) = hsq_hash (hsb_qc b')"
proof -
  have "inj_on (hash32 (hw_env w)) (hw_hashed w)" using assms(1) by (simp add: hs_world_ok_def hs_no_collision_def hw_hashed_def)
  moreover have "hs_block_input (hw_env w) b \<in> hw_hashed w" "hs_block_input (hw_env w) b' \<in> hw_hashed w"
    using stored_hashed [OF assms(2)] stored_hashed [OF assms(3)] by (auto simp: hs_block_inputs_def)
  ultimately have "hs_block_input (hw_env w) b = hs_block_input (hw_env w) b'"
    using assms(4) by (auto simp: hs_block_digest_def dest: inj_onD)
  then show ?thesis by (rule hs_block_input_binds)
qed

lemma stored_not_default:
  assumes "hs_world_ok w" and "hw_stored w b"
  shows "hs_block_digest (hw_env w) b \<noteq> default_digest"
proof
  assume "hs_block_digest (hw_env w) b = default_digest"
  then have "default_digest = hash32 (hw_env w) (hs_block_input (hw_env w) b)" by (simp add: hs_block_digest_def)
  moreover have "hs_block_input (hw_env w) b \<in> hw_hashed w"
    using stored_hashed [OF assms(2)] by (auto simp: hs_block_inputs_def)
  ultimately have "default_digest \<in> hash32 (hw_env w) ` hw_hashed w" by (rule image_eqI)
  then show False using assms(1) by (simp add: hs_world_ok_def hs_no_collision_def hw_hashed_def)
qed


text \<open>Votes of honest nodes, read off the invariant.\<close>

lemma honest_vote:
  assumes "hs_world_ok w" and "p \<in> hw_honest w" and "VoteFor b \<in> hw_log w p"
  shows "hw_stored w b" and "0 < hsb_round b" and "hs_rule b" and "qround b < hsb_round b"
    and "hsb_author b \<noteq> p \<Longrightarrow> hsb_tc b = Some t \<Longrightarrow> hs_justified (hw_env w) (hw_committee w) t"
proof -
  note c = honest_core [OF assms(1, 2)]
  have e: "hs_entry_ok (hw_env w) (hw_core w p) (VoteFor b)" using c(1) assms(3) unfolding hs_inv_def by blast
  then show st: "hw_stored w b" using assms(2) by (auto simp: hw_stored_def)
  show "0 < hsb_round b" "hs_rule b" "qround b < hsb_round b" using e c(4) by simp_all
  assume t: "hsb_author b \<noteq> p" "hsb_tc b = Some t"
  have "(digest_bytes (hs_block_digest (hw_env w) b), hse_encode (hw_env w) b) \<in> set (hsc_store (hw_core w p))"
    using e by (simp add: hs_stored_def)
  then obtain b' where "hse_encode (hw_env w) b = hse_encode (hw_env w) b'" "hs_ready (hw_env w) (hw_core w p) b'"
    using c(1) unfolding hs_inv_def by blast
  moreover have "b' = b" using calculation(1) assms(1) unfolding hs_world_ok_def hs_codec_ok_def by (metis option.inject)
  ultimately show "hs_justified (hw_env w) (hw_committee w) t" using t c(2, 3) by (simp add: hs_ready_def)
qed

lemma stored_good:
  assumes "hs_world_ok w" and "hw_stored w b"
  shows "hs_good_qc (hw_env w) (hw_committee w) (hsb_qc b)"
proof -
  obtain p where p: "p \<in> hw_honest w" "hs_stored (hw_env w) (hw_core w p) b" using assms(2) by (auto simp: hw_stored_def)
  note c = honest_core [OF assms(1) p(1)]
  obtain b' where "hse_encode (hw_env w) b = hse_encode (hw_env w) b'" "hs_ready (hw_env w) (hw_core w p) b'"
    using c(1) p(2) unfolding hs_inv_def hs_stored_def by blast
  moreover have "b' = b" using calculation(1) assms(1) unfolding hs_world_ok_def hs_codec_ok_def by (metis option.inject)
  ultimately show ?thesis using c(2) by (simp add: hs_ready_def)
qed

lemma quorums_meet:
  assumes "hs_world_ok w" and "quorum_of (hw_committee w) A" and "quorum_of (hw_committee w) B"
  shows "\<exists>p \<in> hw_honest w. p \<in> A \<and> p \<in> B"
proof -
  let ?c = "hw_committee w" and ?F = "members (hw_committee w) - hw_honest w"
  have ok: "committee_ok ?c" and f: "sum (voting_weight ?c) (?F \<inter> members ?c) < unat (validity_threshold ?c)"
    using assms(1) by (auto simp: hs_world_ok_def hs_few_faulty_def Let_def Int_absorb2 Diff_subset)
  have q: "A \<subseteq> members ?c" "B \<subseteq> members ?c" "unat (quorum_threshold ?c) \<le> sum (voting_weight ?c) A"
    "unat (quorum_threshold ?c) \<le> sum (voting_weight ?c) B" using assms(2, 3) by (simp_all add: quorum_of_def)
  from quorums.honest_voter [OF ok q f] show ?thesis using q(1) by blast
qed

lemma quorum_two_honest:
  assumes "hs_world_ok w" and "quorum_of (hw_committee w) A"
  shows "\<exists>p \<in> hw_honest w. p \<in> A \<and> p \<noteq> a"
proof (rule ccontr)
  let ?c = "hw_committee w" and ?F = "members (hw_committee w) - hw_honest w"
  assume "\<not> ?thesis"
  then have sub: "A \<subseteq> insert a ?F \<inter> members ?c" using assms(2) by (auto simp: quorum_of_def)
  have few: "\<forall>a \<in> members ?c. sum (voting_weight ?c) ?F + voting_weight ?c a < unat (quorum_threshold ?c)"
    using assms(1) by (simp add: hs_world_ok_def hs_few_faulty_def Let_def)
  have q: "unat (quorum_threshold ?c) \<le> sum (voting_weight ?c) A" using assms(2) by (simp add: quorum_of_def)
  have "A \<noteq> {}"
  proof
    assume "A = {}"
    then have "unat (quorum_threshold ?c) = 0" using q by simp
    then show False using assms(1) thresholds(1) [of ?c] by (simp add: hs_world_ok_def)
  qed
  then obtain x where "x \<in> members ?c" using sub by blast
  show False
  proof (cases "a \<in> members ?c")
    case True
    have "sum (voting_weight ?c) A \<le> sum (voting_weight ?c) (insert a ?F)" using sub by (intro sum_mono2) auto
    also have "\<dots> \<le> sum (voting_weight ?c) ?F + voting_weight ?c a" by (simp add: sum.insert_if)
    finally show False using few True q by fastforce
  next
    case False
    then have "sum (voting_weight ?c) A \<le> sum (voting_weight ?c) ?F" using sub by (intro sum_mono2) auto
    then show False using few \<open>x \<in> members ?c\<close> q by fastforce
  qed
qed


lemma cert_voter:
  assumes "hs_world_ok w" and "hw_cert w d r"
  obtains p b where "p \<in> hw_honest w" "p \<noteq> a" "VoteFor b \<in> hw_log w p" "hs_block_digest (hw_env w) b = d" "unat (hsb_round b) = r"
proof -
  obtain A where A: "quorum_of (hw_committee w) A" "\<forall>p \<in> A \<inter> hw_honest w. \<exists>b. VoteFor b \<in> hw_log w p \<and>
     hs_block_digest (hw_env w) b = d \<and> unat (hsb_round b) = r" using assms(2) by (auto simp: hw_cert_def)
  obtain p where "p \<in> hw_honest w" "p \<in> A" "p \<noteq> a" using quorum_two_honest [OF assms(1) A(1), of a] by blast
  then show ?thesis using A(2) that by blast
qed

lemma backed_cert:
  assumes "hs_world_ok w" and "hw_stored w b" and "\<not> hs_qc_eq (hsb_qc b) hs_qc_genesis"
  shows "hw_cert w (hsq_hash (hsb_qc b)) (unat (qround b))"
proof -
  have "hs_backed (hw_env w) (hw_committee w) (hsq_hash (hsb_qc b)) (qround b)"
    using stored_good [OF assms(1, 2)] assms(3) by (simp add: hs_good_qc_def)
  then obtain A where A: "quorum_of (hw_committee w) A"
    "\<forall>a \<in> A. \<exists>s. sig_verify (hw_env w) s (hs_vote_digest (hw_env w) (hsq_hash (hsb_qc b)) (qround b)) a = Done ()"
    unfolding hs_backed_def by blast
  have h: "hs_vote_input (hsq_hash (hsb_qc b)) (qround b) \<in> hw_hashed w"
    using stored_hashed [OF assms(2)] by (auto simp: hs_block_inputs_def)
  have "\<exists>x. VoteFor x \<in> hw_log w p \<and> hs_block_digest (hw_env w) x = hsq_hash (hsb_qc b) \<and> unat (hsb_round x) = unat (qround b)"
    if p: "p \<in> A \<inter> hw_honest w" for p
  proof -
    obtain sg where "sig_verify (hw_env w) sg (hs_vote_digest (hw_env w) (hsq_hash (hsb_qc b)) (qround b)) p = Done ()" using A(2) p by blast
    from vote_signed [OF assms(1) _ h this] p show ?thesis by auto
  qed
  then show ?thesis using A(1) unfolding hw_cert_def by blast
qed

lemma cert_one_round:
  assumes "hs_world_ok w" and "hw_cert w d r" and "hw_cert w d r'"
  shows "r = r'"
proof -
  obtain p b where b: "p \<in> hw_honest w" "VoteFor b \<in> hw_log w p" "hs_block_digest (hw_env w) b = d" "unat (hsb_round b) = r"
    using cert_voter [OF assms(1, 2)] by metis
  obtain q b' where b': "q \<in> hw_honest w" "VoteFor b' \<in> hw_log w q" "hs_block_digest (hw_env w) b' = d" "unat (hsb_round b') = r'"
    using cert_voter [OF assms(1, 3)] by metis
  have "hsb_round b = hsb_round b'"
    using stored_same [OF assms(1) honest_vote(1) [OF assms(1) b(1, 2)] honest_vote(1) [OF assms(1) b'(1, 2)]] b(3) b'(3) by simp
  then show ?thesis using b(4) b'(4) by simp
qed

lemma votes_differ:
  assumes "sorted_wrt hs_before es" and "VoteFor b \<in> set es" and "VoteFor b' \<in> set es" and "hsb_round b = hsb_round b'"
  shows "b = b'"
  using assms
proof (induction es)
  case (Cons e es)
  then consider "e = VoteFor b" "e = VoteFor b'" | "e = VoteFor b" "VoteFor b' \<in> set es" | "e = VoteFor b'" "VoteFor b \<in> set es"
    | "VoteFor b \<in> set es" "VoteFor b' \<in> set es" by auto
  then show ?case using Cons by cases fastforce+
qed simp

lemma cert_unique:
  assumes "hs_world_ok w" and "hw_cert w d r" and "hw_cert w d' r"
  shows "d = d'"
proof -
  obtain A where A: "quorum_of (hw_committee w) A" "\<forall>p \<in> A \<inter> hw_honest w. \<exists>b. VoteFor b \<in> hw_log w p \<and>
     hs_block_digest (hw_env w) b = d \<and> unat (hsb_round b) = r" using assms(2) by (auto simp: hw_cert_def)
  obtain B where B: "quorum_of (hw_committee w) B" "\<forall>p \<in> B \<inter> hw_honest w. \<exists>b. VoteFor b \<in> hw_log w p \<and>
     hs_block_digest (hw_env w) b = d' \<and> unat (hsb_round b) = r" using assms(3) by (auto simp: hw_cert_def)
  obtain p where p: "p \<in> hw_honest w" "p \<in> A" "p \<in> B" using quorums_meet [OF assms(1) A(1) B(1)] by blast
  obtain b b' where b: "VoteFor b \<in> hw_log w p" "hs_block_digest (hw_env w) b = d" "unat (hsb_round b) = r"
    "VoteFor b' \<in> hw_log w p" "hs_block_digest (hw_env w) b' = d'" "unat (hsb_round b') = r" using A(2) B(2) p by blast
  have "sorted_wrt hs_before (hsc_signed (hw_core w p))" using honest_core(1) [OF assms(1) p(1)] by (simp add: hs_inv_def)
  moreover have "hsb_round b = hsb_round b'" using b(3, 6) by (simp add: word_unat_eq_iff)
  ultimately show ?thesis using votes_differ b by blast
qed

lemma link_functional:
  assumes "hs_world_ok w" and "hw_link w d a r" and "hw_link w d a' r'"
  shows "a = a' \<and> r = r'"
proof -
  obtain b where b: "hw_stored w b" "hs_block_digest (hw_env w) b = d" "\<not> hs_qc_eq (hsb_qc b) hs_qc_genesis"
    "hsq_hash (hsb_qc b) = a" "unat (qround b) = r" using assms(2) by (auto simp: hw_link_def)
  obtain b' where b': "hw_stored w b'" "hs_block_digest (hw_env w) b' = d" "\<not> hs_qc_eq (hsb_qc b') hs_qc_genesis"
    "hsq_hash (hsb_qc b') = a'" "unat (qround b') = r'" using assms(3) by (auto simp: hw_link_def)
  have "a = a'" using stored_same [OF assms(1) b(1) b'(1)] b b' by simp
  moreover have "hw_cert w a r" "hw_cert w a' r'" using backed_cert [OF assms(1)] b b' by auto
  ultimately show ?thesis using cert_one_round [OF assms(1)] by blast
qed

lemma cert_voted:
  assumes "hs_world_ok w" and "hw_cert w d r"
  shows "0 < r" and "d \<noteq> default_digest"
proof -
  obtain p b where b: "p \<in> hw_honest w" "VoteFor b \<in> hw_log w p" "hs_block_digest (hw_env w) b = d" "unat (hsb_round b) = r"
    using cert_voter [OF assms] by metis
  show "0 < r" using honest_vote(2) [OF assms(1) b(1, 2)] b(4) by (simp add: word_less_nat_alt)
  show "d \<noteq> default_digest" using stored_not_default [OF assms(1) honest_vote(1) [OF assms(1) b(1, 2)]] b(3) by simp
qed

lemma link_cert: "hs_world_ok w \<Longrightarrow> hw_link w d a r \<Longrightarrow> hw_cert w a r"
  using backed_cert unfolding hw_link_def by blast

lemma vote_of_link:
  assumes "hs_world_ok w" and "p \<in> hw_honest w" and "VoteFor b \<in> hw_log w p" and "hw_link w (hs_block_digest (hw_env w) b) a r"
  shows "unat (qround b) = r"
proof -
  note v = honest_vote [OF assms(1-3)]
  obtain x where x: "hw_stored w x" "hs_block_digest (hw_env w) x = hs_block_digest (hw_env w) b" "hsq_hash (hsb_qc x) = a"
    using assms(4) by (auto simp: hw_link_def)
  have same: "hsq_hash (hsb_qc b) = a" using stored_same [OF assms(1) v(1) x(1)] x(2, 3) by simp
  then have "\<not> hs_qc_eq (hsb_qc b) hs_qc_genesis"
    using cert_voted(2) [OF assms(1) link_cert [OF assms(1, 4)]] by (simp add: hs_qc_eq_def hs_qc_genesis_def)
  then have "hw_link w (hs_block_digest (hw_env w) b) a (unat (qround b))" using v(1) same by (auto simp: hw_link_def)
  then show ?thesis using link_functional [OF assms(1) _ assms(4)] by blast
qed

lemma link_down:
  assumes "hs_world_ok w" and "hw_cert w d r" and "hw_link w d a r'"
  shows "r' < r"
proof -
  obtain p b where b: "p \<in> hw_honest w" "VoteFor b \<in> hw_log w p" "hs_block_digest (hw_env w) b = d" "unat (hsb_round b) = r"
    using cert_voter [OF assms(1, 2)] by metis
  have "unat (qround b) = r'" using vote_of_link [OF assms(1) b(1, 2)] b(3) assms(3) by simp
  then show ?thesis using honest_vote(4) [OF assms(1) b(1, 2)] b(4) by (simp add: word_less_nat_alt)
qed

lemma sorted_wrt_cases: "sorted_wrt P es \<Longrightarrow> x \<in> set es \<Longrightarrow> y \<in> set es \<Longrightarrow> x \<noteq> y \<Longrightarrow> P x y \<or> P y x"
  by (induction es) auto

lemma unat_next: "r + 1 = r' \<Longrightarrow> r' \<noteq> 0 \<Longrightarrow> unat r' = Suc (unat r)" for r :: "'a::len word"
  using less_next [of r] unat_Suc_no_wrap [of r r'] by auto

text \<open>
  The heart of the argument: a TC that lets an honest node vote above a decided block contains
  the timeout of an honest node that had voted for the child of this block.
\<close>

lemma timeouts_report:
  assumes "hs_world_ok w" and d1: "hw_cert w d1 (Suc r1)" "hw_link w d1 d0 r1"
    and b: "p \<in> hw_honest w" "VoteFor b \<in> hw_log w p" "hsb_author b \<noteq> p" "hsb_tc b = Some t"
    and r: "hst_round t + 1 = hsb_round b" "Suc r1 < unat (hsb_round b)"
  shows "\<exists>h \<in> set (high_qc_rounds t). r1 \<le> unat h"
proof -
  note v = honest_vote [OF assms(1) b(1, 2)]
  obtain A where A: "quorum_of (hw_committee w) A" "\<forall>a \<in> A. \<exists>s h. h \<in> set (high_qc_rounds t) \<and>
     sig_verify (hw_env w) s (hs_timeout_digest (hw_env w) (hst_round t) h) a = Done ()"
    using v(5) [OF b(3, 4)] unfolding hs_justified_def by blast
  obtain B where B: "quorum_of (hw_committee w) B" "\<forall>q \<in> B \<inter> hw_honest w. \<exists>b. VoteFor b \<in> hw_log w q \<and>
     hs_block_digest (hw_env w) b = d1 \<and> unat (hsb_round b) = Suc r1" using d1(1) by (auto simp: hw_cert_def)
  obtain q where q: "q \<in> hw_honest w" "q \<in> A" "q \<in> B" using quorums_meet [OF assms(1) A(1) B(1)] by blast
  obtain s h where h: "h \<in> set (high_qc_rounds t)"
    "sig_verify (hw_env w) s (hs_timeout_digest (hw_env w) (hst_round t) h) q = Done ()" using A(2) q(2) by blast
  obtain b1 where b1: "VoteFor b1 \<in> hw_log w q" "hs_block_digest (hw_env w) b1 = d1" "unat (hsb_round b1) = Suc r1" using B(2) q by blast
  have "hs_timeout_input (hst_round t) h \<in> hw_hashed w"
    by (rule stored_hashed [OF v(1)]) (use h(1) b(4) in \<open>simp add: hs_block_inputs_def\<close>)
  then have out: "TimeoutAt (hst_round t) h \<in> hw_log w q" using timeout_signed [OF assms(1) q(1) _ h(2)] by blast
  have "sorted_wrt hs_before (hsc_signed (hw_core w q))" using honest_core(1) [OF assms(1) q(1)] by (simp add: hs_inv_def)
  from sorted_wrt_cases [OF this b1(1) out] have "qround b1 \<le> h \<or> hst_round t < hsb_round b1" by simp
  moreover have "\<not> hst_round t < hsb_round b1"
    using unat_next [OF r(1) less_imp_neq [OF v(2), symmetric]] r(2) b1(3) by (auto simp: word_less_nat_alt)
  moreover have "unat (qround b1) = r1" using vote_of_link [OF assms(1) q(1) b1(1)] b1(2) d1(2) by simp
  ultimately show ?thesis using h(1) by (auto simp: word_le_nat_alt)
qed

lemma lock_held:
  assumes "hs_world_ok w" and d1: "hw_cert w d1 (Suc r1)" "hw_link w d1 d0 r1" and d: "hw_cert w d r" "Suc r1 < r"
  shows "\<exists>a r'. hw_link w d a r' \<and> r1 \<le> r'"
proof -
  obtain p' x where x: "p' \<in> hw_honest w" "VoteFor x \<in> hw_log w p'" "hs_block_digest (hw_env w) x = d"
    using cert_voter [OF assms(1) d(1)] by metis
  obtain p b where b: "p \<in> hw_honest w" "p \<noteq> hsb_author x" "VoteFor b \<in> hw_log w p" "hs_block_digest (hw_env w) b = d"
      "unat (hsb_round b) = r" using cert_voter [OF assms(1) d(1)] by metis
  note v = honest_vote [OF assms(1) b(1, 3)]
  have "hsb_author b = hsb_author x"
    using stored_same [OF assms(1) v(1) honest_vote(1) [OF assms(1) x(1, 2)]] b(4) x(3) by simp
  then have au: "hsb_author b \<noteq> p" using b(2) by simp
  have high: "r1 \<le> unat (qround b)"
  proof (cases "qround b + 1 = hsb_round b")
    case True
    then show ?thesis using unat_next [OF True] v(2) b(5) d(2) by auto
  next
    case False
    then obtain t where t: "hsb_tc b = Some t" "hst_round t + 1 = hsb_round b" "\<forall>h \<in> set (high_qc_rounds t). h \<le> qround b"
      using v(3) by (auto simp: hs_rule_def)
    have "Suc r1 < unat (hsb_round b)" using d(2) b(5) by simp
    from timeouts_report [OF assms(1) d1 b(1, 3) au t(1, 2) this] show ?thesis
      using t(3) by (metis order_trans word_le_nat_alt)
  qed
  moreover have "0 < r1" using cert_voted(1) [OF assms(1) link_cert [OF assms(1) d1(2)]] .
  ultimately have "\<not> hs_qc_eq (hsb_qc b) hs_qc_genesis" by (auto simp: hs_qc_eq_def hs_qc_genesis_def)
  then have "hw_link w d (hsq_hash (hsb_qc b)) (unat (qround b))" using v(1) b(4) by (auto simp: hw_link_def)
  then show ?thesis using high by blast
qed

interpretation hs: two_chain hs_world_ok hw_cert hw_link
proof
  show "hw_cert w d r \<Longrightarrow> hw_cert w d' r \<Longrightarrow> d = d'" if "hs_world_ok w" for w :: "'c hs_world" and d d' r using that by (rule cert_unique)
  show "hw_cert w d r \<Longrightarrow> hw_cert w d r' \<Longrightarrow> r = r'" if "hs_world_ok w" for w :: "'c hs_world" and d r r' using that by (rule cert_one_round)
  show "hw_link w d a r \<Longrightarrow> hw_link w d a' r' \<Longrightarrow> a = a' \<and> r = r'" if "hs_world_ok w" for w :: "'c hs_world" and d a a' r r'
    using that by (rule link_functional)
  show "hw_link w d a r \<Longrightarrow> hw_cert w a r" if "hs_world_ok w" for w :: "'c hs_world" and d a r using that by (rule link_cert)
  show "hw_cert w d r \<Longrightarrow> hw_link w d a r' \<Longrightarrow> r' < r" if "hs_world_ok w" for w :: "'c hs_world" and d a r r' using that by (rule link_down)
  show "hw_cert w d1 (Suc r1) \<Longrightarrow> hw_link w d1 d0 r1 \<Longrightarrow> hw_cert w d r \<Longrightarrow> Suc r1 < r \<Longrightarrow> \<exists>a r'. hw_link w d a r' \<and> r1 \<le> r'"
    if "hs_world_ok w" for w :: "'c hs_world" and d1 r1 d0 d r using that by (rule lock_held)
qed


section \<open>What honest nodes output\<close>

definition hs_extends :: "'c hs_world \<Rightarrow> 'c hs_block \<Rightarrow> 'c hs_block \<Rightarrow> bool" where
  "hs_extends w x y \<longleftrightarrow> y = hs_block_genesis \<or>
     (\<lambda>d a. \<exists>r. hw_link w d a r)\<^sup>*\<^sup>* (hs_block_digest (hw_env w) x) (hs_block_digest (hw_env w) y)"

lemma parent_links: "hs.parent w = (\<lambda>d a. \<exists>r. hw_link w d a r)"
  by (simp add: hs.parent_def fun_eq_iff)

lemma stored_round:
  assumes "hs_world_ok w" and "hw_stored w b" and "hw_cert w (hs_block_digest (hw_env w) b) r"
  shows "unat (hsb_round b) = r"
proof -
  obtain p x where "p \<in> hw_honest w" "VoteFor x \<in> hw_log w p" "hs_block_digest (hw_env w) x = hs_block_digest (hw_env w) b" "unat (hsb_round x) = r"
    using cert_voter [OF assms(1, 3)] by metis
  then show ?thesis using stored_same [OF assms(1) assms(2)] honest_vote(1) [OF assms(1)] by metis
qed

lemma parent_of_link:
  assumes "p \<in> hw_honest w" and "hs_stored (hw_env w) (hw_core w p) x" and "hs_parent_of (hw_env w) (hw_core w p) x y"
  shows "y = hs_block_genesis \<or> hs_stored (hw_env w) (hw_core w p) y \<and>
    hw_link w (hs_block_digest (hw_env w) x) (hs_block_digest (hw_env w) y) (unat (qround x))"
  using assms by (auto simp: hs_parent_of_def hw_link_def hw_stored_def split: if_splits)

lemma chain_links:
  assumes "p \<in> hw_honest w" and "(hs_parent_of (hw_env w) (hw_core w p))\<^sup>*\<^sup>* x y" and "hs_stored (hw_env w) (hw_core w p) x"
  shows "y = hs_block_genesis \<or> hs_stored (hw_env w) (hw_core w p) y \<and>
    (hs.parent w)\<^sup>*\<^sup>* (hs_block_digest (hw_env w) x) (hs_block_digest (hw_env w) y)"
  using assms(2)
proof (induction rule: rtranclp_induct)
  case (step y z)
  show ?case
  proof (cases "y = hs_block_genesis")
    case True
    then show ?thesis using step.hyps(2) by (simp add: hs_parent_of_def)
  next
    case False
    then have y: "hs_stored (hw_env w) (hw_core w p) y"
      "(hs.parent w)\<^sup>*\<^sup>* (hs_block_digest (hw_env w) x) (hs_block_digest (hw_env w) y)" using step.IH by auto
    show ?thesis
    proof (cases "z = hs_block_genesis")
      case False
      then have z: "hs_stored (hw_env w) (hw_core w p) z"
        "hs.parent w (hs_block_digest (hw_env w) y) (hs_block_digest (hw_env w) z)"
        using parent_of_link [OF assms(1) y(1) step.hyps(2)] by (auto simp: hs.parent_def)
      then show ?thesis using rtranclp.rtrancl_into_rtrancl [OF y(2) z(2)] by blast
    qed simp
  qed
qed (use assms(3) in simp)

lemma output_decided:
  assumes "hs_world_ok w" and "p \<in> hw_honest w" and "b \<in> set (hsc_output (hw_core w p))" and "b \<noteq> hs_block_genesis"
  obtains d0 r0 where "hs.decided w d0 r0" "(hs.parent w)\<^sup>*\<^sup>* d0 (hs_block_digest (hw_env w) b)"
    "hw_cert w (hs_block_digest (hw_env w) b) (unat (hsb_round b))"
proof -
  let ?E = "hw_env w" and ?s = "hw_core w p"
  have "hs_final ?E ?s b" using honest_core(1) [OF assms(1, 2)] assms(3) by (simp add: hs_inv_def)
  then obtain b0 b1 b2 where f: "hs_stored ?E ?s b2" "hs_parent_of ?E ?s b2 b1" "hs_parent_of ?E ?s b1 b0"
    "hsb_round b0 + 1 = hsb_round b1" "0 < hsb_round b0" "(hs_parent_of ?E ?s)\<^sup>*\<^sup>* b0 b" by (auto simp: hs_final_def)
  have g0: "b0 \<noteq> hs_block_genesis" using f(5) by auto
  then have "b1 \<noteq> hs_block_genesis" using f(3) by (auto simp: hs_parent_of_def)
  then have b1: "hs_stored ?E ?s b1" "hw_link w (hs_block_digest ?E b2) (hs_block_digest ?E b1) (unat (qround b2))"
    using parent_of_link [OF assms(2) f(1, 2)] by auto
  have b0: "hs_stored ?E ?s b0" "hw_link w (hs_block_digest ?E b1) (hs_block_digest ?E b0) (unat (qround b1))"
    using parent_of_link [OF assms(2) b1(1) f(3)] g0 by auto
  have st: "hw_stored w b0" "hw_stored w b1" using b0(1) b1(1) assms(2) by (auto simp: hw_stored_def)
  note c1 = link_cert [OF assms(1) b1(2)] and c0 = link_cert [OF assms(1) b0(2)]
  note r1 = stored_round [OF assms(1) st(2) c1] and r0 = stored_round [OF assms(1) st(1) c0]
  have "hsb_round b1 \<noteq> 0" using cert_voted(1) [OF assms(1) c1] r1 by auto
  then have "unat (hsb_round b1) = Suc (unat (hsb_round b0))" by (rule unat_next [OF f(4)])
  then have dec: "hs.decided w (hs_block_digest ?E b0) (unat (hsb_round b0))"
    using c1 b0(2) r0 r1 unfolding hs.decided_def by metis
  have b: "hs_stored ?E ?s b" "(hs.parent w)\<^sup>*\<^sup>* (hs_block_digest ?E b0) (hs_block_digest ?E b)"
    using chain_links [OF assms(2) f(6) b0(1)] assms(4) by auto
  have "\<exists>r. hw_cert w (hs_block_digest ?E b) r" using hs.lower [OF assms(1) b(2) c0] c0 by metis
  moreover have "hw_stored w b" using b(1) assms(2) by (auto simp: hw_stored_def)
  ultimately have "hw_cert w (hs_block_digest ?E b) (unat (hsb_round b))" using stored_round [OF assms(1)] by metis
  then show ?thesis using that dec b(2) by blast
qed

text \<open>
  C5: agreement of HotStuff. Of any two blocks that honest nodes output, one extends the other
  through the links between blocks, and in one round there is only one such block. This holds
  whatever the faulty authorities and the network do, forged TCs included, which the core does
  not verify, as long as no round counter overflows.
\<close>

theorem hs_agreement:
  assumes "hs_world_ok w" and "p \<in> hw_honest w" and "q \<in> hw_honest w"
    and "b \<in> set (hsc_output (hsn_core (hw_node w p)))" and "b' \<in> set (hsc_output (hsn_core (hw_node w q)))"
  shows "(hs_extends w b b' \<or> hs_extends w b' b) \<and>
    (hsb_round b = hsb_round b' \<longrightarrow> hs_block_digest (hw_env w) b = hs_block_digest (hw_env w) b')"
proof (cases "b = hs_block_genesis \<or> b' = hs_block_genesis")
  case True
  have pos: "hsb_round x \<noteq> 0" if "x \<in> set (hsc_output (hw_core w a))" "a \<in> hw_honest w" "x \<noteq> hs_block_genesis" for x a
    using output_decided [OF assms(1) that(2, 1, 3)] cert_voted(1) [OF assms(1)] by (metis less_irrefl unat_eq_0)
  have "b = b'" if "hsb_round b = hsb_round b'"
    using True that pos [OF assms(4, 2)] pos [OF assms(5, 3)] by (metis genesis_block_qc(2))
  then show ?thesis using True by (auto simp: hs_extends_def)
next
  case False
  obtain d r where d: "hs.decided w d r" "(hs.parent w)\<^sup>*\<^sup>* d (hs_block_digest (hw_env w) b)"
    "hw_cert w (hs_block_digest (hw_env w) b) (unat (hsb_round b))" using output_decided [OF assms(1, 2, 4)] False by blast
  obtain d' r' where d': "hs.decided w d' r'" "(hs.parent w)\<^sup>*\<^sup>* d' (hs_block_digest (hw_env w) b')"
    "hw_cert w (hs_block_digest (hw_env w) b') (unat (hsb_round b'))" using output_decided [OF assms(1, 3, 5)] False by blast
  show ?thesis
    using hs.one_chain [OF assms(1) d(1) d'(1) d(2) d'(2)] hs.one_block [OF assms(1) d(1) d'(1) d(2) d'(2) d(3)] d'(3)
    by (auto simp: hs_extends_def parent_links)
qed

end
