(* ===== verification/HotStuff_Example.thy ===== *)
theory HotStuff_Example
  imports HotStuff_Safety "HOL-Library.Countable"
begin

text \<open>
  A concrete world for the agreement theorem: four authorities of stake one, of which the fourth
  is faulty. The leaders of rounds 1 to 3 propose three blocks, each certified by the votes of the
  honest authorities; the third makes them output the first. The hash reads the low byte of the
  round out of its input; an authority's signature verifies on what this run makes it sign.
\<close>

section \<open>Parameters\<close>

type_synonym block_fields =
  "((256 word \<times> 64 word \<times> (256 word \<times> 256 word \<times> 256 word) list) \<times>
    (64 word \<times> (256 word \<times> 256 word \<times> 256 word \<times> 64 word) list) option) \<times> 256 word \<times> 64 word \<times> nat \<times> 256 word \<times> 256 word"

definition block_fields :: "unit hs_block \<Rightarrow> block_fields" where
  "block_fields b = (((digest_word (hsq_hash (hsb_qc b)), hsq_round (hsb_qc b),
       map (\<lambda>(a, s). (key_word a, sig_part1 s, sig_part2 s)) (hsq_votes (hsb_qc b))),
     map_option (\<lambda>t. (hst_round t, map (\<lambda>(a, s, h). (key_word a, sig_part1 s, sig_part2 s, h)) (hst_votes t))) (hsb_tc b)),
     key_word (hsb_author b), hsb_round b, length (hsb_payload b), sig_part1 (hsb_signature b), sig_part2 (hsb_signature b))"

definition block_of_fields :: "block_fields \<Rightarrow> unit hs_block" where
  "block_of_fields = (\<lambda>(((d, r, vs), t), a, k, n, s1, s2).
     \<lparr>hsb_qc = \<lparr>hsq_hash = Digest d, hsq_round = r,
        hsq_votes = map (\<lambda>(a, s1, s2). (PublicKey a, \<lparr>sig_part1 = s1, sig_part2 = s2\<rparr>)) vs\<rparr>,
      hsb_tc = map_option (\<lambda>(r, vs). \<lparr>hst_round = r,
        hst_votes = map (\<lambda>(a, s1, s2, h). (PublicKey a, \<lparr>sig_part1 = s1, sig_part2 = s2\<rparr>, h)) vs\<rparr>) t,
      hsb_author = PublicKey a, hsb_round = k, hsb_payload = replicate n (), hsb_signature = \<lparr>sig_part1 = s1, sig_part2 = s2\<rparr>\<rparr>)"

lemma units: "replicate (length xs) () = xs"
  by (induction xs) simp_all

lemma sig_eta [simp]: "\<lparr>sig_part1 = sig_part1 s, sig_part2 = sig_part2 s\<rparr> = (s :: signature)"
  by simp

lemma block_fields_inverse: "block_of_fields (block_fields b) = b"
proof -
  have "\<lparr>hst_round = hst_round t, hst_votes = map (\<lambda>x. (fst x, fst (snd x), snd (snd x))) (hst_votes t)\<rparr> = t" for t :: hs_tc
    by simp
  then show ?thesis
    by (cases b; cases "hsb_qc b"; cases "hsb_tc b") (auto simp: block_fields_def block_of_fields_def units o_def case_prod_unfold)
qed

definition ex_encode :: "unit hs_block \<Rightarrow> u8 list" where
  "ex_encode b = replicate (to_nat (block_fields b)) 0"

definition ex_decode :: "u8 list \<Rightarrow> unit hs_block option" where
  "ex_decode bs = Some (block_of_fields (from_nat (length bs)))"

lemma ex_decode_encode: "ex_decode (ex_encode b) = Some b"
  by (simp add: ex_decode_def ex_encode_def block_fields_inverse)

definition ex_signed :: "256 word \<Rightarrow> 256 word \<Rightarrow> bool" where
  "ex_signed k d \<longleftrightarrow> k = 4 \<or> d \<in> {101, 102, 103} \<or> k = 2 \<and> d = 1 \<or> k = 3 \<and> d = 2"

definition ex_env :: "unit hs_env" where
  "ex_env = \<lparr>p_sha512 = (\<lambda>bs. push_bit 256 (if length bs = 40 then 100 + ucast (bs ! 32) else ucast (bs ! 32))),
     p_sig_from_bytes = (\<lambda>_. True), p_key_from_bytes = (\<lambda>_. True),
     p_verify_strict = (\<lambda>k d _. ex_signed k d),
     p_verify_batch = (\<lambda>ms ss ks. list_all (\<lambda>(m, k). ex_signed k m) (zip ms ks)),
     p_keypair_from_bytes = (\<lambda>_. True), p_sign = (\<lambda>_ _. 0),
     hse_header_id = (\<lambda>_. default_digest), hse_cert_round = (\<lambda>_. 0), hse_cert_verify = (\<lambda>_ _. Done ()),
     hse_encode = ex_encode, hse_decode = ex_decode\<rparr>"

lemma ex_codec: "hs_codec_ok ex_env"
  by (simp add: hs_codec_ok_def ex_env_def ex_decode_encode)

lemma ex_batch: "hs_batch_sound ex_env"
  unfolding hs_batch_sound_def
  by (auto simp: ex_env_def list_all_length)

definition ex_qc :: "256 word \<Rightarrow> 64 word \<Rightarrow> 256 word list \<Rightarrow> hs_qc" where
  "ex_qc d r ks = \<lparr>hsq_hash = Digest d, hsq_round = r, hsq_votes = map (\<lambda>k. (PublicKey k, default_signature)) ks\<rparr>"

definition ex_block :: "hs_qc \<Rightarrow> 256 word \<Rightarrow> 64 word \<Rightarrow> unit hs_block" where
  "ex_block q a r = \<lparr>hsb_qc = q, hsb_tc = None, hsb_author = PublicKey a, hsb_round = r, hsb_payload = [], hsb_signature = default_signature\<rparr>"

definition ex_b1 :: "unit hs_block" where
  "ex_b1 = ex_block hs_qc_genesis 2 1"

definition ex_b2 :: "unit hs_block" where
  "ex_b2 = ex_block (ex_qc 1 1 [3, 1, 2]) 3 2"

definition ex_b3 :: "unit hs_block" where
  "ex_b3 = ex_block (ex_qc 2 2 [1, 2, 3]) 4 3"

lemma byte_0: "word_byte 0 (w :: u64) = ucast w"
  by (simp add: word_byte_def)

lemma nth_round: "length xs = 32 \<Longrightarrow> (xs @ le_bytes 8 (r :: u64) @ ys) ! 32 = ucast r" "length xs = 32 \<Longrightarrow> (xs @ le_bytes 8 (r :: u64)) ! 32 = ucast r"
  by (simp_all add: nth_append le_bytes_def byte_0)

lemma ex_vote_digests [simp]: "hs_vote_digest ex_env d 0 = Digest 100" "hs_vote_digest ex_env d 1 = Digest 101"
  "hs_vote_digest ex_env d 2 = Digest 102" "hs_vote_digest ex_env d 3 = Digest 103"
  by (simp_all add: hs_vote_digest_def hs_vote_input_def hash32_def ex_env_def nth_round)

lemma ex_digests [simp]: "hs_block_digest ex_env ex_b1 = Digest 1" "hs_block_digest ex_env ex_b2 = Digest 2" "hs_block_digest ex_env ex_b3 = Digest 3"
  by (simp_all add: hs_block_digest_def hs_block_input_def hash32_def ex_env_def nth_round ex_b1_def ex_b2_def ex_b3_def ex_block_def)


lemma ex_verify: "sig_verify ex_env s d k = Done () \<longleftrightarrow> ex_signed (key_word k) (digest_word d)"
  by (simp add: sig_verify_Done vote_wf_def ex_env_def)

lemma ex_verify_batch: "verify_batch ex_env d vs = Done () \<longleftrightarrow> (\<forall>(k, s) \<in> set vs. ex_signed (key_word k) (digest_word d))"
  by (auto simp: verify_batch_Done vote_wf_def ex_env_def list_all_iff zip_replicate1 set_map)

lemma ex_leader: "hs_leader sample_committee r = Some (PublicKey (if unat r mod 4 = 0 then 1 else of_nat (unat r mod 4) + 1))"
proof -
  have "leader_keys sample_committee = map PublicKey [1, 2, 3, 4]" "committee_size sample_committee = 4"
    by (simp_all add: leader_keys_def committee_size_def sample_authorities less_eq_public_key_def)
  moreover have "unat r mod 4 = 0 \<or> unat r mod 4 = 1 \<or> unat r mod 4 = 2 \<or> unat r mod 4 = 3" by linarith
  ultimately show ?thesis by (auto simp: hs_leader_def)
qed

lemma ex_leaders [simp]: "hs_leader sample_committee 1 = Some (PublicKey 2)" "hs_leader sample_committee 2 = Some (PublicKey 3)"
  "hs_leader sample_committee 3 = Some (PublicKey 4)" "hs_leader sample_committee 4 = Some (PublicKey 1)"
  by (simp_all add: ex_leader)

lemma ex_fields [simp]:
  "hsb_qc ex_b1 = hs_qc_genesis" "hsb_tc ex_b1 = None" "hsb_author ex_b1 = PublicKey 2" "hsb_round ex_b1 = 1" "hsb_payload ex_b1 = []"
  "hsb_qc ex_b2 = ex_qc 1 1 [3, 1, 2]" "hsb_tc ex_b2 = None" "hsb_author ex_b2 = PublicKey 3" "hsb_round ex_b2 = 2" "hsb_payload ex_b2 = []"
  "hsb_qc ex_b3 = ex_qc 2 2 [1, 2, 3]" "hsb_tc ex_b3 = None" "hsb_author ex_b3 = PublicKey 4" "hsb_round ex_b3 = 3" "hsb_payload ex_b3 = []"
  "hsb_signature ex_b1 = default_signature" "hsb_signature ex_b2 = default_signature" "hsb_signature ex_b3 = default_signature"
  by (simp_all add: ex_b1_def ex_b2_def ex_b3_def ex_block_def)

lemma ex_qc_fields [simp]: "hsq_hash (ex_qc d r ks) = Digest d" "hsq_round (ex_qc d r ks) = r"
  "hsq_votes (ex_qc d r ks) = map (\<lambda>k. (PublicKey k, default_signature)) ks"
  by (simp_all add: ex_qc_def)

lemma ex_verified [simp]: "hs_block_verify ex_env sample_committee ex_b1 = Done ()"
  "hs_block_verify ex_env sample_committee ex_b2 = Done ()" "hs_block_verify ex_env sample_committee ex_b3 = Done ()"
  by (simp_all add: hs_block_verify_def hs_member_signed_def sample_stake ex_verify ex_verify_batch ex_signed_def hs_qc_check_def hs_qc_eq_def hs_qc_genesis_def hs_qc_verify_def tally_Done voters_ok_def
      sample_quorum_word default_digest_def)


lemma ex_codec_simps [simp]: "hse_decode ex_env (hse_encode ex_env b) = Some b" "hse_header_id ex_env x = default_digest"
  "hse_cert_verify ex_env c x = Done ()"
  by (simp_all add: ex_env_def ex_decode_encode)

section \<open>The runs\<close>

definition ex_run :: "256 word \<Rightarrow> unit hs_event list" where
  "ex_run k =
     (if k = 1 then [HnMessage (HsPropose ex_b1), HnMessage (HsPropose ex_b2), HnMessage (HsPropose ex_b3)]
      else if k = 2 then [HnDelayOver, HnLead, HnLoopback, HnMessage (HsPropose ex_b2), HnMessage (HsPropose ex_b3)]
      else [HnMessage (HsPropose ex_b1),
        HnMessage (HsVote \<lparr>hsv_hash = Digest 1, hsv_round = 1, hsv_author = PublicKey 1, hsv_signature = default_signature\<rparr>),
        HnMessage (HsVote \<lparr>hsv_hash = Digest 1, hsv_round = 1, hsv_author = PublicKey 2, hsv_signature = default_signature\<rparr>),
        HnDelayOver, HnLead, HnLoopback, HnMessage (HsPropose ex_b3)])"

definition ex_node :: "256 word \<Rightarrow> unit hs_node" where
  "ex_node k = hs_run 1 ex_env (ex_run k) (hs_node_new (PublicKey k) sample_committee (\<lambda>_. default_signature))"

lemma ex_size [simp]: "committee_size sample_committee = 4"
  by (simp add: committee_size_def sample_authorities)

lemma ex_consensus: "k \<in> {1, 2, 3, 4} \<Longrightarrow> \<exists>a. consensus_of sample_committee (PublicKey k) = Done a"
  by (auto simp: consensus_of_def lookup_authority_def sample_authorities)

definition ex_address :: "256 word \<Rightarrow> consensus_addresses" where
  "ex_address k = (case consensus_of sample_committee (PublicKey k) of Done a \<Rightarrow> a)"

lemma ex_addresses [simp]: "consensus_of sample_committee (PublicKey 1) = Done (ex_address 1)"
 "consensus_of sample_committee (PublicKey 2) = Done (ex_address 2)"
 "consensus_of sample_committee (PublicKey 3) = Done (ex_address 3)"
 "consensus_of sample_committee (PublicKey 4) = Done (ex_address 4)"
  using ex_consensus [of 1] ex_consensus [of 2] ex_consensus [of 3] ex_consensus [of 4] by (auto simp: ex_address_def)

lemmas ex_eval = hs_core_moves_def hs_handle_proposal_def hs_process_block_def hs_get_ancestors_def hs_get_parent_def
  hs_store_block_def hs_make_vote_def hs_rule_2_def hs_record_vote_def hs_commit_def hs_deliver_def hs_update_high_qc_def
  hs_advance_round_def hs_process_qc_def hs_generate_proposal_def hs_propose_as_leader_def hs_send_vote_def handler_simps
  hs_payload_verify_def hs_vote_new_def

lemma ex_start: "hs_node_new (PublicKey k) sample_committee (\<lambda>_. default_signature) = 
   \<lparr>hsn_core = (hs_core_new (PublicKey k) sample_committee (\<lambda>_. default_signature))\<lparr>hsc_timer_resets := 1, hsc_to_proposer := if k = 2 then [(1, hs_qc_genesis, None)] else []\<rparr>,
    hsn_sync = hs_sync_new, hsn_proposer = hs_proposer_new, hsn_loopback = [], hsn_alive = True\<rparr>"
  by (simp add: hs_node_new_def hs_core_start_def hs_core_new_def hs_propose_as_leader_def hs_generate_proposal_def handler_simps)

lemma gen: "hs_qc_eq hs_qc_genesis hs_qc_genesis" "\<not> hs_qc_eq (ex_qc 1 r ks) hs_qc_genesis" "\<not> hs_qc_eq (ex_qc 2 r ks) hs_qc_genesis"
 "hsq_round hs_qc_genesis = 0"  "hsb_round hs_block_genesis = 0"
  by (auto simp: hs_qc_eq_def hs_qc_genesis_def hs_block_genesis_def default_digest_def)


lemma cleanup_new [simp]: "hs_aggregator_cleanup r hs_aggregator_new = hs_aggregator_new"
  by (simp add: hs_aggregator_cleanup_def hs_aggregator_new_def retain_def fun_eq_iff)


lemma ex_made: "hs_block_new ex_env (\<lambda>_. default_signature) hs_qc_genesis None (PublicKey 2) 1 [] = ex_b1"
  "hs_block_new ex_env (\<lambda>_. default_signature) (ex_qc 1 1 [3, 1, 2]) None (PublicKey 3) 2 [] = ex_b2"
  by (simp_all add: hs_block_new_def ex_b1_def ex_b2_def ex_block_def)

lemma ex_qc_made: "\<lparr>hsq_hash = Digest 1, hsq_round = 1, hsq_votes = [(PublicKey 3, default_signature), (PublicKey 1, default_signature), (PublicKey 2, default_signature)]\<rparr> = ex_qc 1 1 [3, 1, 2]"
  by (simp add: ex_qc_def)

lemmas ex_proposer = hs_proposer_moves_def hs_propose_def hs_proposer_new_def hs_make_block_def ex_made

definition ex_vote :: "256 word \<Rightarrow> hs_vote" where
  "ex_vote k = \<lparr>hsv_hash = Digest 1, hsv_round = 1, hsv_author = PublicKey k, hsv_signature = default_signature\<rparr>"

lemma ex_vote_simps: "\<lparr>hsv_hash = Digest 1, hsv_round = 1, hsv_author = PublicKey 3, hsv_signature = default_signature\<rparr> = ex_vote 3"
  "\<lparr>hsv_hash = Digest 1, hsv_round = 1, hsv_author = PublicKey 1, hsv_signature = default_signature\<rparr> = ex_vote 1"
  "\<lparr>hsv_hash = Digest 1, hsv_round = 1, hsv_author = PublicKey 2, hsv_signature = default_signature\<rparr> = ex_vote 2"
  "hsv_round (ex_vote k) = 1"
  by (simp_all add: ex_vote_def)

lemma ex_vote_verified: "k \<in> {1, 2, 3} \<Longrightarrow> hs_vote_verify ex_env sample_committee (ex_vote k) = Done ()"
  by (auto simp: ex_vote_def hs_vote_verify_def hs_member_signed_def sample_stake ex_verify ex_signed_def)

fun ex_aggregator :: "256 word list \<Rightarrow> hs_aggregator" where
  "ex_aggregator [] = hs_aggregator_new"
| "ex_aggregator (k # ks) = fst (hs_add_vote ex_env sample_committee (ex_vote k) (ex_aggregator ks))"

lemma ex_votes_added: "hs_add_vote ex_env sample_committee (ex_vote 3) hs_aggregator_new = (ex_aggregator [3], Done None)"
  "hs_add_vote ex_env sample_committee (ex_vote 1) (ex_aggregator [3]) = (ex_aggregator [1, 3], Done None)"
  "hs_add_vote ex_env sample_committee (ex_vote 2) (ex_aggregator [1, 3]) = (ex_aggregator [2, 1, 3], Done (Some (ex_qc 1 1 [3, 1, 2])))"
  by (simp_all add: ex_vote_def hs_add_vote_def hs_qc_maker_at_def hs_aggregator_new_def hs_qc_maker_new_def hs_qc_append_def
     sample_quorum_word sample_stake ex_qc_def Let_def word_le_nat_alt)

definition ex_last_vote :: hs_vote where
  "ex_last_vote = \<lparr>hsv_hash = Digest 3, hsv_round = 3, hsv_author = PublicKey 1, hsv_signature = default_signature\<rparr>"

lemma ex_last_vote_handled:
  "hsv_round ex_last_vote = 3" "hs_vote_verify ex_env sample_committee ex_last_vote = Done ()"
  "hs_add_vote ex_env sample_committee ex_last_vote hs_aggregator_new =
     (fst (hs_add_vote ex_env sample_committee ex_last_vote hs_aggregator_new), Done None)"
  by (simp_all add: ex_last_vote_def hs_vote_verify_def hs_member_signed_def sample_stake ex_verify ex_signed_def
     hs_add_vote_def hs_qc_maker_at_def hs_aggregator_new_def hs_qc_maker_new_def hs_qc_append_def sample_quorum_word word_le_nat_alt Let_def)

definition ex_last_aggregator :: hs_aggregator where
  "ex_last_aggregator = fst (hs_add_vote ex_env sample_committee ex_last_vote hs_aggregator_new)"

lemmas ex_aggregate = ex_last_vote_def [symmetric] ex_last_vote_handled(1, 2) ex_last_vote_handled(3) [folded ex_last_aggregator_def]
  hs_handle_vote_def hs_on_aggregator_def ex_vote_verified ex_vote_simps ex_votes_added


definition ex_view :: "unit hs_node \<Rightarrow> unit hs_entry list \<times> (key \<times> val) list \<times> unit hs_block list \<times> bool \<times> unit hs_block list" where
  "ex_view x = (hsc_signed (hsn_core x), hsc_store (hsn_core x), hsc_output (hsn_core x), hsc_overflow (hsn_core x), hsp_created (hsn_proposer x))"

definition ex_stored :: "unit hs_block list \<Rightarrow> (key \<times> val) list" where
  "ex_stored bs = map (\<lambda>b. (digest_bytes (hs_block_digest ex_env b), hse_encode ex_env b)) bs"

lemmas ex_run_simps = ex_view_def ex_stored_def ex_node_def ex_run_def hs_run_def ex_start hs_core_new_def ex_eval gen ex_proposer ex_aggregate

lemma ex_views:
  "ex_view (ex_node 1) = ([VoteFor ex_b1, VoteFor ex_b2, VoteFor ex_b3], ex_stored [ex_b3, ex_b2, ex_b1], [ex_b1], False, [])"
  "ex_view (ex_node 2) = ([VoteFor ex_b1, VoteFor ex_b2, VoteFor ex_b3], ex_stored [ex_b3, ex_b2, ex_b1], [ex_b1], False, [ex_b1])"
  "ex_view (ex_node 3) = ([VoteFor ex_b1, VoteFor ex_b2, VoteFor ex_b3], ex_stored [ex_b3, ex_b2, ex_b1], [ex_b1], False, [ex_b2])"
    apply (simp add: ex_run_simps)
   apply (simp add: ex_run_simps)
  apply (simp add: ex_run_simps del: ex_aggregator.simps)
  done

section \<open>The world\<close>

definition ex_world :: "unit hs_world" where
  "ex_world = \<lparr>hw_env = ex_env, hw_committee = sample_committee, hw_honest = {PublicKey 1, PublicKey 2, PublicKey 3},
     hw_node = (\<lambda>p. ex_node (key_word p))\<rparr>"

lemma ex_world_simps: "hw_env ex_world = ex_env" "hw_committee ex_world = sample_committee"
  "hw_honest ex_world = {PublicKey 1, PublicKey 2, PublicKey 3}" "hw_node ex_world p = ex_node (key_word p)"
  by (simp_all add: ex_world_def)

lemma ex_nodes: "k \<in> {1, 2, 3} \<Longrightarrow> hsc_signed (hsn_core (ex_node k)) = [VoteFor ex_b1, VoteFor ex_b2, VoteFor ex_b3] \<and>
    hsc_store (hsn_core (ex_node k)) = ex_stored [ex_b3, ex_b2, ex_b1] \<and> hsc_output (hsn_core (ex_node k)) = [ex_b1] \<and>
    \<not> hsc_overflow (hsn_core (ex_node k)) \<and>
    hsp_created (hsn_proposer (ex_node k)) = (if k = 2 then [ex_b1] else if k = 3 then [ex_b2] else [])"
  using ex_views by (auto simp: ex_view_def)

definition ex_inputs :: "u8 list set" where
  "ex_inputs = {hs_vote_input default_digest 0, hs_vote_input (Digest 1) 1, hs_vote_input (Digest 2) 2, hs_vote_input (Digest 3) 3,
     hs_block_input ex_env ex_b1, hs_block_input ex_env ex_b2, hs_block_input ex_env ex_b3}"

lemma ex_hashes: "hash32 ex_env (hs_vote_input d 0) = Digest 100" "hash32 ex_env (hs_vote_input d 1) = Digest 101"
  "hash32 ex_env (hs_vote_input d 2) = Digest 102" "hash32 ex_env (hs_vote_input d 3) = Digest 103"
  "hash32 ex_env (hs_block_input ex_env ex_b1) = Digest 1" "hash32 ex_env (hs_block_input ex_env ex_b2) = Digest 2"
  "hash32 ex_env (hs_block_input ex_env ex_b3) = Digest 3"
  using ex_vote_digests [of d] ex_digests unfolding hs_vote_digest_def hs_block_digest_def by simp_all

lemma ex_encoder: "hse_encode ex_env = ex_encode"
  by (simp add: ex_env_def)

lemma ex_encode_inj: "ex_encode b = ex_encode b' \<longleftrightarrow> b = b'"
  by (metis ex_decode_encode option.inject)

lemma ex_store: "k \<in> {1, 2, 3} \<Longrightarrow> hs_stored ex_env (hsn_core (ex_node k)) b \<longleftrightarrow> b \<in> {ex_b1, ex_b2, ex_b3}"
  using ex_nodes [of k] by (auto simp: hs_stored_def ex_stored_def ex_encoder ex_encode_inj)

lemma ex_hashed:
  assumes "k \<in> {1, 2, 3}"
  shows "hs_hashed ex_env (ex_node k) \<subseteq> ex_inputs"
proof -
  have "hs_signed_inputs ex_env (ex_node k) \<subseteq> ex_inputs"
    using ex_nodes [OF assms] by (auto simp: hs_signed_inputs_def ex_inputs_def split: if_splits)
  moreover have "\<Union> (hs_block_inputs ex_env ` {b. hs_stored ex_env (hsn_core (ex_node k)) b}) \<subseteq> ex_inputs"
    by (auto simp: ex_store [OF assms] hs_block_inputs_def ex_inputs_def hs_qc_genesis_def)
  ultimately show ?thesis by (simp add: hs_hashed_def)
qed

lemma ex_no_collision: "hs_no_collision ex_world"
proof -
  have sub: "(\<Union>p \<in> hw_honest ex_world. hs_hashed (hw_env ex_world) (hw_node ex_world p)) \<subseteq> ex_inputs"
    using ex_hashed by (auto simp: ex_world_simps)
  have inj: "inj_on (hash32 ex_env) ex_inputs"
    by (auto simp: inj_on_def ex_inputs_def ex_hashes)
  have "default_digest \<notin> hash32 ex_env ` ex_inputs"
    by (auto simp: ex_inputs_def ex_hashes default_digest_def)
  then show ?thesis using inj_on_subset [OF inj sub] sub by (auto simp: hs_no_collision_def ex_world_simps)
qed

lemma ex_unforgeable: "hs_unforgeable ex_world"
proof -
  have "d \<in> hash32 ex_env ` hs_signed_inputs ex_env (ex_node k)" if "k \<in> {1, 2, 3}" "sig_verify ex_env s d (PublicKey k) = Done ()" for k s d
    using that(2) ex_nodes [OF that(1)] that(1)
    by (cases d) (auto simp: ex_verify ex_signed_def hs_signed_inputs_def ex_hashes image_Un image_image)
  then show ?thesis by (auto simp: hs_unforgeable_def ex_world_simps)
qed

lemma ex_few_faulty: "hs_few_faulty ex_world"
proof -
  have "members sample_committee - {PublicKey 1, PublicKey 2, PublicKey 3} = {PublicKey 4}" by (auto simp: sample_members)
  then show ?thesis by (auto simp: hs_few_faulty_def ex_world_simps sample_weight sample_thresholds sample_members Let_def)
qed

lemma ex_world_ok: "hs_world_ok ex_world"
proof -
  have "hs_honest_run ex_world (PublicKey k)" if "k \<in> {1, 2, 3}" for k
    using ex_nodes [OF that] unfolding hs_honest_run_def by (auto simp: ex_world_simps ex_node_def)
  then show ?thesis
    using sample_ok ex_codec ex_batch ex_few_faulty ex_unforgeable ex_no_collision by (auto simp: hs_world_ok_def ex_world_simps)
qed

theorem hs_agreement_witness: "hs_extends ex_world ex_b1 ex_b1"
  using hs_agreement [OF ex_world_ok, of "PublicKey 1" "PublicKey 3" ex_b1 ex_b1] ex_nodes [of 1] ex_nodes [of 3]
  by (simp add: ex_world_simps)

end
