(* ===== verification/HotStuff_Behaviour.thy ===== *)
theory HotStuff_Behaviour
  imports HotStuff_Example
begin

text \<open>
  What a HotStuff node does on the events that matter: the order of its votes, the vote for a
  valid proposal, the blocks a commit outputs, and its reaction to a TC, which the core takes from
  anyone without a check.
\<close>

section \<open>Votes\<close>

text \<open>
  C18: in every run of a HotStuff node, whatever it receives, the votes it signs have increasing
  rounds, it never votes in a round for which it has signed a timeout, and a timeout it signs
  reports a QC at least as high as those of the blocks it has voted for.
\<close>

theorem hs_votes_in_order:
  assumes "committee_ok c" and "hs_codec_ok E" and "hs_batch_sound E"
  shows "sorted_wrt hs_before (hsc_signed (hsn_core (hs_run n E es (hs_node_new name c sign))))"
  using run_inv [OF assms(2, 3) node_new_inv(1) [OF assms(1)], of n es name sign] by (simp add: hs_node_inv_def hs_inv_def)

theorem hs_votes_in_order_witness: "sorted_wrt hs_before (hsc_signed (hsn_core (ex_node 3)))"
  using hs_votes_in_order [OF sample_ok ex_codec ex_batch] unfolding ex_node_def by blast

lemma process_qc_round:
  "hs_process_qc q s = (s\<lparr>hsc_timer_resets := hsc_timer_resets s + (if hsq_round q < hsc_round s then 0 else 1),
     hsc_round := (if hsq_round q < hsc_round s then hsc_round s else hsq_round q + 1),
     hsc_aggregator := (if hsq_round q < hsc_round s then hsc_aggregator s else hs_aggregator_cleanup (hsq_round q + 1) (hsc_aggregator s)),
     hsc_overflow := hsc_overflow s \<or> \<not> hsq_round q < hsc_round s \<and> hsq_round q = - 1,
     hsc_high_qc := (if hsq_round q > hsq_round (hsc_high_qc s) then q else hsc_high_qc s)\<rparr>, Done ())"
  by (simp add: hs_process_qc_def hs_advance_round_def hs_update_high_qc_def handler_simps)

lemma get_parent_store:
  assumes "hs_get_parent E b s = (s', Done (Some a))" and "hsc_store t = hsc_store s"
  shows "hs_get_parent E b t = (t, Done (Some a))"
  using assms by (auto simp: hs_get_parent_def handler_simps split: if_splits option.splits)

lemma get_ancestors_store:
  assumes "hs_get_ancestors E b s = (s', Done (Some (b0, b1)))" and "hsc_store t = hsc_store s"
  shows "hs_get_ancestors E b t = (t, Done (Some (b0, b1)))"
proof -
  obtain s1 where p: "hs_get_parent E b s = (s1, Done (Some b1))" "hs_get_parent E b1 s1 = (s', Done (Some b0))"
    using assms(1) by (auto simp: hs_get_ancestors_def handler_simps split: prod.splits outcome.splits option.splits)
  have "hsc_store s1 = hsc_store s"
    using p(1) by (auto simp: hs_get_parent_def handler_simps split: if_splits option.splits)
  then show ?thesis
    using get_parent_store [OF p(1) assms(2)] get_parent_store [OF p(2), of t] assms(2)
    by (simp add: hs_get_ancestors_def handler_simps)
qed



section \<open>Commits\<close>

text \<open>A chain from a block to ancestors in the store, each the parent of the one before.\<close>

fun hs_chain :: "('c, 'p) hs_env_scheme \<Rightarrow> 'c hs_core \<Rightarrow> 'c hs_block \<Rightarrow> 'c hs_block list \<Rightarrow> bool" where
  "hs_chain E s b [] \<longleftrightarrow> True"
| "hs_chain E s b (a # as) \<longleftrightarrow> hs_get_parent E b s = (s, Done (Some a)) \<and> hs_chain E s a as"

lemma collect_chain:
  assumes "hs_chain E s b as" and "length as < n"
    and "\<forall>x \<in> set (butlast (b # as)). hsc_last_committed s + 1 < hsb_round x"
    and "hsb_round (last (b # as)) \<le> hsc_last_committed s + 1"
  shows "hs_collect n E b acc s = (s, Done (acc @ as))"
  using assms
proof (induction as arbitrary: n b acc)
  case Nil
  then show ?case by (cases n) (auto simp: handler_simps)
next
  case (Cons a as)
  obtain m where m: "n = Suc m" using Cons.prems(2) by (cases n) auto
  have "hs_collect m E a (acc @ [a]) s = (s, Done ((acc @ [a]) @ as))"
    using Cons.prems m by (intro Cons.IH) auto
  then show ?case using Cons.prems m by (simp add: handler_simps)
qed

lemma deliver_each: "each hs_deliver bs s = (s\<lparr>hsc_output := hsc_output s @ bs,
    hsc_committed := hsc_committed s @ concat (map hsb_payload bs), hsc_mempool := hsc_mempool s @ concat (map hsb_payload bs)\<rparr>, Done ())"
  by (induction bs arbitrary: s) (simp_all add: hs_deliver_def handler_simps)

text \<open>
  C35: committing a block outputs its chain of ancestors, oldest first, down to the first one
  whose round is at most the one after the last commit, and hands on their payloads in this
  order. When rounds were skipped this last ancestor is the block committed before, or the
  genesis block, which is output again.
\<close>

theorem hs_commit_outputs:
  assumes "hsc_last_committed s < hsb_round b" and "hs_chain E s b as" and "length as < n"
    and "\<forall>x \<in> set (butlast (b # as)). hsc_last_committed s + 1 < hsb_round x"
    and "hsb_round (last (b # as)) \<le> hsc_last_committed s + 1"
  shows "\<exists>t. hs_commit n E b s = (t, Done ()) \<and> hsc_output t = hsc_output s @ rev as @ [b] \<and>
    hsc_committed t = hsc_committed s @ concat (map hsb_payload (rev as @ [b])) \<and> hsc_last_committed t = hsb_round b"
  using assms(1) collect_chain [OF assms(2-5), of "[b]"] by (simp add: hs_commit_def deliver_each handler_simps assms(1) [unfolded not_le [symmetric]])

theorem hs_commit_outputs_witness:
  "\<exists>t. hs_commit 2 ex_env (ex_block hs_qc_genesis 3 2) (hs_core_new (PublicKey 1) sample_committee (\<lambda>_. default_signature)) = (t, Done ()) \<and>
     hsc_output t = [hs_block_genesis, ex_block hs_qc_genesis 3 2]"
proof -
  let ?s = "hs_core_new (PublicKey 1) sample_committee (\<lambda>_. default_signature) :: unit hs_core"
  have "hs_chain ex_env ?s (ex_block hs_qc_genesis 3 2) [hs_block_genesis]"
    by (simp add: hs_get_parent_def handler_simps ex_block_def gen)
  then show ?thesis
    using hs_commit_outputs [of ?s "ex_block hs_qc_genesis 3 2" ex_env "[hs_block_genesis]" 2]
    by (auto simp: hs_core_new_def ex_block_def gen)
qed

section \<open>Forged TCs\<close>

text \<open>
  a TC is not verified on reception: whatever its votes, a TC of a round not below the node's
  moves the node to the round after it, and the largest round number moves it to round 0. A node
  that leads the new round asks its proposer for a block with this TC.
\<close>

theorem hs_forged_tc_moves_round:
  assumes "hsc_round s \<le> hst_round t" and "hs_leader (hsc_committee s) (hst_round t + 1) = Some l"
  shows "\<exists>u. hs_core_turn n E (HsReceived (HsTC t)) s = (u, Done ()) \<and> hsc_round u = hst_round t + 1 \<and>
    (hst_round t = - 1 \<longrightarrow> hsc_round u = 0) \<and>
    hsc_to_proposer u = hsc_to_proposer s @ (if l = hsc_name s then [(hst_round t + 1, hsc_high_qc s, Some t)] else [])"
  using assms(2) by (simp add: hs_handle_tc_def hs_advance_round_def hs_propose_as_leader_def hs_generate_proposal_def handler_simps
      leD [OF assms(1)])

theorem hs_forged_tc_moves_round_witness:
  "\<exists>u. hs_core_turn 1 ex_env (HsReceived (HsTC \<lparr>hst_round = - 1, hst_votes = []\<rparr>))
     (hs_core_new (PublicKey 2) sample_committee (\<lambda>_. default_signature)) = (u, Done ()) \<and> hsc_round u = 0"
proof -
  have "hs_leader sample_committee 0 = Some (PublicKey 1)" by (simp add: ex_leader)
  then show ?thesis
    using hs_forged_tc_moves_round [of "hs_core_new (PublicKey 2) sample_committee (\<lambda>_. default_signature)" "\<lparr>hst_round = - 1, hst_votes = []\<rparr>"]
    by (fastforce simp: hs_core_new_def)
qed

text \<open>
  C39: a single TC without votes, which anyone can send, stops the core of the leader of the round
  after it: the leader puts the TC into its own block, and the vote on this block takes the
  maximum of no rounds. Here for a leader that knows no QC yet, whose ancestors are never missing.
\<close>

theorem hs_empty_tc_kills_leader:
  fixes x :: "'c hs_node" and E :: "('c, 'p) hs_env_scheme" and r :: hs_round
  defines "s \<equiv> hsn_core x" and "t \<equiv> \<lparr>hst_round = r, hst_votes = []\<rparr>"
  assumes "hsn_alive x" and "hsc_round s \<le> r" and "hs_leader (hsc_committee s) (r + 1) = Some (hsc_name s)"
    and "hsc_high_qc s = hs_qc_genesis" and "hsc_to_proposer s = []" and "hsn_loopback x = []"
  shows "\<not> hsn_alive (hs_run n E [HnMessage (HsTC t), HnLead, HnDelayOver, HnLoopback] x)"
proof -
  let ?u = "s\<lparr>hsc_timer_resets := hsc_timer_resets s + 1, hsc_round := r + 1, hsc_aggregator := hs_aggregator_cleanup (r + 1) (hsc_aggregator s),
     hsc_overflow := hsc_overflow s \<or> r = - 1, hsc_to_proposer := [(r + 1, hs_qc_genesis, Some t)]\<rparr>"
  let ?v = "?u\<lparr>hsc_to_proposer := []\<rparr>"
  have tc: "hs_node_turn n E (HnMessage (HsTC t)) x = x\<lparr>hsn_core := ?u\<rparr>"
    using assms(3, 5-7) leD [OF assms(4)]
    by (simp add: s_def t_def hs_core_moves_def hs_handle_tc_def hs_advance_round_def hs_propose_as_leader_def hs_generate_proposal_def handler_simps
        del: not_less)
  have lead: "\<exists>y. hs_run n E [HnLead, HnDelayOver] (x\<lparr>hsn_core := ?u\<rparr>) = y \<and> hsn_core y = ?v \<and> hsn_alive y \<and>
     (\<exists>b. hsn_loopback y = [b] \<and> hsb_qc b = hs_qc_genesis \<and> hsb_tc b = Some t \<and> hsb_round b = r + 1)"
    using assms by (simp add: hs_run_def hs_proposer_moves_def hs_propose_def hs_make_block_def hs_block_new_def Let_def)
  then obtain y b where y: "hs_run n E [HnLead, HnDelayOver] (x\<lparr>hsn_core := ?u\<rparr>) = y" "hsn_core y = ?v" "hsn_alive y"
     "hsn_loopback y = [b]" "hsb_qc b = hs_qc_genesis" "hsb_tc b = Some t" "hsb_round b = r + 1" by metis
  have "hs_get_ancestors E b z = (z, Done (Some (hs_block_genesis, hs_block_genesis)))" for z :: "'c hs_core"
    by (simp add: hs_get_ancestors_def hs_get_parent_def y(5) handler_simps hs_qc_eq_def hs_block_genesis_def)
  moreover have "high_qc_rounds t = []" by (simp add: t_def high_qc_rounds_def)
  ultimately have "snd (hs_process_block n E b ?v) = Panic"
    using y(6, 7) by (simp add: hs_process_block_def hs_store_block_def hs_make_vote_def hs_rule_2_def handler_simps hs_block_genesis_def)
  then have "\<not> hsn_alive (hs_node_turn n E HnLoopback y)"
    using y by (simp add: hs_core_moves_def case_prod_unfold)
  then show ?thesis using tc y(1) by (simp add: hs_run_def)
qed

theorem hs_empty_tc_kills_leader_witness:
  "\<not> hsn_alive (hs_run 1 ex_env [HnMessage (HsTC \<lparr>hst_round = 1, hst_votes = []\<rparr>), HnLead, HnDelayOver, HnLoopback]
     (hs_node_new (PublicKey 3) sample_committee (\<lambda>_. default_signature)))"
  using hs_empty_tc_kills_leader [of "hs_node_new (PublicKey 3) sample_committee (\<lambda>_. default_signature)" 1]
  by (simp add: ex_start hs_core_new_def)

end
