(* ===== verification/Dag_Order.thy ===== *)
theory Dag_Order
  imports Leader "HOL-Library.Multiset"
begin

text \<open>
  The ordering of a graph of certificates, which the Tusk crate (\<open>consensus/src/lib.rs\<close>) and
  the committer of the HotStuff crate (\<open>hotstuff/src/committer.rs\<close>) have word for word: the graph
  in memory with the rounds committed for each authority, its clean-up, and the depth-first search
  that flattens what a certificate refers to.

  Both crates were written for certificates with a header, a round and parents inside, which those
  of the primary no longer have. So certificates are a type variable \<open>'c\<close>, and what the code
  uses of them are the fields of \<open>dag_env\<close>. A hash map is an association list in the order in
  which it is iterated. \<open>order_dag\<close> is total: each certificate is pushed once, since a push
  marks its digest.
\<close>

section \<open>State\<close>

record 'c dag_env =
  dge_origin :: "'c \<Rightarrow> public_key"
  dge_round :: "'c \<Rightarrow> u64"
  dge_digest :: "'c \<Rightarrow> digest"
  dge_parents :: "'c \<Rightarrow> digest list"
  dge_same :: "'c \<Rightarrow> 'c \<Rightarrow> bool"

type_synonym 'c dag_row = "(public_key \<times> digest \<times> 'c) list"
type_synonym 'c dag = "(u64 \<times> 'c dag_row) list"

record 'c dag_state =
  ds_last_committed_round :: u64
  ds_last_committed :: "(public_key \<times> u64) list"
  ds_dag :: "'c dag"

definition dag_row_of :: "('c, 'e) dag_env_scheme \<Rightarrow> 'c list \<Rightarrow> 'c dag_row" where
  "dag_row_of E cs = fold (\<lambda>c. hm_insert (dge_origin E c) (dge_digest E c, c)) cs []"

definition dag_new :: "('c, 'e) dag_env_scheme \<Rightarrow> 'c list \<Rightarrow> 'c dag_state" where
  "dag_new E genesis = (let row = dag_row_of E genesis in
     \<lparr>ds_last_committed_round = 0, ds_last_committed = map (\<lambda>(x, _, y). (x, dge_round E y)) row, ds_dag = [(0, row)]\<rparr>)"

definition dag_insert :: "('c, 'e) dag_env_scheme \<Rightarrow> 'c \<Rightarrow> 'c dag_state \<Rightarrow> 'c dag_state" where
  "dag_insert E c s = (let row = (case map_of (ds_dag s) (dge_round E c) of None \<Rightarrow> [] | Some row \<Rightarrow> row) in
     s\<lparr>ds_dag := hm_insert (dge_round E c) (hm_insert (dge_origin E c) (dge_digest E c, c) row) (ds_dag s)\<rparr>)"

definition dag_retain :: "u64 \<Rightarrow> u64 \<Rightarrow> public_key \<times> u64 \<Rightarrow> 'c dag \<Rightarrow> 'c dag" where
  "dag_retain depth last_committed_round nr dag = (case nr of (name, committed) \<Rightarrow>
     filter (\<lambda>(r, authorities). authorities \<noteq> [] \<and> r + depth \<ge> last_committed_round)
       (map (\<lambda>(r, authorities). (r, filter (\<lambda>(n, _). n \<noteq> name \<or> r \<ge> committed) authorities)) dag))"

definition dag_commit :: "('c, 'e) dag_env_scheme \<Rightarrow> 'c \<Rightarrow> (public_key \<times> u64) list \<Rightarrow> (public_key \<times> u64) list" where
  "dag_commit E c m = hm_insert (dge_origin E c) (case map_of m (dge_origin E c) of
     None \<Rightarrow> dge_round E c | Some r \<Rightarrow> max r (dge_round E c)) m"

definition dag_update :: "('c, 'e) dag_env_scheme \<Rightarrow> u64 \<Rightarrow> 'c \<Rightarrow> 'c dag_state \<Rightarrow> 'c dag_state" where
  "dag_update E depth c s =
     (let last_committed = dag_commit E c (ds_last_committed s);
          last_committed_round = Max (snd ` set last_committed)
      in s\<lparr>ds_last_committed := last_committed, ds_last_committed_round := last_committed_round,
           ds_dag := fold (dag_retain depth last_committed_round) last_committed (ds_dag s)\<rparr>)"

section \<open>Flattening\<close>

definition dag_find :: "'c dag \<Rightarrow> u64 \<Rightarrow> digest \<Rightarrow> (digest \<times> 'c) option" where
  "dag_find dag r d = (case map_of dag r of None \<Rightarrow> None | Some row \<Rightarrow> find (\<lambda>(x, _). x = d) (map snd row))"

text \<open>The loop over the parents of a certificate; the vector \<open>buffer\<close> is a stack, its end first.\<close>

fun push_parents :: "('c, 'e) dag_env_scheme \<Rightarrow> 'c dag_state \<Rightarrow> u64 \<Rightarrow> digest list \<Rightarrow> 'c list \<times> digest set \<Rightarrow> 'c list \<times> digest set" where
  "push_parents E s r [] acc = acc"
| "push_parents E s r (parent # ps) (buffer, already_ordered) = push_parents E s r ps
     (case dag_find (ds_dag s) r parent of
        None \<Rightarrow> (buffer, already_ordered)
      | Some (d, c) \<Rightarrow>
          if d \<in> already_ordered \<or> map_of (ds_last_committed s) (dge_origin E c) = Some (dge_round E c)
          then (buffer, already_ordered) else (c # buffer, insert d already_ordered))"

definition dag_digests :: "'c dag \<Rightarrow> digest set" where
  "dag_digests dag = (\<Union>(r, row) \<in> set dag. (fst \<circ> snd) ` set row)"

lemma finite_dag_digests: "finite (dag_digests dag)"
  by (auto simp: dag_digests_def)

lemma dag_find_in: "dag_find dag r d = Some (d', c) \<Longrightarrow> d' = d \<and> (\<exists>row n. (r, row) \<in> set dag \<and> (n, d, c) \<in> set row)"
  by (auto simp: dag_find_def find_Some_iff split: option.splits dest!: map_of_SomeD) (metis nth_mem prod.collapse)

lemma dag_find_digest: "dag_find dag r d = Some (d', c) \<Longrightarrow> d' \<in> dag_digests dag"
  using dag_find_in [of dag r d d' c] by (force simp: dag_digests_def)

lemma push_parents_measure:
  assumes "push_parents E s r ps (buffer, already) = (buffer', already')"
  shows "card (dag_digests (ds_dag s) - already') + length buffer' \<le> card (dag_digests (ds_dag s) - already) + length buffer"
  using assms
proof (induction E s r ps "(buffer, already)" arbitrary: buffer already rule: push_parents.induct)
  case (2 E s r parent ps buffer already)
  show ?case
  proof (cases "\<exists>d c. dag_find (ds_dag s) r parent = Some (d, c) \<and> d \<notin> already \<and>
      map_of (ds_last_committed s) (dge_origin E c) \<noteq> Some (dge_round E c)")
    case True
    then obtain d c where d: "dag_find (ds_dag s) r parent = Some (d, c)" "d \<notin> already"
      "map_of (ds_last_committed s) (dge_origin E c) \<noteq> Some (dge_round E c)" by blast
    have "card (dag_digests (ds_dag s) - already) = Suc (card (dag_digests (ds_dag s) - insert d already))"
      using d(2) dag_find_digest [OF d(1)] finite_dag_digests [of "ds_dag s"]
      by (metis DiffI Diff_insert card_Suc_Diff1 finite_Diff)
    moreover have "card (dag_digests (ds_dag s) - already') + length buffer' \<le>
       card (dag_digests (ds_dag s) - insert d already) + length (c # buffer)"
      using 2 d by simp
    ultimately show ?thesis by simp
  next
    case False
    then have "(case dag_find (ds_dag s) r parent of None \<Rightarrow> (buffer, already)
      | Some (d, c) \<Rightarrow> if d \<in> already \<or> map_of (ds_last_committed s) (dge_origin E c) = Some (dge_round E c)
          then (buffer, already) else (c # buffer, insert d already)) = (buffer, already)"
      by (auto split: option.split)
    then show ?thesis using 2 by simp
  qed
qed simp

function order_loop :: "('c, 'e) dag_env_scheme \<Rightarrow> 'c dag_state \<Rightarrow> 'c list \<Rightarrow> digest set \<Rightarrow> 'c list \<Rightarrow> 'c list" where
  "order_loop E s [] already_ordered ordered = ordered"
| "order_loop E s (x # buffer) already_ordered ordered =
     (let (buffer', already') = push_parents E s (dge_round E x - 1) (dge_parents E x) (buffer, already_ordered)
      in order_loop E s buffer' already' (ordered @ [x]))"
  by pat_completeness auto
termination
proof (relation "measure (\<lambda>(E, s, buffer, already, ordered). card (dag_digests (ds_dag s) - already) + length buffer)", goal_cases)
  case (2 E s x buffer already ordered y buffer' already')
  then have "push_parents E s (dge_round E x - 1) (dge_parents E x) (buffer, already) = (buffer', already')" by simp
  from push_parents_measure [OF this] show ?case by simp
qed simp

definition order_dag :: "('c, 'e) dag_env_scheme \<Rightarrow> u64 \<Rightarrow> 'c \<Rightarrow> 'c dag_state \<Rightarrow> 'c list" where
  "order_dag E depth tip s = sort_key (dge_round E)
     (filter (\<lambda>x. dge_round E x + depth \<ge> ds_last_committed_round s) (order_loop E s [tip] {} []))"

section \<open>What is flattened\<close>

text \<open>A certificate refers to those of its parents that are in the graph and not committed.\<close>

definition dag_refers :: "('c, 'e) dag_env_scheme \<Rightarrow> 'c dag_state \<Rightarrow> 'c \<Rightarrow> 'c \<Rightarrow> bool" where
  "dag_refers E s x c \<longleftrightarrow> (\<exists>d. d \<in> set (dge_parents E x) \<and> dag_find (ds_dag s) (dge_round E x - 1) d = Some (d, c) \<and>
     map_of (ds_last_committed s) (dge_origin E c) \<noteq> Some (dge_round E c))"

text \<open>Every entry stands where it belongs, there is none of the round before round 0, and digests
  tell the certificates of the graph apart.\<close>

definition dag_entries :: "'c dag \<Rightarrow> (u64 \<times> public_key \<times> digest \<times> 'c) set" where
  "dag_entries dag = {(r, n, d, c). \<exists>row. (r, row) \<in> set dag \<and> (n, d, c) \<in> set row}"

definition dag_ok :: "('c, 'e) dag_env_scheme \<Rightarrow> 'c dag \<Rightarrow> bool" where
  "dag_ok E dag \<longleftrightarrow> distinct (map fst dag) \<and> - 1 \<notin> fst ` set dag \<and>
     (\<forall>(r, n, d, c) \<in> dag_entries dag. dge_round E c = r \<and> dge_origin E c = n \<and> dge_digest E c = d) \<and>
     (\<forall>(r, n, d, c) \<in> dag_entries dag. \<forall>(r', n', d', c') \<in> dag_entries dag. d = d' \<longrightarrow> c = c')"

lemma dag_find_entry: "dag_find dag r d = Some (d', c) \<Longrightarrow> d' = d \<and> (\<exists>n. (r, n, d, c) \<in> dag_entries dag)"
  using dag_find_in [of dag r d d' c] by (auto simp: dag_entries_def)

lemma dag_refers_entry: "dag_refers E s x c \<Longrightarrow> \<exists>n d. (dge_round E x - 1, n, d, c) \<in> dag_entries (ds_dag s)"
  unfolding dag_refers_def using dag_find_entry by fast

lemma dag_ok_same:
  assumes "dag_ok E dag" and "(r, n, d, c) \<in> dag_entries dag" and "(r', n', d', c') \<in> dag_entries dag" and "dge_digest E c = dge_digest E c'"
  shows "c = c'"
proof -
  have "d = dge_digest E c" "d' = dge_digest E c'" using assms(1-3) by (auto simp: dag_ok_def)
  moreover have "d = d' \<longrightarrow> c = c'" using assms(1-3) unfolding dag_ok_def by fast
  ultimately show ?thesis using assms(4) by simp
qed

lemma dag_refers_round:
  assumes "dag_ok E (ds_dag s)" and "dag_refers E s x c"
  shows "dge_round E c = dge_round E x - 1"
  using assms(1) dag_refers_entry [OF assms(2)] by (auto simp: dag_ok_def)

text \<open>What the loop over the parents pushes.\<close>

lemma push_parents_adds:
  assumes "dag_ok E (ds_dag s)" and "push_parents E s (dge_round E x - 1) ps (buffer, already) = (buffer', already')"
    and "set ps \<subseteq> set (dge_parents E x)"
  shows "\<exists>cs. buffer' = cs @ buffer \<and> already' = already \<union> dge_digest E ` set cs \<and> distinct (map (dge_digest E) cs) \<and>
    dge_digest E ` set cs \<inter> already = {} \<and> (\<forall>c \<in> set cs. dag_refers E s x c)"
  using assms(2, 3)
proof (induction ps arbitrary: buffer already)
  case (Cons p ps)
  let ?r = "dge_round E x - 1"
  show ?case
  proof (cases "\<exists>d c. dag_find (ds_dag s) ?r p = Some (d, c) \<and> d \<notin> already \<and>
      map_of (ds_last_committed s) (dge_origin E c) \<noteq> Some (dge_round E c)")
    case True
    then obtain d c where d: "dag_find (ds_dag s) ?r p = Some (d, c)" "d \<notin> already"
      "map_of (ds_last_committed s) (dge_origin E c) \<noteq> Some (dge_round E c)" by blast
    then have c: "dge_digest E c = d" "d = p" "dag_refers E s x c"
      using dag_find_entry [OF d(1)] assms(1) Cons.prems(2) by (auto simp: dag_ok_def dag_refers_def)
    obtain cs where cs: "buffer' = cs @ c # buffer" "already' = insert d already \<union> dge_digest E ` set cs"
      "distinct (map (dge_digest E) cs)" "dge_digest E ` set cs \<inter> insert d already = {}" "\<forall>c \<in> set cs. dag_refers E s x c"
      using Cons.IH [of "c # buffer" "insert d already"] Cons.prems d by auto
    show ?thesis by (rule exI [of _ "cs @ [c]"]) (use cs c d(2) in auto)
  next
    case False
    then have "(case dag_find (ds_dag s) ?r p of None \<Rightarrow> (buffer, already)
      | Some (d, c) \<Rightarrow> if d \<in> already \<or> map_of (ds_last_committed s) (dge_origin E c) = Some (dge_round E c)
          then (buffer, already) else (c # buffer, insert d already)) = (buffer, already)"
      by (auto split: option.split)
    then show ?thesis using Cons by simp
  qed
qed simp

lemma push_parents_all:
  assumes "push_parents E s (dge_round E x - 1) ps (buffer, already) = (buffer', already')"
    and "d \<in> set ps" and "dag_find (ds_dag s) (dge_round E x - 1) d = Some (d', c)"
    and "map_of (ds_last_committed s) (dge_origin E c) \<noteq> Some (dge_round E c)"
  shows "d' \<in> already'"
proof -
  have mono: "already \<subseteq> snd (push_parents E s r ps (buffer, already))" for r ps buffer already
    by (induction E s r ps "(buffer, already)" arbitrary: buffer already rule: push_parents.induct) (auto split: option.splits)
  show ?thesis using assms(1, 2)
  proof (induction ps arbitrary: buffer already)
    case (Cons p ps)
    show ?case
    proof (cases "d \<in> set ps")
      case False
      then have "p = d" using Cons.prems(2) by simp
      then show ?thesis
        using Cons.prems(1) assms(3, 4) mono [of "insert d' already" "dge_round E x - 1" ps "c # buffer"]
          mono [of already "dge_round E x - 1" ps buffer] by (auto split: if_splits)
    qed (use Cons in \<open>auto split: option.splits prod.splits if_splits\<close>)
  qed simp
qed

text \<open>What the search has seen: the start and certificates below it, each once.\<close>

definition dag_seen :: "('c, 'e) dag_env_scheme \<Rightarrow> 'c dag_state \<Rightarrow> 'c \<Rightarrow> 'c list \<Rightarrow> digest set \<Rightarrow> bool" where
  "dag_seen E s tip xs already \<longleftrightarrow> (\<exists>rest. mset xs = add_mset tip (mset rest) \<and> distinct (map (dge_digest E) rest) \<and>
     already = dge_digest E ` set rest \<and> (\<forall>c \<in> set rest. (dag_refers E s)\<^sup>+\<^sup>+ tip c \<and> dge_round E c < dge_round E tip))"

lemma refers_below:
  assumes "dag_ok E (ds_dag s)" and "dag_refers E s x c"
  shows "dge_round E c < dge_round E x"
proof -
  have "dge_round E x - 1 \<noteq> - 1"
    using dag_refers_entry [OF assms(2)] assms(1) by (force simp: dag_ok_def dag_entries_def)
  then have "dge_round E x \<noteq> 0" by auto
  then show ?thesis using dag_refers_round [OF assms] by (simp add: word_less_nat_alt unat_minus_one unat_gt_0)
qed

lemma order_loop_seen:
  assumes "dag_ok E (ds_dag s)"
    and "dag_seen E s tip (ordered @ buffer) already"
    and "\<forall>x \<in> set ordered. \<forall>c. dag_refers E s x c \<longrightarrow> dge_digest E c \<in> already"
  shows "\<exists>already'. dag_seen E s tip (order_loop E s buffer already ordered) already' \<and>
    (\<forall>x \<in> set (order_loop E s buffer already ordered). \<forall>c. dag_refers E s x c \<longrightarrow> dge_digest E c \<in> already')"
  using assms
proof (induction E s buffer already ordered rule: order_loop.induct)
  case (2 E s x buffer already ordered)
  obtain buffer' already' where p: "push_parents E s (dge_round E x - 1) (dge_parents E x) (buffer, already) = (buffer', already')"
    by fastforce
  obtain cs where cs: "buffer' = cs @ buffer" "already' = already \<union> dge_digest E ` set cs" "distinct (map (dge_digest E) cs)"
    "dge_digest E ` set cs \<inter> already = {}" "\<forall>c \<in> set cs. dag_refers E s x c"
    using push_parents_adds [OF 2(2) p subset_refl] by blast
  obtain rest where rest: "mset (ordered @ x # buffer) = add_mset tip (mset rest)" "distinct (map (dge_digest E) rest)"
    "already = dge_digest E ` set rest" "\<forall>c \<in> set rest. (dag_refers E s)\<^sup>+\<^sup>+ tip c \<and> dge_round E c < dge_round E tip"
    using 2(3) unfolding dag_seen_def by blast
  have x: "x = tip \<or> x \<in> set rest" using arg_cong [OF rest(1), of set_mset] by auto
  have new: "(dag_refers E s)\<^sup>+\<^sup>+ tip c \<and> dge_round E c < dge_round E tip" if "c \<in> set cs" for c
  proof -
    have r: "dag_refers E s x c" using cs(5) that by blast
    from x show ?thesis
    proof
      assume "x = tip"
      then show ?thesis using r refers_below [OF 2(2) r] by auto
    next
      assume "x \<in> set rest"
      then show ?thesis
        using rest(4) r refers_below [OF 2(2) r] by (meson tranclp.trancl_into_trancl order_less_trans)
    qed
  qed
  have "dag_seen E s tip ((ordered @ [x]) @ buffer') already'"
    unfolding dag_seen_def
  proof (intro exI [of _ "cs @ rest"] conjI)
    show "mset ((ordered @ [x]) @ buffer') = add_mset tip (mset (cs @ rest))" using rest(1) cs(1) by simp
    show "distinct (map (dge_digest E) (cs @ rest))" using rest(2, 3) cs(3, 4) by auto
  qed (use cs(2) rest(3, 4) new in auto)
  moreover have "\<forall>y \<in> set (ordered @ [x]). \<forall>c. dag_refers E s y c \<longrightarrow> dge_digest E c \<in> already'"
  proof (intro ballI allI impI)
    fix y c assume y: "y \<in> set (ordered @ [x])" "dag_refers E s y c"
    show "dge_digest E c \<in> already'"
    proof (cases "y \<in> set ordered")
      case False
      then obtain d where d: "d \<in> set (dge_parents E x)" "dag_find (ds_dag s) (dge_round E x - 1) d = Some (d, c)"
        "map_of (ds_last_committed s) (dge_origin E c) \<noteq> Some (dge_round E c)"
        using y dag_find_entry by (fastforce simp: dag_refers_def)
      then have "d = dge_digest E c" using dag_find_entry [OF d(2)] 2(2) by (auto simp: dag_ok_def)
      then show ?thesis using push_parents_all [OF p d] by simp
    qed (use 2(4) y cs(2) in auto)
  qed
  ultimately show ?case using 2(1) [OF p [symmetric] refl 2(2)] p by simp
qed auto

lemma order_loop_spec:
  assumes "dag_ok E (ds_dag s)"
  shows "distinct (order_loop E s [tip] {} []) \<and> set (order_loop E s [tip] {} []) = {c. (dag_refers E s)\<^sup>*\<^sup>* tip c} \<and>
    (\<forall>c \<in> set (order_loop E s [tip] {} []). c = tip \<or> dge_round E c < dge_round E tip)"
proof -
  have "dag_seen E s tip ([] @ [tip]) {}" by (auto simp: dag_seen_def)
  from order_loop_seen [OF assms this] obtain already where
    a: "dag_seen E s tip (order_loop E s [tip] {} []) already"
    "\<forall>x \<in> set (order_loop E s [tip] {} []). \<forall>c. dag_refers E s x c \<longrightarrow> dge_digest E c \<in> already" by auto
  then obtain rest where rest: "mset (order_loop E s [tip] {} []) = add_mset tip (mset rest)" "distinct (map (dge_digest E) rest)"
    "already = dge_digest E ` set rest" "\<forall>c \<in> set rest. (dag_refers E s)\<^sup>+\<^sup>+ tip c \<and> dge_round E c < dge_round E tip"
    unfolding dag_seen_def by blast
  let ?xs = "order_loop E s [tip] {} []"
  have set: "set ?xs = insert tip (set rest)" using arg_cong [OF rest(1), of set_mset] by simp
  have entry: "\<exists>r n d. (r, n, d, c) \<in> dag_entries (ds_dag s)" if "(dag_refers E s)\<^sup>+\<^sup>+ tip c" for c
  proof -
    have "\<exists>x. dag_refers E s x c" using that by (auto elim: tranclp.cases)
    then show ?thesis using dag_refers_entry by meson
  qed
  have closed: "c \<in> set rest" if "x \<in> set ?xs" "dag_refers E s x c" for x c
  proof -
    have "dge_digest E c \<in> dge_digest E ` set rest" using a(2) that rest(3) by meson
    then obtain c' where c': "c' \<in> set rest" "dge_digest E c = dge_digest E c'" by (rule imageE)
    have "\<exists>r n d. (r, n, d, c') \<in> dag_entries (ds_dag s)" "\<exists>r n d. (r, n, d, c) \<in> dag_entries (ds_dag s)"
      using entry rest(4) c'(1) dag_refers_entry [OF that(2)] by meson+
    then have "c = c'" using dag_ok_same [OF assms] c'(2) by blast
    then show ?thesis using c'(1) by simp
  qed
  have "c \<in> set ?xs" if "(dag_refers E s)\<^sup>*\<^sup>* tip c" for c
    using that by (induction rule: rtranclp_induct) (use set closed in auto)
  moreover have "distinct (tip # rest)" using rest(2, 4) by (auto simp: distinct_map)
  then have "distinct ?xs" using rest(1) by (metis mset_eq_imp_distinct_iff mset.simps(2))
  ultimately show ?thesis using set rest(4) by (auto dest: tranclp_into_rtranclp)
qed

text \<open>
  C21: flattening a certificate yields, sorted by round and each once, exactly the certificates it
  refers to through the uncommitted ones of the graph, except those below the garbage boundary.
\<close>

theorem order_dag_spec:
  assumes "dag_ok E (ds_dag s)"
  shows "sorted (map (dge_round E) (order_dag E depth tip s)) \<and> distinct (order_dag E depth tip s) \<and>
    set (order_dag E depth tip s) = {c. (dag_refers E s)\<^sup>*\<^sup>* tip c \<and> ds_last_committed_round s \<le> dge_round E c + depth}"
  using order_loop_spec [OF assms, of tip] by (auto simp: order_dag_def)

end
