(* ===== verification/Dag_Commit.thy ===== *)
theory Dag_Commit
  imports Dag_Order
begin

text \<open>
  Committing along the graph: the clean-up after a commit keeps the invariant from which it
  follows that nothing is output twice, as long as every certificate is received once.
\<close>

section \<open>What is committed\<close>

lemma retain_entries:
  "(r, n, d, c) \<in> dag_entries (dag_retain depth lcr nr dag) \<Longrightarrow> (r, n, d, c) \<in> dag_entries dag \<and> (fst nr = n \<longrightarrow> snd nr \<le> r)"
  by (auto simp: dag_entries_def dag_retain_def split: prod.splits)

lemma retain_keys: "set (map fst (dag_retain depth lcr nr dag)) \<subseteq> set (map fst dag)"
  "distinct (map fst dag) \<Longrightarrow> distinct (map fst (dag_retain depth lcr nr dag))"
proof -
  have f: "map fst (map (\<lambda>(r, as). (r, f r as)) dag) = map fst dag" for f :: "u64 \<Rightarrow> 'a dag_row \<Rightarrow> 'a dag_row"
    by (induction dag) auto
  show "set (map fst (dag_retain depth lcr nr dag)) \<subseteq> set (map fst dag)"
    by (force simp: dag_retain_def split: prod.splits)
  show "distinct (map fst (dag_retain depth lcr nr dag))" if "distinct (map fst dag)"
    unfolding dag_retain_def prod.case_eq_if by (rule distinct_map_filter) (simp add: that f case_prod_unfold o_def)
qed

lemma fold_retain:
  "set (map fst (fold (dag_retain depth lcr) nrs dag)) \<subseteq> set (map fst dag)"
  "distinct (map fst dag) \<Longrightarrow> distinct (map fst (fold (dag_retain depth lcr) nrs dag))"
  "(r, n, d, c) \<in> dag_entries (fold (dag_retain depth lcr) nrs dag) \<Longrightarrow>
     (r, n, d, c) \<in> dag_entries dag \<and> (\<forall>m. (n, m) \<in> set nrs \<longrightarrow> m \<le> r)"
proof (induction nrs arbitrary: dag)
  case (Cons nr nrs)
  {
    case 1
    show ?case using Cons(1) [of "dag_retain depth lcr nr dag"] retain_keys(1) [of depth lcr nr dag] by auto
  next
    case 2
    show ?case using Cons(2) [OF retain_keys(2) [OF 2]] by simp
  next
    case 3
    then have "(r, n, d, c) \<in> dag_entries (dag_retain depth lcr nr dag) \<and> (\<forall>m. (n, m) \<in> set nrs \<longrightarrow> m \<le> r)" using Cons(3) by simp
    then show ?case using retain_entries [of r n d c depth lcr nr dag] by auto
  }
qed auto

text \<open>
  The invariant: all that was output is at most as old as the round committed for its authority,
  and what is still in the graph of it is of exactly this round.
\<close>

definition dag_inv :: "('c, 'e) dag_env_scheme \<Rightarrow> 'c set \<Rightarrow> 'c list \<Rightarrow> 'c dag_state \<Rightarrow> bool" where
  "dag_inv E R out s \<longleftrightarrow> dag_ok E (ds_dag s) \<and> (\<forall>(r, n, d, c) \<in> dag_entries (ds_dag s). c \<in> R) \<and>
     distinct out \<and> set out \<subseteq> R \<and> distinct (map fst (ds_last_committed s)) \<and>
     (\<forall>(n, m) \<in> set (ds_last_committed s). m \<le> ds_last_committed_round s) \<and>
     (\<forall>y \<in> set out. \<exists>m. map_of (ds_last_committed s) (dge_origin E y) = Some m \<and> dge_round E y \<le> m) \<and>
     (\<forall>(r, n, d, c) \<in> dag_entries (ds_dag s). c \<in> set out \<longrightarrow> map_of (ds_last_committed s) n = Some r)"

lemma dag_inv_round: "dag_inv E R out s \<Longrightarrow> y \<in> set out \<Longrightarrow> dge_round E y \<le> ds_last_committed_round s"
  unfolding dag_inv_def by (fastforce dest: map_of_SomeD)

lemma dag_okI:
  assumes "distinct (map fst dag)" and "- 1 \<notin> fst ` set dag"
    and "\<And>r n d c. (r, n, d, c) \<in> dag_entries dag \<Longrightarrow> dge_round E c = r \<and> dge_origin E c = n \<and> dge_digest E c = d"
    and "\<And>r n d c r' n' c'. (r, n, d, c) \<in> dag_entries dag \<Longrightarrow> (r', n', d, c') \<in> dag_entries dag \<Longrightarrow> c = c'"
  shows "dag_ok E dag"
  using assms unfolding dag_ok_def by fast

lemma dag_ok_subset:
  assumes "dag_ok E dag" and "distinct (map fst dag')" and "set (map fst dag') \<subseteq> set (map fst dag)"
    and "dag_entries dag' \<subseteq> dag_entries dag"
  shows "dag_ok E dag'"
proof -
  have last: "- 1 \<notin> fst ` set dag'" using assms(1, 3) by (auto simp: dag_ok_def)
  have place: "dge_round E c = r \<and> dge_origin E c = n \<and> dge_digest E c = d" if "(r, n, d, c) \<in> dag_entries dag'" for r n d c
    using subsetD [OF assms(4) that] assms(1) by (auto simp: dag_ok_def)
  show ?thesis
  proof (rule dag_okI)
    show "c = c'" if "(r, n, d, c) \<in> dag_entries dag'" "(r', n', d, c') \<in> dag_entries dag'" for r n d c r' n' c'
      using dag_ok_same [OF assms(1) subsetD [OF assms(4) that(1)] subsetD [OF assms(4) that(2)]] place [OF that(1)] place [OF that(2)] by simp
  qed (use assms(2) last in simp_all, use place in blast)
qed

lemma dag_invD:
  assumes "dag_inv E R out s"
  shows "dag_ok E (ds_dag s)" and "(r, n, d, c) \<in> dag_entries (ds_dag s) \<Longrightarrow> c \<in> R"
    and "(r, n, d, c) \<in> dag_entries (ds_dag s) \<Longrightarrow> c \<in> set out \<Longrightarrow> map_of (ds_last_committed s) n = Some r"
    and "y \<in> set out \<Longrightarrow> \<exists>m. map_of (ds_last_committed s) (dge_origin E y) = Some m \<and> dge_round E y \<le> m"
    and "(n, m) \<in> set (ds_last_committed s) \<Longrightarrow> m \<le> ds_last_committed_round s"
  using assms unfolding dag_inv_def by fast+

lemma dag_invI:
  assumes "dag_ok E (ds_dag s)" and "\<And>r n d c. (r, n, d, c) \<in> dag_entries (ds_dag s) \<Longrightarrow> c \<in> R"
    and "distinct out" and "set out \<subseteq> R" and "distinct (map fst (ds_last_committed s))"
    and "\<And>n m. (n, m) \<in> set (ds_last_committed s) \<Longrightarrow> m \<le> ds_last_committed_round s"
    and "\<And>y. y \<in> set out \<Longrightarrow> \<exists>m. map_of (ds_last_committed s) (dge_origin E y) = Some m \<and> dge_round E y \<le> m"
    and "\<And>r n d c. (r, n, d, c) \<in> dag_entries (ds_dag s) \<Longrightarrow> c \<in> set out \<Longrightarrow> map_of (ds_last_committed s) n = Some r"
  shows "dag_inv E R out s"
  unfolding dag_inv_def
proof (intro conjI)
  show "\<forall>(r, n, d, c) \<in> dag_entries (ds_dag s). c \<in> R" using assms(2) by blast
  show "\<forall>(n, m) \<in> set (ds_last_committed s). m \<le> ds_last_committed_round s" using assms(6) by blast
  show "\<forall>(r, n, d, c) \<in> dag_entries (ds_dag s). c \<in> set out \<longrightarrow> map_of (ds_last_committed s) n = Some r" using assms(8) by blast
  show "\<forall>y \<in> set out. \<exists>m. map_of (ds_last_committed s) (dge_origin E y) = Some m \<and> dge_round E y \<le> m" using assms(7) by blast
qed (rule assms)+

lemma commit_lookup: "map_of (dag_commit E c m) n = (if n = dge_origin E c
    then Some (case map_of m n of None \<Rightarrow> dge_round E c | Some r \<Rightarrow> max r (dge_round E c)) else map_of m n)"
  by (simp add: dag_commit_def)

lemma update_inv:
  assumes "dag_inv E R out s" and "x \<notin> set out" and "x \<in> R"
  shows "dag_inv E R (out @ [x]) (dag_update E depth x s)"
proof -
  let ?lc = "dag_commit E x (ds_last_committed s)" and ?t = "dag_update E depth x s"
  have t: "ds_last_committed ?t = ?lc" "ds_last_committed_round ?t = Max (snd ` set ?lc)"
    "ds_dag ?t = fold (dag_retain depth (Max (snd ` set ?lc))) ?lc (ds_dag s)" by (simp_all add: dag_update_def Let_def)
  have e: "(r, n, d, c) \<in> dag_entries (ds_dag s) \<and> (\<forall>m. (n, m) \<in> set ?lc \<longrightarrow> m \<le> r)" if "(r, n, d, c) \<in> dag_entries (ds_dag ?t)" for r n d c
    using fold_retain(3) [OF that [unfolded t(3)]] .
  note ok = dag_invD(1) [OF assms(1)]
  have dist: "distinct (map fst ?lc)" using assms(1) by (simp add: dag_inv_def dag_commit_def distinct_hm_insert)
  have out: "\<exists>m. map_of ?lc (dge_origin E y) = Some m \<and> dge_round E y \<le> m" if "y \<in> set (out @ [x])" for y
  proof (cases "y = x")
    case False
    then have "\<exists>m. map_of (ds_last_committed s) (dge_origin E y) = Some m \<and> dge_round E y \<le> m"
      using that by (intro dag_invD(4) [OF assms(1)]) simp
    then show ?thesis by (auto simp: commit_lookup le_max_iff_disj)
  qed (auto simp: commit_lookup split: option.split)
  have "dag_ok E (ds_dag ?t)"
  proof (rule dag_ok_subset [OF ok])
    show "distinct (map fst (ds_dag ?t))" using ok unfolding t(3) dag_ok_def by (blast intro: fold_retain(2))
    show "set (map fst (ds_dag ?t)) \<subseteq> set (map fst (ds_dag s))" unfolding t(3) by (rule fold_retain(1))
  qed (use e in auto)
  moreover have "map_of ?lc n = Some r" if "(r, n, d, c) \<in> dag_entries (ds_dag ?t)" "c \<in> set (out @ [x])" for r n d c
  proof -
    have "dge_origin E c = n" "dge_round E c = r" using e [OF that(1)] ok by (auto simp: dag_ok_def)
    then have "\<exists>m. map_of ?lc n = Some m \<and> r \<le> m" using out [OF that(2)] by simp
    then obtain m where m: "map_of ?lc n = Some m" "r \<le> m" by blast
    then have "m \<le> r" using e [OF that(1)] by (auto dest: map_of_SomeD)
    then show ?thesis using m by simp
  qed
  moreover have "c \<in> R" if "(r, n, d, c) \<in> dag_entries (ds_dag ?t)" for r n d c
    using e [OF that] dag_invD(2) [OF assms(1)] by blast
  moreover have "m \<le> Max (snd ` set ?lc)" if "(n, m) \<in> set ?lc" for n m
    using that by (intro Max_ge) force+
  moreover have "distinct (out @ [x])" "set (out @ [x]) \<subseteq> R" using assms by (auto simp: dag_inv_def)
  ultimately show ?thesis using out dist by (intro dag_invI) (simp_all add: t(1, 2))
qed

lemma updates_inv: "dag_inv E R out s \<Longrightarrow> distinct (out @ xs) \<Longrightarrow> set xs \<subseteq> R \<Longrightarrow>
    dag_inv E R (out @ xs) (fold (dag_update E depth) xs s)"
proof (induction xs arbitrary: out s)
  case (Cons x xs)
  have "dag_inv E R (out @ [x]) (dag_update E depth x s)" using Cons.prems by (intro update_inv) auto
  from Cons.IH [OF this] Cons.prems show ?case by simp
qed simp

lemma update_round:
  assumes "\<forall>(n, m) \<in> set (ds_last_committed s). m \<le> b" and "dge_round E x \<le> b"
  shows "(\<forall>(n, m) \<in> set (ds_last_committed (dag_update E depth x s)). m \<le> b) \<and> ds_last_committed_round (dag_update E depth x s) \<le> b"
proof -
  let ?lc = "dag_commit E x (ds_last_committed s)"
  have b: "m \<le> b" if "(n, m) \<in> set ?lc" for n m
  proof -
    have "(n, m) \<in> set (ds_last_committed s) \<or> m = (case map_of (ds_last_committed s) (dge_origin E x) of
        None \<Rightarrow> dge_round E x | Some r \<Rightarrow> max r (dge_round E x))"
      using subsetD [OF set_hm_insert_subset that [unfolded dag_commit_def]] by auto
    then show ?thesis using assms by (auto split: option.splits dest!: map_of_SomeD)
  qed
  have "finite (snd ` set ?lc)" "snd ` set ?lc \<noteq> {}" by (auto simp: dag_commit_def image_iff) (metis hm_insert.elims list.simps(3))
  then have "Max (snd ` set ?lc) \<le> b" using b by (auto simp: Max_le_iff)
  then show ?thesis using b by (auto simp: dag_update_def Let_def)
qed

lemma updates_round: "(\<forall>(n, m) \<in> set (ds_last_committed s). m \<le> b) \<Longrightarrow> ds_last_committed_round s \<le> b \<Longrightarrow> \<forall>x \<in> set xs. dge_round E x \<le> b \<Longrightarrow>
    ds_last_committed_round (fold (dag_update E depth) xs s) \<le> b"
proof (induction xs arbitrary: s)
  case (Cons x xs)
  show ?case using Cons.IH [of "dag_update E depth x s"] update_round [of s b E x depth] Cons.prems by simp
qed simp

text \<open>One commit: nothing is output twice.\<close>

lemma order_dag_inv:
  assumes "dag_inv E R out s" and "tip \<notin> set out" and "tip \<in> R"
  shows "dag_inv E R (out @ order_dag E depth tip s) (fold (dag_update E depth) (order_dag E depth tip s) s)"
    and "ds_last_committed_round (fold (dag_update E depth) (order_dag E depth tip s) s) \<le> max (ds_last_committed_round s) (dge_round E tip)"
proof -
  note ok = dag_invD(1) [OF assms(1)]
  let ?xs = "order_dag E depth tip s"
  have xs: "distinct ?xs" "\<forall>x \<in> set ?xs. (dag_refers E s)\<^sup>*\<^sup>* tip x" "\<forall>x \<in> set ?xs. x = tip \<or> dge_round E x < dge_round E tip"
    using order_loop_spec [OF ok, of tip] by (auto simp: order_dag_def)
  have new: "x \<notin> set out \<and> x \<in> R" if x: "x \<in> set ?xs" for x
  proof (cases "x = tip")
    case False
    then have "\<exists>y. dag_refers E s y x" using xs(2) x by (meson rtranclp.cases)
    then obtain y r d n where e: "(r, n, d, x) \<in> dag_entries (ds_dag s)"
      "map_of (ds_last_committed s) (dge_origin E x) \<noteq> Some (dge_round E x)"
      using dag_refers_entry unfolding dag_refers_def by meson
    then have "dge_origin E x = n" "dge_round E x = r" using ok by (auto simp: dag_ok_def)
    then show ?thesis using e assms(1) unfolding dag_inv_def by fast
  qed (use assms in simp)
  then show "dag_inv E R (out @ ?xs) (fold (dag_update E depth) ?xs s)"
    using xs(1) assms(1) by (intro updates_inv) (auto simp: dag_inv_def)
  show "ds_last_committed_round (fold (dag_update E depth) ?xs s) \<le> max (ds_last_committed_round s) (dge_round E tip)"
    using assms(1) xs(3) by (intro updates_round) (fastforce simp: dag_inv_def le_max_iff_disj)+
qed

text \<open>Receiving a certificate for the first time.\<close>

lemma insert_entries: "(r, n, d, c) \<in> dag_entries (ds_dag (dag_insert E x s)) \<Longrightarrow>
    (r, n, d, c) \<in> insert (dge_round E x, dge_origin E x, dge_digest E x, x) (dag_entries (ds_dag s))"
  unfolding dag_entries_def dag_insert_def
  by (auto simp: Let_def dest!: subsetD [OF set_hm_insert_subset] map_of_SomeD split: option.splits)

lemma insert_inv:
  assumes "dag_inv E R out s" and "x \<notin> R" and "inj_on (dge_digest E) (insert x R)" and "dge_round E x \<noteq> - 1"
  shows "dag_inv E (insert x R) out (dag_insert E x s)"
proof -
  let ?t = "dag_insert E x s"
  have old: "dag_ok E (ds_dag s)" "\<forall>(r, n, d, c) \<in> dag_entries (ds_dag s). c \<in> R" using assms(1) by (simp_all add: dag_inv_def)
  have "- 1 \<notin> fst ` set (ds_dag ?t)" using old(1) assms(4) by (auto simp: dag_ok_def dag_insert_def Let_def)
  moreover have "distinct (map fst (ds_dag ?t))" using old(1) by (simp add: dag_ok_def dag_insert_def Let_def distinct_hm_insert)
  moreover have e: "dge_round E c = r \<and> dge_origin E c = n \<and> dge_digest E c = d \<and> c \<in> insert x R"
    if "(r, n, d, c) \<in> dag_entries (ds_dag ?t)" for r n d c
    using insert_entries [OF that] old by (auto simp: dag_ok_def)
  moreover have "c = c'" if "(r, n, d, c) \<in> dag_entries (ds_dag ?t)" "(r', n', d, c') \<in> dag_entries (ds_dag ?t)" for r n d c r' n' c'
    using e [OF that(1)] e [OF that(2)] inj_onD [OF assms(3)] by metis
  ultimately have ok: "dag_ok E (ds_dag ?t)" by (intro dag_okI) simp_all
  have keep: "ds_last_committed ?t = ds_last_committed s" "ds_last_committed_round ?t = ds_last_committed_round s"
    by (simp_all add: dag_insert_def Let_def)
  have out: "set out \<subseteq> R" using assms(1) by (simp add: dag_inv_def)
  have "map_of (ds_last_committed s) n = Some r" if "(r, n, d, c) \<in> dag_entries (ds_dag ?t)" "c \<in> set out" for r n d c
    using insert_entries [OF that(1)] that(2) out assms(2) dag_invD(3) [OF assms(1)] by auto
  then show ?thesis
    using ok e out assms(1) dag_invD(4, 5) [OF assms(1)] by (intro dag_invI) (auto simp: keep dag_inv_def)
qed

lemma new_inv:
  assumes "\<forall>c \<in> set genesis. dge_round E c = 0" and "inj_on (dge_digest E) (set genesis)"
  shows "dag_inv E (set genesis) [] (dag_new E genesis)"
proof -
  have row: "set (fold (\<lambda>c. hm_insert (dge_origin E c) (dge_digest E c, c)) cs m) \<subseteq>
      set m \<union> (\<lambda>c. (dge_origin E c, dge_digest E c, c)) ` set cs" for cs m
  proof (induction cs arbitrary: m)
    case (Cons c cs)
    show ?case using Cons.IH [of "hm_insert (dge_origin E c) (dge_digest E c, c) m"]
      set_hm_insert_subset [of "dge_origin E c" "(dge_digest E c, c)" m] by auto
  qed simp
  have dist: "distinct (map fst m) \<Longrightarrow> distinct (map fst (fold (\<lambda>c. hm_insert (dge_origin E c) (dge_digest E c, c)) cs m))" for cs m
    by (induction cs arbitrary: m) (simp_all add: distinct_hm_insert)
  have r: "set (dag_row_of E genesis) \<subseteq> (\<lambda>c. (dge_origin E c, dge_digest E c, c)) ` set genesis"
    using row [of genesis "[]"] by (simp add: dag_row_of_def)
  have "dag_entries (ds_dag (dag_new E genesis)) \<subseteq> (\<lambda>c. (0, dge_origin E c, dge_digest E c, c)) ` set genesis"
    using r by (auto simp: dag_entries_def dag_new_def Let_def)
  then have e: "r = 0 \<and> n = dge_origin E c \<and> d = dge_digest E c \<and> c \<in> set genesis"
    if "(r, n, d, c) \<in> dag_entries (ds_dag (dag_new E genesis))" for r n d c using that by auto
  have "dag_ok E (ds_dag (dag_new E genesis))"
    using assms e by (intro dag_okI) (auto simp: dag_new_def Let_def, metis inj_onD)
  moreover have "distinct (map fst (ds_last_committed (dag_new E genesis)))"
    using dist [of "[]" genesis] by (simp add: dag_new_def dag_row_of_def Let_def o_def case_prod_unfold)
  moreover have "m \<le> 0" if "(n, m) \<in> set (ds_last_committed (dag_new E genesis))" for n m
    using r assms(1) that by (force simp: dag_new_def Let_def)
  moreover have "ds_last_committed_round (dag_new E genesis) = 0" by (simp add: dag_new_def Let_def)
  ultimately show ?thesis using e by (intro dag_invI) auto
qed

end
