(* ===== verification/Tusk.thy ===== *)
theory Tusk
  imports Dag_Commit
begin

text \<open>
  The Tusk crate (\<open>consensus/src/lib.rs\<close>): the election of leaders, the order of the leaders that
  were not committed, and one turn of the task for each certificate received.

  The order in which certificates are output is not the same on all nodes: \<open>order_leaders\<close> walks
  back in steps of two from the round just below the leader, so it never finds the leaders of
  even rounds, which are the ones a turn elects.
\<close>

section \<open>Leaders\<close>

definition tusk_leader :: "committee \<Rightarrow> u64 \<Rightarrow> 'c dag \<Rightarrow> (unit, (digest \<times> 'c) option) outcome" where
  "tusk_leader c coin dag = (case rr_leader c coin of None \<Rightarrow> Panic
     | Some leader \<Rightarrow> Done (case map_of dag coin of None \<Rightarrow> None | Some row \<Rightarrow> map_of row leader))"

text \<open>The rounds from \<open>b - 1\<close> down to \<open>a\<close>, and every second element of a list.\<close>

definition rounds_down :: "u64 \<Rightarrow> u64 \<Rightarrow> u64 list" where
  "rounds_down a b = map of_nat (rev [unat a..<unat b])"

fun every_second :: "'a list \<Rightarrow> 'a list" where
  "every_second [] = []"
| "every_second [x] = [x]"
| "every_second (x # y # xs) = x # every_second xs"

primrec linked_loop :: "('c, 'e) dag_env_scheme \<Rightarrow> 'c dag \<Rightarrow> u64 list \<Rightarrow> 'c list \<Rightarrow> (unit, 'c list) outcome" where
  "linked_loop E dag [] parents = Done parents"
| "linked_loop E dag (r # rs) parents = (case map_of dag r of None \<Rightarrow> Panic
     | Some row \<Rightarrow> linked_loop E dag rs
         (map (snd \<circ> snd) (filter (\<lambda>(_, d, _). list_ex (\<lambda>x. d \<in> set (dge_parents E x)) parents) row)))"

definition linked :: "('c, 'e) dag_env_scheme \<Rightarrow> 'c dag \<Rightarrow> 'c \<Rightarrow> 'c \<Rightarrow> (unit, bool) outcome" where
  "linked E dag leader prev_leader =
     bind_r (linked_loop E dag (rounds_down (dge_round E prev_leader) (dge_round E leader)) [leader])
       (\<lambda>parents. Done (list_ex (dge_same E prev_leader) parents))"

primrec leaders_loop :: "('c, 'e) dag_env_scheme \<Rightarrow> committee \<Rightarrow> 'c dag \<Rightarrow> u64 list \<Rightarrow> 'c \<Rightarrow> 'c list \<Rightarrow> (unit, 'c list) outcome" where
  "leaders_loop E c dag [] leader to_commit = Done to_commit"
| "leaders_loop E c dag (r # rs) leader to_commit = bind_r (tusk_leader c r dag) (\<lambda>p. case p of
     None \<Rightarrow> leaders_loop E c dag rs leader to_commit
   | Some (_, prev_leader) \<Rightarrow> bind_r (linked E dag leader prev_leader) (\<lambda>b.
       if b then leaders_loop E c dag rs prev_leader (to_commit @ [prev_leader])
       else leaders_loop E c dag rs leader to_commit))"

definition order_leaders :: "('c, 'e) dag_env_scheme \<Rightarrow> committee \<Rightarrow> 'c \<Rightarrow> 'c dag_state \<Rightarrow> (unit, 'c list) outcome" where
  "order_leaders E c leader s = leaders_loop E c (ds_dag s)
     (every_second (rounds_down (ds_last_committed_round s + 2) (dge_round E leader))) leader [leader]"

section \<open>Turns\<close>

primrec commit_leaders :: "('c, 'e) dag_env_scheme \<Rightarrow> u64 \<Rightarrow> 'c list \<Rightarrow> 'c dag_state \<Rightarrow> 'c dag_state \<times> 'c list" where
  "commit_leaders E depth [] s = (s, [])"
| "commit_leaders E depth (l # ls) s =
     (let xs = order_dag E depth l s; (t, ys) = commit_leaders E depth ls (fold (dag_update E depth) xs s) in (t, xs @ ys))"

definition support :: "('c, 'e) dag_env_scheme \<Rightarrow> committee \<Rightarrow> digest \<Rightarrow> 'c dag_row \<Rightarrow> stake" where
  "support E c leader_digest row = sum_list (map (\<lambda>(_, _, x). stake_of c (dge_origin E x))
     (filter (\<lambda>(_, _, x). leader_digest \<in> set (dge_parents E x)) row))"

definition tusk_elect :: "('c, 'e) dag_env_scheme \<Rightarrow> committee \<Rightarrow> u64 \<Rightarrow> u64 \<Rightarrow> 'c dag_state \<Rightarrow> 'c dag_state \<times> (unit, 'c list) outcome" where
  "tusk_elect E c depth r s =
     (if r mod 2 \<noteq> 0 \<or> r < 4 \<or> r - 2 \<le> ds_last_committed_round s then (s, Done [])
      else case tusk_leader c (r - 2) (ds_dag s) of
        Done (Some (leader_digest, leader)) \<Rightarrow>
          (case map_of (ds_dag s) (r - 1) of None \<Rightarrow> (s, Panic)
           | Some row \<Rightarrow>
               if support E c leader_digest row < validity_threshold c then (s, Done [])
               else (case order_leaders E c leader s of
                   Done leaders \<Rightarrow> (let (t, sequence) = commit_leaders E depth (rev leaders) s in (t, Done sequence))
                 | Fail e \<Rightarrow> (s, Fail e) | Panic \<Rightarrow> (s, Panic) | Diverge \<Rightarrow> (s, Diverge)))
      | Done None \<Rightarrow> (s, Done [])
      | Fail e \<Rightarrow> (s, Fail e) | Panic \<Rightarrow> (s, Panic) | Diverge \<Rightarrow> (s, Diverge))"

definition tusk_turn :: "('c, 'e) dag_env_scheme \<Rightarrow> committee \<Rightarrow> u64 \<Rightarrow> 'c \<Rightarrow> ('c dag_state, unit, 'c list) handler" where
  "tusk_turn E c depth x s = tusk_elect E c depth (dge_round E x - 1) (dag_insert E x s)"

text \<open>The task, with the certificates it has output; it stops when it panics.\<close>

record 'c tusk =
  tk_state :: "'c dag_state"
  tk_output :: "'c list"
  tk_alive :: bool

definition tusk_new :: "('c, 'e) dag_env_scheme \<Rightarrow> 'c list \<Rightarrow> 'c tusk" where
  "tusk_new E genesis = \<lparr>tk_state = dag_new E genesis, tk_output = [], tk_alive = True\<rparr>"

definition tusk_receive :: "('c, 'e) dag_env_scheme \<Rightarrow> committee \<Rightarrow> u64 \<Rightarrow> 'c \<Rightarrow> 'c tusk \<Rightarrow> 'c tusk" where
  "tusk_receive E c depth x k = (if \<not> tk_alive k then k else
     case tusk_turn E c depth x (tk_state k) of
       (s, Done xs) \<Rightarrow> k\<lparr>tk_state := s, tk_output := tk_output k @ xs\<rparr>
     | (s, _) \<Rightarrow> k\<lparr>tk_state := s, tk_alive := False\<rparr>)"

definition tusk_run :: "('c, 'e) dag_env_scheme \<Rightarrow> committee \<Rightarrow> u64 \<Rightarrow> 'c list \<Rightarrow> 'c tusk \<Rightarrow> 'c tusk" where
  "tusk_run E c depth xs k = fold (tusk_receive E c depth) xs k"

section \<open>Nothing is output twice\<close>

text \<open>The leaders to commit stand in the graph, in falling rounds above the last committed one.\<close>

lemma tusk_leader_entry:
  assumes "tusk_leader c r dag = Done (Some (d, x))"
  shows "\<exists>n. (r, n, d, x) \<in> dag_entries dag"
  using assms by (fastforce simp: tusk_leader_def dag_entries_def split: option.splits dest: map_of_SomeD)

lemma leaders_loop_falling:
  assumes "leaders_loop E c dag rs leader acc = Done leaders" and "dag_ok E dag"
    and "acc = init @ [leader]" and "sorted_wrt (>) (map (dge_round E) acc)"
    and "sorted_wrt (>) rs" and "\<forall>r \<in> set rs. b < r \<and> r < dge_round E leader"
  shows "\<exists>ls. leaders = acc @ ls \<and> sorted_wrt (>) (map (dge_round E) leaders) \<and>
    (\<forall>x \<in> set ls. b < dge_round E x \<and> dge_round E x \<in> set rs \<and> (\<exists>n d. (dge_round E x, n, d, x) \<in> dag_entries dag))"
  using assms
proof (induction rs arbitrary: leader acc init)
  case (Cons r rs)
  obtain p where p: "tusk_leader c r dag = (Done p :: (unit, _) outcome)"
    using Cons.prems(1) by (cases "tusk_leader c r dag :: (unit, _) outcome") (auto simp: bind_r_def)
  have skip: "leaders_loop E c dag rs leader acc = Done leaders \<Longrightarrow> ?case"
    using Cons.IH [of leader acc init] Cons.prems(2-6) by auto
  show ?case
  proof (cases p)
    case None
    then show ?thesis using skip Cons.prems(1) p by (simp add: bind_r_def)
  next
    case (Some q)
    obtain d prev where q: "q = (d, prev)" by fastforce
    obtain b' where b': "linked E dag leader prev = (Done b' :: (unit, _) outcome)"
      using Cons.prems(1) p Some q by (cases "linked E dag leader prev :: (unit, _) outcome") (auto simp: bind_r_def)
    show ?thesis
    proof (cases b')
      case True
      obtain n where n: "(r, n, d, prev) \<in> dag_entries dag" using tusk_leader_entry p Some q by metis
      then have r: "dge_round E prev = r" using Cons.prems(2) by (auto simp: dag_ok_def)
      have low: "dge_round E prev < dge_round E x" if "x \<in> set acc" for x
        using that Cons.prems(3, 4, 6) r by (auto simp: sorted_wrt_append)
      have l: "leaders_loop E c dag rs prev (acc @ [prev]) = Done leaders" using Cons.prems(1) p Some q b' True by (simp add: bind_r_def)
      have "\<exists>ls. leaders = (acc @ [prev]) @ ls \<and> sorted_wrt (>) (map (dge_round E) leaders) \<and>
          (\<forall>x \<in> set ls. b < dge_round E x \<and> dge_round E x \<in> set rs \<and> (\<exists>n d. (dge_round E x, n, d, x) \<in> dag_entries dag))"
        using Cons.IH [OF l Cons.prems(2) refl] Cons.prems(4-6) low r by (auto simp: sorted_wrt_append)
      then obtain ls where ls: "leaders = (acc @ [prev]) @ ls" "sorted_wrt (>) (map (dge_round E) leaders)"
          "\<forall>x \<in> set ls. b < dge_round E x \<and> dge_round E x \<in> set rs \<and> (\<exists>n d. (dge_round E x, n, d, x) \<in> dag_entries dag)" by blast
      show ?thesis
        by (rule exI [of _ "prev # ls"]) (use ls r n Cons.prems(6) in auto)
    qed (use skip Cons.prems(1) p Some q b' in \<open>simp add: bind_r_def\<close>)
  qed
qed auto

lemma every_second_down: "k \<in> set (every_second (rev [m..<n])) \<Longrightarrow> m \<le> k \<and> k < n \<and> odd (n - k)"
proof (induction n rule: less_induct)
  case (less n)
  show ?case
  proof (cases "Suc m < n")
    case True
    define j where "j = n - 2"
    then have j: "n = Suc (Suc j)" "m \<le> j" using True by auto
    then have "rev [m..<n] = Suc j # j # rev [m..<j]" by simp
    then have "k = Suc j \<or> k \<in> set (every_second (rev [m..<j]))" using less.prems by (simp only: every_second.simps) auto
    then show ?thesis
    proof
      assume "k \<in> set (every_second (rev [m..<j]))"
      from less.IH [OF _ this] j show ?thesis by (simp add: Suc_diff_le)
    qed (use j in simp)
  next
    case False
    then have "rev [m..<n] = [] \<or> rev [m..<n] = [m] \<and> n = Suc m" by (cases "m < n") (auto simp: not_less le_Suc_eq)
    then show ?thesis using less.prems by auto
  qed
qed

lemma sorted_every_second: "sorted_wrt P xs \<Longrightarrow> sorted_wrt P (every_second xs) \<and> set (every_second xs) \<subseteq> set xs"
  by (induction xs rule: every_second.induct) auto

lemma every_second_map: "every_second (map f xs) = map f (every_second xs)"
  by (induction xs rule: every_second.induct) auto

lemma unat_of_below: "k < unat (b :: u64) \<Longrightarrow> unat (of_nat k :: u64) = k"
  using unsigned_less [of b, where 'a = nat] by (simp add: unat_of_nat take_bit_nat_eq_self)

lemma walked_rounds:
  assumes "r \<in> set (every_second (rounds_down a b))"
  shows "a \<le> r" and "r < b" and "odd (unat b - unat r)"
proof -
  obtain k where k: "r = of_nat k" "k \<in> set (every_second (rev [unat a..<unat b]))"
    using assms by (auto simp: rounds_down_def every_second_map)
  note w = every_second_down [OF k(2)]
  then have "unat r = k" using unat_of_below [of k b] k(1) by simp
  then show "a \<le> r" "r < b" "odd (unat b - unat r)" using w by (auto simp: word_le_nat_alt word_less_nat_alt)
qed

lemma walked_falling: "sorted_wrt (>) (every_second (rounds_down a b))"
proof -
  have "sorted_wrt (>) (map of_nat (rev [unat a..<unat b]) :: u64 list)"
    unfolding sorted_wrt_map
  proof (rule sorted_wrt_mono_rel [of _ "(>)"])
    show "sorted_wrt (>) (rev [unat a..<unat b])" by (simp add: sorted_wrt_rev)
    show "(of_nat y :: u64) < of_nat x" if "x \<in> set (rev [unat a..<unat b])" "y \<in> set (rev [unat a..<unat b])" "y < x" for x y
      using that unat_of_below [of x b] unat_of_below [of y b] by (simp add: word_less_nat_alt)
  qed
  then show ?thesis using sorted_every_second by (auto simp: rounds_down_def)
qed

lemma order_leaders_falling:
  assumes "order_leaders E c leader s = Done leaders" and "dag_ok E (ds_dag s)"
    and "ds_last_committed_round s < dge_round E leader" and "dge_round E leader \<noteq> - 1"
  shows "\<exists>ls. leaders = leader # ls \<and> sorted_wrt (>) (map (dge_round E) leaders) \<and>
    (\<forall>x \<in> set ls. ds_last_committed_round s < dge_round E x \<and> odd (unat (dge_round E leader) - unat (dge_round E x)) \<and>
       (\<exists>n d. (dge_round E x, n, d, x) \<in> dag_entries (ds_dag s)))"
proof -
  let ?b = "ds_last_committed_round s"
  have "unat ?b < unat (dge_round E leader)" using assms(3) by (simp add: word_less_nat_alt)
  moreover have "unat (dge_round E leader) \<noteq> 2 ^ 64 - 1" using assms(4) unat_max_word [where 'a = 64] unsigned_word_eqI [of "dge_round E leader" "- 1", where 'a = nat] by auto
  moreover have "unat (dge_round E leader) < 2 ^ 64" using unsigned_less [of "dge_round E leader", where 'a = nat] by simp
  ultimately have "unat (?b + 2) = unat ?b + 2" using unat_add_no_wrap [of ?b 2] by simp
  then have b: "?b < r" if "?b + 2 \<le> r" for r using that by (simp add: word_less_nat_alt word_le_nat_alt)
  let ?rs = "every_second (rounds_down (?b + 2) (dge_round E leader))"
  have "\<exists>ls. leaders = [leader] @ ls \<and> sorted_wrt (>) (map (dge_round E) leaders) \<and>
    (\<forall>x \<in> set ls. ?b < dge_round E x \<and> dge_round E x \<in> set ?rs \<and> (\<exists>n d. (dge_round E x, n, d, x) \<in> dag_entries (ds_dag s)))"
    by (rule leaders_loop_falling [OF assms(1) [unfolded order_leaders_def] assms(2), of "[]"])
      (use walked_rounds b walked_falling in auto)
  then show ?thesis using walked_rounds(3) by fastforce
qed

text \<open>
  when a leader is committed, the earlier leaders that are committed with it are of odd
  rounds. The leaders that turns elect are of even rounds, so one that lacked support when its
  turn came is never ordered before the next leader, but with it.
\<close>

theorem tusk_skips_even_leaders:
  assumes "order_leaders E c leader s = Done leaders" and "dag_ok E (ds_dag s)"
    and "ds_last_committed_round s < dge_round E leader" and "dge_round E leader \<noteq> - 1"
    and "even (unat (dge_round E leader))"
  shows "\<forall>x \<in> set leaders. x = leader \<or> odd (unat (dge_round E x))"
  using order_leaders_falling [OF assms(1-4)] assms(5) by auto

lemma commit_leaders_inv:
  assumes "dag_inv E R out s" and "sorted_wrt (<) (map (dge_round E) ls)"
    and "\<forall>l \<in> set ls. ds_last_committed_round s < dge_round E l \<and> l \<in> R" and "commit_leaders E depth ls s = (t, ys)"
  shows "dag_inv E R (out @ ys) t"
  using assms
proof (induction ls arbitrary: out s t ys)
  case (Cons l ls)
  let ?xs = "order_dag E depth l s" and ?u = "fold (dag_update E depth) (order_dag E depth l s) s"
  have "l \<notin> set out" using dag_inv_round [OF Cons.prems(1)] Cons.prems(3) by fastforce
  moreover have "l \<in> R" using Cons.prems(3) by simp
  ultimately have u: "dag_inv E R (out @ ?xs) ?u" "ds_last_committed_round ?u \<le> max (ds_last_committed_round s) (dge_round E l)"
    using order_dag_inv [OF Cons.prems(1)] by blast+
  obtain ys' where ys: "commit_leaders E depth ls ?u = (t, ys')" "ys = ?xs @ ys'"
    using Cons.prems(4) by (auto simp: Let_def split: prod.splits)
  have "\<forall>x \<in> set ls. ds_last_committed_round ?u < dge_round E x \<and> x \<in> R"
    using Cons.prems(2, 3) u(2) by (auto simp: le_max_iff_disj dest: order_le_less_trans)
  then show ?case using Cons.IH [OF u(1) _ _ ys(1)] Cons.prems(2) ys(2) by simp
qed simp

lemma tusk_elect_inv:
  assumes "dag_inv E R out s" and "tusk_elect E c depth r s = (t, Done ys)"
  shows "dag_inv E R (out @ ys) t"
proof (cases "t = s \<and> ys = []")
  case False
  note ok = dag_invD(1) [OF assms(1)]
  obtain d leader leaders where l: "tusk_leader c (r - 2) (ds_dag s) = Done (Some (d, leader))" "order_leaders E c leader s = Done leaders"
     "commit_leaders E depth (rev leaders) s = (t, ys)" "ds_last_committed_round s < r - 2"
    using assms(2) False unfolding tusk_elect_def
    by (auto simp: not_le split: if_splits outcome.splits option.splits prod.splits)
  obtain n where n: "(r - 2, n, d, leader) \<in> dag_entries (ds_dag s)" using tusk_leader_entry [OF l(1)] by blast
  then have "r - 2 \<in> fst ` set (ds_dag s)" by (force simp: dag_entries_def)
  then have "r - 2 \<noteq> - 1" using ok unfolding dag_ok_def by metis
  moreover have "dge_round E leader = r - 2" using ok n unfolding dag_ok_def by blast
  ultimately have e: "dge_round E leader = r - 2" "r - 2 \<noteq> - 1" "leader \<in> R"
    using dag_invD(2) [OF assms(1) n] by blast+
  have f: "\<exists>ls. leaders = leader # ls \<and> sorted_wrt (>) (map (dge_round E) leaders) \<and>
    (\<forall>x \<in> set ls. ds_last_committed_round s < dge_round E x \<and> odd (unat (dge_round E leader) - unat (dge_round E x)) \<and>
       (\<exists>n d. (dge_round E x, n, d, x) \<in> dag_entries (ds_dag s)))"
    by (rule order_leaders_falling [OF l(2) ok]) (use l(4) e in auto)
  then have "sorted_wrt (>) (map (dge_round E) leaders)" by blast
  then have "sorted_wrt (<) (map (dge_round E) (rev leaders))" by (simp add: sorted_wrt_rev rev_map [symmetric])
  moreover have "ds_last_committed_round s < dge_round E x \<and> x \<in> R" if "x \<in> set leaders" for x
  proof (cases "x = leader")
    case False
    then have "ds_last_committed_round s < dge_round E x" "\<exists>n d. (dge_round E x, n, d, x) \<in> dag_entries (ds_dag s)"
      using f that by auto
    then show ?thesis using dag_invD(2) [OF assms(1)] by blast
  qed (use l(4) e in simp)
  then have "\<forall>x \<in> set (rev leaders). ds_last_committed_round s < dge_round E x \<and> x \<in> R" by simp
  ultimately show ?thesis by (rule commit_leaders_inv [OF assms(1) _ _ l(3)])
qed (use assms(1) in simp)

text \<open>
  C20: as long as no certificate is received twice, no certificate is output twice, in whatever
  order certificates arrive.
\<close>

theorem tusk_outputs_once:
  assumes "\<forall>x \<in> set genesis. dge_round E x = 0" and "inj_on (dge_digest E) (set genesis \<union> set xs)"
    and "distinct xs" and "set xs \<inter> set genesis = {}" and "\<forall>x \<in> set xs. dge_round E x \<noteq> - 1"
  shows "distinct (tk_output (tusk_run E c depth xs (tusk_new E genesis)))"
proof -
  have "distinct (tk_output (tusk_run E c depth ys k))"
    if "distinct (tk_output k)" "tk_alive k \<longrightarrow> dag_inv E R (tk_output k) (tk_state k)" "distinct ys" "set ys \<inter> R = {}"
      "inj_on (dge_digest E) (R \<union> set ys)" "\<forall>x \<in> set ys. dge_round E x \<noteq> - 1" for ys k R
    using that
  proof (induction ys arbitrary: k R)
    case (Cons y ys)
    let ?k = "tusk_receive E c depth y k"
    have "distinct (tk_output ?k) \<and> (tk_alive ?k \<longrightarrow> dag_inv E (insert y R) (tk_output ?k) (tk_state ?k))"
    proof (cases "tk_alive k")
      case True
      then have "dag_inv E (insert y R) (tk_output k) (dag_insert E y (tk_state k))"
        using Cons.prems by (intro insert_inv) (auto elim: inj_on_subset)
      note t = tusk_elect_inv [OF this, of c depth "dge_round E y - 1"]
      obtain t r where e: "tusk_elect E c depth (dge_round E y - 1) (dag_insert E y (tk_state k)) = (t, r)" by fastforce
      show ?thesis
      proof (cases r)
        case (Done zs)
        then have "dag_inv E (insert y R) (tk_output k @ zs) t" using t e by simp
        moreover from this have "distinct (tk_output k @ zs)" by (simp add: dag_inv_def)
        ultimately show ?thesis using e Done True by (simp add: tusk_receive_def tusk_turn_def)
      qed (use e True Cons.prems(1) in \<open>simp_all add: tusk_receive_def tusk_turn_def\<close>)
    qed (use Cons.prems in \<open>simp add: tusk_receive_def\<close>)
    moreover have "tusk_run E c depth (y # ys) k = tusk_run E c depth ys ?k" by (simp add: tusk_run_def)
    moreover have "insert y R \<union> set ys = R \<union> set (y # ys)" by simp
    ultimately show ?case using Cons.IH [of ?k "insert y R"] Cons.prems by auto
  qed (auto simp: tusk_run_def)
  from this [of "tusk_new E genesis" "set genesis" xs] show ?thesis
    using assms new_inv [OF assms(1) inj_on_subset [OF assms(2)]] by (auto simp: tusk_new_def)
qed

section \<open>Two nodes that disagree\<close>

text \<open>Certificates of four authorities: author, round and the digests of the parents.\<close>

type_synonym sample_cert = "256 word \<times> u64 \<times> 256 word list"

definition tusk_env :: "sample_cert dag_env" where
  "tusk_env = \<lparr>dge_origin = (\<lambda>(k, _, _). PublicKey k), dge_round = (\<lambda>(_, r, _). r),
     dge_digest = (\<lambda>(k, r, _). Digest (10 * ucast r + k)), dge_parents = (\<lambda>(_, _, ps). map Digest ps), dge_same = (=)\<rparr>"

definition sample_row :: "u64 \<Rightarrow> 256 word list \<Rightarrow> 256 word list \<Rightarrow> sample_cert list" where
  "sample_row r parents = map (\<lambda>k. (k, r, parents))"

definition sample_genesis_row :: "sample_cert list" where
  "sample_genesis_row = sample_row 0 [] [1, 2, 3, 4]"

text \<open>
  The leader of round 2 is authority 3. Two certificates of round 3 have its certificate among
  their parents; the second is \<open>late_row\<close>, which no certificate of a later round refers to.
\<close>

definition early_rows :: "sample_cert list" where
  "early_rows = sample_row 1 [1, 2, 3, 4] [1, 2, 3, 4] @ sample_row 2 [11, 12, 14] [1, 2, 4] @ sample_row 2 [11, 12, 13] [3] @
     sample_row 3 [21, 22, 24] [1, 2] @ sample_row 3 [21, 22, 23] [3]"

definition late_row :: "sample_cert list" where
  "late_row = sample_row 3 [22, 23, 24] [4]"

definition rest_rows :: "sample_cert list" where
  "rest_rows = sample_row 4 [31, 32, 33] [1, 2, 3] @ sample_row 5 [41, 42, 43] [1, 2, 3] @
     sample_row 6 [51, 52, 53] [1, 2, 3] @ sample_row 7 [61, 62, 63] [1]"

text \<open>A node receives a certificate only after all its parents.\<close>

fun causal :: "('c, 'e) dag_env_scheme \<Rightarrow> digest list \<Rightarrow> 'c list \<Rightarrow> bool" where
  "causal E known [] \<longleftrightarrow> True"
| "causal E known (x # xs) \<longleftrightarrow> list_all (\<lambda>d. List.member known d) (dge_parents E x) \<and> causal E (dge_digest E x # known) xs"

definition sample_outputs :: "sample_cert list \<Rightarrow> (256 word \<times> u64) list" where
  "sample_outputs xs = map (\<lambda>(k, r, _). (k, r)) (take 5 (tk_output (tusk_run tusk_env sample_committee 50 xs (tusk_new tusk_env sample_genesis_row))))"


section \<open>Witnesses\<close>

lemma tusk_env_fields: "dge_origin tusk_env (k, r, ps) = PublicKey k" "dge_round tusk_env (k, r, ps) = r"
  "dge_digest tusk_env (k, r, ps) = Digest (10 * ucast r + k)" "dge_parents tusk_env (k, r, ps) = map Digest ps" "dge_same tusk_env = (=)"
  by (simp_all add: tusk_env_def)

lemma sample_genesis_inv: "dag_inv tusk_env (set sample_genesis_row) [] (dag_new tusk_env sample_genesis_row)"
  by (rule new_inv) (auto simp: sample_genesis_row_def sample_row_def tusk_env_fields inj_on_def)

theorem order_dag_spec_witness: "distinct (order_dag tusk_env 50 (1, 1, [1, 2, 3, 4]) (dag_new tusk_env sample_genesis_row))"
  using order_dag_spec [OF dag_invD(1) [OF sample_genesis_inv]] by blast

theorem tusk_outputs_once_witness:
  "distinct (tk_output (tusk_run tusk_env sample_committee 50 (sample_row 1 [1, 2, 3, 4] [1, 2]) (tusk_new tusk_env sample_genesis_row)))"
  by (rule tusk_outputs_once) (auto simp: sample_genesis_row_def sample_row_def tusk_env_fields inj_on_def)

theorem tusk_skips_even_leaders_witness:
  "order_leaders tusk_env sample_committee (1, 4, [34]) (dag_insert tusk_env (4, 3, []) (dag_new tusk_env sample_genesis_row))
     = Done [(1, 4, [34]), (4, 3, [])] \<and> odd (unat (dge_round tusk_env (4, 3, [])))"
proof -
  let ?s = "dag_insert tusk_env (4, 3, []) (dag_new tusk_env sample_genesis_row)"
  have e: "order_leaders tusk_env sample_committee (1, 4, [34]) ?s = Done [(1, 4, [34]), (4, 3, [])]" by code_simp
  have "dag_inv tusk_env (insert (4, 3, []) (set sample_genesis_row)) [] ?s"
    by (rule insert_inv [OF sample_genesis_inv]) (auto simp: sample_genesis_row_def sample_row_def tusk_env_fields inj_on_def)
  then have "\<forall>x \<in> set [(1, 4, [34]), (4, 3, [])]. x = (1, 4, [34]) \<or> odd (unat (dge_round tusk_env x))"
    by (intro tusk_skips_even_leaders [OF e] dag_invD(1)) (auto simp: tusk_env_fields dag_insert_def dag_new_def Let_def word_less_nat_alt)
  then show ?thesis using e by simp
qed

end
