(* ===== verification/HotStuff_Committer.thy ===== *)
theory HotStuff_Committer
  imports Tusk
begin

text \<open>
  The committer of the HotStuff crate (\<open>hotstuff/src/committer.rs\<close>): the certificates of the
  mempool fill the graph, the certificates that consensus commits are delivered once their parents
  are stored, and each flattens what it refers to. The graph is that of the Tusk crate.

  \<open>db\<close> is the set of the digests in the store when the waiter looks.
\<close>

record 'c hs_committer =
  hcm_state :: "'c dag_state"
  hcm_output :: "'c list"

definition hs_committer_new :: "('c, 'e) dag_env_scheme \<Rightarrow> 'c list \<Rightarrow> 'c hs_committer" where
  "hs_committer_new E genesis = \<lparr>hcm_state = dag_new E genesis, hcm_output = []\<rparr>"

datatype 'c hs_committer_event =
    HcMempool 'c
  | HcDeliver 'c

fun hs_committer_turn :: "('c, 'e) dag_env_scheme \<Rightarrow> u64 \<Rightarrow> 'c hs_committer_event \<Rightarrow> 'c hs_committer \<Rightarrow> 'c hs_committer" where
  "hs_committer_turn E depth (HcMempool c) k = k\<lparr>hcm_state := dag_insert E c (hcm_state k)\<rparr>"
| "hs_committer_turn E depth (HcDeliver c) k =
     (if (case map_of (ds_last_committed (hcm_state k)) (dge_origin E c) of None \<Rightarrow> False | Some r \<Rightarrow> r \<ge> dge_round E c) then k
      else let xs = order_dag E depth c (hcm_state k)
        in k\<lparr>hcm_state := fold (dag_update E depth) xs (hcm_state k), hcm_output := hcm_output k @ xs\<rparr>)"

definition hs_committer_run :: "('c, 'e) dag_env_scheme \<Rightarrow> u64 \<Rightarrow> 'c hs_committer_event list \<Rightarrow> 'c hs_committer \<Rightarrow> 'c hs_committer" where
  "hs_committer_run E depth es k = fold (hs_committer_turn E depth) es k"

section \<open>Certificate waiter\<close>

record 'c hs_waiter =
  hcw_waiting :: "'c list"
  hcw_output :: "'c list"

datatype 'c hs_waiter_event =
    HwCertificate 'c
  | HwNext "digest set"

fun hs_waiter_turn :: "('c, 'e) dag_env_scheme \<Rightarrow> 'c hs_waiter_event \<Rightarrow> 'c hs_waiter \<Rightarrow> 'c hs_waiter" where
  "hs_waiter_turn E (HwCertificate c) w =
     (if dge_round E c = 1 then w\<lparr>hcw_output := hcw_output w @ [c]\<rparr> else w\<lparr>hcw_waiting := hcw_waiting w @ [c]\<rparr>)"
| "hs_waiter_turn E (HwNext db) w = (case hcw_waiting w of
     [] \<Rightarrow> w
   | c # cs \<Rightarrow> if list_all (\<lambda>d. d \<in> db) (dge_parents E c)
       then w\<lparr>hcw_waiting := cs, hcw_output := hcw_output w @ [c]\<rparr> else w)"

definition hs_waiter_run :: "('c, 'e) dag_env_scheme \<Rightarrow> 'c hs_waiter_event list \<Rightarrow> 'c hs_waiter" where
  "hs_waiter_run E es = fold (hs_waiter_turn E) es \<lparr>hcw_waiting = [], hcw_output = []\<rparr>"

fun hw_input :: "'c hs_waiter_event \<Rightarrow> 'c list" where
  "hw_input (HwCertificate c) = [c]"
| "hw_input (HwNext db) = []"

lemma waiter_turn_order: "filter (\<lambda>c. dge_round E c \<noteq> 1) (hcw_output (hs_waiter_turn E e w)) @ hcw_waiting (hs_waiter_turn E e w) =
    filter (\<lambda>c. dge_round E c \<noteq> 1) (hcw_output w) @ hcw_waiting w @ filter (\<lambda>c. dge_round E c \<noteq> 1) (hw_input e)"
  if "\<forall>c \<in> set (hcw_waiting w). dge_round E c \<noteq> 1"
  using that by (cases e) (auto split: list.splits)

lemma waiter_turn_waits: "\<forall>c \<in> set (hcw_waiting w). dge_round E c \<noteq> 1 \<Longrightarrow> \<forall>c \<in> set (hcw_waiting (hs_waiter_turn E e w)). dge_round E c \<noteq> 1"
  by (cases e) (auto split: list.splits)

text \<open>
  apart from the certificates of round 1, the waiter hands certificates out in the order in
  which they came, without loss, and holds back those after the first whose parents are missing.
\<close>

theorem hs_waiter_fifo:
  "filter (\<lambda>c. dge_round E c \<noteq> 1) (hcw_output (hs_waiter_run E es)) @ hcw_waiting (hs_waiter_run E es)
     = filter (\<lambda>c. dge_round E c \<noteq> 1) (concat (map hw_input es))"
proof -
  have "filter (\<lambda>c. dge_round E c \<noteq> 1) (hcw_output (fold (hs_waiter_turn E) es w)) @ hcw_waiting (fold (hs_waiter_turn E) es w)
     = filter (\<lambda>c. dge_round E c \<noteq> 1) (hcw_output w) @ hcw_waiting w @ filter (\<lambda>c. dge_round E c \<noteq> 1) (concat (map hw_input es))"
    if "\<forall>c \<in> set (hcw_waiting w). dge_round E c \<noteq> 1" for w
    using that
  proof (induction es arbitrary: w)
    case (Cons e es)
    show ?case using Cons.IH [OF waiter_turn_waits [OF Cons.prems, of e]] waiter_turn_order [OF Cons.prems, of e] by simp
  qed simp
  from this [of "\<lparr>hcw_waiting = [], hcw_output = []\<rparr>"] show ?thesis by (simp add: hs_waiter_run_def)
qed

text \<open>
  a certificate of round 1 overtakes one that waits, so the outputs are not in the order of
  the inputs.
\<close>

theorem hs_waiter_overtaken:
  assumes "dge_round E a \<noteq> 1" and "dge_round E b = 1"
  shows "hcw_output (hs_waiter_run E [HwCertificate a, HwCertificate b, HwNext (set (dge_parents E a))]) = [b, a]"
  using assms by (simp add: hs_waiter_run_def list_all_iff)

section \<open>What is output\<close>

text \<open>Certificates come from the mempool once, and are delivered only afterwards.\<close>

fun hs_mempool_first :: "'c set \<Rightarrow> 'c hs_committer_event list \<Rightarrow> bool" where
  "hs_mempool_first R [] \<longleftrightarrow> True"
| "hs_mempool_first R (HcMempool c # es) \<longleftrightarrow> c \<notin> R \<and> hs_mempool_first (insert c R) es"
| "hs_mempool_first R (HcDeliver c # es) \<longleftrightarrow> c \<in> R \<and> hs_mempool_first R es"

fun hc_certificate :: "'c hs_committer_event \<Rightarrow> 'c" where
  "hc_certificate (HcMempool c) = c"
| "hc_certificate (HcDeliver c) = c"

text \<open>
  if certificates come from the mempool once and before they are delivered, the committer
  outputs no certificate twice.
\<close>

theorem hs_committer_outputs_once:
  assumes "\<forall>x \<in> set genesis. dge_round E x = 0" and "inj_on (dge_digest E) (set genesis \<union> hc_certificate ` set es)"
    and "hs_mempool_first (set genesis) es" and "\<forall>e \<in> set es. dge_round E (hc_certificate e) \<noteq> - 1"
  shows "distinct (hcm_output (hs_committer_run E depth es (hs_committer_new E genesis)))"
proof -
  have "\<exists>R'. dag_inv E R' (hcm_output (hs_committer_run E depth es k)) (hcm_state (hs_committer_run E depth es k))"
    if "dag_inv E R (hcm_output k) (hcm_state k)" "hs_mempool_first R es" "inj_on (dge_digest E) (R \<union> hc_certificate ` set es)"
      "\<forall>e \<in> set es. dge_round E (hc_certificate e) \<noteq> - 1" for k R
    using that
  proof (induction es arbitrary: k R)
    case (Cons e es)
    have step: "hs_committer_run E depth (e # es) k = hs_committer_run E depth es (hs_committer_turn E depth e k)"
      by (simp add: hs_committer_run_def)
    show ?case
    proof (cases e)
      case (HcMempool c)
      have "dag_inv E (insert c R) (hcm_output k) (dag_insert E c (hcm_state k))"
        using Cons.prems HcMempool by (intro insert_inv) (auto elim: inj_on_subset)
      then show ?thesis
        using Cons.IH [of "insert c R" "hs_committer_turn E depth e k"] Cons.prems HcMempool step by simp
    next
      case (HcDeliver c)
      have "dag_inv E R (hcm_output (hs_committer_turn E depth e k)) (hcm_state (hs_committer_turn E depth e k))"
      proof (cases "c \<in> set (hcm_output k)")
        case True
        from dag_invD(4) [OF Cons.prems(1) this] show ?thesis using Cons.prems(1) HcDeliver by auto
      next
        case False
        then show ?thesis using order_dag_inv(1) [OF Cons.prems(1) False] Cons.prems(1, 2) HcDeliver by (simp add: Let_def)
      qed
      moreover have "inj_on (dge_digest E) (R \<union> hc_certificate ` set es)" using Cons.prems(3) by (auto elim: inj_on_subset)
      ultimately show ?thesis using Cons.IH [of R "hs_committer_turn E depth e k"] Cons.prems HcDeliver step by simp
    qed
  qed (auto simp: hs_committer_run_def)
  from this [of "set genesis" "hs_committer_new E genesis"] show ?thesis
    using assms new_inv [OF assms(1) inj_on_subset [OF assms(2)]] by (auto simp: hs_committer_new_def dag_inv_def)
qed

text \<open>
  a certificate that consensus delivers before the mempool is output a second time, when it
  arrives from the mempool later and a certificate delivered then refers to it: here certificate
  \<open>31\<close> of authority 1 in round 3.
\<close>

theorem hs_committer_repeats:
  "hcm_output (hs_committer_run tusk_env 50 [HcDeliver (1, 3, []), HcDeliver (1, 5, []), HcMempool (1, 3, []), HcDeliver (2, 4, [31])]
     (hs_committer_new tusk_env sample_genesis_row)) = [(1, 3, []), (1, 5, []), (1, 3, []), (2, 4, [31])]"
  by code_simp

theorem hs_committer_outputs_once_witness:
  "distinct (hcm_output (hs_committer_run tusk_env 50 [HcMempool (1, 3, []), HcDeliver (1, 3, []), HcMempool (2, 4, [31]), HcDeliver (2, 4, [31])]
     (hs_committer_new tusk_env sample_genesis_row)))"
  by (rule hs_committer_outputs_once) (auto simp: sample_genesis_row_def sample_row_def tusk_env_fields inj_on_def)

theorem hs_waiter_overtaken_witness:
  "hcw_output (hs_waiter_run tusk_env [HwCertificate (1, 2, [11]), HwCertificate (2, 1, []), HwNext {Digest 11}]) = [(2, 1, []), (1, 2, [11])]"
  using hs_waiter_overtaken [of tusk_env "(1, 2, [11])" "(2, 1, [])"] by (simp add: tusk_env_fields)

end
