(* ===== verification/Spec2Isabelle.thy ===== *)
theory Spec2Isabelle
  imports Signing Aggregators Winning Leader Store Committer Core_Invariants Core_Returns Core_Faults Core_Votes
    Proposer Handlers Global_State Boot Snapshot Client Waiting_Tasks HotStuff_Behaviour HotStuff_Committer
begin

text \<open>
  \<^bold>\<open>AutoPilot, verified.\<close> A model of the Rust implementation of the AutoPilot BFT system:
  the crates \<open>crypto\<close>, \<open>config\<close>, \<open>store\<close>, \<open>network\<close>, \<open>primary\<close>, \<open>worker\<close>, \<open>hotstuff\<close> and
  \<open>consensus\<close> (Tusk), and the load generator of \<open>node\<close>.

  \<^bold>\<open>The program.\<close> Every authority runs one primary and some workers, and each of these is a
  set of tasks connected by channels. Workers make batches of client transactions, broadcast them
  and report their digests. The primary's proposer puts digests into the headers of its own lane;
  the other primaries vote on headers, and enough votes make a certificate, which the next header
  of the lane carries. A consensus layer orders cuts through all lanes: the leader of a slot and
  view sends a Prepare with one proposal (header digest and height) per lane, votes make a QC,
  which becomes a Confirm and then a Commit (or at once a Commit, on the fast path); timeouts make
  a TC, which moves a slot to its next view. The committer executes the committed slots in order,
  walking back each lane to the last executed height. On top, an epoch mechanism exchanges state
  reports and changes parameters while the system runs, and a test harness simulates asynchrony.
  The crates \<open>hotstuff\<close> and \<open>consensus\<close> are two further consensus layers. They share the crypto,
  configuration and store crates but were written for certificates of an older form, which are a
  type variable of their models.

  \<^bold>\<open>Conventions.\<close> Machine integers are words, so arithmetic wraps as in a release build and
  the saturating operations are written out. A handler with \<open>&mut self\<close> is a function from a
  state to a new state and an outcome (\<open>Prelude\<close>): \<open>Done\<close>, \<open>Fail\<close> (an \<open>Err\<close>, with the
  mutations made so far), \<open>Panic\<close> (a failed \<open>unwrap\<close>, \<open>expect\<close> or index) and \<open>Diverge\<close>
  (recursion fuel ran out, or an \<open>await\<close> that never ends). A map that is iterated is an
  association list in iteration order, one that is only looked up a partial function. Channels
  and the network are lists to which is appended. Hash function, ed25519, \<open>bincode\<close> and JSON
  parsing are parameters (the records \<open>prims\<close>, \<open>codec\<close>, \<open>wcodec\<close> and \<open>env\<close>). What is
  assumed of them is a hypothesis of the theorem that needs it, such as \<open>honest_signer\<close>.

  \<^bold>\<open>Theories and sources.\<close>

  \<^item> \<open>Crypto\<close>, \<open>Config\<close>, \<open>Store\<close>: \<open>crypto/src/lib.rs\<close>, \<open>config/src/lib.rs\<close>,
    \<open>store/src/lib.rs\<close>. Signatures and batch verification; committees, stake and thresholds;
    the store actor with its pending \<open>notify_read\<close>s.
  \<^item> \<open>Messages\<close>, \<open>Digests\<close>, \<open>Verify\<close>, \<open>Signing\<close>, \<open>Winning\<close>: \<open>primary/src/messages.rs\<close>
    and \<open>error.rs\<close>. All messages with the equality the code gives them; what each digest
    binds; every \<open>verify\<close> function as a characterisation; round trips of the constructors;
    \<open>TC::get_winning_proposals\<close>.
  \<^item> \<open>Aggregators\<close>, \<open>Leader\<close>: \<open>primary/src/aggregators.rs\<close>, \<open>leader.rs\<close>.
  \<^item> \<open>Synchronizer\<close>, \<open>Snapshot\<close>, \<open>Committer\<close>: \<open>primary/src/synchronizer.rs\<close>, \<open>committer.rs\<close>.
  \<^item> \<open>Core_Epoch\<close>, \<open>Core_Send\<close>, \<open>Core_Async\<close>, \<open>Core_Reports\<close>, \<open>Core_State\<close>: the state of
    \<open>primary/src/core.rs\<close> as a chain of extended records, with the operations that need only
    that much of it: epochs and parameter updates, sending, simulated asynchrony, state reports
    and coordination certificates, and the record \<open>core\<close> itself with \<open>Core::spawn\<close>.
    \<open>Global_State\<close>: what an epoch's certified reports amount to, and their falsification.
  \<^item> \<open>Core_Consensus\<close>, \<open>Core_Timeout\<close>, \<open>Core_Dag\<close>, \<open>Core_Loop\<close>: the rest of \<open>core.rs\<close>.
    Prepare, Confirm and Commit handling and votes; timeouts and view changes; headers,
    certificates and lane votes; one turn of \<open>Core::run\<close> (\<open>core_step\<close>) with error treatment
    and garbage collection, and the states \<open>reachable\<close> by turns.
  \<^item> \<open>Core_Order\<close>, \<open>Core_Progress\<close>, \<open>Core_Turn\<close>, \<open>Core_Invariants\<close>, \<open>Core_Returns\<close>,
    \<open>Core_Votes\<close>, \<open>Core_Faults\<close>: what is proved of them, below.
  \<^item> \<open>Proposer\<close>, \<open>Header_Waiter\<close>, \<open>Primary_Tasks\<close>, \<open>Waiting_Tasks\<close>:
    \<open>primary/src/proposer.rs\<close>, \<open>header_waiter.rs\<close>, \<open>helper.rs\<close>, \<open>garbage_collector.rs\<close>,
    \<open>payload_receiver.rs\<close>, the dispatch of messages in \<open>primary.rs\<close>, \<open>timer.rs\<close> and
    \<open>certificate_waiter.rs\<close>.
  \<^item> \<open>Batches\<close>, \<open>Worker_Sync\<close>: \<open>worker/src/batch_maker.rs\<close>, \<open>processor.rs\<close>,
    \<open>synchronizer.rs\<close>, \<open>helper.rs\<close> and the dispatch in \<open>worker.rs\<close>. \<open>Client\<close>:
    \<open>node/src/benchmark_client.rs\<close>, which makes the transactions.
  \<^item> \<open>Network\<close>, \<open>Handlers\<close>, \<open>Boot\<close>: the crate \<open>network\<close> (reliable and best-effort sender with
    their connection tasks, runner of the receiver), the message handlers of primary and worker
    with the replies they give, and \<open>Primary::spawn\<close> and \<open>Worker::spawn\<close>.
  \<^item> \<open>HotStuff_Messages\<close>, \<open>HotStuff_Core\<close>, \<open>HotStuff_Node\<close>, \<open>HotStuff_Committer\<close>: the crate
    \<open>hotstuff\<close>, all tasks of a node and their composition; \<open>HotStuff_Invariant\<close>,
    \<open>HotStuff_Safety\<close>, \<open>HotStuff_Example\<close>, \<open>HotStuff_Behaviour\<close>: its proofs.
  \<^item> \<open>Dag_Order\<close>, \<open>Dag_Commit\<close>, \<open>Tusk\<close>: the crate \<open>consensus\<close>, whose graph functions the
    committer of \<open>hotstuff\<close> shares.

  \<^bold>\<open>Interfaces.\<close> \<open>step_order\<close> (\<open>Prelude\<close>) fixes a preorder on states and proves, for every
  combinator of handlers, that it only climbs it; invariants (\<open>keeps\<close>) and frames (\<open>same\<close>) are
  interpretations. \<open>core_order\<close> (\<open>Core_Order\<close>) lists what a preorder on cores must allow each
  consensus handler to do and carries it through the whole recursion; \<open>event_order\<close> and
  \<open>turn_order\<close> (\<open>Core_Turn\<close>) extend it to every event and to a turn. They are interpreted by
  the order in which consensus progress is never undone, the well-formedness of lanes, the growth
  of outputs, the sets of voted headers and of voted slots. \<open>key_value\<close> (\<open>Store\<close>) is the
  contract of a store, interpreted by the store actor; \<open>stake_quorums\<close> (\<open>Config\<close>) that of a
  committee whose quorums intersect. \<open>vote_collector\<close> and \<open>weighted_collector\<close> (\<open>Aggregators\<close>)
  say when a maker of certificates hands one out; all makers of \<open>primary\<close> and \<open>hotstuff\<close> are
  interpretations. \<open>replying\<close>, \<open>silent\<close> and \<open>acking\<close> (\<open>Network\<close>) are the contracts of a
  receiver, interpreted by the five message handlers (\<open>Handlers\<close>). \<open>step_logic\<close>
  (\<open>HotStuff_Invariant\<close>) carries an invariant through the handlers of HotStuff, \<open>two_chain\<close>
  (\<open>HotStuff_Safety\<close>) is the protocol behind its agreement, interpreted on nodes of the code.

  \<^bold>\<open>What is proved.\<close>

  \<^item> Termination (\<open>Core_Progress\<close>, \<open>Core_Returns\<close>): the consensus handlers call each other
    through \<open>send_consensus_req\<close>; every round trip marks a slot as proposed or completes a
    collector of votes, so \<open>enough_fuel\<close>, twice the slots not yet proposed and collectors
    without Confirm plus two, suffices for any event in any state (\<open>turn_returns\<close>). Walking back
    a lane needs fuel for its height (\<open>headers_of_chain\<close>, \<open>fast_sync_answers_chain\<close>).
  \<^item> Safety of the core (\<open>Core_Votes\<close>, \<open>Core_Invariants\<close>): one vote per slot and view and per
    lane and height, exact acceptance of a Prepare, exact condition for proposing a slot, lanes
    stay well-formed in every reachable state, nothing delivered is taken back.
  \<^item> Quorums: QCs share an honest voter, aggregators emit exactly the certificates \<open>verify\<close>
    accepts and emit them once, thresholds have their intended values.
  \<^item> The committer is independent of the order in which Commits arrive and outputs each lane
    without gaps; proposals are returned all or not at all; winning proposals of a TC.
  \<^item> Dissemination: the proposer makes one header per height, a suspended header is handed back
    exactly when it can go on, no transaction and no batch digest is lost, and a missing batch
    passes through the tasks of two nodes to the primary that waits for it.
  \<^item> Epochs, reports and simulated asynchrony: parameters are applied once and at their place,
    reports stay authentic, a partition delivers every broadcast by its end.
  \<^item> Network: between two primaries the reliable sender loses nothing, lets no message overtake
    an earlier one, and can always still deliver what is not cancelled.
  \<^item> HotStuff: honest nodes agree on what they output, whatever they receive and in whatever
    order they move, even with TCs that nobody has signed, which the core takes from anyone; a
    node votes in increasing rounds, votes for a valid proposal, and outputs what a commit says.
    Assumed are a bound on faulty stake, signatures that are not forged, a hash without collision
    on what was hashed, and round counters that do not overflow; a concrete run satisfies them.
  \<^item> Tusk: the graph is flattened in an order that respects parents, and nothing is output
    twice. Two nodes can disagree, since leaders of even rounds are never ordered after the fact.
  \<^item> Load generator: transactions of a run differ, and a worker reads the samples by number.
  \<^item> Faults (\<open>Core_Faults\<close> and the theorems of kind error): where the code breaks what it sets
    out to do, the theorem shows it, for instance that an unverified parent certificate panics
    every node, that an unverified TC dictates proposals, that a forwarded Commit is recorded
    without its QC being checked, or that two messages with the same proposals cancel each other.

  \<^bold>\<open>Not modelled.\<close> Sockets and accept loops, below the streams of \<open>Network\<close>; the command line
  and reading of files in \<open>node\<close>; logging, metrics files, the sockets to the agent and dumps for
  debugging; \<open>quorum_waiter.rs\<close>, whose loop is commented out, and \<open>check_cast_vote\<close>, which
  nothing calls. The crate \<open>sailfish\<close> stands in the middle of a rewrite: its functions use fields
  that no type has and pass arguments of other types, so that its text determines no behaviour.
  The Python agent and benchmarks. RocksDB does not fail. Which branch of a \<open>select!\<close> fires is
  left open: theorems about turns hold for every choice of event. Agreement of several AutoPilot
  primaries is not stated as a theorem on runs: the quorum argument is there
  (one vote per slot and view, and an honest voter common to two QCs), but the faults above, such
  as TCs accepted unverified and QCs that bind no proposals, leave it without the premises it needs.
\<close>

end
